(* ===== verification/Prelude.thy ===== *)
theory Prelude
  imports Main "HOL-Library.Word" "HOL-Library.Char_ord"
begin

text \<open>
  Shared vocabulary of the development: the machine integers of the Rust sources as words, the
  fragment of \<^verbatim>\<open>str\<close> the sources use, and generic lemmas on lists, options and words.
  A Rust \<^verbatim>\<open>String\<close> is a \<^typ>\<open>string\<close>; a character stands for one Unicode scalar in the
  range U+0000 to U+00FF, so \<open>is_whitespace\<close> below is the White_Space property on that range.
\<close>

unbundle bit_operations_syntax

named_theorems word_fields \<open>unfolding of octet and segment accessors\<close>
named_theorems ladder_simps \<open>verdict ladders of the network guard\<close>
named_theorems lifecycle_simps \<open>accessors and transitions of the page lifecycle\<close>

type_synonym u8 = "8 word"
type_synonym u16 = "16 word"
type_synonym u32 = "32 word"
type_synonym u64 = "64 word"
type_synonym i64 = "64 word"
type_synonym u128 = "128 word"

section \<open>The fragment of str the sources use\<close>

definition is_whitespace :: "char \<Rightarrow> bool" where
  "is_whitespace c =
     (let n = of_char c :: nat in (9 \<le> n \<and> n \<le> 13) \<or> n = 32 \<or> n = 133 \<or> n = 160)"

definition trim_start :: "string \<Rightarrow> string" where
  "trim_start s = dropWhile is_whitespace s"

definition trim :: "string \<Rightarrow> string" where
  "trim s = rev (dropWhile is_whitespace (rev (trim_start s)))"

definition to_ascii_lower :: "char \<Rightarrow> char" where
  "to_ascii_lower c =
     (let n = of_char c :: nat in if 65 \<le> n \<and> n \<le> 90 then char_of (n + 32) else c)"

definition to_ascii_lowercase :: "string \<Rightarrow> string" where
  "to_ascii_lowercase s = map to_ascii_lower s"

fun strip_prefix :: "'a list \<Rightarrow> 'a list \<Rightarrow> 'a list option" where
  "strip_prefix [] s = Some s"
| "strip_prefix (p # ps) [] = None"
| "strip_prefix (p # ps) (c # cs) = (if p = c then strip_prefix ps cs else None)"

definition strip_suffix :: "'a list \<Rightarrow> 'a list \<Rightarrow> 'a list option" where
  "strip_suffix p s = map_option rev (strip_prefix (rev p) (rev s))"

definition starts_with :: "'a list \<Rightarrow> 'a list \<Rightarrow> bool" where
  "starts_with p s = (strip_prefix p s \<noteq> None)"

definition ends_with :: "'a list \<Rightarrow> 'a list \<Rightarrow> bool" where
  "ends_with p s = (strip_suffix p s \<noteq> None)"

text \<open>\<^verbatim>\<open>str::split(c)\<close>: always yields at least one part.\<close>

fun split_on :: "'a \<Rightarrow> 'a list \<Rightarrow> 'a list list" where
  "split_on c [] = [[]]"
| "split_on c (x # xs) =
     (if x = c then [] # split_on c xs
      else (case split_on c xs of [] \<Rightarrow> [[x]] | p # ps \<Rightarrow> (x # p) # ps))"

text \<open>\<^verbatim>\<open>str::split_once(c)\<close>.\<close>

fun split_once :: "'a \<Rightarrow> 'a list \<Rightarrow> ('a list \<times> 'a list) option" where
  "split_once c [] = None"
| "split_once c (x # xs) =
     (if x = c then Some ([], xs) else map_option (\<lambda>(a, b). (x # a, b)) (split_once c xs))"

text \<open>\<^verbatim>\<open>str::len\<close> counts bytes of UTF-8.\<close>

definition len_utf8 :: "char \<Rightarrow> nat" where
  "len_utf8 c = (if (of_char c :: nat) < 128 then 1 else 2)"

definition byte_len :: "string \<Rightarrow> nat" where
  "byte_len s = sum_list (map len_utf8 s)"

text \<open>The longest prefix of at most so many bytes: a loop over \<^verbatim>\<open>chars()\<close> that stops before the bound is passed.\<close>

fun take_bytes :: "nat \<Rightarrow> string \<Rightarrow> string" where
  "take_bytes n [] = []"
| "take_bytes n (c # cs) = (if n < len_utf8 c then [] else c # take_bytes (n - len_utf8 c) cs)"

text \<open>The inverse of \<^const>\<open>split_on\<close>, used to write literals.\<close>

fun join_with :: "'a \<Rightarrow> 'a list list \<Rightarrow> 'a list" where
  "join_with c [] = []"
| "join_with c [p] = p"
| "join_with c (p # q # ps) = p @ c # join_with c (q # ps)"

lemma strip_prefix_Some [simp]: "strip_prefix p s = Some r \<longleftrightarrow> s = p @ r"
  by (induction p s rule: strip_prefix.induct) auto

lemma strip_prefix_None: "strip_prefix p s = None \<longleftrightarrow> (\<nexists>r. s = p @ r)"
  by (metis not_None_eq strip_prefix_Some)

lemma strip_suffix_Some: "strip_suffix p s = Some r \<longleftrightarrow> s = r @ p"
  by (auto simp: strip_suffix_def) (metis append_Nil2 rev_append rev_rev_ident)+

lemma split_on_nonempty [simp]: "split_on c xs \<noteq> []"
  by (induction xs) (auto split: list.splits)

lemma split_on_append: "split_on c (xs @ c # ys) = split_on c xs @ split_on c ys"
  by (induction xs) (auto split: list.splits)

lemma split_on_no_sep: "c \<notin> set p \<Longrightarrow> split_on c p = [p]"
  by (induction p) auto

lemma split_on_append_sep: "c \<notin> set p \<Longrightarrow> split_on c (p @ c # r) = p # split_on c r"
  by (induction p) auto

lemma split_on_join:
  "ps \<noteq> [] \<Longrightarrow> \<forall>p \<in> set ps. c \<notin> set p \<Longrightarrow> split_on c (join_with c ps) = ps"
  by (induction c ps rule: join_with.induct) (auto simp: split_on_no_sep split_on_append_sep)

lemma trim_eq_Nil: "trim s = [] \<longleftrightarrow> (\<forall>c \<in> set s. is_whitespace c)"
  by (auto simp: trim_def trim_start_def dropWhile_eq_Nil_conv dest: set_dropWhileD)
    (metis UnE set_append takeWhile_dropWhile_id set_takeWhileD)

section \<open>Digits\<close>

definition is_ascii_digit :: "char \<Rightarrow> bool" where
  "is_ascii_digit c = (let n = of_char c :: nat in 48 \<le> n \<and> n \<le> 57)"

definition is_octal_digit :: "char \<Rightarrow> bool" where
  "is_octal_digit c = (let n = of_char c :: nat in 48 \<le> n \<and> n \<le> 55)"

text \<open>\<^verbatim>\<open>char::to_digit(radix)\<close> for the radices up to 16.\<close>

definition to_digit :: "nat \<Rightarrow> char \<Rightarrow> nat option" where
  "to_digit radix c =
     (let n = of_char c :: nat;
          d = (if 48 \<le> n \<and> n \<le> 57 then Some (n - 48)
               else if 97 \<le> n \<and> n \<le> 102 then Some (n - 87)
               else if 65 \<le> n \<and> n \<le> 70 then Some (n - 55)
               else None)
      in (case d of Some v \<Rightarrow> if v < radix then Some v else None | None \<Rightarrow> None))"

definition is_ascii_hexdigit :: "char \<Rightarrow> bool" where
  "is_ascii_hexdigit c = (to_digit 16 c \<noteq> None)"

text \<open>
  The value of a digit string in a radix, most significant digit first: \<open>None\<close> when a character is
  not a digit of the radix.
\<close>

fun digits_value :: "nat \<Rightarrow> nat \<Rightarrow> string \<Rightarrow> nat option" where
  "digits_value radix acc [] = Some acc"
| "digits_value radix acc (c # cs) =
     (case to_digit radix c of
        None \<Rightarrow> None
      | Some d \<Rightarrow> digits_value radix (acc * radix + d) cs)"

text \<open>
  \<^verbatim>\<open>u64::from_str_radix\<close> and \<^verbatim>\<open>u8::from_str\<close>: an optional leading plus sign, at least one digit,
  no overflow of the width.
\<close>

definition from_str_radix :: "nat \<Rightarrow> nat \<Rightarrow> string \<Rightarrow> nat option" where
  "from_str_radix w radix s =
     (let digits = (case strip_prefix ''+'' s of Some r \<Rightarrow> r | None \<Rightarrow> s) in
      if digits = [] then None
      else (case digits_value radix 0 digits of
              None \<Rightarrow> None
            | Some v \<Rightarrow> if v < 2 ^ w then Some v else None))"

text \<open>Numbers printed in a radix, without leading zeros (\<^verbatim>\<open>format!("{}")\<close> for radix ten).\<close>

definition digit_char :: "nat \<Rightarrow> char" where
  "digit_char d = (if d < 10 then char_of (48 + d) else char_of (87 + d))"

function show_radix :: "nat \<Rightarrow> nat \<Rightarrow> string" where
  "show_radix r n =
     (if r < 2 \<or> n < r then [digit_char n] else show_radix r (n div r) @ [digit_char (n mod r)])"
  by pat_completeness auto
termination
  by (relation "measure snd") (auto simp: div_less_dividend)

declare show_radix.simps [simp del]

section \<open>Bytes and hexadecimal text\<close>

lemma byte_len_simps [simp]:
  "byte_len [] = 0" "byte_len (c # s) = len_utf8 c + byte_len s" "byte_len (s @ t) = byte_len s + byte_len t"
  by (simp_all add: byte_len_def)

lemma byte_len_take_bytes: "byte_len (take_bytes n s) \<le> n"
  by (induction n s rule: take_bytes.induct) auto

lemma set_take_bytes: "set (take_bytes n s) \<subseteq> set s"
  by (induction n s rule: take_bytes.induct) auto

lemma byte_len_ascii: "\<forall>c \<in> set s. len_utf8 c = 1 \<Longrightarrow> byte_len s = length s"
  by (induction s) auto

lemma show_radix_length: "n < 16 ^ Suc k \<Longrightarrow> length (show_radix 16 n) \<le> Suc k"
proof (induction k arbitrary: n)
  case 0
  then show ?case by (simp add: show_radix.simps)
next
  case (Suc k)
  have "n div 16 < 16 ^ Suc k" using Suc.prems by (simp add: less_mult_imp_div_less)
  from Suc.IH [OF this] show ?case by (subst show_radix.simps) simp
qed

lemma show_radix_digits: "set (show_radix 16 n) \<subseteq> set ''0123456789abcdef''"
proof (induction n rule: less_induct)
  case (less n)
  have digit: "digit_char d \<in> set ''0123456789abcdef''" if "d < 16" for d
  proof -
    have "\<forall>d \<in> {..<16}. digit_char d \<in> set ''0123456789abcdef''"
      by (simp add: lessThan_nat_numeral lessThan_Suc digit_char_def char_of_def bit_0)
    with that show ?thesis by blast
  qed
  show ?case
    using less.IH [of "n div 16"] digit [of n] digit [of "n mod 16"] by (subst show_radix.simps) auto
qed

section \<open>Options and lists\<close>

definition or_else :: "'a option \<Rightarrow> 'a option \<Rightarrow> 'a option" where
  "or_else a b = (case a of Some x \<Rightarrow> Some x | None \<Rightarrow> b)"

lemma or_else_simps [simp]: "or_else (Some x) b = Some x" "or_else None b = b"
  by (simp_all add: or_else_def)

lemma or_else_eq_Some: "or_else a b = Some x \<longleftrightarrow> a = Some x \<or> a = None \<and> b = Some x"
  by (cases a) auto

lemma or_else_eq_None: "or_else a b = None \<longleftrightarrow> a = None \<and> b = None"
  by (cases a) auto

definition unwrap_or :: "'a option \<Rightarrow> 'a \<Rightarrow> 'a" where
  "unwrap_or x d = (case x of Some v \<Rightarrow> v | None \<Rightarrow> d)"

lemma unwrap_or_simps [simp]: "unwrap_or (Some x) d = x" "unwrap_or None d = d"
  by (simp_all add: unwrap_or_def)

lemma find_None_all: "find P xs = None \<longleftrightarrow> (\<forall>x \<in> set xs. \<not> P x)"
  by (auto simp: find_None_iff)

text \<open>
  Update of the first element that satisfies a predicate: \<^verbatim>\<open>iter_mut().find(p)\<close> followed by an
  assignment through the reference.
\<close>

fun update_first :: "('a \<Rightarrow> bool) \<Rightarrow> ('a \<Rightarrow> 'a) \<Rightarrow> 'a list \<Rightarrow> 'a list" where
  "update_first P f [] = []"
| "update_first P f (x # xs) = (if P x then f x # xs else x # update_first P f xs)"

lemma length_update_first [simp]: "length (update_first P f xs) = length xs"
  by (induction xs) auto

section \<open>Counters\<close>

text \<open>A loop that counts a machine integer up to a bound terminates.\<close>

lemma attempt_measure: "(a :: u32) < m \<Longrightarrow> unat m - unat (a + 1) < unat m - unat a"
proof -
  assume a: "a < m"
  then have "unat a < unat m" by (simp add: word_less_nat_alt)
  moreover then have "unat (a + 1) = unat a + 1"
    using unsigned_less [of m, where 'a = nat] by (simp add: unat_add_lem [THEN iffD1])
  ultimately show ?thesis by simp
qed

end
