(* ===== verification/Page_State.thy ===== *)
theory Page_State
  imports Btree_Map
begin

text \<open>
  The page lifecycle: the eight persisted states of \<^verbatim>\<open>domain/page_state/status.rs\<close>, the record that
  carries them (\<^verbatim>\<open>RawRecord\<close> of \<^verbatim>\<open>domain/persistence.rs\<close>) and the typestate machine of
  \<^verbatim>\<open>domain/page_state/typed.rs\<close>. A \<^verbatim>\<open>Stateful<R, S>\<close> is the record together with its marker; the
  transition methods, which Rust gives only to the source state's type, are the rules of a step relation.
\<close>

section \<open>Persisted records\<close>

datatype page_status =
  Discovered | Queued | Fetching | Fetched | Extracted | Processed | Exported | Committed

datatype error_class =
    TransientRetriable | TransientBackoff | PermanentFatal | InternalFatal | DomainRecoverable

record last_error =
  le_class :: error_class
  le_message :: string

record raw_record =
  url :: string
  canonical_url :: string
  run_id :: string
  content_hash :: "string option"
  attempts :: u32
  status :: page_status
  last_error :: "last_error option"
  output_location :: "string option"
  updated_at :: i64

definition MIGRATED_V1_RUN_ID :: string where
  "MIGRATED_V1_RUN_ID = ''migrated-v1''"

text \<open>The accessors of \<^verbatim>\<open>impl PersistedRecord for RawRecord\<close> that are not plain field reads.\<close>

definition has_last_error :: "raw_record \<Rightarrow> bool" where
  "has_last_error r = (last_error r \<noteq> None)"

definition set_status :: "page_status \<Rightarrow> raw_record \<Rightarrow> raw_record" where
  "set_status s r = r\<lparr>status := s\<rparr>"

definition is_migrated_v1 :: "raw_record \<Rightarrow> bool" where
  "is_migrated_v1 r = (run_id r = MIGRATED_V1_RUN_ID)"

section \<open>The typed machine\<close>

datatype reconcile_error =
    StatusMismatch page_status page_status
  | MissingOutputLocation page_status
  | MissingContentHash page_status
  | CommittedWithLastError
  | CommittedWithZeroAttempts

record stateful =
  marker :: page_status
  rec :: raw_record

definition stateful_new :: "raw_record \<Rightarrow> stateful" where
  "stateful_new r = \<lparr>marker = Discovered, rec = r\<rparr>"

definition advance :: "page_status \<Rightarrow> stateful \<Rightarrow> stateful" where
  "advance s2 t = \<lparr>marker = s2, rec = set_status s2 (rec t)\<rparr>"

text \<open>The transition methods, then the moves the type system admits.\<close>

definition queue :: "stateful \<Rightarrow> stateful" where
  "queue t = advance Queued t"

definition start_fetch :: "stateful \<Rightarrow> stateful" where
  "start_fetch t = advance Fetching t"

definition fetched :: "stateful \<Rightarrow> stateful" where
  "fetched t = advance Fetched t"

definition extracted :: "stateful \<Rightarrow> stateful" where
  "extracted t = advance Extracted t"

definition processed :: "stateful \<Rightarrow> stateful" where
  "processed t = advance Processed t"

definition export_flushed :: "string \<Rightarrow> stateful \<Rightarrow> stateful" where
  "export_flushed out_path t = advance Exported t"

definition commit :: "stateful \<Rightarrow> stateful" where
  "commit t = advance Committed t"

definition reopen_for_reexport :: "stateful \<Rightarrow> stateful" where
  "reopen_for_reexport t = advance Processed t"

inductive lifecycle_step :: "stateful \<Rightarrow> stateful \<Rightarrow> bool" where
  step_queue: "marker t = Discovered \<Longrightarrow> lifecycle_step t (queue t)"
| step_start_fetch: "marker t = Queued \<Longrightarrow> lifecycle_step t (start_fetch t)"
| step_fetched: "marker t = Fetching \<Longrightarrow> lifecycle_step t (fetched t)"
| step_extracted: "marker t = Fetched \<Longrightarrow> lifecycle_step t (extracted t)"
| step_processed: "marker t = Extracted \<Longrightarrow> lifecycle_step t (processed t)"
| step_export_flushed: "marker t = Processed \<Longrightarrow> lifecycle_step t (export_flushed p t)"
| step_commit: "marker t = Exported \<Longrightarrow> lifecycle_step t (commit t)"
| step_reopen_for_reexport: "marker t = Exported \<Longrightarrow> lifecycle_step t (reopen_for_reexport t)"

definition validate :: "raw_record \<Rightarrow> page_status \<Rightarrow> reconcile_error + unit" where
  "validate r target =
     (if status r \<noteq> target then Inl (StatusMismatch target (status r))
      else if (target = Exported \<or> target = Committed) \<and> \<not> is_migrated_v1 r \<and> output_location r = None
        then Inl (MissingOutputLocation target)
      else if (target = Exported \<or> target = Committed) \<and> \<not> is_migrated_v1 r \<and> content_hash r = None
        then Inl (MissingContentHash target)
      else if target = Committed \<and> has_last_error r then Inl CommittedWithLastError
      else if target = Committed \<and> attempts r < 1 then Inl CommittedWithZeroAttempts
      else Inr ())"

definition reconcile :: "page_status \<Rightarrow> raw_record \<Rightarrow> reconcile_error + stateful" where
  "reconcile s r =
     (case validate r s of Inl e \<Rightarrow> Inl e | Inr _ \<Rightarrow> Inr \<lparr>marker = s, rec = r\<rparr>)"

text \<open>The position of a state in the documented order DISCOVERED to COMMITTED.\<close>

fun stage :: "page_status \<Rightarrow> nat" where
  "stage Discovered = 0"
| "stage Queued = 1"
| "stage Fetching = 2"
| "stage Fetched = 3"
| "stage Extracted = 4"
| "stage Processed = 5"
| "stage Exported = 6"
| "stage Committed = 7"

text \<open>A record as \<^verbatim>\<open>new_discovered\<close> leaves it, for concrete runs.\<close>

definition sample_record :: raw_record where
  "sample_record = \<lparr>url = ''https://x.test/a'', canonical_url = ''https://x.test/a'', run_id = ''r1'',
     content_hash = None, attempts = 0, status = Discovered, last_error = None,
     output_location = None, updated_at = 0\<rparr>"

section \<open>The lifecycle order\<close>

inductive_cases lifecycle_stepE: "lifecycle_step t t'"

lemmas transition_defs =
  queue_def start_fetch_def fetched_def extracted_def processed_def export_flushed_def commit_def
  reopen_for_reexport_def

lemma advance_simps [simp, lifecycle_simps]:
  "marker (advance s t) = s" "rec (advance s t) = set_status s (rec t)"
  "status (set_status s r) = s" "url (set_status s r) = url r" "run_id (set_status s r) = run_id r"
  "attempts (set_status s r) = attempts r" "last_error (set_status s r) = last_error r"
  "content_hash (set_status s r) = content_hash r"
  "output_location (set_status s r) = output_location r"
  "canonical_url (set_status s r) = canonical_url r" "updated_at (set_status s r) = updated_at r"
  by (simp_all add: advance_def set_status_def)

lemma step_stage:
  "lifecycle_step t t' \<Longrightarrow>
     stage (marker t') = Suc (stage (marker t)) \<or> marker t = Exported \<and> marker t' = Processed"
  by (erule lifecycle_stepE) (simp_all add: transition_defs)

lemma step_lockstep: "lifecycle_step t t' \<Longrightarrow> status (rec t') = marker t'"
  by (erule lifecycle_stepE) (simp_all add: transition_defs)

lemma step_payload:
  "lifecycle_step t t' \<Longrightarrow> rec t' = (rec t)\<lparr>status := marker t'\<rparr>"
  by (erule lifecycle_stepE) (simp_all add: transition_defs advance_def set_status_def)

lemma stage_inj: "stage a = stage b \<longleftrightarrow> a = b"
  by (cases a; cases b) simp_all

lemma run_snoc: "lifecycle_step\<^sup>*\<^sup>* a b \<Longrightarrow> lifecycle_step b c \<Longrightarrow> lifecycle_step\<^sup>*\<^sup>* a c"
  by (rule rtranclp.rtrancl_into_rtrancl)

lemma run_visits:
  "lifecycle_step\<^sup>*\<^sup>* t t' \<Longrightarrow> stage (marker t) \<le> n \<Longrightarrow> n \<le> stage (marker t') \<Longrightarrow>
   \<exists>u. lifecycle_step\<^sup>*\<^sup>* t u \<and> lifecycle_step\<^sup>*\<^sup>* u t' \<and> stage (marker u) = n"
proof (induction rule: rtranclp_induct)
  case base
  then show ?case by (intro exI [of _ t]) auto
next
  case (step y z)
  show ?case
  proof (cases "n \<le> stage (marker y)")
    case True
    with step obtain u where "lifecycle_step\<^sup>*\<^sup>* t u" "lifecycle_step\<^sup>*\<^sup>* u y" "stage (marker u) = n"
      by blast
    with step.hyps(2) show ?thesis using run_snoc by blast
  next
    case False
    with step.prems step_stage [OF step.hyps(2)] have "stage (marker z) = n" by auto
    with step.hyps show ?thesis using run_snoc by blast
  qed
qed

lemma committed_terminal: "marker t = Committed \<Longrightarrow> \<not> lifecycle_step t t'"
  by (auto elim: lifecycle_stepE)



end
