(* ===== verification/Url_Validation.thy ===== *)
theory Url_Validation
  imports Prelude "HOL-Library.Sublist"
begin

text \<open>
  URL validation, the internal-link test and the canonical form of \<^verbatim>\<open>domain/url_validation.rs\<close>. The
  crates \<^verbatim>\<open>url\<close> and \<^verbatim>\<open>url_normalize\<close> are arguments: a record with the methods of \<^verbatim>\<open>Url\<close> the
  source calls, and a function from options to the normalised text. The lemmas show that the internal-link
  test compares hosts label by label, and what collapsing an index page does to a URL.
\<close>

section \<open>The url crate, as used\<close>

record 'u url_api =
  api_parse :: "string \<Rightarrow> 'u option"
  api_scheme :: "'u \<Rightarrow> string"
  api_host_str :: "'u \<Rightarrow> string option"
  api_path :: "'u \<Rightarrow> string"
  api_set_path :: "string \<Rightarrow> 'u \<Rightarrow> 'u"
  api_to_string :: "'u \<Rightarrow> string"

datatype remove_query_parameters = QueryNone | QueryAll | QueryList "string \<Rightarrow> bool"

record normalize_options =
  opt_strip_hash :: bool
  opt_remove_trailing_slash :: bool
  opt_remove_query_parameters :: remove_query_parameters
  opt_sort_query_parameters :: bool
  opt_strip_www :: bool
  opt_force_https :: bool

type_synonym normalizer = "normalize_options \<Rightarrow> string \<Rightarrow> string option"

text \<open>\<^verbatim>\<open>str::to_lowercase\<close> on U+0000 to U+00FF, and \<^verbatim>\<open>str::contains\<close>.\<close>

definition to_lower :: "char \<Rightarrow> char" where
  "to_lower c =
     (let n = of_char c :: nat in
      if 65 \<le> n \<and> n \<le> 90 \<or> 192 \<le> n \<and> n \<le> 222 \<and> n \<noteq> 215 then char_of (n + 32) else c)"

definition to_lowercase :: "string \<Rightarrow> string" where
  "to_lowercase s = map to_lower s"

fun contains_str :: "string \<Rightarrow> string \<Rightarrow> bool" where
  "contains_str p [] = (p = [])"
| "contains_str p (c # cs) = (starts_with p (c # cs) \<or> contains_str p cs)"

section \<open>Validation\<close>

datatype url_error = EmptyUrl | UnparsableUrl string | UnsupportedScheme string | MissingHost

definition validate_and_parse_url :: "'u url_api \<Rightarrow> string \<Rightarrow> url_error + 'u" where
  "validate_and_parse_url api url =
     (if url = [] then Inl EmptyUrl
      else (case api_parse api (trim url) of
              None \<Rightarrow> Inl (UnparsableUrl url)
            | Some parsed \<Rightarrow>
                if api_scheme api parsed \<noteq> ''http'' \<and> api_scheme api parsed \<noteq> ''https''
                then Inl (UnsupportedScheme (api_scheme api parsed))
                else if api_host_str api parsed = None then Inl MissingHost
                else Inr parsed))"

definition extract_domain :: "'u url_api \<Rightarrow> string \<Rightarrow> string option" where
  "extract_domain api url = (case api_parse api url of None \<Rightarrow> None | Some u \<Rightarrow> api_host_str api u)"

section \<open>Internal links\<close>

definition strip_www_prefix :: "string \<Rightarrow> string" where
  "strip_www_prefix host =
     (case strip_prefix ''www.'' (to_lowercase host) of
        Some stripped \<Rightarrow> if stripped = [] then host else stripped
      | None \<Rightarrow> host)"

definition bare_host :: "string \<Rightarrow> string" where
  "bare_host seed =
     (let without_path = hd (split_on (CHR ''/'') seed); host = hd (split_on (CHR '':'') without_path)
      in strip_www_prefix host)"

definition normalize_seed_host :: "'u url_api \<Rightarrow> string \<Rightarrow> string" where
  "normalize_seed_host api seed =
     (case api_parse api seed of
        Some u \<Rightarrow> (case api_host_str api u of Some h \<Rightarrow> strip_www_prefix h | None \<Rightarrow> bare_host seed)
      | None \<Rightarrow> bare_host seed)"

definition is_internal_link :: "'u url_api \<Rightarrow> string \<Rightarrow> string \<Rightarrow> bool" where
  "is_internal_link api url seed_domain =
     (let seed_host = to_lowercase (normalize_seed_host api seed_domain) in
      case extract_domain api url of
        None \<Rightarrow> False
      | Some h \<Rightarrow>
          (let host = to_lowercase h in
           host = seed_host \<or> ends_with (''.'' @ seed_host) host \<or> ends_with (''.'' @ host) seed_host))"

section \<open>Canonical form\<close>

record normalize_config =
  nc_strip_www :: bool
  nc_query_policy :: remove_query_parameters

definition collapse_index_path :: "'u url_api \<Rightarrow> string \<Rightarrow> string" where
  "collapse_index_path api url =
     (case api_parse api url of
        None \<Rightarrow> url
      | Some parsed \<Rightarrow>
          (let lower = to_ascii_lowercase (api_path api parsed);
               collapsed = map_option (\<lambda>parent. parent @ ''/'')
                 (or_else (strip_suffix ''/index.html'' lower) (strip_suffix ''/index.htm'' lower))
           in case collapsed of
                None \<Rightarrow> url
              | Some new_path \<Rightarrow>
                  (let parsed1 = api_set_path api new_path parsed;
                       result = api_to_string api parsed1
                   in if api_path api parsed1 = ''/'' then butlast result else result)))"

definition normalize_url :: "'u url_api \<Rightarrow> normalizer \<Rightarrow> normalize_config \<Rightarrow> string \<Rightarrow> string" where
  "normalize_url api url_normalize config url =
     (if \<not> contains_str ''://'' url then url
      else
        (let query_policy =
               (case nc_query_policy config of
                  QueryNone \<Rightarrow> QueryNone | QueryAll \<Rightarrow> QueryAll | QueryList _ \<Rightarrow> QueryAll);
             opts = \<lparr>opt_strip_hash = True, opt_remove_trailing_slash = False,
                     opt_remove_query_parameters = query_policy, opt_sort_query_parameters = True,
                     opt_strip_www = nc_strip_www config, opt_force_https = False\<rparr>;
             normalized = unwrap_or (url_normalize opts url) url
         in collapse_index_path api normalized))"

definition canonical_path :: "string \<Rightarrow> string" where
  "canonical_path p = (if 1 < length p \<and> ends_with ''/'' p then butlast p else p)"

text \<open>The configuration of the deduplicator and of the crawl queue.\<close>

definition dedup_config :: normalize_config where
  "dedup_config = \<lparr>nc_strip_www = True, nc_query_policy = QueryAll\<rparr>"

section \<open>A small URL library for witnesses\<close>

text \<open>URLs with a scheme, a host, a path and a query, enough to give the arguments a value.\<close>

record small_url =
  su_base :: string
  su_path :: string
  su_query :: string

definition small_parse :: "string \<Rightarrow> small_url option" where
  "small_parse s =
     (case split_once (CHR ''/'') s of
        Some (scheme, CHR ''/'' # rest) \<Rightarrow>
          (case split_once (CHR ''/'') rest of
             None \<Rightarrow> Some \<lparr>su_base = scheme @ ''//'' @ rest, su_path = ''/'', su_query = []\<rparr>
           | Some (host, tail) \<Rightarrow>
               (case split_once (CHR ''?'') tail of
                  None \<Rightarrow> Some \<lparr>su_base = scheme @ ''//'' @ host, su_path = ''/'' @ tail, su_query = []\<rparr>
                | Some (p, q) \<Rightarrow>
                    Some \<lparr>su_base = scheme @ ''//'' @ host, su_path = ''/'' @ p, su_query = ''?'' @ q\<rparr>))
      | _ \<Rightarrow> None)"

definition small_api :: "small_url url_api" where
  "small_api =
     \<lparr>api_parse = small_parse, api_scheme = \<lambda>u. takeWhile (\<lambda>c. c \<noteq> CHR '':'') (su_base u),
      api_host_str = \<lambda>u. Some (tl (tl (dropWhile (\<lambda>c. c \<noteq> CHR ''/'') (su_base u)))),
      api_path = su_path, api_set_path = \<lambda>p u. u\<lparr>su_path := p\<rparr>,
      api_to_string = \<lambda>u. su_base u @ su_path u @ su_query u\<rparr>"

section \<open>Host labels\<close>

abbreviation labels :: "string \<Rightarrow> string list" where
  "labels h \<equiv> split_on (CHR ''.'') (to_lowercase h)"

lemma join_split_on: "join_with c (split_on c xs) = xs"
proof (induction xs)
  case (Cons x xs)
  obtain p ps where s: "split_on c xs = p # ps" by (cases "split_on c xs") auto
  with Cons show ?case by (cases ps) auto
qed simp

lemma join_with_append:
  "ps \<noteq> [] \<Longrightarrow> qs \<noteq> [] \<Longrightarrow> join_with c (ps @ qs) = join_with c ps @ c # join_with c qs"
proof (induction c ps rule: join_with.induct)
  case (2 c p)
  then show ?case by (cases qs) auto
qed auto

lemma ends_with_iff: "ends_with p s \<longleftrightarrow> suffix p s"
  using strip_suffix_Some [of p s] by (auto simp: ends_with_def suffix_def)

lemma sep_suffix_iff:
  "suffix (c # s) h \<longleftrightarrow> (\<exists>ps. ps \<noteq> [] \<and> split_on c h = ps @ split_on c s)"
proof
  assume "suffix (c # s) h"
  then show "\<exists>ps. ps \<noteq> [] \<and> split_on c h = ps @ split_on c s"
    by (auto simp: suffix_def split_on_append intro: exI [of _ "split_on c _"])
next
  assume "\<exists>ps. ps \<noteq> [] \<and> split_on c h = ps @ split_on c s"
  then obtain ps where ps: "ps \<noteq> []" "split_on c h = ps @ split_on c s" by blast
  have "h = join_with c ps @ c # s"
    using join_with_append [OF ps(1), of "split_on c s" c] ps(2) join_split_on [of c h] join_split_on [of c s]
    by simp
  then show "suffix (c # s) h" by (auto simp: suffix_def)
qed

lemma label_suffix_iff:
  "suffix (split_on c s) (split_on c h) \<longleftrightarrow> h = s \<or> suffix (c # s) h"
proof
  assume "suffix (split_on c s) (split_on c h)"
  then obtain ps where ps: "split_on c h = ps @ split_on c s" by (auto simp: suffix_def)
  show "h = s \<or> suffix (c # s) h"
  proof (cases "ps = []")
    case True
    with ps have "split_on c h = split_on c s" by simp
    then have "h = s" using join_split_on by metis
    then show ?thesis ..
  next
    case False
    with ps show ?thesis by (auto simp: sep_suffix_iff)
  qed
next
  assume "h = s \<or> suffix (c # s) h"
  then show "suffix (split_on c s) (split_on c h)"
    using sep_suffix_iff [of c s h] by (auto simp: suffix_def)
qed

lemma strip_index_file:
  assumes "f \<in> {''index.html'', ''index.htm''}"
  shows "or_else (strip_suffix ''/index.html'' (d @ ''/'' @ f)) (strip_suffix ''/index.htm'' (d @ ''/'' @ f)) = Some d"
proof -
  have "strip_suffix ''/index.html'' (d @ ''/index.htm'') = None"
  proof (rule ccontr)
    assume "strip_suffix ''/index.html'' (d @ ''/index.htm'') \<noteq> None"
    then obtain r where "d @ ''/index.htm'' = r @ ''/index.html''" by (auto simp: strip_suffix_Some)
    then have "last (d @ ''/index.htm'') = last (r @ ''/index.html'')" by simp
    then show False by simp
  qed
  moreover have "strip_suffix p (d @ p) = Some d" for p :: string by (simp add: strip_suffix_Some)
  ultimately show ?thesis using assms by (auto simp: or_else_eq_Some)
qed

lemma strip_directory:
  "strip_suffix ''/index.html'' (d @ ''/'') = None" "strip_suffix ''/index.htm'' (d @ ''/'') = None"
proof -
  have "strip_suffix (p @ [c]) (d @ ''/'') = None" if "c \<noteq> CHR ''/''" for p c
    using that strip_suffix_Some [of "p @ [c]" "d @ ''/''"] by (cases "strip_suffix (p @ [c]) (d @ ''/'')") auto
  from this [of "CHR ''l''" "''/index.htm''"] this [of "CHR ''m''" "''/index.ht''"]
  show "strip_suffix ''/index.html'' (d @ ''/'') = None" "strip_suffix ''/index.htm'' (d @ ''/'') = None"
    by simp_all
qed

lemma collapse_index_eq:
  assumes "api_parse api url = Some u" and "f \<in> {''index.html'', ''index.htm''}"
    and "to_ascii_lowercase (api_path api u) = d @ ''/'' @ f"
    and "v = api_set_path api (d @ ''/'') u" and "api_path api v = d @ ''/''"
  shows "collapse_index_path api url = (if d = [] then butlast (api_to_string api v) else api_to_string api v)"
  using assms strip_index_file [OF assms(2), of d] by (simp add: collapse_index_path_def Let_def)

lemma to_ascii_lower_idem: "to_ascii_lower (to_ascii_lower c) = to_ascii_lower c"
  by (simp add: to_ascii_lower_def Let_def)

lemma to_ascii_lowercase_idem: "to_ascii_lowercase (to_ascii_lowercase s) = to_ascii_lowercase s"
  by (simp add: to_ascii_lowercase_def to_ascii_lower_idem)

lemma collapse_directory:
  assumes "api_parse api url = Some v" and "to_ascii_lowercase (api_path api v) = d @ ''/''"
  shows "collapse_index_path api url = url"
  using assms by (simp add: collapse_index_path_def Let_def strip_directory)

lemma small_api_sel [simp]:
  "api_parse small_api = small_parse" "api_path small_api = su_path"
  "api_set_path small_api p u = u\<lparr>su_path := p\<rparr>"
  "api_to_string small_api u = su_base u @ su_path u @ su_query u"
  by (simp_all add: small_api_def)

lemmas small_url_eval =
  small_parse_def to_ascii_lowercase_def to_ascii_lower_def of_char_def char_of_def bit_0

text \<open>
  The internal-link test compares hosts label by label: a URL is internal exactly when it parses with a
  host and, case folded, the labels of that host are a suffix of the seed host's labels or the other way
  round. A host that merely ends in the same characters is external; a parent domain of the seed is
  internal too.
\<close>

theorem internal_link_is_label_suffix:
  "is_internal_link api url seed \<longleftrightarrow>
     (\<exists>h. extract_domain api url = Some h
        \<and> (suffix (labels (normalize_seed_host api seed)) (labels h)
            \<or> suffix (labels h) (labels (normalize_seed_host api seed))))"
  by (auto simp: is_internal_link_def Let_def ends_with_iff label_suffix_iff split: option.splits)

text \<open>
  An index page is identified with its directory: a URL whose path ends in \<^verbatim>\<open>/index.html\<close> or
  \<^verbatim>\<open>/index.htm\<close>, in any letter case, becomes the URL of its directory, without the slash at the root, and
  a second application changes nothing. The directory is the lower-cased one, also where the path was not:
  an index page in a directory with capitals is not identified with that directory. What is assumed of
  the URL library is that it reads back the path it was given and the text it printed.
\<close>

theorem index_page_becomes_directory:
  assumes "api_parse api url = Some u" and "f \<in> {''index.html'', ''index.htm''}"
    and "to_ascii_lowercase (api_path api u) = d @ ''/'' @ f"
    and "v = api_set_path api (d @ ''/'') u" and "api_path api v = d @ ''/''"
    and "api_parse api (if d = [] then butlast (api_to_string api v) else api_to_string api v) = Some v"
  shows "collapse_index_path api url = (if d = [] then butlast (api_to_string api v) else api_to_string api v)
    \<and> collapse_index_path api (collapse_index_path api url) = collapse_index_path api url
    \<and> map_option (api_path api) (api_parse api (collapse_index_path api url)) = Some (d @ ''/'')
    \<and> to_ascii_lowercase (d @ ''/'') = d @ ''/''"
proof -
  note eq = collapse_index_eq [OF assms(1-5)]
  have "to_ascii_lowercase (d @ ''/'') = d @ ''/''"
  proof -
    have "to_ascii_lowercase (d @ ''/'' @ f) = d @ ''/'' @ f"
      using to_ascii_lowercase_idem [of "api_path api u"] assms(3) by simp
    then show ?thesis by (simp add: to_ascii_lowercase_def)
  qed
  moreover have "collapse_index_path api (collapse_index_path api url) = collapse_index_path api url"
    using calculation assms(5,6) eq by (intro collapse_directory [of _ _ v d]) auto
  ultimately show ?thesis using eq assms(5,6) by auto
qed

theorem index_page_becomes_directory_witness:
  "collapse_index_path small_api ''https://h/Docs/Index.HTML'' = ''https://h/docs/''"
  using index_page_becomes_directory [of small_api "''https://h/Docs/Index.HTML''"
      "\<lparr>su_base = ''https://h'', su_path = ''/Docs/Index.HTML'', su_query = []\<rparr>" "''index.html''" "''/docs''"
      "\<lparr>su_base = ''https://h'', su_path = ''/docs/'', su_query = []\<rparr>"]
  by (simp add: small_url_eval)

text \<open>
  An index page at the root that keeps its query loses the last character of the query: the slash the
  code means to drop is not the last character of the printed URL when a query follows it.
\<close>

theorem root_index_query_loses_last_character:
  assumes "api_parse api url = Some u" and "f \<in> {''index.html'', ''index.htm''}"
    and "to_ascii_lowercase (api_path api u) = ''/'' @ f"
    and "api_path api (api_set_path api ''/'' u) = ''/''"
    and "api_to_string api (api_set_path api ''/'' u) = base @ ''/?'' @ q" and "q \<noteq> []"
  shows "collapse_index_path api url = base @ ''/?'' @ butlast q"
proof -
  have "to_ascii_lowercase (api_path api u) = [] @ ''/'' @ f" using assms(3) by simp
  from collapse_index_eq [OF assms(1,2) this refl] assms(4-6) show ?thesis
    by (simp add: butlast_append)
qed

theorem root_index_query_loses_last_character_witness:
  "collapse_index_path small_api ''https://h/index.html?p=1'' = ''https://h/?p=''"
  using root_index_query_loses_last_character [of small_api "''https://h/index.html?p=1''"
      "\<lparr>su_base = ''https://h'', su_path = ''/index.html'', su_query = ''?p=1''\<rparr>" "''index.html''" "''https://h''" "''p=1''"]
  by (simp add: small_url_eval)

end
