(* ===== verification/Error_Taxonomy.thy ===== *)
theory Error_Taxonomy
  imports Page_State Url_Validation
begin

text \<open>
  The error types and their operational class: \<^verbatim>\<open>domain/error/crawl_error.rs\<close>,
  \<^verbatim>\<open>domain/error/domain_error.rs\<close>, \<^verbatim>\<open>domain/downloader_port.rs\<close>, \<^verbatim>\<open>infrastructure/error.rs\<close>,
  \<^verbatim>\<open>infrastructure/downloader/mod.rs\<close> and \<^verbatim>\<open>error.rs\<close>. An error crosses up to three layers before its class is read, and
  every crossing is a conversion defined here. A boxed error is a term whose \<^verbatim>\<open>source()\<close> chain is a
  subterm: an I/O error with its kind, a download error, or any other error, of which only the text and
  the source can be seen.
\<close>

section \<open>Data\<close>

text \<open>\<^verbatim>\<open>std::io::ErrorKind\<close>\<close>

datatype io_kind =
    NotFound | PermissionDenied | ConnectionRefused | ConnectionReset | HostUnreachable | NetworkUnreachable
  | ConnectionAborted | NotConnected | AddrInUse | AddrNotAvailable | NetworkDown | BrokenPipe | AlreadyExists
  | WouldBlock | NotADirectory | IsADirectory | DirectoryNotEmpty | ReadOnlyFilesystem | StaleNetworkFileHandle
  | InvalidInput | InvalidData | TimedOut | WriteZero | StorageFull | NotSeekable | QuotaExceeded | FileTooLarge
  | ResourceBusy | ExecutableFileBusy | Deadlock | CrossesDevices | TooManyLinks | InvalidFilename
  | ArgumentListTooLong | Interrupted | Unsupported | UnexpectedEof | OutOfMemory | Other

datatype waf_detection_kind = ControlHeader | BodySignature | SilentChallenge | EntropyAnomaly

datatype resource_kind = SitemapUrls | SitemapDepth | RamBudget

datatype dyn_error =
    DynIo io_error
  | DynDownload download_error
  | DynOther string "dyn_error option"
and io_error = IoError io_kind string "dyn_error option"
and download_error =
    Network dyn_error | Dns string | Tls string | Io io_error | Http u16 string | WafChallenge string
  | SpaDetected string | InvalidUrl string | Timeout u64 | Internal string | ResourceExhausted string
  | FeatureGated string | Cancelled | BodyTooLarge u64

datatype crawl_error =
    Network string "u16 option"
  | Http u16 string
  | InvalidUrl string
  | Parse string
  | MaxDepthExceeded u8 u8
  | MaxPagesExceeded nat
  | UrlExcluded string
  | InvalidContentType string
  | Io io_error
  | Internal string
  | InvalidSession string
  | SitemapNotFound string
  | Storage string
  | Checkpoint string
  | SessionPool string
  | Discovery string
  | Download dyn_error
  | WafChallenge string waf_detection_kind string
  | RetryExhausted string nat
  | TransientHttp u16 string
  | RateLimited u64
  | Timeout
  | Connection string
  | RequestFailed string
  | ResourceExhausted resource_kind nat nat
  | SitemapEmpty
  | SitemapDepthExceeded
  | SemaphoreInanition
  | Cancelled

datatype domain_error =
    InvalidUrl string | Readability string | Extraction string | ExtractionFailed string string
  | Validation string | FeatureGated string | Conversion string

datatype infra_error =
    Http u16 string | Network dyn_error | Middleware string | WafBlocked string string | Download dyn_error
  | GlobalTimeout | SlowlorisTimeout | PayloadTooLarge | SemaphoreInanition | Persistence string
  | Ingestion string | H2Config string | UrlParse string | Io io_error | FeatureGated string

datatype semantic_error = Tokenize string | Inference string | ChunkTooLarge string nat nat

datatype scraper_error =
    InvalidUrl string
  | Http u16 string
  | Readability string
  | Io io_error
  | Network dyn_error
  | Middleware string
  | Serialization string
  | UrlParse string
  | Extraction string
  | Download dyn_error
  | Config string
  | FeatureGated string
  | WafBlocked string string
  | Validation string
  | Conversion string
  | Export string
  | ExtractionFailed string string
  | ExportBatch string
  | GlobalTimeout
  | SlowlorisTimeout
  | PayloadTooLarge
  | SemaphoreInanition
  | Persistence string
  | Ingestion string
  | Semantic semantic_error
  | H2Config string
  | Internal string
  | RateLimited u64
  | CrawlLimit string
  | ResourceExhausted resource_kind nat nat
  | SitemapEmpty
  | SitemapNotFound string

section \<open>Boxed errors\<close>

abbreviation dec :: "nat \<Rightarrow> string" where
  "dec \<equiv> show_radix 10"

primrec io_kind_of :: "io_error \<Rightarrow> io_kind" where
  "io_kind_of (IoError k t s) = k"

primrec io_to_string :: "io_error \<Rightarrow> string" where
  "io_to_string (IoError k t s) = t"

fun dyn_to_string :: "dyn_error \<Rightarrow> string"
and download_to_string :: "download_error \<Rightarrow> string" where
  "dyn_to_string (DynIo e) = io_to_string e"
| "dyn_to_string (DynDownload d) = download_to_string d"
| "dyn_to_string (DynOther t s) = t"
| "download_to_string (download_error.Network e) = ''network error: '' @ dyn_to_string e"
| "download_to_string (download_error.Dns m) = ''DNS error: '' @ m"
| "download_to_string (download_error.Tls m) = ''TLS error: '' @ m"
| "download_to_string (download_error.Io e) = ''I/O error: '' @ io_to_string e"
| "download_to_string (download_error.Http s m) = ''HTTP '' @ dec (unat s) @ '': '' @ m"
| "download_to_string (download_error.WafChallenge m) = ''WAF challenge detected: '' @ m"
| "download_to_string (download_error.SpaDetected m) = ''SPA detected: '' @ m"
| "download_to_string (download_error.InvalidUrl m) = ''invalid URL: '' @ m"
| "download_to_string (download_error.Timeout s) = ''request timed out after '' @ dec (unat s) @ ''s''"
| "download_to_string (download_error.Internal m) = ''internal error: '' @ m"
| "download_to_string (download_error.ResourceExhausted m) = ''insufficient resources: '' @ m"
| "download_to_string (download_error.FeatureGated m) = ''funcionalidad no disponible: '' @ m"
| "download_to_string download_error.Cancelled = ''operation cancelled while waiting for resources''"
| "download_to_string (download_error.BodyTooLarge l) =
     ''el cuerpo de la respuesta excede el l'' @ [CHR 0xED] @ ''mite de '' @ dec (unat l) @ '' bytes''"

text \<open>\<^verbatim>\<open>Error::source\<close>\<close>

fun dyn_source :: "dyn_error \<Rightarrow> dyn_error option" where
  "dyn_source (DynIo (IoError k t s)) = s"
| "dyn_source (DynDownload (download_error.Network e)) = Some e"
| "dyn_source (DynDownload (download_error.Io e)) = Some (DynIo e)"
| "dyn_source (DynDownload _) = None"
| "dyn_source (DynOther t s) = s"

lemma dyn_source_smaller: "dyn_source e = Some e' \<Longrightarrow> size e' < size e"
  by (induction e rule: dyn_source.induct) auto

definition any_contained :: "string list \<Rightarrow> string \<Rightarrow> bool" where
  "any_contained ps msg = list_ex (\<lambda>p. contains_str p msg) ps"

definition TRANSIENT_NETWORK_PATTERNS :: "string list" where
  "TRANSIENT_NETWORK_PATTERNS =
     [''timeout'', ''timed out'', ''connection refused'', ''connection reset'', ''broken pipe'', ''connection aborted'',
      ''client error (connect)'', ''dns error'', ''dns lookup failed'', ''could not resolve'', ''failed to lookup address'']"

definition DNS_PATTERNS :: "string list" where
  "DNS_PATTERNS =
     [''name or service not known'', ''temporary failure in name resolution'', ''name resolution failed'', ''no such host'',
      ''nodename nor servname'', ''nxdomain'', ''domain not found'', ''failed to lookup'', ''could not resolve'', ''dns error'',
      ''dns lookup'']"

definition TLS_PATTERNS :: "string list" where
  "TLS_PATTERNS = [''tls'', ''handshake'', ''certificate'']"

definition transient_network_kind :: "io_kind \<Rightarrow> bool" where
  "transient_network_kind k =
     (k \<in> {ConnectionReset, ConnectionAborted, ConnectionRefused, HostUnreachable, NetworkUnreachable, AddrNotAvailable,
            TimedOut, Interrupted, BrokenPipe})"

function is_transient_network :: "dyn_error \<Rightarrow> bool" where
  "is_transient_network err =
     (case err of
        DynIo io_err \<Rightarrow> transient_network_kind (io_kind_of io_err)
      | _ \<Rightarrow> if any_contained TRANSIENT_NETWORK_PATTERNS (to_ascii_lowercase (dyn_to_string err)) then True
            else (case dyn_source err of None \<Rightarrow> False | Some s \<Rightarrow> is_transient_network s))"
  by pat_completeness auto
termination by (relation "measure size") (auto dest: dyn_source_smaller)

function is_dns_or_tls_transport_failure :: "dyn_error \<Rightarrow> bool" where
  "is_dns_or_tls_transport_failure err =
     (if (case err of DynIo io_err \<Rightarrow> io_kind_of io_err = AddrNotAvailable | _ \<Rightarrow> False) then True
      else (let msg = to_ascii_lowercase (dyn_to_string err) in
            if any_contained DNS_PATTERNS msg \<or> any_contained TLS_PATTERNS msg then True
            else (case dyn_source err of None \<Rightarrow> False | Some s \<Rightarrow> is_dns_or_tls_transport_failure s)))"
  by pat_completeness auto
termination by (relation "measure size") (auto dest: dyn_source_smaller)

declare is_transient_network.simps [simp del] is_dns_or_tls_transport_failure.simps [simp del]

definition io_error_for_network_message :: "string \<Rightarrow> io_error" where
  "io_error_for_network_message message =
     (let msg = to_ascii_lowercase message;
          kind =
            (if any_contained [''connection refused'', ''client error (connect)'', ''connect error''] msg then ConnectionRefused
             else if contains_str ''host unreachable'' msg then HostUnreachable
             else if contains_str ''network unreachable'' msg then NetworkUnreachable
             else if any_contained [''dns error'', ''dns lookup failed'', ''could not resolve'', ''failed to lookup address'',
                                    ''name or service not known''] msg then AddrNotAvailable
             else if any_contained [''timeout'', ''timed out''] msg then TimedOut
             else if contains_str ''connection reset'' msg then ConnectionReset
             else if contains_str ''connection aborted'' msg then ConnectionAborted
             else if contains_str ''broken pipe'' msg then BrokenPipe
             else Other)
      in IoError kind message None)"

section \<open>Classification\<close>

text \<open>\<^verbatim>\<open>CrawlError::classify\<close>\<close>

definition transient_io_kind :: "io_kind \<Rightarrow> bool" where
  "transient_io_kind k = (k \<in> {Interrupted, WouldBlock, TimedOut})"

fun crawl_classify :: "crawl_error \<Rightarrow> error_class" where
  "crawl_classify (crawl_error.Network m s) = TransientRetriable"
| "crawl_classify (crawl_error.Http s u) =
     (if 500 \<le> s then TransientRetriable else if s = 429 then TransientBackoff else PermanentFatal)"
| "crawl_classify (crawl_error.InvalidUrl m) = PermanentFatal"
| "crawl_classify (crawl_error.Parse m) = DomainRecoverable"
| "crawl_classify (crawl_error.MaxDepthExceeded c m) = DomainRecoverable"
| "crawl_classify (crawl_error.MaxPagesExceeded m) = DomainRecoverable"
| "crawl_classify (crawl_error.UrlExcluded m) = DomainRecoverable"
| "crawl_classify (crawl_error.InvalidContentType m) = DomainRecoverable"
| "crawl_classify (crawl_error.Io e) = (if transient_io_kind (io_kind_of e) then TransientRetriable else PermanentFatal)"
| "crawl_classify (crawl_error.Internal m) = InternalFatal"
| "crawl_classify (crawl_error.InvalidSession m) = PermanentFatal"
| "crawl_classify (crawl_error.SitemapNotFound m) = DomainRecoverable"
| "crawl_classify (crawl_error.Storage m) = InternalFatal"
| "crawl_classify (crawl_error.Checkpoint m) = InternalFatal"
| "crawl_classify (crawl_error.SessionPool m) = TransientBackoff"
| "crawl_classify (crawl_error.Discovery m) = DomainRecoverable"
| "crawl_classify (crawl_error.Download e) = TransientRetriable"
| "crawl_classify (crawl_error.WafChallenge p k u) = PermanentFatal"
| "crawl_classify (crawl_error.RetryExhausted u n) = DomainRecoverable"
| "crawl_classify (crawl_error.TransientHttp s u) = TransientRetriable"
| "crawl_classify (crawl_error.RateLimited n) = TransientBackoff"
| "crawl_classify crawl_error.Timeout = TransientBackoff"
| "crawl_classify (crawl_error.Connection m) = TransientRetriable"
| "crawl_classify (crawl_error.RequestFailed m) = InternalFatal"
| "crawl_classify (crawl_error.ResourceExhausted r l a) =
     (case r of SitemapUrls \<Rightarrow> DomainRecoverable | SitemapDepth \<Rightarrow> DomainRecoverable | RamBudget \<Rightarrow> TransientBackoff)"
| "crawl_classify crawl_error.SitemapEmpty = DomainRecoverable"
| "crawl_classify crawl_error.SitemapDepthExceeded = DomainRecoverable"
| "crawl_classify crawl_error.SemaphoreInanition = InternalFatal"
| "crawl_classify crawl_error.Cancelled = InternalFatal"

text \<open>\<^verbatim>\<open>DownloadError::classify\<close>\<close>

definition is_transient_io :: "io_error \<Rightarrow> bool" where
  "is_transient_io e = (io_kind_of e \<in> {ConnectionReset, ConnectionAborted, BrokenPipe, TimedOut, UnexpectedEof})"

fun download_classify :: "download_error \<Rightarrow> error_class" where
  "download_classify (download_error.Io e) = (if is_transient_io e then TransientRetriable else InternalFatal)"
| "download_classify (download_error.Dns m) = PermanentFatal"
| "download_classify (download_error.Tls m) = PermanentFatal"
| "download_classify (download_error.Timeout s) = TransientBackoff"
| "download_classify (download_error.Http s m) =
     (if 500 \<le> s \<and> s \<le> 599 then TransientRetriable
      else if s = 429 then TransientBackoff
      else if 400 \<le> s \<and> s \<le> 499 then PermanentFatal
      else PermanentFatal)"
| "download_classify (download_error.WafChallenge m) = PermanentFatal"
| "download_classify (download_error.SpaDetected m) = PermanentFatal"
| "download_classify (download_error.InvalidUrl m) = PermanentFatal"
| "download_classify (download_error.Network e) = InternalFatal"
| "download_classify (download_error.Internal m) = InternalFatal"
| "download_classify (download_error.ResourceExhausted m) = InternalFatal"
| "download_classify (download_error.FeatureGated m) = PermanentFatal"
| "download_classify download_error.Cancelled = InternalFatal"
| "download_classify (download_error.BodyTooLarge l) = PermanentFatal"

fun semantic_classify :: "semantic_error \<Rightarrow> error_class" where
  "semantic_classify (Inference m) = InternalFatal"
| "semantic_classify (ChunkTooLarge c n m) = DomainRecoverable"
| "semantic_classify (Tokenize m) = DomainRecoverable"

text \<open>\<^verbatim>\<open>ScraperError::classify\<close>\<close>

fun scraper_classify :: "scraper_error \<Rightarrow> error_class" where
  "scraper_classify (scraper_error.Download e) =
     (case e of
        DynDownload d \<Rightarrow> download_classify d
      | _ \<Rightarrow> if is_transient_network e then TransientRetriable else InternalFatal)"
| "scraper_classify (scraper_error.Network e) =
     (if is_transient_network e then TransientRetriable
      else if is_dns_or_tls_transport_failure e then TransientRetriable
      else TransientRetriable)"
| "scraper_classify (scraper_error.Http s u) =
     (if 500 \<le> s then TransientRetriable else if s = 429 then TransientBackoff else PermanentFatal)"
| "scraper_classify scraper_error.GlobalTimeout = TransientBackoff"
| "scraper_classify scraper_error.SlowlorisTimeout = TransientBackoff"
| "scraper_classify (scraper_error.RateLimited n) = TransientBackoff"
| "scraper_classify (scraper_error.InvalidUrl m) = PermanentFatal"
| "scraper_classify (scraper_error.WafBlocked u p) = PermanentFatal"
| "scraper_classify (scraper_error.Readability m) = PermanentFatal"
| "scraper_classify (scraper_error.Extraction m) = PermanentFatal"
| "scraper_classify (scraper_error.ExtractionFailed u r) = PermanentFatal"
| "scraper_classify (scraper_error.Validation m) = PermanentFatal"
| "scraper_classify (scraper_error.FeatureGated m) = PermanentFatal"
| "scraper_classify (scraper_error.Config m) = PermanentFatal"
| "scraper_classify scraper_error.PayloadTooLarge = PermanentFatal"
| "scraper_classify scraper_error.SemaphoreInanition = InternalFatal"
| "scraper_classify (scraper_error.Io e) = (if transient_io_kind (io_kind_of e) then TransientRetriable else PermanentFatal)"
| "scraper_classify (scraper_error.Serialization m) = InternalFatal"
| "scraper_classify (scraper_error.UrlParse m) = InternalFatal"
| "scraper_classify (scraper_error.Persistence m) = InternalFatal"
| "scraper_classify (scraper_error.Ingestion m) = InternalFatal"
| "scraper_classify (scraper_error.Middleware m) = InternalFatal"
| "scraper_classify (scraper_error.H2Config m) = InternalFatal"
| "scraper_classify (scraper_error.Export m) = InternalFatal"
| "scraper_classify (scraper_error.ExportBatch m) = InternalFatal"
| "scraper_classify (scraper_error.Conversion m) = InternalFatal"
| "scraper_classify (scraper_error.Semantic e) = semantic_classify e"
| "scraper_classify (scraper_error.Internal m) = InternalFatal"
| "scraper_classify (scraper_error.CrawlLimit m) = DomainRecoverable"
| "scraper_classify (scraper_error.ResourceExhausted r l a) =
     (case r of RamBudget \<Rightarrow> TransientBackoff | SitemapUrls \<Rightarrow> DomainRecoverable | SitemapDepth \<Rightarrow> DomainRecoverable)"
| "scraper_classify scraper_error.SitemapEmpty = DomainRecoverable"
| "scraper_classify (scraper_error.SitemapNotFound m) = DomainRecoverable"

section \<open>Conversions between the layers\<close>

text \<open>\<^verbatim>\<open>From<CrawlError> for ScraperError\<close>\<close>

fun scraper_from_crawl :: "crawl_error \<Rightarrow> scraper_error" where
  "scraper_from_crawl (crawl_error.Network message status_code) =
     (case status_code of
        Some s \<Rightarrow> scraper_error.Http s message
      | None \<Rightarrow> scraper_error.Network (DynIo (io_error_for_network_message message)))"
| "scraper_from_crawl (crawl_error.Http s u) = scraper_error.Http s u"
| "scraper_from_crawl (crawl_error.InvalidUrl m) = scraper_error.InvalidUrl m"
| "scraper_from_crawl (crawl_error.Io e) = scraper_error.Io e"
| "scraper_from_crawl (crawl_error.WafChallenge p k u) = scraper_error.WafBlocked u p"
| "scraper_from_crawl (crawl_error.Internal m) = scraper_error.Internal m"
| "scraper_from_crawl (crawl_error.InvalidSession m) = scraper_error.Config m"
| "scraper_from_crawl (crawl_error.RequestFailed m) = scraper_error.Internal m"
| "scraper_from_crawl (crawl_error.Download e) = scraper_error.Download e"
| "scraper_from_crawl (crawl_error.SitemapNotFound u) = scraper_error.SitemapNotFound u"
| "scraper_from_crawl (crawl_error.Parse m) = scraper_error.Internal (''parse: '' @ m)"
| "scraper_from_crawl (crawl_error.MaxDepthExceeded c m) =
     scraper_error.CrawlLimit (''maximum depth '' @ dec (unat m) @ '' exceeded at depth '' @ dec (unat c))"
| "scraper_from_crawl (crawl_error.MaxPagesExceeded m) = scraper_error.CrawlLimit (''maximum pages '' @ dec m @ '' exceeded'')"
| "scraper_from_crawl (crawl_error.UrlExcluded u) = scraper_error.Internal (''URL excluded: '' @ u)"
| "scraper_from_crawl (crawl_error.InvalidContentType c) = scraper_error.Internal (''invalid content type: '' @ c)"
| "scraper_from_crawl (crawl_error.Storage m) = scraper_error.Internal (''storage: '' @ m)"
| "scraper_from_crawl (crawl_error.Checkpoint m) = scraper_error.Internal (''checkpoint: '' @ m)"
| "scraper_from_crawl (crawl_error.SessionPool m) = scraper_error.Internal (''session pool: '' @ m)"
| "scraper_from_crawl (crawl_error.Discovery m) = scraper_error.Internal (''discovery: '' @ m)"
| "scraper_from_crawl (crawl_error.RetryExhausted u n) =
     scraper_error.Internal (''retry exhausted for '' @ u @ '' after '' @ dec n @ '' attempts'')"
| "scraper_from_crawl (crawl_error.TransientHttp s u) = scraper_error.Http s u"
| "scraper_from_crawl (crawl_error.RateLimited n) = scraper_error.RateLimited n"
| "scraper_from_crawl crawl_error.Timeout = scraper_error.Network (DynIo (IoError TimedOut ''request timeout'' None))"
| "scraper_from_crawl (crawl_error.Connection m) = scraper_error.Network (DynIo (IoError ConnectionReset m None))"
| "scraper_from_crawl (crawl_error.ResourceExhausted r l a) = scraper_error.ResourceExhausted r l a"
| "scraper_from_crawl crawl_error.SitemapEmpty = scraper_error.SitemapEmpty"
| "scraper_from_crawl crawl_error.SitemapDepthExceeded = scraper_error.CrawlLimit ''sitemap depth exceeded''"
| "scraper_from_crawl crawl_error.SemaphoreInanition = scraper_error.SemaphoreInanition"
| "scraper_from_crawl crawl_error.Cancelled = scraper_error.Internal ''task cancelled by engine shutdown''"

fun scraper_from_domain :: "domain_error \<Rightarrow> scraper_error" where
  "scraper_from_domain (domain_error.InvalidUrl m) = scraper_error.InvalidUrl m"
| "scraper_from_domain (domain_error.Readability m) = scraper_error.Readability m"
| "scraper_from_domain (domain_error.Extraction m) = scraper_error.Extraction m"
| "scraper_from_domain (domain_error.ExtractionFailed u r) = scraper_error.ExtractionFailed u r"
| "scraper_from_domain (domain_error.Validation m) = scraper_error.Validation m"
| "scraper_from_domain (domain_error.FeatureGated m) = scraper_error.FeatureGated m"
| "scraper_from_domain (domain_error.Conversion m) = scraper_error.Conversion m"

fun scraper_from_infra :: "infra_error \<Rightarrow> scraper_error" where
  "scraper_from_infra (infra_error.Http s u) = scraper_error.Http s u"
| "scraper_from_infra (infra_error.Network e) = scraper_error.Network e"
| "scraper_from_infra (infra_error.Middleware m) = scraper_error.Middleware m"
| "scraper_from_infra (infra_error.WafBlocked u p) = scraper_error.WafBlocked u p"
| "scraper_from_infra (infra_error.Download e) = scraper_error.Download e"
| "scraper_from_infra infra_error.GlobalTimeout = scraper_error.GlobalTimeout"
| "scraper_from_infra infra_error.SlowlorisTimeout = scraper_error.SlowlorisTimeout"
| "scraper_from_infra infra_error.PayloadTooLarge = scraper_error.PayloadTooLarge"
| "scraper_from_infra infra_error.SemaphoreInanition = scraper_error.SemaphoreInanition"
| "scraper_from_infra (infra_error.Persistence m) = scraper_error.Persistence m"
| "scraper_from_infra (infra_error.Ingestion m) = scraper_error.Ingestion m"
| "scraper_from_infra (infra_error.H2Config m) = scraper_error.H2Config m"
| "scraper_from_infra (infra_error.UrlParse m) = scraper_error.UrlParse m"
| "scraper_from_infra (infra_error.Io e) = scraper_error.Io e"
| "scraper_from_infra (infra_error.FeatureGated m) = scraper_error.FeatureGated m"

fun scraper_from_download :: "download_error \<Rightarrow> scraper_error" where
  "scraper_from_download (download_error.FeatureGated m) = scraper_error.FeatureGated m"
| "scraper_from_download other = scraper_error.Download (DynDownload other)"

fun infra_from_download :: "download_error \<Rightarrow> infra_error" where
  "infra_from_download (download_error.FeatureGated m) = infra_error.FeatureGated m"
| "infra_from_download other = infra_error.Download (DynDownload other)"

definition crawl_from_download :: "download_error \<Rightarrow> crawl_error" where
  "crawl_from_download err = crawl_error.Download (DynDownload err)"

fun download_clone :: "download_error \<Rightarrow> download_error" where
  "download_clone (download_error.Network (DynIo e)) =
     download_error.Network (DynIo (IoError (io_kind_of e) (io_to_string e) None))"
| "download_clone (download_error.Network e) = download_error.Internal (dyn_to_string e)"
| "download_clone (download_error.Io e) = download_error.Io (IoError (io_kind_of e) (io_to_string e) None)"
| "download_clone other = other"

text \<open>
  \<^verbatim>\<open>From<wreq::Error> for DownloadError\<close>. A transport error is its text and source chain together with the
  answer of \<^verbatim>\<open>is_builder\<close>.
\<close>

definition strip_display_marker :: "string \<Rightarrow> string \<Rightarrow> string" where
  "strip_display_marker payload mk =
     (let stripped =
            (if starts_with mk (to_lowercase payload)
             then dropWhile (\<lambda>c. c = CHR '':'' \<or> c = CHR '' '') (drop (length mk) payload)
             else payload)
      in if stripped = [] then
           (if starts_with ''dns'' mk then ''name resolution failed'' else ''handshake failed'')
         else stripped)"

function typed_cause :: "dyn_error option \<Rightarrow> download_error option" where
  "typed_cause source =
     (case source of
        None \<Rightarrow> None
      | Some s \<Rightarrow>
          (case s of
             DynIo io_err \<Rightarrow> Some (download_error.Io (IoError (io_kind_of io_err) (io_to_string io_err) None))
           | _ \<Rightarrow>
               (let msg = to_lowercase (dyn_to_string s) in
                if any_contained [''dns'', ''resolve''] msg
                then Some (download_error.Dns (strip_display_marker (dyn_to_string s) ''dns error''))
                else if any_contained [''tls'', ''certificate'', ''ssl''] msg
                then Some (download_error.Tls (strip_display_marker (dyn_to_string s) ''tls error''))
                else typed_cause (dyn_source s))))"
  by pat_completeness auto
termination
  by (relation "measure (\<lambda>s. case s of None \<Rightarrow> 0 | Some e \<Rightarrow> Suc (size e))")
    (auto simp: Let_def dest: dyn_source_smaller split: option.split)

declare typed_cause.simps [simp del]

definition download_from_wreq :: "bool \<Rightarrow> dyn_error \<Rightarrow> download_error" where
  "download_from_wreq is_builder e =
     (if is_builder then download_error.InvalidUrl (dyn_to_string e)
      else (case typed_cause (dyn_source e) of
              Some d \<Rightarrow> d
            | None \<Rightarrow> download_error.Network e))"

definition scraper_from_wreq :: "dyn_error \<Rightarrow> scraper_error" where
  "scraper_from_wreq e = scraper_error.Network e"

text \<open>\<^verbatim>\<open>Display\<close> of a crawl error\<close>

definition debug_status :: "u16 option \<Rightarrow> string" where
  "debug_status s = (case s of None \<Rightarrow> ''None'' | Some n \<Rightarrow> ''Some('' @ dec (unat n) @ '')'')"

definition debug_waf_kind :: "waf_detection_kind \<Rightarrow> string" where
  "debug_waf_kind k =
     (case k of ControlHeader \<Rightarrow> ''ControlHeader'' | BodySignature \<Rightarrow> ''BodySignature''
        | SilentChallenge \<Rightarrow> ''SilentChallenge'' | EntropyAnomaly \<Rightarrow> ''EntropyAnomaly'')"

definition debug_resource :: "resource_kind \<Rightarrow> string" where
  "debug_resource r =
     (case r of SitemapUrls \<Rightarrow> ''SitemapUrls'' | SitemapDepth \<Rightarrow> ''SitemapDepth'' | RamBudget \<Rightarrow> ''RamBudget'')"

definition resource_exhausted_text :: "resource_kind \<Rightarrow> nat \<Rightarrow> nat \<Rightarrow> string" where
  "resource_exhausted_text r l a =
     ''resource exhausted: '' @ debug_resource r @ '' limit='' @ dec l @ '' actual='' @ dec a"

definition semaphore_text :: string where
  "semaphore_text = ''sem'' @ [CHR 0xE1] @ ''foro agotado: no hay permisos disponibles''"

fun crawl_to_string :: "crawl_error \<Rightarrow> string" where
  "crawl_to_string (crawl_error.Network m s) = ''network error: '' @ m @ '' (status: '' @ debug_status s @ '')''"
| "crawl_to_string (crawl_error.Http s u) = ''HTTP error '' @ dec (unat s) @ '' at '' @ u"
| "crawl_to_string (crawl_error.InvalidUrl m) = ''invalid URL: '' @ m"
| "crawl_to_string (crawl_error.Parse m) = ''parse error: '' @ m"
| "crawl_to_string (crawl_error.MaxDepthExceeded c m) =
     ''maximum depth '' @ dec (unat m) @ '' exceeded at depth '' @ dec (unat c)"
| "crawl_to_string (crawl_error.MaxPagesExceeded m) = ''maximum pages '' @ dec m @ '' exceeded''"
| "crawl_to_string (crawl_error.UrlExcluded u) = ''URL excluded: '' @ u"
| "crawl_to_string (crawl_error.InvalidContentType c) = ''invalid content type: '' @ c"
| "crawl_to_string (crawl_error.Io e) = ''I/O error: '' @ io_to_string e"
| "crawl_to_string (crawl_error.Internal m) = ''internal error: '' @ m"
| "crawl_to_string (crawl_error.InvalidSession m) = m"
| "crawl_to_string (crawl_error.SitemapNotFound u) = ''no sitemap found for '' @ u"
| "crawl_to_string (crawl_error.Storage m) = ''error de almacenamiento: '' @ m"
| "crawl_to_string (crawl_error.Checkpoint m) = ''checkpoint error: '' @ m"
| "crawl_to_string (crawl_error.SessionPool m) = ''session pool error: '' @ m"
| "crawl_to_string (crawl_error.Discovery m) = ''discovery error: '' @ m"
| "crawl_to_string (crawl_error.Download e) = ''download error: '' @ dyn_to_string e"
| "crawl_to_string (crawl_error.WafChallenge p k u) = ''WAF challenge: '' @ p @ '' ('' @ debug_waf_kind k @ '') at '' @ u"
| "crawl_to_string (crawl_error.RetryExhausted u n) = ''retry exhausted for '' @ u @ '' after '' @ dec n @ '' attempts''"
| "crawl_to_string (crawl_error.TransientHttp s u) = ''transient HTTP '' @ dec (unat s) @ '' at '' @ u"
| "crawl_to_string (crawl_error.RateLimited n) = ''rate limited, retry after '' @ dec (unat n) @ ''s''"
| "crawl_to_string crawl_error.Timeout = ''request timeout''"
| "crawl_to_string (crawl_error.Connection m) = ''connection error: '' @ m"
| "crawl_to_string (crawl_error.RequestFailed m) = ''request failed: '' @ m"
| "crawl_to_string (crawl_error.ResourceExhausted r l a) = resource_exhausted_text r l a"
| "crawl_to_string crawl_error.SitemapEmpty = ''no sitemap found''"
| "crawl_to_string crawl_error.SitemapDepthExceeded = ''sitemap depth exceeded''"
| "crawl_to_string crawl_error.SemaphoreInanition = semaphore_text"
| "crawl_to_string crawl_error.Cancelled = ''task cancelled by engine shutdown''"

section \<open>What a class survives\<close>

text \<open>
  The kinds of \<open>io_error_for_network_message\<close> are those that \<open>is_transient_network\<close> accepts, or \<open>Other\<close>; the class
  of a network failure does not depend on which of them was guessed.
\<close>

lemma network_is_always_retriable [simp]: "scraper_classify (scraper_error.Network e) = TransientRetriable"
  by simp

lemma synthetic_kind_is_transient_or_other:
  "transient_network_kind (io_kind_of (io_error_for_network_message m)) \<or> io_kind_of (io_error_for_network_message m) = Other"
  by (simp add: io_error_for_network_message_def transient_network_kind_def Let_def)


lemma crawl_class_differs:
  "crawl_classify (crawl_error.Parse m) = DomainRecoverable" "crawl_classify (crawl_error.UrlExcluded m) = DomainRecoverable"
  "crawl_classify (crawl_error.InvalidContentType m) = DomainRecoverable" "crawl_classify (crawl_error.SessionPool m) = TransientBackoff"
  "crawl_classify (crawl_error.Discovery m) = DomainRecoverable" "crawl_classify (crawl_error.RetryExhausted m n) = DomainRecoverable"
  "crawl_classify crawl_error.Timeout = TransientBackoff"
  by simp_all

text \<open>A copy of a download error, as caches and retries keep it, has the class of the original, and copies no further.\<close>

lemma download_clone_idem: "download_clone (download_clone d) = download_clone d"
  by (induction d rule: download_clone.induct) simp_all

lemma download_clone_class: "download_classify (download_clone d) = download_classify d"
  by (induction d rule: download_clone.induct) (simp_all add: is_transient_io_def)

lemma scraper_from_download_class: "scraper_classify (scraper_from_download d) = download_classify d"
  by (cases d) simp_all

lemma routes_of_a_download_error_agree:
  "scraper_classify (scraper_from_infra (infra_from_download d)) = scraper_classify (scraper_from_download d)"
  "scraper_classify (scraper_from_crawl (crawl_from_download d)) = scraper_classify (scraper_from_download d)"
  by (cases d; simp add: crawl_from_download_def)+

section \<open>Transport failures\<close>

text \<open>An I/O error that can be reached through links whose text names neither a resolver nor a TLS failure.\<close>

definition mentions_dns_or_tls :: "string \<Rightarrow> bool" where
  "mentions_dns_or_tls t = any_contained [''dns'', ''resolve'', ''tls'', ''certificate'', ''ssl''] (to_lowercase t)"

inductive io_cause :: "dyn_error \<Rightarrow> io_error \<Rightarrow> bool" where
  io_here: "io_cause (DynIo io_err) io_err"
| io_below: "\<not> mentions_dns_or_tls t \<Longrightarrow> io_cause s io_err \<Longrightarrow> io_cause (DynOther t (Some s)) io_err"

lemma typed_cause_io:
  "io_cause s io_err \<Longrightarrow>
     typed_cause (Some s) = Some (download_error.Io (IoError (io_kind_of io_err) (io_to_string io_err) None))"
  by (induction rule: io_cause.induct)
    (simp_all add: typed_cause.simps [of "Some _"] mentions_dns_or_tls_def any_contained_def Let_def)

text \<open>
  The same transport failure has two classes. Through the page downloader it is retriable only if its I/O
  kind is one of the five the download table lists, and an internal fault otherwise, a refused connection and
  an unreachable host among them; through the client of the asset downloader it is always retriable.
\<close>

theorem transport_failure_class_depends_on_the_route:
  assumes "dyn_source e = Some s" and "io_cause s io_err"
  shows "scraper_classify (scraper_from_download (download_from_wreq False e))
      = (if io_kind_of io_err \<in> {ConnectionReset, ConnectionAborted, BrokenPipe, TimedOut, UnexpectedEof}
         then TransientRetriable else InternalFatal)
    \<and> scraper_classify (scraper_from_wreq e) = TransientRetriable"
proof
  show "scraper_classify (scraper_from_download (download_from_wreq False e))
      = (if io_kind_of io_err \<in> {ConnectionReset, ConnectionAborted, BrokenPipe, TimedOut, UnexpectedEof}
         then TransientRetriable else InternalFatal)"
    using assms(1) typed_cause_io [OF assms(2)]
    by (simp add: scraper_from_download_class download_from_wreq_def is_transient_io_def)
  show "scraper_classify (scraper_from_wreq e) = TransientRetriable"
    by (simp add: scraper_from_wreq_def)
qed

definition refused_connection :: dyn_error where
  "refused_connection =
     DynOther ''error sending request'' (Some (DynOther ''client error (Connect)''
       (Some (DynIo (IoError ConnectionRefused ''Connection refused (os error 111)'' None)))))"

lemma refused_connection_cause:
  "io_cause (DynOther ''client error (Connect)''
     (Some (DynIo (IoError ConnectionRefused ''Connection refused (os error 111)'' None))))
     (IoError ConnectionRefused ''Connection refused (os error 111)'' None)"
  by (rule io_below [OF _ io_here])
    (simp add: mentions_dns_or_tls_def any_contained_def to_lowercase_def to_lower_def to_ascii_lower_def starts_with_def)

theorem transport_failure_class_depends_on_the_route_witness:
  "scraper_classify (scraper_from_download (download_from_wreq False refused_connection)) = InternalFatal
   \<and> scraper_classify (scraper_from_wreq refused_connection) = TransientRetriable"
  using transport_failure_class_depends_on_the_route [OF _ refused_connection_cause, of refused_connection]
  by (simp add: refused_connection_def)

end
