(* ===== verification/Asset_Cache.thy ===== *)
theory Asset_Cache
  imports Error_Taxonomy "HOL-Library.Sublist"
begin

text \<open>
  The registry of downloaded assets, \<^verbatim>\<open>adapters/downloader/mod.rs\<close>: one cell per URL that concurrent pages
  share, the ledger of insertions for a bounded registry, and its eviction. A caller of \<^verbatim>\<open>download\<close> is a
  program counter; the steps of all callers interleave freely, a connection may succeed or fail in any
  way, and a caller that waits may be dropped. Eviction is one step. A registry of capacity \<open>None\<close> is
  the unbounded one. Cells are numbered, because an evicted cell lives on in the callers that hold it.
\<close>

section \<open>Ledger and eviction\<close>

definition ASSET_CACHE_ENTRIES_PER_PERMIT :: nat where "ASSET_CACHE_ENTRIES_PER_PERMIT = 8192"

definition asset_cache_capacity :: "u64 \<Rightarrow> nat" where
  "asset_cache_capacity permits =
     max (min (unat permits * ASSET_CACHE_ENTRIES_PER_PERMIT) (2 ^ 64 - 1)) ASSET_CACHE_ENTRIES_PER_PERMIT"

record insertion_ledger =
  il_queue :: "string list"
  il_seen :: "string set"

definition push_new :: "string \<Rightarrow> insertion_ledger \<Rightarrow> insertion_ledger" where
  "push_new key l =
     (if key \<in> il_seen l then l else \<lparr>il_queue = il_queue l @ [key], il_seen = insert key (il_seen l)\<rparr>)"

definition requeue :: "string \<Rightarrow> insertion_ledger \<Rightarrow> insertion_ledger" where
  "requeue key l = l\<lparr>il_queue := il_queue l @ [key]\<rparr>"

definition pop_oldest :: "insertion_ledger \<Rightarrow> (string \<times> insertion_ledger) option" where
  "pop_oldest l = (case il_queue l of [] \<Rightarrow> None | key # rest \<Rightarrow> Some (key, l\<lparr>il_queue := rest\<rparr>))"

definition forget :: "string \<Rightarrow> insertion_ledger \<Rightarrow> insertion_ledger" where
  "forget key l = l\<lparr>il_seen := il_seen l - {key}\<rparr>"

datatype cell_state = Initialized | InFlight | Abandoned | Gone

datatype caller_pc =
    Looking | Registering | Tracking nat | Evicting nat | Marking nat | Waiting nat | Connecting nat
  | Returned | DroppedCaller

record 'a asset_registry =
  rg_cells :: "(string \<times> nat) list"
  rg_content :: "nat \<rightharpoonup> 'a"
  rg_permit :: "nat \<rightharpoonup> nat"
  rg_next :: nat
  rg_ledger :: insertion_ledger
  rg_in_flight :: "string set"
  rg_capacity :: "nat option"
  rg_callers :: "nat \<rightharpoonup> string \<times> caller_pc"
  rg_results :: "(string \<times> 'a) list"
  rg_sent :: "string list"
  rg_lost :: "string list"

definition cell_class ::
  "(nat \<rightharpoonup> 'a) \<Rightarrow> string set \<Rightarrow> (string \<times> nat) list \<Rightarrow> string \<Rightarrow> cell_state" where
  "cell_class content in_flight cells key =
     (case map_of cells key of
        None \<Rightarrow> Gone
      | Some c \<Rightarrow>
          if content c \<noteq> None then Initialized
          else if key \<in> in_flight then InFlight else Abandoned)"

text \<open>The scan: at most one rotation of the ledger, entries in flight set aside.\<close>

fun evict_scan ::
  "((string \<times> nat) list \<Rightarrow> string \<Rightarrow> cell_state) \<Rightarrow> nat \<Rightarrow> nat \<Rightarrow> insertion_ledger \<Rightarrow> (string \<times> nat) list \<Rightarrow> string list
    \<Rightarrow> insertion_ledger \<times> (string \<times> nat) list \<times> string list" where
  "evict_scan classify 0 excess l cells deferred = (l, cells, deferred)"
| "evict_scan classify (Suc scans) 0 l cells deferred = (l, cells, deferred)"
| "evict_scan classify (Suc scans) (Suc excess) l cells deferred =
     (case pop_oldest l of
        None \<Rightarrow> (l, cells, deferred)
      | Some (candidate, l1) \<Rightarrow>
          (case classify cells candidate of
             InFlight \<Rightarrow> evict_scan classify scans (Suc excess) l1 cells (deferred @ [candidate])
           | _ \<Rightarrow> evict_scan classify scans excess (forget candidate l1)
                 (filter (\<lambda>(key, _). key \<noteq> candidate) cells) deferred))"

definition evict_over_capacity :: "'a asset_registry \<Rightarrow> 'a asset_registry" where
  "evict_over_capacity s =
     (case rg_capacity s of
        None \<Rightarrow> s
      | Some capacity \<Rightarrow>
          if length (rg_cells s) \<le> capacity then s
          else (let (l, cells, deferred) = evict_scan (cell_class (rg_content s) (rg_in_flight s)) (length (il_queue (rg_ledger s)))
                      (length (rg_cells s) - capacity) (rg_ledger s) (rg_cells s) []
                in s\<lparr>rg_ledger := fold requeue deferred l, rg_cells := cells\<rparr>))"

section \<open>Callers of download\<close>

definition registry_new :: "nat option \<Rightarrow> 'a asset_registry" where
  "registry_new capacity =
     \<lparr>rg_cells = [], rg_content = Map.empty, rg_permit = Map.empty, rg_next = 0,
      rg_ledger = \<lparr>il_queue = [], il_seen = {}\<rparr>, rg_in_flight = {}, rg_capacity = capacity,
      rg_callers = Map.empty, rg_results = [], rg_sent = [], rg_lost = []\<rparr>"

datatype 'a download_event = Arrive nat string | Advance nat | Succeed nat 'a | Fail nat | Cancel nat

definition goto :: "nat \<Rightarrow> string \<Rightarrow> caller_pc \<Rightarrow> 'a asset_registry \<Rightarrow> 'a asset_registry" where
  "goto i key pc s = s\<lparr>rg_callers := (rg_callers s)(i \<mapsto> (key, pc))\<rparr>"

definition leave :: "nat \<Rightarrow> string \<Rightarrow> 'a option \<Rightarrow> 'a asset_registry \<Rightarrow> 'a asset_registry" where
  "leave i key result s =
     goto i key Returned
       (s\<lparr>rg_in_flight := rg_in_flight s - {key},
          rg_results := rg_results s @ (case result of Some a \<Rightarrow> [(key, a)] | None \<Rightarrow> [])\<rparr>)"

text \<open>What a caller does next when nothing outside decides it.\<close>

fun caller_step :: "nat \<Rightarrow> string \<Rightarrow> caller_pc \<Rightarrow> 'a asset_registry \<Rightarrow> 'a asset_registry option" where
  "caller_step i key Looking s =
     (case Option.bind (map_of (rg_cells s) key) (rg_content s) of
        Some a \<Rightarrow> Some (goto i key Returned (s\<lparr>rg_results := rg_results s @ [(key, a)]\<rparr>))
      | None \<Rightarrow> Some (goto i key Registering s))"
| "caller_step i key Registering s =
     (case map_of (rg_cells s) key of
        Some c \<Rightarrow> Some (goto i key (Tracking c) s)
      | None \<Rightarrow> Some (goto i key (Tracking (rg_next s))
          (s\<lparr>rg_cells := rg_cells s @ [(key, rg_next s)], rg_next := Suc (rg_next s)\<rparr>)))"
| "caller_step i key (Tracking c) s =
     Some (goto i key (Evicting c)
       (if rg_capacity s = None then s else s\<lparr>rg_ledger := push_new key (rg_ledger s)\<rparr>))"
| "caller_step i key (Evicting c) s = Some (goto i key (Marking c) (evict_over_capacity s))"
| "caller_step i key (Marking c) s = Some (goto i key (Waiting c) (s\<lparr>rg_in_flight := insert key (rg_in_flight s)\<rparr>))"
| "caller_step i key (Waiting c) s =
     (case rg_content s c of
        Some a \<Rightarrow> Some (leave i key (Some a) s)
      | None \<Rightarrow>
          if rg_permit s c \<noteq> None then None
          else Some (goto i key (Connecting c) (s\<lparr>rg_permit := (rg_permit s)(c \<mapsto> i), rg_sent := rg_sent s @ [key]\<rparr>)))"
| "caller_step i key _ s = None"

definition release :: "nat \<Rightarrow> 'a asset_registry \<Rightarrow> 'a asset_registry" where
  "release c s = s\<lparr>rg_permit := (rg_permit s)(c := None)\<rparr>"

fun download_step :: "'a download_event \<Rightarrow> 'a asset_registry \<Rightarrow> 'a asset_registry option" where
  "download_step (Arrive i key) s = (if rg_callers s i = None then Some (goto i key Looking s) else None)"
| "download_step (Advance i) s = (case rg_callers s i of None \<Rightarrow> None | Some (key, pc) \<Rightarrow> caller_step i key pc s)"
| "download_step (Succeed i a) s =
     (case rg_callers s i of
        Some (key, Connecting c) \<Rightarrow>
          Some (leave i key (Some a) (release c (s\<lparr>rg_content := (rg_content s)(c \<mapsto> a)\<rparr>)))
      | _ \<Rightarrow> None)"
| "download_step (Fail i) s =
     (case rg_callers s i of
        Some (key, Connecting c) \<Rightarrow> Some (leave i key None (release c (s\<lparr>rg_lost := rg_lost s @ [key]\<rparr>)))
      | _ \<Rightarrow> None)"
| "download_step (Cancel i) s =
     (case rg_callers s i of
        Some (key, Waiting c) \<Rightarrow> Some (goto i key DroppedCaller (s\<lparr>rg_in_flight := rg_in_flight s - {key}\<rparr>))
      | Some (key, Connecting c) \<Rightarrow>
          Some (goto i key DroppedCaller
            (release c (s\<lparr>rg_in_flight := rg_in_flight s - {key}, rg_lost := rg_lost s @ [key]\<rparr>)))
      | _ \<Rightarrow> None)"

fun download_run :: "'a download_event list \<Rightarrow> 'a asset_registry \<Rightarrow> 'a asset_registry option" where
  "download_run [] s = Some s"
| "download_run (e # es) s = (case download_step e s of None \<Rightarrow> None | Some s1 \<Rightarrow> download_run es s1)"

section \<open>The unbounded registry\<close>

abbreviation lookup :: "'a asset_registry \<Rightarrow> string \<Rightarrow> nat option" where
  "lookup s \<equiv> map_of (rg_cells s)"

fun pc_cell :: "caller_pc \<Rightarrow> nat option" where
  "pc_cell (Tracking c) = Some c"
| "pc_cell (Evicting c) = Some c"
| "pc_cell (Marking c) = Some c"
| "pc_cell (Waiting c) = Some c"
| "pc_cell (Connecting c) = Some c"
| "pc_cell _ = None"

definition engaged :: "'a asset_registry \<Rightarrow> string \<Rightarrow> nat" where
  "engaged s key =
     (case lookup s key of
        None \<Rightarrow> 0
      | Some c \<Rightarrow> if rg_permit s c \<noteq> None \<or> rg_content s c \<noteq> None then 1 else 0)"

definition cells_ok :: "'a asset_registry \<Rightarrow> bool" where
  "cells_ok s \<longleftrightarrow>
     (\<forall>k k' c. lookup s k = Some c \<longrightarrow> lookup s k' = Some c \<longrightarrow> k = k') \<and>
     (\<forall>k c. lookup s k = Some c \<longrightarrow> c < rg_next s) \<and>
     (\<forall>c. rg_next s \<le> c \<longrightarrow> rg_content s c = None \<and> rg_permit s c = None)"

definition callers_ok :: "'a asset_registry \<Rightarrow> bool" where
  "callers_ok s \<longleftrightarrow>
     (\<forall>i k pc c. rg_callers s i = Some (k, pc) \<longrightarrow> pc_cell pc = Some c \<longrightarrow> lookup s k = Some c) \<and>
     (\<forall>c i. rg_permit s c = Some i \<longleftrightarrow> (\<exists>k. rg_callers s i = Some (k, Connecting c))) \<and>
     (\<forall>c. rg_content s c \<noteq> None \<longrightarrow> rg_permit s c = None)"

definition results_ok :: "'a asset_registry \<Rightarrow> bool" where
  "results_ok s \<longleftrightarrow>
     (\<forall>k a. (k, a) \<in> set (rg_results s) \<longrightarrow> (\<exists>c. lookup s k = Some c \<and> rg_content s c = Some a)) \<and>
     (\<forall>k. count_list (rg_sent s) k = count_list (rg_lost s) k + engaged s k)"

definition coherent :: "'a asset_registry \<Rightarrow> bool" where
  "coherent s \<longleftrightarrow> rg_capacity s = None \<and> cells_ok s \<and> callers_ok s \<and> results_ok s"

lemma coherent_new: "coherent (registry_new None)"
  by (simp add: coherent_def cells_ok_def callers_ok_def results_ok_def registry_new_def engaged_def)

lemma map_of_new_key: "map_of xs key = None \<Longrightarrow> map_of (xs @ [(key, n)]) = (map_of xs)(key \<mapsto> n)"
  by (induction xs) (auto simp: fun_eq_iff)

lemma engaged_simps [simp]:
  "engaged (goto i key pc s) = engaged s"
  "engaged (s\<lparr>rg_callers := y\<rparr>) = engaged s"
  "engaged (s\<lparr>rg_in_flight := x\<rparr>) = engaged s"
  "engaged (s\<lparr>rg_results := r\<rparr>) = engaged s"
  "engaged (s\<lparr>rg_lost := l\<rparr>) = engaged s"
  by (simp_all add: engaged_def goto_def fun_eq_iff split: option.split)

lemma kept_parts [simp]:
  "cells_ok (goto i key pc s) = cells_ok s"
  "results_ok (goto i key pc s) = results_ok s"
  "rg_capacity (goto i key pc s) = rg_capacity s"
  "cells_ok (s\<lparr>rg_in_flight := x\<rparr>) = cells_ok s"
  "callers_ok (s\<lparr>rg_in_flight := x\<rparr>) = callers_ok s"
  "results_ok (s\<lparr>rg_in_flight := x\<rparr>) = results_ok s"
  "cells_ok (s\<lparr>rg_results := r\<rparr>) = cells_ok s"
  "callers_ok (s\<lparr>rg_results := r\<rparr>) = callers_ok s"
  "cells_ok (s\<lparr>rg_lost := l\<rparr>) = cells_ok s"
  "callers_ok (s\<lparr>rg_lost := l\<rparr>) = callers_ok s"
  by (simp_all add: cells_ok_def callers_ok_def results_ok_def goto_def)

lemma results_ok_add:
  "results_ok (s\<lparr>rg_results := rg_results s @ xs\<rparr>) \<longleftrightarrow>
     results_ok s \<and> (\<forall>(k, a) \<in> set xs. \<exists>c. lookup s k = Some c \<and> rg_content s c = Some a)"
  by (auto simp: results_ok_def)

text \<open>A move to a program counter that holds the URL's own cell, or none.\<close>

lemma callers_ok_goto:
  assumes "callers_ok s" and "\<forall>k c. rg_callers s i \<noteq> Some (k, Connecting c)"
    and "\<forall>c. pc \<noteq> Connecting c" and "\<forall>c. pc_cell pc = Some c \<longrightarrow> lookup s key = Some c"
  shows "callers_ok (goto i key pc s)"
proof -
  have permit: "rg_permit s c = Some j \<longleftrightarrow> (\<exists>k. rg_callers s j = Some (k, Connecting c))" for c j
    using assms(1) by (simp add: callers_ok_def)
  have "rg_permit s c = Some j \<longleftrightarrow> (\<exists>k. ((rg_callers s)(i \<mapsto> (key, pc))) j = Some (k, Connecting c))" for c j
    using permit [of c j] assms(2,3) by (cases "j = i") auto
  then show ?thesis using assms(1,4) by (simp add: callers_ok_def goto_def)
qed

lemma coherent_goto:
  assumes "coherent s" "\<forall>k c. rg_callers s i \<noteq> Some (k, Connecting c)"
    and "\<forall>c. pc \<noteq> Connecting c" "\<forall>c. pc_cell pc = Some c \<longrightarrow> lookup s key = Some c"
  shows "coherent (goto i key pc s)"
  using assms callers_ok_goto [of s i pc key] by (simp add: coherent_def)

lemma connecting_permit: "coherent s \<Longrightarrow> rg_callers s i = Some (k, Connecting c) \<Longrightarrow> rg_permit s c = Some i"
  unfolding coherent_def callers_ok_def by blast

lemma callers_ok_close:
  assumes s: "callers_ok s" and i: "rg_callers s i = Some (key, Connecting c)" and pc: "pc_cell pc = None"
    and t: "rg_callers t = (rg_callers s)(i \<mapsto> (key, pc))" "rg_permit t = (rg_permit s)(c := None)" "rg_cells t = rg_cells s"
    and content: "\<forall>d. d \<noteq> c \<longrightarrow> rg_content t d = rg_content s d"
  shows "callers_ok t"
proof -
  have permit: "rg_permit s d = Some j \<longleftrightarrow> (\<exists>k. rg_callers s j = Some (k, Connecting d))" for d j
    using s by (simp add: callers_ok_def)
  have own: "rg_permit s c = Some i" using permit i by blast
  have "((rg_permit s)(c := None)) d = Some j \<longleftrightarrow> (\<exists>k. ((rg_callers s)(i \<mapsto> (key, pc))) j = Some (k, Connecting d))" for d j
  proof (cases "j = i")
    case True
    then show ?thesis using permit [of d i] i pc by auto
  next
    case False
    then show ?thesis using permit [of d j] own by auto
  qed
  moreover have "\<forall>j k pc' d. ((rg_callers s)(i \<mapsto> (key, pc))) j = Some (k, pc') \<longrightarrow> pc_cell pc' = Some d \<longrightarrow> lookup s k = Some d"
    using s pc by (auto simp: callers_ok_def)
  moreover have "\<forall>d. rg_content t d \<noteq> None \<longrightarrow> ((rg_permit s)(c := None)) d = None"
    using s content by (simp add: callers_ok_def)
  ultimately show ?thesis unfolding callers_ok_def t by blast
qed

lemma holder_cell:
  "coherent s \<Longrightarrow> rg_callers s i = Some (k, pc) \<Longrightarrow> pc_cell pc = Some c \<Longrightarrow> lookup s k = Some c"
  unfolding coherent_def callers_ok_def by blast

lemma busy_cell_is_empty: "coherent s \<Longrightarrow> rg_permit s c = Some i \<Longrightarrow> rg_content s c = None"
  unfolding coherent_def callers_ok_def by (metis option.distinct(1))

lemma cell_owner: "coherent s \<Longrightarrow> lookup s k = Some c \<Longrightarrow> lookup s k' = Some c \<Longrightarrow> k = k'"
  unfolding coherent_def cells_ok_def by blast

lemma results_okI:
  assumes "coherent s" "rg_cells t = rg_cells s" "rg_results t = rg_results s"
    and "\<And>d. rg_content s d \<noteq> None \<Longrightarrow> rg_content t d = rg_content s d"
    and "\<And>k. count_list (rg_sent t) k + count_list (rg_lost s) k + engaged s k =
      count_list (rg_sent s) k + count_list (rg_lost t) k + engaged t k"
  shows "results_ok t"
proof -
  have old: "\<exists>c. lookup s k = Some c \<and> rg_content s c = Some a" if "(k, a) \<in> set (rg_results s)" for k a
    using assms(1) that unfolding coherent_def results_ok_def by blast
  have "\<exists>c. lookup t k = Some c \<and> rg_content t c = Some a" if "(k, a) \<in> set (rg_results t)" for k a
    using old [of k a] that assms(2,3) assms(4) by force
  moreover have "count_list (rg_sent s) k = count_list (rg_lost s) k + engaged s k" for k
    using assms(1) unfolding coherent_def results_ok_def by blast
  then have "count_list (rg_sent t) k = count_list (rg_lost t) k + engaged t k" for k
    using assms(5) [of k] by simp
  ultimately show ?thesis by (simp add: results_ok_def)
qed

text \<open>The end of a connection: the permit is free, and content is stored when it succeeded.\<close>

lemma coherent_close:
  assumes c: "coherent s" and i: "rg_callers s i = Some (key, Connecting c)" and pc: "pc_cell pc = None"
  shows "coherent (goto i key pc (release c (s\<lparr>rg_content := (rg_content s)(c \<mapsto> a)\<rparr>)))" (is "coherent ?s1")
proof -
  have own: "lookup s key = Some c" using holder_cell [OF c i] by simp
  have permit: "rg_permit s c = Some i" by (rule connecting_permit [OF c i])
  have "c < rg_next s" using c own by (auto simp: coherent_def cells_ok_def)
  then have "cells_ok ?s1" using c own by (auto simp: coherent_def cells_ok_def release_def goto_def dest: leD)
  moreover have "callers_ok ?s1"
    by (rule callers_ok_close [OF _ i pc]) (use c in \<open>simp_all add: coherent_def goto_def release_def\<close>)
  moreover have none: "rg_content s c = None" using busy_cell_is_empty [OF c permit] .
  then have "engaged ?s1 k = engaged s k" for k
    using permit by (auto simp: engaged_def release_def split: option.split)
  then have "results_ok ?s1" using none by (intro results_okI [OF c]) (auto simp: release_def goto_def)
  ultimately show ?thesis using c by (simp add: coherent_def release_def)
qed

lemma coherent_lose:
  assumes c: "coherent s" and i: "rg_callers s i = Some (key, Connecting c)" and pc: "pc_cell pc = None"
  shows "coherent (goto i key pc (release c (s\<lparr>rg_lost := rg_lost s @ [key]\<rparr>)))" (is "coherent ?s1")
proof -
  have own: "lookup s key = Some c" using holder_cell [OF c i] by simp
  have permit: "rg_permit s c = Some i" by (rule connecting_permit [OF c i])
  have "cells_ok ?s1" using c by (auto simp: coherent_def cells_ok_def release_def goto_def)
  moreover have "callers_ok ?s1"
    by (rule callers_ok_close [OF _ i pc]) (use c in \<open>simp_all add: coherent_def goto_def release_def\<close>)
  moreover have "engaged ?s1 k + (if k = key then 1 else 0) = engaged s k" for k
  proof (cases "k = key")
    case True
    then show ?thesis using own permit busy_cell_is_empty [OF c permit] by (simp add: engaged_def release_def)
  next
    case False
    then have "lookup s k \<noteq> Some c" using cell_owner [OF c _ own] by blast
    then show ?thesis using False by (auto simp: engaged_def release_def split: option.split)
  qed
  note less = this
  have "results_ok ?s1"
  proof (rule results_okI [OF c])
    fix k
    show "count_list (rg_sent ?s1) k + count_list (rg_lost s) k + engaged s k =
        count_list (rg_sent s) k + count_list (rg_lost ?s1) k + engaged ?s1 k"
      using less [of k, symmetric] by (simp add: release_def goto_def)
  qed (simp_all add: release_def goto_def)
  ultimately show ?thesis using c by (simp add: coherent_def release_def)
qed

lemma coherent_in_flight [simp]: "coherent (s\<lparr>rg_in_flight := x\<rparr>) = coherent s"
  by (simp add: coherent_def)

lemma coherent_result:
  "coherent s \<Longrightarrow> lookup s key = Some c \<Longrightarrow> rg_content s c = Some a \<Longrightarrow>
   coherent (s\<lparr>rg_results := rg_results s @ [(key, a)]\<rparr>)"
  by (simp add: coherent_def results_ok_add)

lemma goto_updates:
  "goto i key pc (s\<lparr>rg_in_flight := x\<rparr>) = (goto i key pc s)\<lparr>rg_in_flight := x\<rparr>"
  "goto i key pc (s\<lparr>rg_results := r\<rparr>) = (goto i key pc s)\<lparr>rg_results := r\<rparr>"
  "release c (s\<lparr>rg_in_flight := x\<rparr>) = (release c s)\<lparr>rg_in_flight := x\<rparr>"
  by (simp_all add: goto_def release_def)

lemma coherent_caller_step:
  fixes s :: "'a asset_registry"
  assumes "coherent s" "rg_callers s i = Some (key, pc)" "caller_step i key pc s = Some s1"
  shows "coherent s1"
proof -
  have go: "coherent (goto i key pc1 t)"
    if "coherent t" "rg_callers t = rg_callers s" "pc_cell pc1 = None \<or> (\<exists>c. pc_cell pc1 = Some c \<and> lookup t key = Some c)"
      "\<forall>c. pc \<noteq> Connecting c" "\<forall>c. pc1 \<noteq> Connecting c" for t :: "'a asset_registry" and pc1
    using coherent_goto [of t i pc1 key] that assms(2) by auto
  show ?thesis
  proof (cases pc)
    case Looking
    show ?thesis
    proof (cases "Option.bind (lookup s key) (rg_content s)")
      case None
      then show ?thesis using assms Looking go [of s Registering] by auto
    next
      case (Some a)
      then obtain c where c: "lookup s key = Some c" "rg_content s c = Some a" by (auto split: Option.bind_splits)
      then show ?thesis using assms Looking Some go [OF coherent_result [OF assms(1) c], of Returned] by auto
    qed
  next
    case Registering
    show ?thesis
    proof (cases "lookup s key")
      case None
      let ?t = "s\<lparr>rg_cells := rg_cells s @ [(key, rg_next s)], rg_next := Suc (rg_next s)\<rparr>"
      have look: "lookup ?t = (lookup s)(key \<mapsto> rg_next s)" using map_of_new_key [OF None] by simp
      have fresh: "rg_content s (rg_next s) = None" "rg_permit s (rg_next s) = None"
        using assms(1) by (auto simp: coherent_def cells_ok_def)
      have unused: "lookup s k \<noteq> Some (rg_next s)" for k
        using assms(1) by (auto simp: coherent_def cells_ok_def)
      have "cells_ok ?t" using assms(1) None fresh unused
        by (auto simp: coherent_def cells_ok_def map_of_new_key less_Suc_eq dest: less_imp_neq split: if_splits)
      moreover have "callers_ok ?t" using assms(1) None by (auto simp: coherent_def callers_ok_def map_of_new_key)
      moreover have "engaged ?t k = engaged s k" for k
        using None fresh by (auto simp: engaged_def map_of_new_key split: option.split if_splits)
      then have "results_ok ?t" using assms(1) None by (fastforce simp: coherent_def results_ok_def map_of_new_key)
      ultimately have t: "coherent ?t" using assms(1) by (simp add: coherent_def)
      have own: "lookup ?t key = Some (rg_next s)" unfolding look by simp
      have "coherent (goto i key (Tracking (rg_next s)) ?t)" by (rule go [OF t]) (use Registering own in auto)
      then show ?thesis using assms(3) Registering None by simp
    next
      case (Some c)
      then show ?thesis using assms Registering go [of s "Tracking c"] by auto
    qed
  next
    case (Tracking c)
    then have "lookup s key = Some c" using assms by (auto simp: coherent_def callers_ok_def)
    then show ?thesis using assms Tracking go [of s "Evicting c"] by (auto simp: coherent_def)
  next
    case (Evicting c)
    then have "lookup s key = Some c" "evict_over_capacity s = s"
      using assms by (auto simp: coherent_def callers_ok_def evict_over_capacity_def)
    then show ?thesis using assms Evicting go [of s "Marking c"] by auto
  next
    case (Marking c)
    then have "lookup s key = Some c" using assms by (auto simp: coherent_def callers_ok_def)
    then show ?thesis using assms Marking go [of "s\<lparr>rg_in_flight := insert key (rg_in_flight s)\<rparr>" "Waiting c"] by auto
  next
    case (Waiting c)
    then have own: "lookup s key = Some c" using assms by (auto simp: coherent_def callers_ok_def)
    show ?thesis
    proof (cases "rg_content s c")
      case None
      then have s1: "s1 = goto i key (Connecting c) (s\<lparr>rg_permit := (rg_permit s)(c \<mapsto> i), rg_sent := rg_sent s @ [key]\<rparr>)"
        and free: "rg_permit s c = None" using assms Waiting by (auto split: if_splits)
      have "c < rg_next s" using assms(1) own by (auto simp: coherent_def cells_ok_def)
      then have "cells_ok s1" using assms(1) by (auto simp: s1 coherent_def cells_ok_def goto_def dest: leD)
      moreover have nobody: "rg_callers s j \<noteq> Some (k, Connecting c)" for j k
        using connecting_permit [OF assms(1), of j k c] free by auto
      have "callers_ok s1"
      proof -
        have old: "callers_ok s" using assms(1) by (simp add: coherent_def)
        have "((rg_permit s)(c \<mapsto> i)) d = Some j \<longleftrightarrow>
            (\<exists>k. ((rg_callers s)(i \<mapsto> (key, Connecting c))) j = Some (k, Connecting d))" for d j
          using old assms(2) Waiting nobody free by (cases "j = i"; cases "d = c") (auto simp: callers_ok_def)
        then show ?thesis using old own None by (auto simp: s1 callers_ok_def goto_def)
      qed
      moreover have "engaged s1 k = engaged s k + (if k = key then 1 else 0)" for k
      proof (cases "k = key")
        case True
        then show ?thesis using own None free by (simp add: s1 engaged_def)
      next
        case False
        then have "lookup s k \<noteq> Some c" using cell_owner [OF assms(1) _ own] by blast
        then show ?thesis using False by (auto simp: s1 engaged_def split: option.split)
      qed
      then have "results_ok s1"
        by (intro results_okI [OF assms(1)]) (auto simp: s1 goto_def)
      ultimately show ?thesis using assms(1) by (simp add: s1 coherent_def)
    next
      case (Some a)
      have "coherent (goto i key Returned (s\<lparr>rg_results := rg_results s @ [(key, a)]\<rparr>))"
        using go [OF coherent_result [OF assms(1) own Some], of Returned] Waiting by simp
      then have "coherent ((goto i key Returned (s\<lparr>rg_results := rg_results s @ [(key, a)]\<rparr>))\<lparr>rg_in_flight := rg_in_flight s - {key}\<rparr>)"
        by (simp only: coherent_in_flight)
      moreover have "s1 = leave i key (Some a) s" using assms(3) Waiting Some by simp
      then have "s1 = (goto i key Returned (s\<lparr>rg_results := rg_results s @ [(key, a)]\<rparr>))\<lparr>rg_in_flight := rg_in_flight s - {key}\<rparr>"
        by (cases s) (simp add: leave_def goto_def)
      ultimately show ?thesis by (simp only:)
    qed
  qed (use assms in auto)
qed

lemma coherent_step:
  assumes "coherent s" "download_step ev s = Some s1"
  shows "coherent s1"
proof (cases ev)
  case (Arrive i key)
  then show ?thesis using assms coherent_goto [of s i Looking key] by (auto split: if_splits)
next
  case (Advance i)
  then show ?thesis using assms coherent_caller_step by (auto split: option.splits)
next
  case (Succeed i a)
  then obtain key c where i: "rg_callers s i = Some (key, Connecting c)"
    and s1: "s1 = leave i key (Some a) (release c (s\<lparr>rg_content := (rg_content s)(c \<mapsto> a)\<rparr>))"
    using assms(2) by (auto split: option.splits caller_pc.splits)
  let ?t = "goto i key Returned (release c (s\<lparr>rg_content := (rg_content s)(c \<mapsto> a)\<rparr>))"
  have "coherent ?t" by (rule coherent_close [OF assms(1) i]) simp
  moreover have "lookup ?t key = Some c" "rg_content ?t c = Some a"
    using assms(1) i by (auto simp: goto_def release_def coherent_def callers_ok_def)
  ultimately have "coherent (?t\<lparr>rg_results := rg_results ?t @ [(key, a)]\<rparr>)" by (rule coherent_result)
  then have "coherent ((?t\<lparr>rg_results := rg_results ?t @ [(key, a)]\<rparr>)\<lparr>rg_in_flight := rg_in_flight s - {key}\<rparr>)"
    by (simp only: coherent_in_flight)
  moreover have "s1 = (?t\<lparr>rg_results := rg_results ?t @ [(key, a)]\<rparr>)\<lparr>rg_in_flight := rg_in_flight s - {key}\<rparr>"
    by (simp add: s1 leave_def goto_def release_def)
  ultimately show ?thesis by (simp only:)
next
  case (Fail i)
  then obtain key c where i: "rg_callers s i = Some (key, Connecting c)"
    and s1: "s1 = leave i key None (release c (s\<lparr>rg_lost := rg_lost s @ [key]\<rparr>))"
    using assms(2) by (auto split: option.splits caller_pc.splits)
  have "coherent (goto i key Returned (release c (s\<lparr>rg_lost := rg_lost s @ [key]\<rparr>)))"
    by (rule coherent_lose [OF assms(1) i]) simp
  then show ?thesis by (simp add: s1 leave_def goto_updates)
next
  case (Cancel i)
  then obtain key pc where i: "rg_callers s i = Some (key, pc)"
    using assms(2) by (auto split: option.splits)
  show ?thesis
  proof (cases "\<exists>c. pc = Connecting c")
    case True
    then obtain c where pc: "pc = Connecting c" by blast
    have "coherent (goto i key DroppedCaller (release c (s\<lparr>rg_lost := rg_lost s @ [key]\<rparr>)))"
      using i pc by (intro coherent_lose [OF assms(1)]) auto
    then have "coherent ((goto i key DroppedCaller (release c (s\<lparr>rg_lost := rg_lost s @ [key]\<rparr>)))\<lparr>rg_in_flight := rg_in_flight s - {key}\<rparr>)"
      by simp
    moreover have "s1 = goto i key DroppedCaller
        (release c (s\<lparr>rg_in_flight := rg_in_flight s - {key}, rg_lost := rg_lost s @ [key]\<rparr>))"
      using assms(2) Cancel i pc by simp
    then have "s1 = (goto i key DroppedCaller (release c (s\<lparr>rg_lost := rg_lost s @ [key]\<rparr>)))\<lparr>rg_in_flight := rg_in_flight s - {key}\<rparr>"
      by (cases s) (simp add: goto_def release_def)
    ultimately show ?thesis by (simp only:)
  next
    case False
    then show ?thesis using assms Cancel i coherent_goto [of s i DroppedCaller key]
      by (auto simp: goto_updates split: caller_pc.splits)
  qed
qed

lemma coherent_run: "coherent s \<Longrightarrow> download_run es s = Some s1 \<Longrightarrow> coherent s1"
  by (induction es s rule: download_run.induct) (auto intro: coherent_step split: option.splits)

text \<open>
  C39. Each asset is fetched once: in an unbounded registry, whatever callers arrive, fail and are dropped in
  whatever order, a URL is fetched at most once more than its fetches failed or were dropped, never by two
  callers at once, and all callers that get the asset get the same one.
\<close>

theorem each_asset_is_fetched_once:
  assumes "download_run events (registry_new None) = Some s"
  shows "count_list (rg_sent s) key \<le> count_list (rg_lost s) key + 1 \<and>
    (rg_callers s i = Some (key, Connecting c) \<and> rg_callers s j = Some (key, Connecting d) \<longrightarrow> i = j) \<and>
    ((key, a) \<in> set (rg_results s) \<and> (key, b) \<in> set (rg_results s) \<longrightarrow> a = b)"
proof (intro conjI impI)
  have s: "coherent s" by (rule coherent_run [OF coherent_new assms])
  then have "count_list (rg_sent s) key = count_list (rg_lost s) key + engaged s key"
    unfolding coherent_def results_ok_def by blast
  moreover have "engaged s key \<le> 1" by (simp add: engaged_def split: option.split)
  ultimately show "count_list (rg_sent s) key \<le> count_list (rg_lost s) key + 1" by simp
  show "i = j" if two: "rg_callers s i = Some (key, Connecting c) \<and> rg_callers s j = Some (key, Connecting d)"
  proof -
    have "c = d" using holder_cell [OF s conjunct1 [OF two]] holder_cell [OF s conjunct2 [OF two]] by simp
    then show ?thesis
      using connecting_permit [OF s conjunct1 [OF two]] connecting_permit [OF s conjunct2 [OF two]] by simp
  qed
  show "a = b" if "(key, a) \<in> set (rg_results s) \<and> (key, b) \<in> set (rg_results s)"
    using s that unfolding coherent_def results_ok_def by (metis option.inject)
qed

definition sample_downloads :: "nat download_event list" where
  "sample_downloads =
     Arrive 1 ''u'' # replicate 6 (Advance 1) @ Arrive 2 ''u'' # replicate 5 (Advance 2) @
     [Fail 1, Advance 2, Succeed 2 7, Arrive 3 ''u'', Advance 3]"

theorem each_asset_is_fetched_once_witness:
  "\<exists>s. download_run sample_downloads (registry_new None) = Some s \<and> rg_sent s = [''u'', ''u''] \<and> rg_lost s = [''u''] \<and>
     rg_results s = [(''u'', 7), (''u'', 7)] \<and> count_list (rg_sent s) ''u'' \<le> count_list (rg_lost s) ''u'' + 1"
proof -
  have "\<exists>s. download_run sample_downloads (registry_new None) = Some s \<and> rg_sent s = [''u'', ''u''] \<and> rg_lost s = [''u''] \<and>
      rg_results s = [(''u'', 7), (''u'', 7)]"
    by (simp add: sample_downloads_def registry_new_def goto_def leave_def release_def evict_over_capacity_def numeral_eq_Suc)
  then obtain s where s: "download_run sample_downloads (registry_new None) = Some s" "rg_sent s = [''u'', ''u'']"
      "rg_lost s = [''u'']" "rg_results s = [(''u'', 7), (''u'', 7)]" by blast
  show ?thesis using s conjunct1 [OF each_asset_is_fetched_once [OF s(1), of "''u''"]] by (intro exI [of _ s]) simp
qed

section \<open>The bounded registry\<close>

definition ledger_matches :: "'a asset_registry \<Rightarrow> bool" where
  "ledger_matches s \<longleftrightarrow> distinct (map fst (rg_cells s)) \<and> distinct (il_queue (rg_ledger s)) \<and>
     set (il_queue (rg_ledger s)) = fst ` set (rg_cells s)"

lemma requeue_all: "il_queue (fold requeue ds l) = il_queue l @ ds"
  by (induction ds arbitrary: l) (simp_all add: requeue_def)

lemma without_key: "k \<noteq> key \<Longrightarrow> map_of (filter (\<lambda>(key', _). key' \<noteq> key) xs) k = map_of xs k"
  by (induction xs) auto

lemma without_key_length:
  "distinct (map fst xs) \<Longrightarrow> key \<in> fst ` set xs \<Longrightarrow> Suc (length (filter (\<lambda>(key', _). key' \<noteq> key) xs)) = length xs"
proof (induction xs)
  case (Cons x xs)
  show ?case
  proof (cases "fst x = key")
    case True
    then have "\<forall>y \<in> set xs. fst y \<noteq> key" using Cons.prems(1) by (auto simp: image_iff)
    then have "filter (\<lambda>(key', _). key' \<noteq> key) xs = xs" by (auto simp: filter_id_conv)
    then show ?thesis using True by (cases x) simp
  next
    case False
    then show ?thesis using Cons by (auto simp: split_beta)
  qed
qed simp

lemma without_key_domain: "fst ` set (filter (\<lambda>(key', _). key' \<noteq> key) xs) = fst ` set xs - {key}"
  by force

lemma distinct_without_key: "distinct (map fst xs) \<Longrightarrow> distinct (map fst (filter (\<lambda>(key', _). key' \<noteq> key) xs))"
  by (induction xs) auto

lemma scan_keeps:
  assumes "evict_scan (cell_class content flying) scans excess l cells deferred = (l', cells', deferred')"
    and "distinct (map fst cells)" "distinct (il_queue l @ deferred)" "set (il_queue l @ deferred) = fst ` set cells"
    and "length (il_queue l) \<le> scans" "\<forall>k \<in> set deferred. cell_class content flying cells k = InFlight"
  shows "distinct (map fst cells') \<and> distinct (il_queue l' @ deferred') \<and> set (il_queue l' @ deferred') = fst ` set cells' \<and>
    (il_queue l' = [] \<or> length cells' + excess \<le> length cells) \<and>
    (\<forall>k \<in> set deferred'. cell_class content flying cells' k = InFlight) \<and>
    (\<forall>k. cell_class content flying cells k = InFlight \<longrightarrow> map_of cells' k = map_of cells k)"
  using assms
proof (induction scans arbitrary: excess l cells deferred)
  case (Suc scans)
  show ?case
  proof (cases "excess = 0 \<or> il_queue l = []")
    case True
    then show ?thesis using Suc.prems by (cases excess) (auto simp: pop_oldest_def)
  next
    case False
    then obtain key rest n where Cons: "il_queue l = key # rest" and n: "excess = Suc n"
      by (cases excess; cases "il_queue l") auto
    let ?l1 = "l\<lparr>il_queue := rest\<rparr>"
    have pop: "pop_oldest l = Some (key, ?l1)" using Cons by (simp add: pop_oldest_def)
    have key: "key \<notin> set rest" "key \<notin> set deferred" "key \<in> fst ` set cells" using Suc.prems Cons by auto
    show ?thesis
    proof (cases "cell_class content flying cells key = InFlight")
      case True
      then have run: "evict_scan (cell_class content flying) scans excess ?l1 cells (deferred @ [key]) = (l', cells', deferred')"
        using Suc.prems(1) pop n by simp
      show ?thesis using Suc.IH [OF run] Suc.prems Cons True key by auto
    next
      case False
      let ?cells = "filter (\<lambda>(key', _). key' \<noteq> key) cells"
      have run: "evict_scan (cell_class content flying) scans n (forget key ?l1) ?cells deferred = (l', cells', deferred')"
        using Suc.prems(1) pop False n by (simp split: cell_state.splits)
      have same: "cell_class content flying ?cells k = cell_class content flying cells k" if "k \<noteq> key" for k
        using that by (simp add: cell_class_def without_key)
      have other: "\<forall>k \<in> set deferred. cell_class content flying ?cells k = InFlight"
        using Suc.prems(6) key(2) same by metis
      have dom: "set rest \<union> set deferred = fst ` set ?cells"
        using Suc.prems(4) Cons key unfolding without_key_domain by auto
      have ih: "distinct (map fst cells') \<and> distinct (il_queue l' @ deferred') \<and> set (il_queue l' @ deferred') = fst ` set cells' \<and>
          (il_queue l' = [] \<or> length cells' + n \<le> length ?cells) \<and>
          (\<forall>k \<in> set deferred'. cell_class content flying cells' k = InFlight) \<and>
          (\<forall>k. cell_class content flying ?cells k = InFlight \<longrightarrow> map_of cells' k = map_of ?cells k)"
        by (rule Suc.IH [OF run])
          (use Suc.prems Cons key other dom in \<open>simp_all add: forget_def distinct_without_key\<close>)
      have "cell_class content flying cells k = InFlight \<Longrightarrow> map_of cells' k = map_of cells k" for k
        using ih same [of k] False without_key [of k key cells] by metis
      then show ?thesis using ih without_key_length [OF Suc.prems(2) key(3)] n by auto
    qed
  qed
qed auto

lemma scan_subset:
  "evict_scan classify scans excess l cells deferred = (l', cells', deferred') \<Longrightarrow> set cells' \<subseteq> set cells"
proof (induction scans arbitrary: excess l cells deferred)
  case (Suc scans)
  then show ?case by (cases excess) (fastforce split: option.splits cell_state.splits prod.splits)+
qed simp

text \<open>
  Eviction frees what it may: when the ledger lists the cells, eviction leaves at most the capacity, or
  only cells whose download is in flight; a cell in flight is never evicted; and the ledger lists the
  remaining cells.
\<close>

theorem eviction_frees_what_it_may:
  assumes "ledger_matches s" "rg_capacity s = Some capacity"
  shows "(length (rg_cells (evict_over_capacity s)) \<le> capacity \<or>
      list_all (\<lambda>(k, _). cell_class (rg_content s) (rg_in_flight s) (rg_cells s) k = InFlight) (rg_cells (evict_over_capacity s))) \<and>
    (cell_class (rg_content s) (rg_in_flight s) (rg_cells s) key = InFlight \<longrightarrow>
      lookup (evict_over_capacity s) key = lookup s key) \<and>
    ledger_matches (evict_over_capacity s)"
proof (cases "length (rg_cells s) \<le> capacity")
  case True
  then show ?thesis using assms by (simp add: evict_over_capacity_def)
next
  case False
  let ?kind = "cell_class (rg_content s) (rg_in_flight s)"
  obtain l cells deferred where run: "evict_scan ?kind (length (il_queue (rg_ledger s))) (length (rg_cells s) - capacity)
      (rg_ledger s) (rg_cells s) [] = (l, cells, deferred)"
    by (cases "evict_scan ?kind (length (il_queue (rg_ledger s))) (length (rg_cells s) - capacity)
      (rg_ledger s) (rg_cells s) []") auto
  have after: "evict_over_capacity s = s\<lparr>rg_ledger := fold requeue deferred l, rg_cells := cells\<rparr>"
    using False assms(2) run by (simp add: evict_over_capacity_def)
  have kept: "distinct (map fst cells)" "distinct (il_queue l @ deferred)" "set (il_queue l @ deferred) = fst ` set cells"
      "il_queue l = [] \<or> length cells + (length (rg_cells s) - capacity) \<le> length (rg_cells s)"
      "\<forall>k \<in> set deferred. ?kind cells k = InFlight"
      "\<forall>k. ?kind (rg_cells s) k = InFlight \<longrightarrow> map_of cells k = map_of (rg_cells s) k"
    using scan_keeps [OF run] assms(1) by (simp_all add: ledger_matches_def)
  have sub: "set cells \<subseteq> set (rg_cells s)"
    by (rule scan_subset [OF run])
  have "length cells \<le> capacity \<or> list_all (\<lambda>(k, _). ?kind (rg_cells s) k = InFlight) cells"
  proof (cases "il_queue l = []")
    case True
    have "?kind (rg_cells s) k = InFlight" if "(k, c) \<in> set cells" for k c
    proof -
      have "k \<in> set deferred" using kept(3) True that by force
      then have "?kind cells k = InFlight" using kept(5) by blast
      moreover have "map_of cells k = Some c" using that kept(1) by simp
      moreover have "map_of (rg_cells s) k = Some c" using that sub assms(1) by (auto simp: ledger_matches_def)
      ultimately show ?thesis by (simp add: cell_class_def)
    qed
    then show ?thesis by (auto simp: list_all_iff)
  next
    case False
    then have "length cells \<le> capacity" using kept(4) \<open>\<not> length (rg_cells s) \<le> capacity\<close> by linarith
    then show ?thesis ..
  qed
  then show ?thesis using kept by (simp add: after ledger_matches_def requeue_all)
qed

text \<open>
  A bounded registry gives no such promise. A failed attempt removes the marker of its URL although another
  caller goes on with it; that cell is then evicted as abandoned, and the next caller of the URL
  opens a second connection beside the first.
\<close>

definition lost_marker_downloads :: "nat download_event list" where
  "lost_marker_downloads =
     Arrive 1 ''u'' # replicate 6 (Advance 1) @ Arrive 2 ''u'' # replicate 5 (Advance 2) @ [Fail 1, Advance 2] @
     Arrive 3 ''x'' # replicate 6 (Advance 3) @ Arrive 4 ''u'' # replicate 6 (Advance 4)"

lemma lost_marker_opens_second_connection:
  "\<exists>s c d. download_run lost_marker_downloads (registry_new (Some 1)) = Some s \<and>
     rg_callers s 2 = Some (''u'', Connecting c) \<and> rg_callers s 4 = Some (''u'', Connecting d)"
  by (simp add: lost_marker_downloads_def registry_new_def goto_def leave_def release_def evict_over_capacity_def
      push_new_def requeue_def pop_oldest_def forget_def cell_class_def numeral_eq_Suc)

theorem eviction_frees_what_it_may_witness:
  "rg_cells (evict_over_capacity
     ((registry_new (Some 1) :: nat asset_registry)\<lparr>rg_cells := [(''a'', 0), (''b'', 1)], rg_content := [1 \<mapsto> 7], rg_in_flight := {''a''},
        rg_ledger := \<lparr>il_queue = [''a'', ''b''], il_seen = {''a'', ''b''}\<rparr>\<rparr>)) = [(''a'', 0)] \<and>
   ledger_matches (evict_over_capacity
     ((registry_new (Some 1) :: nat asset_registry)\<lparr>rg_cells := [(''a'', 0), (''b'', 1)], rg_content := [1 \<mapsto> 7], rg_in_flight := {''a''},
        rg_ledger := \<lparr>il_queue = [''a'', ''b''], il_seen = {''a'', ''b''}\<rparr>\<rparr>))" (is "_ (evict_over_capacity ?s) = _ \<and> _")
proof -
  have "ledger_matches ?s" "rg_capacity ?s = Some 1" by (simp_all add: ledger_matches_def registry_new_def)
  from eviction_frees_what_it_may [OF this] have "ledger_matches (evict_over_capacity ?s)" by blast
  then show ?thesis
    by (simp add: registry_new_def evict_over_capacity_def pop_oldest_def requeue_def forget_def cell_class_def numeral_eq_Suc)
qed

end
