(* ===== verification/Filename.thy ===== *)
theory Filename
  imports Url_Validation
begin

text \<open>
  Download filenames: \<^verbatim>\<open>domain/crawler_port/filename.rs\<close>. Names come from a server's
  \<^verbatim>\<open>Content-Disposition\<close> header or from a URL path and are made into one safe path component. The standard
  library's default hasher, whose algorithm it does not specify, is the argument \<open>hash\<close>. Slicing a string
  past its end is a panic and gives \<open>None\<close>.
\<close>

section \<open>Reserved names\<close>

definition MAX_FILENAME_LEN :: nat where
  "MAX_FILENAME_LEN = 255"

definition WINDOWS_RESERVED :: "string list" where
  "WINDOWS_RESERVED =
     [''CON'', ''PRN'', ''AUX'', ''NUL'', ''COM1'', ''COM2'', ''COM3'', ''COM4'', ''COM5'', ''COM6'', ''COM7'',
      ''COM8'', ''COM9'', ''LPT1'', ''LPT2'', ''LPT3'', ''LPT4'', ''LPT5'', ''LPT6'', ''LPT7'', ''LPT8'', ''LPT9'']"

definition RESERVED_SAFE_SUFFIX :: string where
  "RESERVED_SAFE_SUFFIX = ''_safe''"

definition WINDOWS_INVALID_COMPONENT_CHARS :: "char list" where
  "WINDOWS_INVALID_COMPONENT_CHARS =
     [CHR ''<'', CHR ''>'', CHR 0x22, CHR ''|'', CHR ''?'', CHR ''*'', CHR '':'']"

definition INVALID_CHAR_REPLACEMENT :: char where
  "INVALID_CHAR_REPLACEMENT = CHR ''_''"

definition to_ascii_upper :: "char \<Rightarrow> char" where
  "to_ascii_upper c = (let n = of_char c :: nat in if 97 \<le> n \<and> n \<le> 122 then char_of (n - 32) else c)"

definition is_windows_reserved :: "string \<Rightarrow> bool" where
  "is_windows_reserved name =
     (let stem = hd (split_on (CHR ''.'') name) in map to_ascii_upper stem \<in> set WINDOWS_RESERVED)"

section \<open>Header values\<close>

text \<open>\<^verbatim>\<open>u8::from_str_radix(hex, 16)\<close> on the at most two characters after a percent sign.\<close>

fun percent_decode :: "string \<Rightarrow> string" where
  "percent_decode [] = []"
| "percent_decode (c # cs) =
     (if c = CHR ''%''
      then (let hex = take 2 cs in
            case from_str_radix 8 16 hex of
              Some b \<Rightarrow> char_of b # percent_decode (drop 2 cs)
            | None \<Rightarrow> CHR ''%'' # hex @ percent_decode (drop 2 cs))
      else c # percent_decode cs)"

definition trim_matches :: "(char \<Rightarrow> bool) \<Rightarrow> string \<Rightarrow> string" where
  "trim_matches P s = rev (dropWhile P (rev (dropWhile P s)))"

fun find_map :: "('a \<Rightarrow> 'b option) \<Rightarrow> 'a list \<Rightarrow> 'b option" where
  "find_map f [] = None"
| "find_map f (x # xs) = (case f x of Some y \<Rightarrow> Some y | None \<Rightarrow> find_map f xs)"

definition extended_filename :: "string \<Rightarrow> string option" where
  "extended_filename part =
     (case strip_prefix ''filename*='' (trim part) of
        None \<Rightarrow> None
      | Some rest \<Rightarrow>
          (case strip_prefix (''UTF-8'' @ [CHR 0x27, CHR 0x27]) rest of
             None \<Rightarrow> None
           | Some name \<Rightarrow> (let decoded = percent_decode name in if decoded = [] then None else Some decoded)))"

definition plain_filename :: "string \<Rightarrow> string option" where
  "plain_filename part =
     (case strip_prefix ''filename='' (trim part) of
        None \<Rightarrow> None
      | Some rest \<Rightarrow>
          (let name = trim_matches (\<lambda>c. c = CHR 0x22 \<or> c = CHR 0x27) rest in
           if name = [] then None else Some name))"

definition parse_content_disposition :: "string \<Rightarrow> string option" where
  "parse_content_disposition v =
     (let parts = split_on (CHR '';'') v in
      or_else (find_map extended_filename parts) (find_map plain_filename parts))"

section \<open>Sanitising\<close>

text \<open>\<^verbatim>\<open>char::is_control\<close>: the general category Cc.\<close>

definition is_control :: "char \<Rightarrow> bool" where
  "is_control c = (let n = of_char c :: nat in n < 32 \<or> 127 \<le> n \<and> n < 160)"

fun split_any :: "('a \<Rightarrow> bool) \<Rightarrow> 'a list \<Rightarrow> 'a list list" where
  "split_any P [] = [[]]"
| "split_any P (x # xs) =
     (if P x then [] # split_any P xs
      else (case split_any P xs of [] \<Rightarrow> [[x]] | p # ps \<Rightarrow> (x # p) # ps))"

definition is_separator :: "char \<Rightarrow> bool" where
  "is_separator c = (c = CHR ''/'' \<or> c = CHR 0x5C)"

definition neutralize_windows_invalid_chars :: "string \<Rightarrow> string" where
  "neutralize_windows_invalid_chars name =
     map (\<lambda>c. if c \<in> set WINDOWS_INVALID_COMPONENT_CHARS then INVALID_CHAR_REPLACEMENT else c) name"

definition trim_end_matches :: "(char \<Rightarrow> bool) \<Rightarrow> string \<Rightarrow> string" where
  "trim_end_matches P s = rev (dropWhile P (rev s))"

definition trim_windows_trailing_dots_and_spaces :: "string \<Rightarrow> string" where
  "trim_windows_trailing_dots_and_spaces name = trim_end_matches (\<lambda>c. c = CHR ''.'' \<or> c = CHR '' '') name"

text \<open>\<^verbatim>\<open>format!("{:08x}")\<close>: at least eight digits, up to sixteen for a 64-bit value.\<close>

definition hex08 :: "u64 \<Rightarrow> string" where
  "hex08 h = (let d = show_radix 16 (unat h) in replicate (8 - length d) (CHR ''0'') @ d)"

definition cap_filename :: "(string \<Rightarrow> u64) \<Rightarrow> string \<Rightarrow> string" where
  "cap_filename hash candidate =
     (let hash8 = hex08 (hash candidate);
          max_prefix_bytes = MAX_FILENAME_LEN - 1 - byte_len hash8
      in take_bytes max_prefix_bytes candidate @ ''-'' @ hash8)"

definition sanitize_filename_component :: "(string \<Rightarrow> u64) \<Rightarrow> string \<Rightarrow> string option" where
  "sanitize_filename_component hash name =
     (let cleaned = filter (\<lambda>c. \<not> is_control c) name in
      case find (\<lambda>segment. segment \<noteq> [] \<and> segment \<noteq> ''.'' \<and> segment \<noteq> ''..'') (rev (split_any is_separator cleaned)) of
        None \<Rightarrow> None
      | Some segment \<Rightarrow>
          (let trimmed = trim_windows_trailing_dots_and_spaces (neutralize_windows_invalid_chars segment) in
           if trimmed = [] then None
           else (let candidate = (if is_windows_reserved trimmed then trimmed @ RESERVED_SAFE_SUFFIX else trimmed) in
                 if byte_len candidate \<le> MAX_FILENAME_LEN then Some candidate
                 else Some (cap_filename hash candidate))))"

definition confine_filename_component :: "(string \<Rightarrow> u64) \<Rightarrow> string \<Rightarrow> string \<Rightarrow> string" where
  "confine_filename_component hash raw fallback = unwrap_or (sanitize_filename_component hash raw) fallback"

section \<open>Derivation\<close>

definition extension_of :: "string \<Rightarrow> string" where
  "extension_of ct =
     (if contains_str ''application/pdf'' ct then ''pdf''
      else if contains_str ''application/zip'' ct then ''zip''
      else if contains_str ''application/x-tar'' ct then ''tar''
      else if contains_str ''image/png'' ct then ''png''
      else if contains_str ''image/jpeg'' ct then ''jpg''
      else if contains_str ''image/gif'' ct then ''gif''
      else if contains_str ''image/webp'' ct then ''webp''
      else if contains_str ''image/svg'' ct then ''svg''
      else if contains_str ''audio/mpeg'' ct then ''mp3''
      else if contains_str ''video/mp4'' ct then ''mp4''
      else ''bin'')"

definition truncate_on_char_boundary :: "string \<Rightarrow> nat \<Rightarrow> string" where
  "truncate_on_char_boundary v max_bytes = (if byte_len v \<le> max_bytes then v else take_bytes max_bytes v)"

definition fallback_filename :: "(string \<Rightarrow> u64) \<Rightarrow> string option \<Rightarrow> string \<Rightarrow> string \<Rightarrow> string option" where
  "fallback_filename hash host_str path content_type =
     (let ext = extension_of content_type;
          path_hash = show_radix 16 (unat (hash path))
      in if length path_hash < 8 then None
         else (let host = map (\<lambda>c. if c = CHR ''.'' then CHR ''_'' else c) (unwrap_or host_str ''unknown'');
                   hash8 = take 8 path_hash;
                   tail_len = 1 + byte_len hash8 + 1 + byte_len ext;
                   host1 = truncate_on_char_boundary host (MAX_FILENAME_LEN - tail_len)
               in Some (host1 @ ''_'' @ hash8 @ ''.'' @ ext)))"

definition derive_filename_from_content_disposition ::
  "'u url_api \<Rightarrow> (string \<Rightarrow> u64) \<Rightarrow> string option \<Rightarrow> 'u \<Rightarrow> string \<Rightarrow> string option" where
  "derive_filename_from_content_disposition api hash content_disposition url content_type =
     (case Option.bind (Option.bind content_disposition parse_content_disposition) (sanitize_filename_component hash) of
        Some name \<Rightarrow> Some name
      | None \<Rightarrow>
          (let path = api_path api url;
               basename = last (split_on (CHR ''/'') path);
               from_path =
                 (if basename \<noteq> [] \<and> basename \<noteq> ''/''
                  then sanitize_filename_component hash (hd (split_on (CHR ''?'') basename)) else None)
           in case from_path of
                Some safe \<Rightarrow> Some safe
              | None \<Rightarrow> fallback_filename hash (api_host_str api url) path content_type))"

text \<open>One path component that every supported file system takes, the reserved names apart.\<close>

definition safe_char :: "char \<Rightarrow> bool" where
  "safe_char c = (\<not> is_separator c \<and> \<not> is_control c \<and> c \<notin> set WINDOWS_INVALID_COMPONENT_CHARS)"

definition safe_component :: "string \<Rightarrow> bool" where
  "safe_component s =
     (s \<noteq> [] \<and> list_all safe_char s \<and> last s \<noteq> CHR ''.'' \<and> last s \<noteq> CHR '' '' \<and> byte_len s \<le> MAX_FILENAME_LEN)"

section \<open>Characters of a sanitised name\<close>

lemma safe_literals [simp]:
  "list_all safe_char RESERVED_SAFE_SUFFIX" "safe_char (CHR ''_'')" "safe_char (CHR ''-'')" "safe_char (CHR ''.'')"
  "list_all safe_char ''0123456789abcdef''"
  by (simp_all add: RESERVED_SAFE_SUFFIX_def safe_char_def is_separator_def is_control_def
      WINDOWS_INVALID_COMPONENT_CHARS_def of_char_def)

lemma hex_digits_safe: "list_all safe_char (show_radix 16 n)"
  using show_radix_digits [of n] safe_literals(5) by (auto simp: list_all_iff)

lemma hex_digits_len1: "c \<in> set (show_radix 16 n) \<Longrightarrow> len_utf8 c = 1"
proof -
  assume "c \<in> set (show_radix 16 n)"
  moreover have "\<forall>c \<in> set ''0123456789abcdef''. len_utf8 c = 1" by (simp add: len_utf8_def of_char_def)
  ultimately show ?thesis using show_radix_digits by blast
qed

lemma hex_digits_last: "last (show_radix 16 n) \<noteq> CHR ''.''" "last (show_radix 16 n) \<noteq> CHR '' ''"
proof -
  have "show_radix 16 n \<noteq> []" by (subst show_radix.simps) simp
  then have "last (show_radix 16 n) \<in> set ''0123456789abcdef''" using show_radix_digits last_in_set by blast
  then show "last (show_radix 16 n) \<noteq> CHR ''.''" "last (show_radix 16 n) \<noteq> CHR '' ''" by auto
qed

lemma show_radix_not_Nil [simp]: "show_radix r n \<noteq> []"
  by (subst show_radix.simps) simp

lemma byte_len_hex: "byte_len (show_radix 16 (unat (h :: u64))) \<le> 16"
proof -
  have "unat h < 16 ^ Suc 15" using unsigned_less [of h, where 'a = nat] by simp
  from show_radix_length [OF this] show ?thesis
    using byte_len_ascii [of "show_radix 16 (unat h)"] hex_digits_len1 by simp
qed

lemma byte_len_hex08: "byte_len (hex08 h) \<le> 16"
proof -
  have "byte_len (replicate k (CHR ''0'')) = k" for k by (induction k) (simp_all add: len_utf8_def of_char_def)
  moreover have "byte_len (show_radix 16 (unat h)) = length (show_radix 16 (unat h))"
    using byte_len_ascii hex_digits_len1 by blast
  ultimately show ?thesis using byte_len_hex [of h] by (simp add: hex08_def Let_def)
qed

lemma split_any_nonempty [simp]: "split_any P xs \<noteq> []"
  by (induction xs) (auto split: list.splits)

lemma split_any_pieces: "p \<in> set (split_any P xs) \<Longrightarrow> set p \<subseteq> {x \<in> set xs. \<not> P x}"
proof (induction xs arbitrary: p)
  case (Cons x xs)
  obtain q qs where q: "split_any P xs = q # qs" by (cases "split_any P xs") auto
  with Cons show ?case by (fastforce split: if_splits)
qed simp

lemma neutralized_safe:
  "list_all (\<lambda>c. \<not> is_separator c \<and> \<not> is_control c) s \<Longrightarrow> list_all safe_char (neutralize_windows_invalid_chars s)"
proof (induction s)
  case (Cons c s)
  then have "safe_char c" if "c \<notin> set WINDOWS_INVALID_COMPONENT_CHARS" using that by (simp add: safe_char_def)
  with Cons show ?case by (simp add: neutralize_windows_invalid_chars_def INVALID_CHAR_REPLACEMENT_def)
qed (simp add: neutralize_windows_invalid_chars_def)

lemma trim_end_safe:
  "list_all P s \<Longrightarrow> list_all P (trim_end_matches Q s)"
  by (auto simp: trim_end_matches_def list_all_iff dest: set_dropWhileD)

lemma trim_end_last: "trim_end_matches Q s \<noteq> [] \<Longrightarrow> \<not> Q (last (trim_end_matches Q s))"
  by (simp add: trim_end_matches_def last_rev hd_dropWhile)

lemma cap_filename_safe:
  assumes "list_all safe_char s"
  shows "safe_component (cap_filename hash s)"
proof -
  have "list_all safe_char (take_bytes n s)" for n
    using assms set_take_bytes by (auto simp: list_all_iff)
  moreover have "list_all safe_char (hex08 h)" for h
    using hex_digits_safe safe_literals(5) by (auto simp: hex08_def Let_def list_all_iff)
  moreover have "byte_len (take_bytes (MAX_FILENAME_LEN - 1 - byte_len (hex08 h)) s) + 1 + byte_len (hex08 h) \<le> MAX_FILENAME_LEN" for h
    using byte_len_take_bytes [of "MAX_FILENAME_LEN - 1 - byte_len (hex08 h)" s] byte_len_hex08 [of h]
    by (simp add: MAX_FILENAME_LEN_def)
  moreover have "len_utf8 (CHR ''-'') = 1" by (simp add: len_utf8_def of_char_def)
  ultimately show ?thesis
    using hex_digits_last by (simp add: safe_component_def cap_filename_def Let_def hex08_def)
qed

lemma sanitize_safe:
  assumes "sanitize_filename_component hash name = Some s"
  shows "safe_component s"
proof -
  let ?pieces = "split_any is_separator (filter (\<lambda>c. \<not> is_control c) name)"
  obtain seg where seg: "find (\<lambda>segment. segment \<noteq> [] \<and> segment \<noteq> ''.'' \<and> segment \<noteq> ''..'') (rev ?pieces) = Some seg"
    using assms by (auto simp: sanitize_filename_component_def Let_def split: option.splits)
  define t where "t = trim_windows_trailing_dots_and_spaces (neutralize_windows_invalid_chars seg)"
  define c where "c = (if is_windows_reserved t then t @ RESERVED_SAFE_SUFFIX else t)"
  have "seg \<in> set ?pieces" using seg by (auto simp: find_Some_iff) (metis nth_mem length_rev set_rev)
  then have "list_all (\<lambda>c. \<not> is_separator c \<and> \<not> is_control c) seg"
    using split_any_pieces by (fastforce simp: list_all_iff)
  then have safe_t: "list_all safe_char t"
    by (simp add: t_def trim_windows_trailing_dots_and_spaces_def trim_end_safe neutralized_safe)
  have t: "t \<noteq> []" and s: "s = (if byte_len c \<le> MAX_FILENAME_LEN then c else cap_filename hash c)"
    using assms seg by (auto simp: sanitize_filename_component_def Let_def t_def c_def split: if_splits)
  have "list_all safe_char c" "c \<noteq> []" using safe_t t by (simp_all add: c_def)
  moreover have "last c \<noteq> CHR ''.''" "last c \<noteq> CHR '' ''"
    using trim_end_last [of _ "neutralize_windows_invalid_chars seg"] t
    by (auto simp: c_def t_def trim_windows_trailing_dots_and_spaces_def RESERVED_SAFE_SUFFIX_def)
  ultimately show ?thesis unfolding s using cap_filename_safe by (simp add: safe_component_def)
qed

lemma show_radix_length_ge: "16 ^ k \<le> n \<Longrightarrow> Suc k \<le> length (show_radix 16 n)"
proof (induction k arbitrary: n)
  case 0
  then show ?case by (simp add: Suc_le_eq)
next
  case (Suc k)
  then have "16 ^ k \<le> n div 16" "16 \<le> n" by (simp_all add: less_eq_div_iff_mult_less_eq mult.commute)
      (metis Suc.prems le_trans one_le_numeral one_le_power mult_le_mono1 mult_1 power_Suc2)
  with Suc.IH [of "n div 16"] show ?case by (subst show_radix.simps) simp
qed

lemma extension_safe:
  "list_all safe_char (extension_of ct)" "extension_of ct \<noteq> []" "byte_len (extension_of ct) \<le> 4"
  "last (extension_of ct) \<noteq> CHR ''.''" "last (extension_of ct) \<noteq> CHR '' ''"
proof -
  have "extension_of ct \<in> {''pdf'', ''zip'', ''tar'', ''png'', ''jpg'', ''gif'', ''webp'', ''svg'', ''mp3'', ''mp4'', ''bin''}"
    by (simp add: extension_of_def)
  then show "list_all safe_char (extension_of ct)" "extension_of ct \<noteq> []" "byte_len (extension_of ct) \<le> 4"
    "last (extension_of ct) \<noteq> CHR ''.''" "last (extension_of ct) \<noteq> CHR '' ''"
    by (auto simp: safe_char_def is_separator_def is_control_def WINDOWS_INVALID_COMPONENT_CHARS_def of_char_def
        len_utf8_def)
qed

lemma truncated_safe:
  "list_all P v \<Longrightarrow> list_all P (truncate_on_char_boundary v n)" "byte_len (truncate_on_char_boundary v n) \<le> n"
  using byte_len_take_bytes set_take_bytes [of n v]
  by (auto simp: truncate_on_char_boundary_def list_all_iff)

lemma fallback_safe:
  assumes "fallback_filename hash host path ct = Some s" and "list_all safe_char (unwrap_or host ''unknown'')"
  shows "safe_component s"
proof -
  let ?h = "map (\<lambda>c. if c = CHR ''.'' then CHR ''_'' else c) (unwrap_or host ''unknown'')"
  let ?d = "take 8 (show_radix 16 (unat (hash path)))"
  let ?e = "extension_of ct"
  let ?n = "MAX_FILENAME_LEN - (1 + byte_len ?d + 1 + byte_len ?e)"
  have s: "s = truncate_on_char_boundary ?h ?n @ ''_'' @ ?d @ ''.'' @ ?e"
    using assms(1) by (simp add: fallback_filename_def Let_def split: if_splits)
  have "list_all safe_char ?h" using assms(2) by (auto simp: list_all_iff)
  moreover have "list_all safe_char ?d" using hex_digits_safe by (auto simp: list_all_iff dest: in_set_takeD)
  moreover have "byte_len ?d \<le> 8"
  proof -
    have "\<forall>c \<in> set ?d. len_utf8 c = 1" using hex_digits_len1 by (blast dest: in_set_takeD)
    from byte_len_ascii [OF this] show ?thesis by simp
  qed
  ultimately show ?thesis
    using truncated_safe(1) [of safe_char ?h ?n] truncated_safe(2) [of ?h ?n] extension_safe [of ct]
    by (simp add: s safe_component_def MAX_FILENAME_LEN_def len_utf8_def of_char_def)
qed

text \<open>
  A downloaded file stays in its directory: whatever a server puts into \<^verbatim>\<open>Content-Disposition\<close> or into the
  URL path, the derived name is one path component without separators, control characters or characters
  Windows reserves, is neither a dot nor two dots, has no trailing dot or space, and has at most 255 bytes;
  and a name is derived whenever the hash of the path has at least eight hexadecimal digits. The host,
  used in the fallback name, is assumed to have such characters only, as domain names do.
\<close>

theorem derived_filename_is_safe_component:
  assumes "list_all safe_char (unwrap_or (api_host_str api url) ''unknown'')"
  shows "(derive_filename_from_content_disposition api hash header url content_type = Some s \<longrightarrow>
            safe_component s \<and> s \<noteq> ''.'' \<and> s \<noteq> ''..'')
    \<and> (268435456 \<le> unat (hash (api_path api url)) \<longrightarrow>
            derive_filename_from_content_disposition api hash header url content_type \<noteq> None)"
proof (intro conjI impI)
  assume d: "derive_filename_from_content_disposition api hash header url content_type = Some s"
  have "safe_component s"
    using d sanitize_safe fallback_safe [OF _ assms]
    by (auto simp: derive_filename_from_content_disposition_def Let_def bind_eq_Some_conv split: option.splits if_splits)
  then show "safe_component s" "s \<noteq> ''.''" "s \<noteq> ''..''" by (auto simp: safe_component_def)
next
  assume "268435456 \<le> unat (hash (api_path api url))"
  then have "\<not> length (show_radix 16 (unat (hash (api_path api url)))) < 8"
    using show_radix_length_ge [of 7 "unat (hash (api_path api url))"] by simp
  then show "derive_filename_from_content_disposition api hash header url content_type \<noteq> None"
    by (auto simp: derive_filename_from_content_disposition_def fallback_filename_def Let_def split: option.splits)
qed

theorem derived_filename_is_safe_component_witness:
  "derive_filename_from_content_disposition small_api (\<lambda>s. 268435456) (Some ''filename=../../etc/passwd'')
     \<lparr>su_base = ''https://h'', su_path = ''/x'', su_query = []\<rparr> ''text/plain'' \<noteq> None"
  by (rule derived_filename_is_safe_component [THEN conjunct2, rule_format])
    (simp_all add: small_api_def safe_char_def is_separator_def is_control_def
      WINDOWS_INVALID_COMPONENT_CHARS_def of_char_def)

text \<open>
  A reserved device name with an extension stays reserved: Windows takes everything before the first
  dot for the device, and the suffix is appended after the extension. The repaired name is refused again
  and repaired again, so the operation is not idempotent.
\<close>

theorem reserved_name_with_extension_stays_reserved:
  "sanitize_filename_component hash ''CON.txt'' = Some ''CON.txt_safe''
   \<and> is_windows_reserved ''CON.txt_safe''
   \<and> sanitize_filename_component hash ''CON.txt_safe'' = Some ''CON.txt_safe_safe''"
  by (simp add: sanitize_filename_component_def is_control_def of_char_def is_separator_def Let_def
      trim_windows_trailing_dots_and_spaces_def trim_end_matches_def neutralize_windows_invalid_chars_def
      WINDOWS_INVALID_COMPONENT_CHARS_def is_windows_reserved_def to_ascii_upper_def WINDOWS_RESERVED_def
      RESERVED_SAFE_SUFFIX_def MAX_FILENAME_LEN_def len_utf8_def)

end
