(* ===== verification/Std_Path.thy ===== *)
theory Std_Path
  imports Prelude
begin

text \<open>
  What the program uses of \<^verbatim>\<open>std::path\<close> on a POSIX host: the components of a path string, and the paths
  themselves as lists of components, with \<^verbatim>\<open>push\<close>, \<^verbatim>\<open>pop\<close>, \<^verbatim>\<open>parent\<close> and \<^verbatim>\<open>file_name\<close>.
\<close>

datatype component = RootDir | CurDir | ParentDir | Normal string

type_synonym path = "component list"

definition has_root :: "string \<Rightarrow> bool" where
  "has_root raw = starts_with ''/'' raw"

fun component_of :: "string \<Rightarrow> component option" where
  "component_of part =
     (if part = [] \<or> part = ''.'' then None else if part = ''..'' then Some ParentDir else Some (Normal part))"

text \<open>A leading dot is kept on a path that has no root; later ones and empty parts are not components.\<close>

definition components :: "string \<Rightarrow> path" where
  "components raw =
     (let parts = split_on (CHR ''/'') raw in
      (if has_root raw then [RootDir] else if hd parts = ''.'' then [CurDir] else [])
      @ List.map_filter component_of parts)"

definition path_push :: "path \<Rightarrow> component \<Rightarrow> path" where
  "path_push p c = (if c = RootDir then [RootDir] else p @ [c])"

definition parent :: "path \<Rightarrow> path option" where
  "parent p = (if p = [] \<or> last p = RootDir then None else Some (butlast p))"

definition path_pop :: "path \<Rightarrow> path" where
  "path_pop p = unwrap_or (parent p) p"

definition file_name :: "path \<Rightarrow> string option" where
  "file_name p = (if p = [] then None else case last p of Normal n \<Rightarrow> Some n | _ \<Rightarrow> None)"

fun os_str :: "component \<Rightarrow> string" where
  "os_str RootDir = ''/''"
| "os_str CurDir = ''.''"
| "os_str ParentDir = ''..''"
| "os_str (Normal n) = n"

text \<open>\<^verbatim>\<open>Path::join\<close> on strings.\<close>

definition path_join :: "string \<Rightarrow> string \<Rightarrow> string" where
  "path_join base p =
     (if has_root p then p
      else if base = [] then p
      else if ends_with ''/'' base then base @ p else base @ ''/'' @ p)"

definition is_normal :: "component \<Rightarrow> bool" where
  "is_normal c = (case c of Normal _ \<Rightarrow> True | _ \<Rightarrow> False)"

section \<open>Components of a string\<close>

lemma split_on_pieces: "p \<in> set (split_on c s) \<Longrightarrow> c \<notin> set p \<and> set p \<subseteq> set s"
proof (induction s arbitrary: p)
  case (Cons x xs)
  obtain y ys where y: "split_on c xs = y # ys" using split_on_nonempty [of c xs] by (cases "split_on c xs") auto
  have "y \<in> set (split_on c xs)" "\<And>q. q \<in> set ys \<Longrightarrow> q \<in> set (split_on c xs)" using y by auto
  then have "c \<notin> set y" "set y \<subseteq> set xs" "\<And>q. q \<in> set ys \<Longrightarrow> c \<notin> set q \<and> set q \<subseteq> set xs"
    using Cons.IH by blast+
  then show ?case using Cons.prems y by (auto split: if_splits)
qed simp

lemma set_map_filter: "set (List.map_filter f xs) = {y. \<exists>x \<in> set xs. f x = Some y}"
  by (force simp: List.map_filter_def)

lemma component_of_Some:
  "component_of part = Some c \<longleftrightarrow>
     part \<noteq> [] \<and> part \<noteq> ''.'' \<and> (part = ''..'' \<and> c = ParentDir \<or> part \<noteq> ''..'' \<and> c = Normal part)"
  by auto

text \<open>A normal component is not empty, is no dot and holds no separator.\<close>

lemma normal_in_components:
  "Normal n \<in> set (components raw) \<Longrightarrow>
     n \<noteq> [] \<and> n \<noteq> ''.'' \<and> n \<noteq> ''..'' \<and> CHR ''/'' \<notin> set n \<and> set n \<subseteq> set raw"
  using split_on_pieces [of n "CHR ''/''" raw]
  by (auto simp: components_def Let_def set_map_filter component_of_Some simp del: component_of.simps split: if_splits)

lemma root_only_first: "components raw = pre @ RootDir # post \<Longrightarrow> pre = [] \<and> has_root raw"
proof -
  assume c: "components raw = pre @ RootDir # post"
  have "RootDir \<notin> set (List.map_filter component_of (split_on (CHR ''/'') raw))"
    by (auto simp: set_map_filter component_of_Some simp del: component_of.simps)
  then show ?thesis
    using c by (cases pre) (auto simp: components_def Let_def split: if_splits)
qed

lemma map_filter_append: "List.map_filter f (xs @ ys) = List.map_filter f xs @ List.map_filter f ys"
  by (simp add: List.map_filter_def)

lemma has_root_append: "b \<noteq> [] \<Longrightarrow> has_root (b @ p) = has_root b"
  by (cases b) (auto simp: has_root_def starts_with_def)

text \<open>Below a base that is not empty, a relative path adds its own components and nothing else.\<close>

lemma components_below:
  "b \<noteq> [] \<Longrightarrow> components (b @ CHR ''/'' # p) = components b @ List.map_filter component_of (split_on (CHR ''/'') p)"
  by (simp add: components_def Let_def split_on_append map_filter_append has_root_append del: component_of.simps)

lemma components_trailing_slash:
  assumes "b \<noteq> []" "b \<noteq> ''/''" "ends_with ''/'' b"
  obtains b' where "b = b' @ ''/''" "b' \<noteq> []" "components b = components b'"
proof -
  obtain b' where b: "b = b' @ ''/''"
    using assms(1,3) by (auto simp: ends_with_def strip_suffix_Some)
  then have "b' \<noteq> []" using assms(2) by auto
  moreover have "components b = components b'"
    using components_below [OF \<open>b' \<noteq> []\<close>, of "[]"] b by (simp add: List.map_filter_def)
  ultimately show thesis using that b by blast
qed

lemma components_join:
  assumes "b \<noteq> []" "\<not> has_root p"
  shows "components (path_join b p) = components b @ List.map_filter component_of (split_on (CHR ''/'') p)"
proof (cases "ends_with ''/'' b")
  case False
  then show ?thesis using assms components_below [of b p] by (simp add: path_join_def)
next
  case True
  show ?thesis
  proof (cases "b = ''/''")
    case True
    then show ?thesis
      using assms \<open>ends_with ''/'' b\<close>
      by (simp add: path_join_def components_def has_root_def starts_with_def List.map_filter_def Let_def)
  next
    case False
    then obtain b' where "b = b' @ ''/''" "b' \<noteq> []" "components b = components b'"
      using components_trailing_slash assms(1) True by metis
    then show ?thesis using assms True components_below [of b' p] by (simp add: path_join_def)
  qed
qed

lemma components_rooted:
  "has_root raw \<Longrightarrow> components raw = RootDir # List.map_filter component_of (split_on (CHR ''/'') raw)"
  by (simp add: components_def Let_def)

end
