(* ===== verification/Pattern_Matching.thy ===== *)
theory Pattern_Matching
  imports Url_Validation
begin

text \<open>
  The include and exclude patterns of \<^verbatim>\<open>domain/pattern_matching/mod.rs\<close> (\<open>matches_pattern\<close>), of
  \<^verbatim>\<open>domain/site/crawler_config.rs\<close> and of \<^verbatim>\<open>application/url_filter.rs\<close>. The crate \<^verbatim>\<open>globset\<close> is an
  argument: \<open>glob p\<close> is \<open>None\<close> when \<^verbatim>\<open>Glob::new(p)\<close> refuses \<open>p\<close>, and the compiled matcher otherwise. The
  one-time warning about bare patterns is not modelled.
\<close>

section \<open>Patterns\<close>

type_synonym globber = "string \<Rightarrow> (string \<Rightarrow> bool) option"

definition glob_matches :: "globber \<Rightarrow> string \<Rightarrow> string \<Rightarrow> bool" where
  "glob_matches glob pattern p = (case glob pattern of None \<Rightarrow> False | Some m \<Rightarrow> m p)"

definition host_matches :: "string \<Rightarrow> string \<Rightarrow> bool" where
  "host_matches host pattern =
     (case strip_prefix ''*.'' pattern of
        Some rest \<Rightarrow>
          (let domain = unwrap_or (strip_suffix ''/*'' rest) rest in ends_with (''.'' @ domain) host)
      | None \<Rightarrow> host = pattern)"

definition matches_pattern :: "'u url_api \<Rightarrow> globber \<Rightarrow> string \<Rightarrow> string \<Rightarrow> bool" where
  "matches_pattern api glob url_str pattern =
     (if pattern = [] \<or> pattern = ''*'' then True
      else (case api_parse api url_str of
              None \<Rightarrow> False
            | Some url \<Rightarrow>
                if starts_with ''/'' pattern then glob_matches glob pattern (api_path api url)
                else if starts_with ''*/'' pattern then glob_matches glob pattern (api_path api url)
                else (case api_host_str api url of
                        None \<Rightarrow> False
                      | Some host \<Rightarrow> host_matches host pattern)))"

section \<open>Filter\<close>

record crawler_patterns =
  include_patterns :: "string list"
  exclude_patterns :: "string list"

definition matches_include :: "'u url_api \<Rightarrow> globber \<Rightarrow> crawler_patterns \<Rightarrow> string \<Rightarrow> bool" where
  "matches_include api glob config url =
     (if include_patterns config = [] then True
      else list_ex (matches_pattern api glob url) (include_patterns config))"

definition matches_exclude :: "'u url_api \<Rightarrow> globber \<Rightarrow> crawler_patterns \<Rightarrow> string \<Rightarrow> bool" where
  "matches_exclude api glob config url = list_ex (matches_pattern api glob url) (exclude_patterns config)"

definition is_excluded :: "'u url_api \<Rightarrow> globber \<Rightarrow> string \<Rightarrow> string list \<Rightarrow> bool" where
  "is_excluded api glob url patterns = list_ex (matches_pattern api glob url) patterns"

definition is_allowed :: "'u url_api \<Rightarrow> globber \<Rightarrow> string \<Rightarrow> crawler_patterns \<Rightarrow> bool" where
  "is_allowed api glob url config =
     (if is_excluded api glob url (exclude_patterns config) then False
      else matches_include api glob config url)"

section \<open>Host patterns\<close>

lemma host_matches_star:
  "host_matches h (''*.'' @ r) \<longleftrightarrow> suffix (CHR ''.'' # unwrap_or (strip_suffix ''/*'' r) r) h"
  by (simp add: host_matches_def ends_with_iff)

text \<open>
  A pattern \<^verbatim>\<open>*.domain\<close>, with or without a trailing \<^verbatim>\<open>/*\<close>, matches a URL exactly when the labels of its
  host are the labels of the domain with at least one more in front, so neither the domain itself nor a
  host that only ends in the same characters. A path after the domain is never looked at: with any
  slash left in the domain part the pattern matches no URL at all, so as an exclude pattern it excludes
  nothing.
\<close>

theorem star_pattern_matches_proper_subdomains:
  assumes "api_parse api url = Some u" and "api_host_str api u = Some h"
    and "domain = unwrap_or (strip_suffix ''/*'' rest) rest" and "CHR ''/'' \<notin> set h"
  shows "(matches_pattern api glob url (''*.'' @ rest)
            \<longleftrightarrow> (\<exists>ps. ps \<noteq> [] \<and> split_on (CHR ''.'') h = ps @ split_on (CHR ''.'') domain))
    \<and> (CHR ''/'' \<in> set domain \<longrightarrow> \<not> is_excluded api glob url [''*.'' @ rest])"
proof -
  have m: "matches_pattern api glob url (''*.'' @ rest) \<longleftrightarrow> suffix (CHR ''.'' # domain) h"
    using assms(1,2,3) by (simp add: matches_pattern_def starts_with_def host_matches_star [simplified])
  moreover have "\<not> suffix (CHR ''.'' # domain) h" if "CHR ''/'' \<in> set domain"
    using that assms(4) set_mono_suffix by fastforce
  ultimately show ?thesis by (simp add: sep_suffix_iff is_excluded_def)
qed

theorem star_pattern_matches_proper_subdomains_witness:
  "\<not> is_excluded small_api (\<lambda>p. None) ''https://a.b.c/api/x'' [''*.b.c/api/*'']"
  using star_pattern_matches_proper_subdomains [of small_api "''https://a.b.c/api/x''"
      "\<lparr>su_base = ''https://a.b.c'', su_path = ''/api/x'', su_query = []\<rparr>" "''a.b.c''" "''b.c/api''" "''b.c/api/*''"
      "\<lambda>p. None"]
  by (simp add: small_api_def small_parse_def strip_suffix_def)

end
