(* ===== verification/Waf_Engine.thy ===== *)
theory Waf_Engine
  imports Prelude "HOL-Library.Sublist"
begin

text \<open>
  Detection of web application firewalls: the value objects of \<^verbatim>\<open>domain/waf.rs\<close> and the inspector of
  \<^verbatim>\<open>infrastructure/http/waf_engine.rs\<close>. A response body is the list of its bytes. The Aho-Corasick automaton of the
  \<^verbatim>\<open>aho_corasick\<close> crate is the argument \<open>find_iter\<close>, which lists the reported matches as pattern index, start
  and end, and the floating-point entropy test is the argument \<open>high_entropy\<close>. Unicode letters of the two
  Spanish labels are code points.
\<close>

section \<open>Value objects\<close>

datatype waf_tier = Challenge | Fingerprint

definition label_es :: "waf_tier \<Rightarrow> string" where
  "label_es t = (case t of Challenge \<Rightarrow> ''desaf'' @ [CHR 0xED] @ ''o'' | Fingerprint \<Rightarrow> ''huella'')"

datatype evidence_source = Body | Header

record waf_evidence =
  provider :: string
  tier :: waf_tier
  matched_pattern :: string
  source :: evidence_source

record waf_verdict =
  is_blocked :: bool
  evidences :: "waf_evidence list"

definition clean :: waf_verdict where
  "clean = \<lparr>is_blocked = False, evidences = []\<rparr>"

definition evidence_text :: "waf_evidence \<Rightarrow> string" where
  "evidence_text e =
     provider e @ '' (patr'' @ [CHR 0xF3] @ ''n: '' @ matched_pattern e @ '', tier: '' @ label_es (tier e) @ '')''"

fun join_str :: "string \<Rightarrow> string list \<Rightarrow> string" where
  "join_str sep [] = []"
| "join_str sep [s] = s"
| "join_str sep (s # ss) = s @ sep @ join_str sep ss"

definition evidence_chain :: "waf_verdict \<Rightarrow> string" where
  "evidence_chain v =
     (if evidences v = [] then ''WAF desconocido'' else join_str ''; '' (map evidence_text (evidences v)))"

record inspection_context =
  ctx_status :: "u16 option"
  content_type :: "string option"
  headers :: "(string \<times> string) list"
  ignore_waf :: bool

definition from_lowercase_headers :: "u16 \<Rightarrow> (string \<times> string) list \<Rightarrow> bool \<Rightarrow> inspection_context" where
  "from_lowercase_headers status hs ignore =
     \<lparr>ctx_status = Some status, content_type = map_of hs ''content-type'', headers = hs, ignore_waf = ignore\<rparr>"

definition is_t2_blocking_status :: "u16 option \<Rightarrow> bool" where
  "is_t2_blocking_status status =
     (case status of None \<Rightarrow> False | Some s \<Rightarrow> s = 403 \<or> s = 429 \<or> s = 503 \<or> 520 \<le> s \<and> s \<le> 529)"

section \<open>Registry\<close>

definition WAF_CONTROL_HEADERS :: "(string \<times> string) list" where
  "WAF_CONTROL_HEADERS =
     [(''x-datadome-response'', ''DataDome''), (''cf-mitigated'', ''Cloudflare''), (''x-akamai-edge-auth'', ''Akamai'')]"

datatype boundary_mode = Bare | Exempt | Phrase

definition WAF_BODY_SIGNATURES :: "(string \<times> string \<times> waf_tier \<times> boundary_mode) list" where
  "WAF_BODY_SIGNATURES =
     [(''cf-turnstile'', ''Cloudflare Turnstile'', Challenge, Phrase),
      (''challenge-platform'', ''Cloudflare JS Challenge'', Challenge, Phrase),
      (''Just a moment...'', ''Cloudflare'', Challenge, Phrase),
      (''Checking your browser'', ''Cloudflare'', Fingerprint, Phrase),
      (''__cf_chl_f_tk'', ''Cloudflare'', Challenge, Exempt),
      (''cf-browser-verification'', ''Cloudflare'', Challenge, Phrase),
      (''_cf_chl_opt'', ''Cloudflare'', Challenge, Phrase),
      (''cloudflare'', ''Cloudflare'', Fingerprint, Bare),
      (''g-recaptcha'', ''reCAPTCHA'', Challenge, Phrase),
      (''recaptcha/api.js'', ''reCAPTCHA'', Challenge, Phrase),
      (''grecaptcha.execute'', ''reCAPTCHA'', Challenge, Phrase),
      (''recaptcha.net'', ''reCAPTCHA'', Fingerprint, Phrase),
      (''recaptcha Enterprise'', ''reCAPTCHA'', Challenge, Phrase),
      (''hcaptcha.com'', ''hCaptcha'', Fingerprint, Phrase),
      (''h-captcha'', ''hCaptcha'', Challenge, Phrase),
      (''hcaptcha-api'', ''hCaptcha'', Challenge, Phrase),
      (''hcaptcha.js'', ''hCaptcha'', Challenge, Phrase),
      (''hcaptcha'', ''hCaptcha'', Fingerprint, Bare),
      (''h-captcha-response'', ''hCaptcha'', Challenge, Phrase),
      (''datadome'', ''DataDome'', Fingerprint, Bare),
      (''dd-captcha'', ''DataDome'', Challenge, Phrase),
      (''datadome.co'', ''DataDome'', Fingerprint, Phrase),
      (''perimeterx'', ''PerimeterX'', Fingerprint, Bare),
      (''_pxCaptcha'', ''PerimeterX'', Challenge, Exempt),
      (''px-captcha'', ''PerimeterX'', Challenge, Phrase),
      (''perimeterx.net'', ''PerimeterX'', Fingerprint, Phrase),
      (''human-security'', ''HUMAN'', Fingerprint, Phrase),
      (''px-init'', ''PerimeterX'', Fingerprint, Phrase),
      (''_abck'', ''Akamai Bot Manager'', Fingerprint, Exempt),
      (''SensorData'', ''Akamai Bot Manager'', Fingerprint, Phrase),
      (''akamai-bot-manager'', ''Akamai Bot Manager'', Fingerprint, Phrase),
      (''akamai.net'', ''Akamai'', Fingerprint, Phrase),
      (''akamai'', ''Akamai'', Fingerprint, Bare),
      (''imperva'', ''Imperva'', Fingerprint, Bare),
      (''incapsula'', ''Imperva'', Fingerprint, Phrase),
      (''_Incapsula_Resource'', ''Imperva'', Fingerprint, Phrase),
      (''visid_incap'', ''Imperva Incapsula'', Fingerprint, Exempt),
      (''incap_ses'', ''Imperva Incapsula'', Fingerprint, Exempt),
      (''sucuri'', ''Sucuri'', Fingerprint, Bare),
      (''sucuri.net'', ''Sucuri'', Fingerprint, Phrase),
      (''BIGipServer'', ''F5'', Fingerprint, Phrase),
      (''Please verify you are a human'', ''Generic Challenge'', Challenge, Phrase),
      (''verify you are human'', ''Generic Challenge'', Challenge, Phrase),
      (''checking your browser'', ''Browser Verification'', Challenge, Phrase),
      (''captcha-delivery'', ''Challenge Delivery'', Challenge, Phrase),
      (''__js_challenge__'', ''JS Challenge'', Challenge, Phrase),
      (''challenge.js'', ''Generic Challenge'', Challenge, Phrase),
      (''captcha.js'', ''Generic Challenge'', Challenge, Phrase),
      (''challenge-running'', ''Cloudflare'', Challenge, Phrase),
      (''data-sitekey'', ''Generic Captcha'', Fingerprint, Phrase),
      (''awsWafCookieDomainList'', ''AWS WAF'', Challenge, Phrase),
      (''AwsWafIntegration'', ''AWS WAF'', Challenge, Phrase),
      (''gokuProps'', ''AWS WAF'', Challenge, Phrase),
      (''aws-waf-token'', ''AWS WAF'', Challenge, Phrase)]"

definition SUSPICIOUS_SIZE_THRESHOLD :: nat where "SUSPICIOUS_SIZE_THRESHOLD = 100000"
definition SILENT_CHALLENGE_MAX_BYTES :: nat where "SILENT_CHALLENGE_MAX_BYTES = 1500"
definition SILENT_CHALLENGE_MIN_SCRIPTS :: nat where "SILENT_CHALLENGE_MIN_SCRIPTS = 5"
definition MAX_EVIDENCE_PER_BODY :: nat where "MAX_EVIDENCE_PER_BODY = 64"

record ac_match =
  m_pattern :: nat
  m_start :: nat
  m_end :: nat

section \<open>Filters on a match\<close>

definition is_ascii_alphanumeric :: "char \<Rightarrow> bool" where
  "is_ascii_alphanumeric b =
     (let n = of_char b :: nat in 48 \<le> n \<and> n \<le> 57 \<or> 65 \<le> n \<and> n \<le> 90 \<or> 97 \<le> n \<and> n \<le> 122)"

definition passes_boundary_filter :: "string \<Rightarrow> ac_match \<Rightarrow> waf_tier \<Rightarrow> boundary_mode \<Rightarrow> bool" where
  "passes_boundary_filter body mat t boundary =
     (if t \<noteq> Fingerprint \<or> boundary \<noteq> Bare then True
      else if m_start mat > 0
        \<and> (is_ascii_alphanumeric (body ! (m_start mat - 1)) \<or> body ! (m_start mat - 1) = CHR ''_'') then False
      else if m_end mat < length body
        \<and> (is_ascii_alphanumeric (body ! m_end mat) \<or> body ! m_end mat = CHR ''_'') then False
      else True)"

fun skip_back :: "string \<Rightarrow> nat \<Rightarrow> (char \<Rightarrow> bool) \<Rightarrow> nat option" where
  "skip_back bytes 0 skip = None"
| "skip_back bytes (Suc i) skip = (if \<not> skip (bytes ! i) then Some i else skip_back bytes i skip)"

definition is_ident_char :: "char \<Rightarrow> bool" where
  "is_ident_char b = (is_ascii_alphanumeric b \<or> b = CHR ''_'' \<or> b = CHR ''$'')"

text \<open>\<^verbatim>\<open>u8::is_ascii_whitespace\<close>: space, tab, line feed, form feed, carriage return.\<close>

definition is_ws :: "char \<Rightarrow> bool" where
  "is_ws b = (let n = of_char b :: nat in n = 32 \<or> n = 9 \<or> n = 10 \<or> n = 12 \<or> n = 13)"

definition is_config_string_match :: "string \<Rightarrow> ac_match \<Rightarrow> bool" where
  "is_config_string_match bytes mat =
     (if m_start mat = 0 \<or> bytes ! (m_start mat - 1) \<noteq> CHR 0x22
        \<or> \<not> (m_end mat < length bytes \<and> bytes ! m_end mat = CHR 0x22) then False
      else (case skip_back bytes (m_start mat - 1) is_ws of
              None \<Rightarrow> False
            | Some colon \<Rightarrow>
                if bytes ! colon \<noteq> CHR '':'' then False
                else (case skip_back bytes colon is_ws of
                        None \<Rightarrow> False
                      | Some key_close \<Rightarrow>
                          if bytes ! key_close \<noteq> CHR 0x22 then False
                          else (case skip_back bytes key_close is_ident_char of
                                  None \<Rightarrow> False
                                | Some key_open \<Rightarrow> bytes ! key_open = CHR 0x22 \<and> key_open + 1 < key_close))))"

section \<open>Evidence\<close>

text \<open>The loop of \<^verbatim>\<open>collect_body_evidence\<close> over the reported matches.\<close>

fun collect_loop ::
  "string \<Rightarrow> ac_match list \<Rightarrow> waf_evidence list \<Rightarrow> bool \<Rightarrow> waf_evidence list \<times> bool" where
  "collect_loop body [] evs genuine = (evs, genuine)"
| "collect_loop body (mat # ms) evs genuine =
     (let (pattern, prov, t, boundary) = WAF_BODY_SIGNATURES ! m_pattern mat;
          ev = \<lparr>provider = prov, tier = t, matched_pattern = pattern, source = Body\<rparr>
      in if \<not> passes_boundary_filter body mat t boundary then collect_loop body ms evs genuine
         else (case t of
                 Challenge \<Rightarrow> ([ev], True)
               | Fingerprint \<Rightarrow>
                   collect_loop body ms (if length evs < MAX_EVIDENCE_PER_BODY then evs @ [ev] else evs)
                     (genuine \<or> \<not> is_config_string_match body mat)))"

definition collect_body_evidence :: "(string \<Rightarrow> ac_match list) \<Rightarrow> string \<Rightarrow> waf_evidence list \<times> bool" where
  "collect_body_evidence find_iter body = collect_loop body (find_iter body) [] False"

definition mime_of :: "string \<Rightarrow> string" where
  "mime_of raw = to_ascii_lowercase (trim (hd (split_on (CHR '';'') raw)))"

definition should_scan_body :: "inspection_context \<Rightarrow> bool" where
  "should_scan_body ctx =
     (case content_type ctx of
        None \<Rightarrow> True
      | Some raw \<Rightarrow>
          (let mime = mime_of raw;
               is_json = (ends_with ''+json'' mime \<or> mime = ''application/json'' \<or> mime = ''text/json'');
               is_xml = (ends_with ''+xml'' mime \<or> mime = ''application/xml'' \<or> mime = ''text/xml'')
           in if mime = ''application/xhtml+xml'' then True
              else if is_json \<or> is_xml then False
              else if starts_with ''image/'' mime \<or> starts_with ''font/'' mime then False
              else if mime = ''application/wasm'' \<or> mime = ''application/javascript'' then False
              else True))"

definition collect_header_evidence :: "(string \<times> string) list \<Rightarrow> waf_evidence list" where
  "collect_header_evidence hs =
     map (\<lambda>(name, prov). \<lparr>provider = prov, tier = Fingerprint, matched_pattern = name, source = Header\<rparr>)
       (filter (\<lambda>(name, prov). map_of hs name \<noteq> None) WAF_CONTROL_HEADERS)"

definition is_5xx :: "u16 option \<Rightarrow> bool" where
  "is_5xx status = (case status of None \<Rightarrow> False | Some s \<Rightarrow> 500 \<le> s \<and> s \<le> 599)"

fun decide :: "waf_evidence list \<Rightarrow> inspection_context \<Rightarrow> bool" where
  "decide [] ctx = False"
| "decide (ev # evs) ctx =
     (case tier ev of
        Challenge \<Rightarrow> True
      | Fingerprint \<Rightarrow>
          if \<not> is_t2_blocking_status (ctx_status ctx) then decide evs ctx
          else if is_5xx (ctx_status ctx) \<and> source ev = Body then decide evs ctx
          else True)"

definition is_html_content_type :: "string \<Rightarrow> bool" where
  "is_html_content_type ct = (mime_of ct = ''text/html'' \<or> mime_of ct = ''application/xhtml+xml'')"

text \<open>\<^verbatim>\<open>body.matches(p).count()\<close>: occurrences from the left that do not overlap.\<close>

function count_matches :: "string \<Rightarrow> string \<Rightarrow> nat" where
  "count_matches p s =
     (if p = [] then 0
      else case s of
             [] \<Rightarrow> 0
           | c # cs \<Rightarrow> (case strip_prefix p s of Some r \<Rightarrow> Suc (count_matches p r) | None \<Rightarrow> count_matches p cs))"
  by pat_completeness auto

termination
  by (relation "measure (\<lambda>(p, s). length s)") auto

declare count_matches.simps [simp del]

definition entropy_evidence ::
  "(string \<Rightarrow> bool) \<Rightarrow> string \<Rightarrow> inspection_context \<Rightarrow> bool \<Rightarrow> waf_evidence option" where
  "entropy_evidence high_entropy body ctx genuine =
     (if length body > SUSPICIOUS_SIZE_THRESHOLD \<and> high_entropy body
        \<and> (is_t2_blocking_status (ctx_status ctx) \<or> genuine)
      then Some \<lparr>provider = ''Obfuscated WAF'', tier = Challenge, matched_pattern = ''high-entropy body'', source = Body\<rparr>
      else if length body < SILENT_CHALLENGE_MAX_BYTES \<and> count_matches ''<script'' body > SILENT_CHALLENGE_MIN_SCRIPTS
        \<and> (is_t2_blocking_status (ctx_status ctx)
            \<or> ctx_status ctx = Some 200 \<and> (case content_type ctx of None \<Rightarrow> False | Some ct \<Rightarrow> is_html_content_type ct))
      then Some \<lparr>provider = ''Silent Challenge'', tier = Challenge, matched_pattern = ''script-density'', source = Body\<rparr>
      else None)"

definition inspect ::
  "(string \<Rightarrow> ac_match list) \<Rightarrow> (string \<Rightarrow> bool) \<Rightarrow> string \<Rightarrow> inspection_context \<Rightarrow> waf_verdict" where
  "inspect find_iter high_entropy body ctx =
     (if ignore_waf ctx then clean
      else
        (let scan_body = should_scan_body ctx;
             (body_evs, genuine0) = (if scan_body then collect_body_evidence find_iter body else ([], False));
             header_evs = collect_header_evidence (headers ctx);
             genuine = (genuine0 \<or> header_evs \<noteq> []);
             entropy_evs = (if scan_body
                            then (case entropy_evidence high_entropy body ctx genuine of None \<Rightarrow> [] | Some e \<Rightarrow> [e])
                            else []);
             evs = body_evs @ header_evs @ entropy_evs
         in \<lparr>is_blocked = decide evs ctx, evidences = evs\<rparr>))"

section \<open>The verdict\<close>

abbreviation sig_pattern :: "ac_match \<Rightarrow> string" where
  "sig_pattern m \<equiv> fst (WAF_BODY_SIGNATURES ! m_pattern m)"

abbreviation sig_tier :: "ac_match \<Rightarrow> waf_tier" where
  "sig_tier m \<equiv> fst (snd (snd (WAF_BODY_SIGNATURES ! m_pattern m)))"

abbreviation sig_mode :: "ac_match \<Rightarrow> boundary_mode" where
  "sig_mode m \<equiv> snd (snd (snd (WAF_BODY_SIGNATURES ! m_pattern m)))"

definition survives :: "string \<Rightarrow> ac_match \<Rightarrow> bool" where
  "survives body m = passes_boundary_filter body m (sig_tier m) (sig_mode m)"

definition reports_challenge :: "ac_match list \<Rightarrow> bool" where
  "reports_challenge ms = list_ex (\<lambda>m. sig_tier m = Challenge) ms"

lemma challenge_survives: "sig_tier m = Challenge \<Longrightarrow> survives body m"
  by (simp add: survives_def passes_boundary_filter_def)

lemma collect_step:
  "collect_loop body (m # ms) evs g =
     (let ev = \<lparr>provider = fst (snd (WAF_BODY_SIGNATURES ! m_pattern m)), tier = sig_tier m,
                matched_pattern = sig_pattern m, source = Body\<rparr>
      in if \<not> survives body m then collect_loop body ms evs g
         else if sig_tier m = Challenge then ([ev], True)
         else collect_loop body ms (if length evs < MAX_EVIDENCE_PER_BODY then evs @ [ev] else evs)
                (g \<or> \<not> is_config_string_match body m))"
  by (cases "WAF_BODY_SIGNATURES ! m_pattern m") (auto simp: survives_def Let_def split: waf_tier.splits)

lemma collect_challenge:
  "reports_challenge ms \<Longrightarrow> \<exists>ev. collect_loop body ms evs g = ([ev], True) \<and> tier ev = Challenge"
proof (induction ms arbitrary: evs g)
  case (Cons m ms)
  then show ?case
    using challenge_survives by (cases "sig_tier m") (auto simp: collect_step reports_challenge_def Let_def simp del: collect_loop.simps)
qed (simp add: reports_challenge_def)

lemma collect_fingerprints:
  assumes "\<not> reports_challenge ms" "list_all (\<lambda>e. tier e = Fingerprint \<and> source e = Body) evs"
    "length evs \<le> MAX_EVIDENCE_PER_BODY"
  shows "list_all (\<lambda>e. tier e = Fingerprint \<and> source e = Body) (fst (collect_loop body ms evs g))
    \<and> length (fst (collect_loop body ms evs g)) \<le> MAX_EVIDENCE_PER_BODY
    \<and> (fst (collect_loop body ms evs g) = [] \<longleftrightarrow> evs = [] \<and> \<not> list_ex (survives body) ms)
    \<and> (snd (collect_loop body ms evs g) \<longleftrightarrow> g \<or> list_ex (\<lambda>m. survives body m \<and> \<not> is_config_string_match body m) ms)"
  using assms
proof (induction ms arbitrary: evs g)
  case (Cons m ms)
  have t: "sig_tier m = Fingerprint" using Cons.prems(1) by (cases "sig_tier m") (auto simp: reports_challenge_def)
  have ms: "\<not> reports_challenge ms" using Cons.prems(1) by (simp add: reports_challenge_def)
  let ?ev = "\<lparr>provider = fst (snd (WAF_BODY_SIGNATURES ! m_pattern m)), tier = sig_tier m,
                matched_pattern = sig_pattern m, source = Body\<rparr>"
  let ?evs = "if length evs < MAX_EVIDENCE_PER_BODY then evs @ [?ev] else evs"
  have ne: "?evs \<noteq> []" by (auto simp: MAX_EVIDENCE_PER_BODY_def)
  have step: "collect_loop body (m # ms) evs g =
      (if survives body m then collect_loop body ms ?evs (g \<or> \<not> is_config_string_match body m)
       else collect_loop body ms evs g)"
    using t by (simp add: collect_step Let_def del: collect_loop.simps)
  have evs: "list_all (\<lambda>e. tier e = Fingerprint \<and> source e = Body) ?evs" "length ?evs \<le> MAX_EVIDENCE_PER_BODY"
    using Cons.prems(2,3) t by auto
  show ?case
  proof (cases "survives body m")
    case True
    then show ?thesis using Cons.IH [OF ms evs, of "g \<or> \<not> is_config_string_match body m"] step ne by auto
  next
    case False
    then show ?thesis using Cons.IH [OF ms Cons.prems(2,3), of g] step by auto
  qed
qed simp

definition evidence_blocks :: "inspection_context \<Rightarrow> waf_evidence \<Rightarrow> bool" where
  "evidence_blocks ctx e =
     (tier e = Challenge \<or> is_t2_blocking_status (ctx_status ctx) \<and> \<not> (is_5xx (ctx_status ctx) \<and> source e = Body))"

lemma decide_iff: "decide evs ctx \<longleftrightarrow> list_ex (evidence_blocks ctx) evs"
  by (induction evs) (auto simp: evidence_blocks_def split: waf_tier.splits)

lemma t2_not_5xx: "is_t2_blocking_status st \<and> \<not> is_5xx st \<longleftrightarrow> st = Some 403 \<or> st = Some 429"
proof (cases st)
  case (Some s)
  have "520 \<le> s \<and> s \<le> 529 \<Longrightarrow> 500 \<le> s \<and> s \<le> 599" by (auto simp: word_le_nat_alt)
  then show ?thesis using Some by (auto simp: is_t2_blocking_status_def is_5xx_def)
qed (simp add: is_t2_blocking_status_def is_5xx_def)

definition has_control_header :: "inspection_context \<Rightarrow> bool" where
  "has_control_header ctx = list_ex (\<lambda>(name, _). map_of (headers ctx) name \<noteq> None) WAF_CONTROL_HEADERS"

lemma header_evidence:
  "collect_header_evidence (headers ctx) = [] \<longleftrightarrow> \<not> has_control_header ctx"
  "list_all (\<lambda>e. tier e = Fingerprint \<and> source e = Header) (collect_header_evidence (headers ctx))"
  "length (collect_header_evidence (headers ctx)) \<le> 3"
  by (auto simp: collect_header_evidence_def has_control_header_def WAF_CONTROL_HEADERS_def)

lemma entropy_blocks: "entropy_evidence he body ctx g = Some e \<Longrightarrow> evidence_blocks ctx e"
  by (auto simp: entropy_evidence_def evidence_blocks_def split: if_splits)

lemma inspect_cases:
  assumes "\<not> ignore_waf ctx"
  obtains bevs g where
    "inspect fi he body ctx =
       (let evs = bevs @ collect_header_evidence (headers ctx)
              @ (if should_scan_body ctx
                 then case entropy_evidence he body ctx (g \<or> has_control_header ctx) of None \<Rightarrow> [] | Some e \<Rightarrow> [e] else [])
        in \<lparr>is_blocked = decide evs ctx, evidences = evs\<rparr>)"
    "should_scan_body ctx \<Longrightarrow> (bevs, g) = collect_loop body (fi body) [] False"
    "\<not> should_scan_body ctx \<Longrightarrow> bevs = []"
proof -
  obtain bevs g where b: "(if should_scan_body ctx then collect_body_evidence fi body else ([], False)) = (bevs, g)"
    by (cases "if should_scan_body ctx then collect_body_evidence fi body else ([], False)")
  show thesis
    using b assms by (intro that [of bevs g])
      (auto simp: inspect_def header_evidence(1) collect_body_evidence_def Let_def split: if_splits)
qed

lemma header_blocks:
  "list_ex (evidence_blocks ctx) (collect_header_evidence (headers ctx))
     \<longleftrightarrow> has_control_header ctx \<and> is_t2_blocking_status (ctx_status ctx)"
  using header_evidence(1,2) [of ctx]
  by (cases "collect_header_evidence (headers ctx)") (auto simp: list_all_iff list_ex_iff evidence_blocks_def)

lemma inspect_blocked_iff:
  "is_blocked (inspect fi he body ctx) \<longleftrightarrow> \<not> ignore_waf ctx \<and>
     (should_scan_body ctx \<and> reports_challenge (fi body)
      \<or> should_scan_body ctx \<and> list_ex (survives body) (fi body)
          \<and> (ctx_status ctx = Some 403 \<or> ctx_status ctx = Some 429)
      \<or> has_control_header ctx \<and> is_t2_blocking_status (ctx_status ctx)
      \<or> should_scan_body ctx
          \<and> entropy_evidence he body ctx
              (has_control_header ctx \<or> list_ex (\<lambda>m. survives body m \<and> \<not> is_config_string_match body m) (fi body))
            \<noteq> None)"
proof (cases "ignore_waf ctx")
  case True
  then show ?thesis by (simp add: inspect_def clean_def)
next
  case False
  let ?t = "is_t2_blocking_status (ctx_status ctx)" and ?f = "is_5xx (ctx_status ctx)"
  obtain bevs g where i: "inspect fi he body ctx =
       (let evs = bevs @ collect_header_evidence (headers ctx)
              @ (if should_scan_body ctx
                 then case entropy_evidence he body ctx (g \<or> has_control_header ctx) of None \<Rightarrow> [] | Some e \<Rightarrow> [e] else [])
        in \<lparr>is_blocked = decide evs ctx, evidences = evs\<rparr>)"
    and b: "should_scan_body ctx \<Longrightarrow> (bevs, g) = collect_loop body (fi body) [] False"
    and nb: "\<not> should_scan_body ctx \<Longrightarrow> bevs = []"
    using inspect_cases [OF False] by blast
  have blocked: "is_blocked (inspect fi he body ctx) \<longleftrightarrow> list_ex (evidence_blocks ctx) bevs \<or> has_control_header ctx \<and> ?t
      \<or> should_scan_body ctx \<and> entropy_evidence he body ctx (g \<or> has_control_header ctx) \<noteq> None"
    using entropy_blocks [of he body ctx "g \<or> has_control_header ctx"]
    by (auto simp: i decide_iff header_blocks Let_def split: option.splits)
  show ?thesis
  proof (cases "should_scan_body ctx")
    case False
    then show ?thesis using blocked nb \<open>\<not> ignore_waf ctx\<close> by simp
  next
    case scan: True
    show ?thesis
    proof (cases "reports_challenge (fi body)")
      case True
      then show ?thesis
        using collect_challenge [OF True, of body "[]" False] b [OF scan] blocked scan \<open>\<not> ignore_waf ctx\<close>
        by (auto simp: evidence_blocks_def)
    next
      case False
      note fp = collect_fingerprints [OF False, of "[]" body False, folded b [OF scan]]
      have "list_ex (evidence_blocks ctx) bevs \<longleftrightarrow> bevs \<noteq> [] \<and> ?t \<and> \<not> ?f"
        using fp by (cases bevs) (auto simp: list_all_iff list_ex_iff evidence_blocks_def)
      moreover have "bevs \<noteq> [] \<longleftrightarrow> list_ex (survives body) (fi body)" using fp by simp
      moreover have "g \<longleftrightarrow> list_ex (\<lambda>m. survives body m \<and> \<not> is_config_string_match body m) (fi body)" using fp by simp
      ultimately show ?thesis
        using blocked scan False \<open>\<not> ignore_waf ctx\<close> t2_not_5xx [of "ctx_status ctx"] by (auto simp: disj_commute)
    qed
  qed
qed

text \<open>
  C16. The inspector blocks a response exactly when inspection is on and one of four things holds: a reported
  match in a scanned body is a challenge marker, at any status and however many fingerprints came before
  it; a fingerprint in a scanned body that stands at its boundaries comes with status 403 or 429; a control
  header comes with a status of the blocking set, 5xx ones included; or the entropy rules fire, the first
  of them with genuine challenge context only, that is a control header or a fingerprint that is not the
  value of a configuration entry.
\<close>

theorem inspect_verdict_policy:
  "is_blocked (inspect fi he body ctx) \<longleftrightarrow> \<not> ignore_waf ctx \<and>
     (should_scan_body ctx \<and> reports_challenge (fi body)
      \<or> should_scan_body ctx \<and> list_ex (survives body) (fi body)
          \<and> (ctx_status ctx = Some 403 \<or> ctx_status ctx = Some 429)
      \<or> has_control_header ctx \<and> is_t2_blocking_status (ctx_status ctx)
      \<or> should_scan_body ctx
          \<and> entropy_evidence he body ctx
              (has_control_header ctx \<or> list_ex (\<lambda>m. survives body m \<and> \<not> is_config_string_match body m) (fi body))
            \<noteq> None)"
  by (rule inspect_blocked_iff)

text \<open>
  Whatever a page holds, a verdict carries at most sixty-eight pieces of evidence: sixty-four from the
  body, one for each control header and one from the entropy rules.
\<close>

theorem inspect_evidence_is_bounded:
  "length (evidences (inspect fi he body ctx)) \<le> 68"
proof (cases "ignore_waf ctx")
  case True
  then show ?thesis by (simp add: inspect_def clean_def)
next
  case False
  obtain bevs g where i: "inspect fi he body ctx =
       (let evs = bevs @ collect_header_evidence (headers ctx)
              @ (if should_scan_body ctx
                 then case entropy_evidence he body ctx (g \<or> has_control_header ctx) of None \<Rightarrow> [] | Some e \<Rightarrow> [e] else [])
        in \<lparr>is_blocked = decide evs ctx, evidences = evs\<rparr>)"
    and b: "should_scan_body ctx \<Longrightarrow> (bevs, g) = collect_loop body (fi body) [] False"
    and nb: "\<not> should_scan_body ctx \<Longrightarrow> bevs = []"
    using inspect_cases [OF False] by blast
  have "length bevs \<le> 64"
  proof (cases "should_scan_body ctx")
    case True
    show ?thesis
    proof (cases "reports_challenge (fi body)")
      case c: True
      then show ?thesis using collect_challenge [OF c, of body "[]" False, folded b [OF True]] by auto
    next
      case c: False
      then show ?thesis
        using collect_fingerprints [OF c, of "[]" body False, folded b [OF True]] by (simp add: MAX_EVIDENCE_PER_BODY_def)
    qed
  qed (simp add: nb)
  then show ?thesis using header_evidence(3) [of ctx] by (simp add: i Let_def split: option.splits)
qed

section \<open>Signatures that are never reported\<close>

text \<open>
  The automaton is built with the crate's default, standard match semantics, and \<^verbatim>\<open>find_iter\<close> is documented to
  report matches that do not overlap, each as soon as it is seen: from where the last match ended, the next
  one reported is an occurrence that ends first.
\<close>

definition occurs :: "string \<Rightarrow> ac_match \<Rightarrow> bool" where
  "occurs body m =
     (m_pattern m < length WAF_BODY_SIGNATURES \<and> m_end m = m_start m + length (sig_pattern m)
      \<and> prefix (sig_pattern m) (drop (m_start m) body))"

fun standard_matches :: "string \<Rightarrow> nat \<Rightarrow> ac_match list \<Rightarrow> bool" where
  "standard_matches body from [] = (\<forall>m. occurs body m \<longrightarrow> m_start m < from)"
| "standard_matches body from (m # ms) =
     (occurs body m \<and> from \<le> m_start m \<and> (\<forall>m'. occurs body m' \<and> from \<le> m_start m' \<longrightarrow> m_end m \<le> m_end m')
      \<and> standard_matches body (m_end m) ms)"

lemma reported_ends_first:
  "standard_matches body from ms \<Longrightarrow> m \<in> set ms \<Longrightarrow>
     occurs body m \<and> (\<exists>a \<le> m_start m. \<forall>m'. occurs body m' \<and> a \<le> m_start m' \<longrightarrow> m_end m \<le> m_end m')"
  by (induction body "from" ms rule: standard_matches.induct) auto

lemma shadowed_not_reported:
  assumes "standard_matches body from ms" "m \<in> set ms" "i < length WAF_BODY_SIGNATURES"
    "strict_prefix (fst (WAF_BODY_SIGNATURES ! i)) (sig_pattern m)"
  shows False
proof -
  let ?m = "\<lparr>m_pattern = i, m_start = m_start m, m_end = m_start m + length (fst (WAF_BODY_SIGNATURES ! i))\<rparr>"
  obtain a where a: "a \<le> m_start m" "\<forall>m'. occurs body m' \<and> a \<le> m_start m' \<longrightarrow> m_end m \<le> m_end m'"
    and o: "occurs body m"
    using reported_ends_first [OF assms(1,2)] by blast
  have "occurs body ?m"
    using o assms(3,4) prefix_order.order_trans unfolding occurs_def strict_prefix_def by fastforce
  moreover have "a \<le> m_start ?m" using a(1) by simp
  ultimately have "m_end m \<le> m_end ?m" using a(2) by blast
  moreover have "length (fst (WAF_BODY_SIGNATURES ! i)) < length (sig_pattern m)"
    using assms(4) by (rule prefix_length_less)
  ultimately show False using o by (simp add: occurs_def)
qed

lemma hcaptcha_signature: "17 < length WAF_BODY_SIGNATURES" "WAF_BODY_SIGNATURES ! 17 = (''hcaptcha'', ''hCaptcha'', Fingerprint, Bare)"
  by (simp_all add: WAF_BODY_SIGNATURES_def)

lemma signature_lengths:
  "list_all (\<lambda>s. 5 \<le> length (fst s) \<and> (fst (snd (snd s)) = Challenge \<longrightarrow> 9 \<le> length (fst s))) WAF_BODY_SIGNATURES"
  by (simp add: WAF_BODY_SIGNATURES_def)

lemma reported_from: "standard_matches body from ms \<Longrightarrow> m \<in> set ms \<Longrightarrow> from \<le> m_start m"
proof (induction body "from" ms rule: standard_matches.induct)
  case (2 body "from" m' ms)
  then show ?case by (cases "m = m'") (auto simp: occurs_def)
qed simp

lemma signature_length:
  assumes "occurs body m"
  shows "5 \<le> m_end m - m_start m \<and> (sig_tier m = Challenge \<longrightarrow> m_start m + 9 \<le> m_end m) \<and> m_end m \<le> length body"
proof -
  have "length (sig_pattern m) \<le> length body - m_start m"
    using assms prefix_length_le [of "sig_pattern m" "drop (m_start m) body"] by (simp add: occurs_def)
  moreover have "5 \<le> length (sig_pattern m)" "sig_tier m = Challenge \<longrightarrow> 9 \<le> length (sig_pattern m)"
    using signature_lengths assms by (auto simp: list_all_length occurs_def)
  ultimately show ?thesis using assms by (auto simp: occurs_def)
qed

lemma hcaptcha_script_matches:
  assumes "standard_matches ''hcaptcha.js'' 0 ms"
  shows "\<not> reports_challenge ms"
proof -
  let ?b = "''hcaptcha.js''"
  have o: "occurs ?b \<lparr>m_pattern = 17, m_start = 0, m_end = 8\<rparr>"
    using hcaptcha_signature by (simp add: occurs_def)
  then obtain m ms' where ms: "ms = m # ms'" using assms by (cases ms) auto
  then have m: "occurs ?b m" "m_end m \<le> 8" "standard_matches ?b (m_end m) ms'"
    using assms o by force+
  have "sig_tier m \<noteq> Challenge" using signature_length [OF m(1)] m(2) by auto
  moreover have "sig_tier x \<noteq> Challenge" if "x \<in> set ms'" for x
  proof -
    have "m_end m \<le> m_start x" "occurs ?b x" using reported_from [OF m(3) that] reported_ends_first [OF m(3) that] by auto
    then show ?thesis using signature_length [OF m(1)] signature_length [of ?b x] by auto
  qed
  ultimately show ?thesis by (auto simp: reports_challenge_def list_ex_iff ms)
qed

text \<open>
  Two challenge markers of the registry, \<^verbatim>\<open>hcaptcha-api\<close> and \<^verbatim>\<open>hcaptcha.js\<close>, can never be reported: they begin with
  the fingerprint \<^verbatim>\<open>hcaptcha\<close>, which ends first, and the search goes on behind it. So a page that loads the
  script \<^verbatim>\<open>hcaptcha.js\<close> is not blocked at status 200, although its marker is registered as one that blocks at
  any status.
\<close>

theorem shadowed_challenge_markers:
  assumes "standard_matches body 0 (fi body)"
  shows "(''hcaptcha.js'', ''hCaptcha'', Challenge, Phrase) \<in> set WAF_BODY_SIGNATURES
    \<and> (\<forall>m \<in> set (fi body). sig_pattern m \<noteq> ''hcaptcha-api'' \<and> sig_pattern m \<noteq> ''hcaptcha.js'')
    \<and> (body = ''hcaptcha.js'' \<and> ctx_status ctx = Some 200 \<and> \<not> has_control_header ctx
        \<longrightarrow> \<not> is_blocked (inspect fi he body ctx))"
proof (intro conjI ballI impI)
  show "(''hcaptcha.js'', ''hCaptcha'', Challenge, Phrase) \<in> set WAF_BODY_SIGNATURES"
    by (simp add: WAF_BODY_SIGNATURES_def)
next
  fix m assume m: "m \<in> set (fi body)"
  show "sig_pattern m \<noteq> ''hcaptcha-api''" "sig_pattern m \<noteq> ''hcaptcha.js''"
    using shadowed_not_reported [OF assms m hcaptcha_signature(1)] hcaptcha_signature(2)
    by (auto simp: strict_prefix_def)
next
  assume b: "body = ''hcaptcha.js'' \<and> ctx_status ctx = Some 200 \<and> \<not> has_control_header ctx"
  then have "\<not> reports_challenge (fi body)" using hcaptcha_script_matches assms by simp
  moreover have "count_matches ''<script'' ''hcaptcha.js'' = 0" by (simp add: count_matches.simps)
  ultimately show "\<not> is_blocked (inspect fi he body ctx)"
    using b by (simp add: inspect_blocked_iff is_t2_blocking_status_def entropy_evidence_def SUSPICIOUS_SIZE_THRESHOLD_def
        SILENT_CHALLENGE_MIN_SCRIPTS_def)
qed

lemma short_signatures:
  "list_all (\<lambda>s. 8 \<le> length (fst s) \<or> \<not> set (fst s) \<subseteq> set ''hcaptcha.js'') WAF_BODY_SIGNATURES"
  by (simp add: WAF_BODY_SIGNATURES_def)

lemma hcaptcha_script_scan: "standard_matches ''hcaptcha.js'' 0 [\<lparr>m_pattern = 17, m_start = 0, m_end = 8\<rparr>]"
proof -
  have "8 \<le> m_end m \<and> m_start m < 8" if o: "occurs ''hcaptcha.js'' m" for m
  proof -
    have "set (sig_pattern m) \<subseteq> set ''hcaptcha.js''"
      using o set_mono_prefix set_drop_subset unfolding occurs_def by (meson subset_trans)
    then have "8 \<le> length (sig_pattern m)"
      using short_signatures o unfolding occurs_def list_all_length by blast
    then show ?thesis using o signature_length [OF o] by (auto simp: occurs_def)
  qed
  then show ?thesis using hcaptcha_signature by (simp add: occurs_def)
qed

theorem shadowed_challenge_markers_witness:
  "\<not> is_blocked (inspect (\<lambda>_. [\<lparr>m_pattern = 17, m_start = 0, m_end = 8\<rparr>]) (\<lambda>_. False) ''hcaptcha.js''
     \<lparr>ctx_status = Some 200, content_type = Some ''text/html'', headers = [], ignore_waf = False\<rparr>)"
  using shadowed_challenge_markers [of "''hcaptcha.js''" "\<lambda>_. [\<lparr>m_pattern = 17, m_start = 0, m_end = 8\<rparr>]"
      "\<lparr>ctx_status = Some 200, content_type = Some ''text/html'', headers = [], ignore_waf = False\<rparr>" "\<lambda>_. False"]
    hcaptcha_script_scan
  by (simp add: has_control_header_def WAF_CONTROL_HEADERS_def)

end
