(* ===== verification/Session_Pool.thy ===== *)
theory Session_Pool
  imports Prelude "HOL-Library.Multiset"
begin

text \<open>
  The per-domain session pool of \<^verbatim>\<open>infrastructure/network/session_pool.rs\<close>. Instants and durations are
  nanoseconds. The concurrent map is a list of entries in its iteration order, which is not specified and
  therefore arbitrary; an operation holds the entry's shard lock and is one step, and the cap is enforced
  in a step of its own after the lock is released. The random jitter is the argument \<open>jit\<close>, from the capped
  delay to the jittered one.
\<close>

section \<open>State\<close>

datatype session_status = Healthy | Banned | Retiring

record session_state =
  status :: session_status
  consecutive_failures :: u32
  last_failure_time :: "nat option"
  next_retry_time :: "nat option"

definition healthy :: session_state where
  "healthy = \<lparr>status = Healthy, consecutive_failures = 0, last_failure_time = None, next_retry_time = None\<rparr>"

record domain_entry =
  states :: "session_state list"
  last_seen :: nat

type_synonym domain_map = "(string \<times> domain_entry) list"

record pool_config =
  pool_size :: nat
  base_delay :: nat
  max_delay :: nat
  max_exp :: u32
  ttl_duration :: nat

definition default_config :: pool_config where
  "default_config = \<lparr>pool_size = 8, base_delay = 1000000000, max_delay = 60000000000, max_exp = 6,
     ttl_duration = 300000000000\<rparr>"

definition MAX_TRACKED_DOMAINS :: nat where
  "MAX_TRACKED_DOMAINS = 500"

definition as_millis :: "nat \<Rightarrow> nat" where
  "as_millis d = d div 1000000"

definition from_millis :: "nat \<Rightarrow> nat" where
  "from_millis ms = ms * 1000000"

section \<open>Slot pick\<close>

fun fnv_mix :: "string \<Rightarrow> u64 \<Rightarrow> u64" where
  "fnv_mix [] acc = acc"
| "fnv_mix (c # cs) acc = fnv_mix cs ((acc XOR of_nat (of_char c)) * 0x00000100000001b3)"

definition pick_start :: "nat \<Rightarrow> string \<Rightarrow> nat \<Rightarrow> nat \<Rightarrow> nat" where
  "pick_start anchor domain now len =
     (let seed0 = fnv_mix domain 0xcbf29ce484222325;
          tick = (if anchor \<le> now then now - anchor else anchor - now);
          seed1 = seed0 XOR (of_nat (min tick (2 ^ 64 - 1)) :: u64);
          z1 = (seed1 XOR drop_bit 30 seed1) * 0xbf58476d1ce4e5b9;
          z2 = (z1 XOR drop_bit 27 z1) * 0x94d049bb133111eb;
          z3 = z2 XOR drop_bit 31 z2
      in unat z3 mod max len 1)"

definition banned_session_ready :: "session_state \<Rightarrow> nat \<Rightarrow> bool" where
  "banned_session_ready st now = (case next_retry_time st of None \<Rightarrow> False | Some deadline \<Rightarrow> deadline \<le> now)"

definition usable :: "nat \<Rightarrow> session_state \<Rightarrow> bool" where
  "usable now st =
     (case status st of Healthy \<Rightarrow> True | Banned \<Rightarrow> banned_session_ready st now | Retiring \<Rightarrow> False)"

text \<open>The loop \<^verbatim>\<open>for k in 0..len\<close>.\<close>

fun scan_slots :: "nat \<Rightarrow> session_state list \<Rightarrow> nat \<Rightarrow> nat list \<Rightarrow> nat option" where
  "scan_slots now ss start [] = None"
| "scan_slots now ss start (k # ks) =
     (let idx = (start + k) mod length ss in
      if usable now (ss ! idx) then Some idx else scan_slots now ss start ks)"

definition find_available :: "nat \<Rightarrow> string \<Rightarrow> session_state list \<Rightarrow> nat \<Rightarrow> nat option" where
  "find_available anchor domain ss now =
     scan_slots now ss (pick_start anchor domain now (length ss)) [0..<length ss]"

section \<open>Failures and eviction\<close>

definition capped_delay :: "pool_config \<Rightarrow> u32 \<Rightarrow> nat" where
  "capped_delay cfg failures =
     (let exponent = min (unat failures) (unat (max_exp cfg));
          delay_ms = min (as_millis (base_delay cfg) * (2 ^ exponent mod 2 ^ 128)) (2 ^ 128 - 1)
      in max (min delay_ms (as_millis (max_delay cfg))) 1)"

definition backoff_delay :: "pool_config \<Rightarrow> (nat \<Rightarrow> nat) \<Rightarrow> u32 \<Rightarrow> nat" where
  "backoff_delay cfg jit failures = from_millis (max (jit (capped_delay cfg failures)) 1)"

definition apply_failure ::
  "pool_config \<Rightarrow> (nat \<Rightarrow> nat) \<Rightarrow> nat \<Rightarrow> nat \<Rightarrow> bool \<Rightarrow> session_state \<Rightarrow> session_state" where
  "apply_failure cfg jit now session_id should_ban st =
     (let failures = consecutive_failures st + 1;
          st1 = st\<lparr>consecutive_failures := failures, last_failure_time := Some now\<rparr>
      in if should_ban
         then (let delay = backoff_delay cfg jit failures;
                   window = max (as_millis delay mod 2 ^ 64 div 5) 1;
                   stagger = (session_id * 37) mod 2 ^ 64 mod window
               in st1\<lparr>next_retry_time := Some (now + delay + from_millis stagger), status := Banned\<rparr>)
         else if 3 \<le> failures then st1\<lparr>status := Retiring\<rparr> else st1)"

definition expired :: "pool_config \<Rightarrow> nat \<Rightarrow> session_state \<Rightarrow> bool" where
  "expired cfg now st =
     (case last_failure_time st of
        None \<Rightarrow> False
      | Some t \<Rightarrow> ttl_duration cfg < now - t \<and> status st \<noteq> Healthy)"

definition evict_expired :: "pool_config \<Rightarrow> nat \<Rightarrow> session_state list \<Rightarrow> session_state list" where
  "evict_expired cfg now ss = map (\<lambda>st. if expired cfg now st then healthy else st) ss"

section \<open>Operations\<close>

definition update_entry :: "string \<Rightarrow> (domain_entry \<Rightarrow> domain_entry) \<Rightarrow> domain_map \<Rightarrow> domain_map" where
  "update_entry d f m = map (\<lambda>(k, e). if k = d then (k, f e) else (k, e)) m"

definition or_insert :: "pool_config \<Rightarrow> nat \<Rightarrow> string \<Rightarrow> domain_map \<Rightarrow> domain_map" where
  "or_insert cfg now d m =
     (if d \<in> fst ` set m then m
      else m @ [(d, \<lparr>states = replicate (pool_size cfg) healthy, last_seen = now\<rparr>)])"

text \<open>\<^verbatim>\<open>acquire\<close> up to the release of the entry; the cap is enforced after it.\<close>

definition acquire_entry ::
  "pool_config \<Rightarrow> nat \<Rightarrow> nat \<Rightarrow> string \<Rightarrow> domain_map \<Rightarrow> nat option \<times> domain_map" where
  "acquire_entry cfg anchor now d m =
     (let m1 = update_entry d (\<lambda>e. e\<lparr>states := evict_expired cfg now (states e), last_seen := now\<rparr>)
                 (or_insert cfg now d m)
      in (case map_of m1 d of
            None \<Rightarrow> (None, m1)
          | Some e \<Rightarrow> (find_available anchor d (states e) now, m1)))"

definition by_age :: "domain_map \<Rightarrow> (string \<times> nat) list" where
  "by_age m = sort_key snd (map (\<lambda>(k, e). (k, last_seen e)) m)"

definition enforce_domain_cap :: "domain_map \<Rightarrow> domain_map" where
  "enforce_domain_cap m =
     (let tracked = length m in
      if tracked \<le> MAX_TRACKED_DOMAINS then m
      else
        (let excess = tracked - MAX_TRACKED_DOMAINS;
             victims = map fst (take excess (by_age m))
         in fold (\<lambda>d m. filter (\<lambda>(k, e). k \<noteq> d) m) victims m))"

definition acquire :: "pool_config \<Rightarrow> nat \<Rightarrow> nat \<Rightarrow> string \<Rightarrow> domain_map \<Rightarrow> nat option \<times> domain_map" where
  "acquire cfg anchor now d m =
     (let (result, m1) = acquire_entry cfg anchor now d m in (result, enforce_domain_cap m1))"

definition report_success :: "nat \<Rightarrow> string \<Rightarrow> nat \<Rightarrow> domain_map \<Rightarrow> domain_map" where
  "report_success now d i m =
     update_entry d (\<lambda>e.
       let e1 = e\<lparr>last_seen := now\<rparr> in
       if i < length (states e1) then e1\<lparr>states := (states e1)[i := healthy]\<rparr> else e1) m"

definition report_failure ::
  "pool_config \<Rightarrow> (nat \<Rightarrow> nat) \<Rightarrow> nat \<Rightarrow> string \<Rightarrow> nat \<Rightarrow> u16 \<Rightarrow> domain_map \<Rightarrow> domain_map" where
  "report_failure cfg jit now d i status_code m =
     (let should_ban = (status_code = 429 \<or> status_code = 503 \<or> status_code = 403) in
      update_entry d (\<lambda>e.
        let e1 = e\<lparr>last_seen := now\<rparr> in
        if i < length (states e1)
        then e1\<lparr>states := (states e1)[i := apply_failure cfg jit now i should_ban (states e1 ! i)]\<rparr>
        else e1) m)"

definition evict_stale :: "pool_config \<Rightarrow> nat \<Rightarrow> domain_map \<Rightarrow> domain_map" where
  "evict_stale cfg now m =
     (let m1 = map (\<lambda>(k, e). (k, e\<lparr>states := evict_expired cfg now (states e)\<rparr>)) m
      in filter (\<lambda>(k, e). \<not> (ttl_duration cfg < now - last_seen e)) m1)"

definition domain_count :: "string \<Rightarrow> domain_map \<Rightarrow> nat" where
  "domain_count d m = (case map_of m d of None \<Rightarrow> 0 | Some e \<Rightarrow> length (states e))"

definition total_domains :: "domain_map \<Rightarrow> nat" where
  "total_domains m = length m"

text \<open>
  Runs of the pool: the map and the number of calls of \<^verbatim>\<open>acquire\<close> that have released their entry and not
  enforced the cap yet.
\<close>

inductive pool_step :: "pool_config \<Rightarrow> domain_map \<times> nat \<Rightarrow> domain_map \<times> nat \<Rightarrow> bool" for cfg where
  p_acquire: "pool_step cfg (m, n) (snd (acquire_entry cfg anchor now d m), Suc n)"
| p_cap: "pool_step cfg (m, Suc n) (enforce_domain_cap m, n)"
| p_success: "pool_step cfg (m, n) (report_success now d i m, n)"
| p_failure: "pool_step cfg (m, n) (report_failure cfg jit now d i code m, n)"
| p_stale: "pool_step cfg (m, n) (evict_stale cfg now m, n)"

definition pool_inv :: "pool_config \<Rightarrow> domain_map \<times> nat \<Rightarrow> bool" where
  "pool_inv cfg = (\<lambda>(m, n).
     distinct (map fst m) \<and> (\<forall>e \<in> snd ` set m. length (states e) = pool_size cfg)
     \<and> length m \<le> MAX_TRACKED_DOMAINS + n)"

section \<open>Entries\<close>

lemma update_entry_keys [simp]: "map fst (update_entry d f m) = map fst m"
  by (induction m) (auto simp: update_entry_def)

lemma update_entry_length [simp]: "length (update_entry d f m) = length m"
  by (simp add: update_entry_def)

lemma map_of_update_entry: "map_of (update_entry d f m) k = (if k = d then map_option f (map_of m d) else map_of m k)"
  by (induction m) (auto simp: update_entry_def)

lemma snd_update_entry: "e \<in> snd ` set (update_entry d f m) \<Longrightarrow> e \<in> snd ` set m \<or> (\<exists>e'. e' \<in> snd ` set m \<and> e = f e')"
  by (fastforce simp: update_entry_def split: if_splits)

lemma length_evict_expired [simp]: "length (evict_expired cfg now ss) = length ss"
  by (simp add: evict_expired_def)

lemma or_insert_inv:
  "distinct (map fst m) \<Longrightarrow> distinct (map fst (or_insert cfg now d m))"
  "\<forall>e \<in> snd ` set m. length (states e) = pool_size cfg \<Longrightarrow>
   \<forall>e \<in> snd ` set (or_insert cfg now d m). length (states e) = pool_size cfg"
  "length (or_insert cfg now d m) \<le> Suc (length m)"
  by (auto simp: or_insert_def)

lemma snd_acquire_entry:
  "snd (acquire_entry cfg anchor now d m) =
     update_entry d (\<lambda>e. e\<lparr>states := evict_expired cfg now (states e), last_seen := now\<rparr>) (or_insert cfg now d m)"
  by (auto simp: acquire_entry_def Let_def split: option.splits)

lemma update_entry_inv:
  assumes "pool_inv cfg (m, n)" and "\<And>e. length (states (f e)) = length (states e)"
  shows "pool_inv cfg (update_entry d f m, n)"
  using assms(1) snd_update_entry [of _ d f m] assms(2) by (fastforce simp: pool_inv_def)

lemma or_insert_pool_inv: "pool_inv cfg (m, n) \<Longrightarrow> pool_inv cfg (or_insert cfg now d m, Suc n)"
  using or_insert_inv [where m = m and cfg = cfg and now = now and d = d] by (fastforce simp: pool_inv_def)

section \<open>The cap\<close>

lemma fold_remove:
  "fold (\<lambda>d m. filter (\<lambda>(k, e). k \<noteq> d) m) ds m = filter (\<lambda>(k, e). k \<notin> set ds) m"
  by (induction ds arbitrary: m) (auto simp: filter_filter intro!: filter_cong)

lemma length_filter_keys:
  assumes "distinct (map fst m)" and "distinct ds" and "set ds \<subseteq> fst ` set m"
  shows "length (filter (\<lambda>(k, e). k \<notin> set ds) m) = length m - length ds"
proof -
  let ?m = "filter (\<lambda>(k, e). k \<notin> set ds) m"
  have d: "distinct (map fst ?m)" using assms(1) by (rule distinct_map_filter)
  have "length ?m = card (fst ` set ?m)" using distinct_card [OF d] by simp
  also have "fst ` set ?m = fst ` set m - set ds" by force
  also have "card \<dots> = card (fst ` set m) - card (set ds)" using assms(3) by (intro card_Diff_subset) auto
  also have "\<dots> = length m - length ds" using distinct_card [OF assms(1)] distinct_card [OF assms(2)] by simp
  finally show ?thesis .
qed

lemma by_age_keys: "mset (map fst (by_age m)) = mset (map fst m)"
  by (simp add: by_age_def case_prod_unfold multiset.map_comp comp_def)

lemma by_age_distinct: "distinct (map fst m) \<Longrightarrow> distinct (map fst (by_age m))"
  using by_age_keys mset_eq_imp_distinct_iff by blast

lemma enforce_eq:
  "enforce_domain_cap m =
     filter (\<lambda>(k, e). k \<notin> set (map fst (take (length m - MAX_TRACKED_DOMAINS) (by_age m)))) m"
  by (auto simp: enforce_domain_cap_def Let_def fold_remove)

lemma enforce_length:
  assumes "distinct (map fst m)"
  shows "length (enforce_domain_cap m) = min (length m) MAX_TRACKED_DOMAINS"
proof -
  let ?v = "map fst (take (length m - MAX_TRACKED_DOMAINS) (by_age m))"
  have "distinct ?v" using by_age_distinct [OF assms] by (simp add: take_map [symmetric])
  moreover have "set ?v \<subseteq> fst ` set m"
  proof -
    have "set ?v \<subseteq> fst ` set (by_age m)" by (auto dest!: in_set_takeD intro!: rev_image_eqI)
    then show ?thesis using mset_eq_setD [OF by_age_keys [of m]] by simp
  qed
  moreover have "length (by_age m) = length m" by (simp add: by_age_def)
  ultimately show ?thesis using length_filter_keys [OF assms, of ?v] unfolding enforce_eq
    by (simp add: MAX_TRACKED_DOMAINS_def)
qed

lemma enforce_keeps_recent:
  assumes "distinct (map fst m)" and "x \<in> set m" and "x \<notin> set (enforce_domain_cap m)"
    and "y \<in> set (enforce_domain_cap m)"
  shows "last_seen (snd x) \<le> last_seen (snd y)"
proof -
  define n where "n = length m - MAX_TRACKED_DOMAINS"
  have key: "last_seen (snd z) = a" if "z \<in> set m" "(fst z, a) \<in> set (by_age m)" for z a
  proof -
    obtain k e where "z = (k, e)" by (cases z)
    with that assms(1) show ?thesis by (auto simp: by_age_def dest: eq_key_imp_eq_value)
  qed
  have mem: "(fst z, last_seen (snd z)) \<in> set (by_age m)" if "z \<in> set m" for z
    using that by (auto simp: by_age_def case_prod_unfold image_iff)
  obtain a where a: "(fst x, a) \<in> set (take n (by_age m))"
    using assms(2,3) by (auto simp: enforce_eq n_def)
  have "y \<in> set m" and ny: "fst y \<notin> fst ` set (take n (by_age m))"
    using assms(4) by (simp_all add: enforce_eq n_def case_prod_unfold)
  have "(fst y, last_seen (snd y)) \<in> set (drop n (by_age m))"
    using mem [OF \<open>y \<in> set m\<close>] ny append_take_drop_id [of n "by_age m"]
    by (metis UnE fst_conv image_eqI set_append)
  moreover have "\<forall>p \<in> set (take n (by_age m)). \<forall>q \<in> set (drop n (by_age m)). snd p \<le> snd q"
  proof -
    have "sorted (map snd (take n (by_age m)) @ map snd (drop n (by_age m)))"
      by (simp add: by_age_def flip: map_append)
    then show ?thesis by (simp only: sorted_append) simp
  qed
  ultimately have "a \<le> last_seen (snd y)" using a by fastforce
  with key [OF assms(2)] a show ?thesis by (metis in_set_takeD)
qed

lemma enforce_inv: "pool_inv cfg (m, Suc n) \<Longrightarrow> pool_inv cfg (enforce_domain_cap m, n)"
proof -
  assume "pool_inv cfg (m, Suc n)"
  then have d: "distinct (map fst m)" and s: "\<forall>e \<in> snd ` set m. length (states e) = pool_size cfg"
    by (auto simp: pool_inv_def)
  have "distinct (map fst (enforce_domain_cap m))" unfolding enforce_eq using d by (rule distinct_map_filter)
  moreover have "set (enforce_domain_cap m) \<subseteq> set m" by (auto simp: enforce_eq)
  ultimately show ?thesis using enforce_length [OF d] s by (auto simp: pool_inv_def)
qed

lemma pool_step_inv: "pool_step cfg x y \<Longrightarrow> pool_inv cfg x \<Longrightarrow> pool_inv cfg y"
proof (induction rule: pool_step.induct)
  case (p_acquire m n anchor now d)
  then show ?case
    unfolding snd_acquire_entry by (intro update_entry_inv or_insert_pool_inv) simp_all
next
  case (p_cap m n)
  then show ?case by (rule enforce_inv)
next
  case (p_success m n now d i)
  then show ?case unfolding report_success_def by (rule update_entry_inv) (simp add: Let_def)
next
  case (p_failure m n jit now d i code)
  then show ?case unfolding report_failure_def Let_def by (rule update_entry_inv) simp
next
  case (p_stale m n now)
  let ?m = "map (\<lambda>(k, e). (k, e\<lparr>states := evict_expired cfg now (states e)\<rparr>)) m"
  have "map fst ?m = map fst m" by auto
  then have "distinct (map fst (evict_stale cfg now m))"
    unfolding evict_stale_def Let_def using p_stale by (intro distinct_map_filter) (simp only: pool_inv_def, simp)
  moreover have "length (evict_stale cfg now m) \<le> length m"
    unfolding evict_stale_def Let_def by (rule order_trans [OF length_filter_le]) simp
  moreover have "\<forall>e \<in> snd ` set (evict_stale cfg now m). length (states e) = pool_size cfg"
  proof -
    have "length (states e) = pool_size cfg" if "(k, e) \<in> set m" for k e
      using p_stale that by (force simp: pool_inv_def)
    then show ?thesis by (auto simp: evict_stale_def)
  qed
  ultimately show ?case using p_stale by (simp add: pool_inv_def)
qed

lemma pool_reachable_inv: "(pool_step cfg)\<^sup>*\<^sup>* ([], 0) x \<Longrightarrow> pool_inv cfg x"
proof (induction rule: rtranclp_induct)
  case base
  show ?case by (simp add: pool_inv_def)
qed (blast intro: pool_step_inv)

section \<open>Acquiring\<close>

lemma scan_Some: "scan_slots now ss start ks = Some i \<Longrightarrow> ss \<noteq> [] \<Longrightarrow> i < length ss \<and> usable now (ss ! i)"
  by (induction now ss start ks rule: scan_slots.induct) (auto simp: Let_def split: if_splits)

lemma scan_None: "scan_slots now ss start ks = None \<Longrightarrow> k \<in> set ks \<Longrightarrow> \<not> usable now (ss ! ((start + k) mod length ss))"
  by (induction now ss start ks rule: scan_slots.induct) (auto simp: Let_def split: if_splits)

lemma rotation_covers:
  assumes "i < (len :: nat)"
  shows "\<exists>k < len. (start + k) mod len = i"
proof (intro exI conjI)
  let ?k = "(i + (len - start mod len)) mod len"
  show "?k < len" using assms by simp
  have "(start + ?k) mod len = (start mod len + (i + (len - start mod len))) mod len"
    by (simp add: mod_simps)
  also have "start mod len + (i + (len - start mod len)) = i + len"
    using assms mod_less_divisor [of len start] by linarith
  finally show "(start + ?k) mod len = i" using assms by simp
qed

lemma find_available_spec:
  "case find_available anchor d ss now of
     Some i \<Rightarrow> i < length ss \<and> usable now (ss ! i)
   | None \<Rightarrow> \<forall>i < length ss. \<not> usable now (ss ! i)"
proof (cases "find_available anchor d ss now")
  case None
  have "\<not> usable now (ss ! i)" if i: "i < length ss" for i
  proof -
    obtain k where "k < length ss" "(pick_start anchor d now (length ss) + k) mod length ss = i"
      using rotation_covers [OF i] by blast
    with None scan_None [of now ss _ "[0..<length ss]" k] show ?thesis by (auto simp: find_available_def)
  qed
  with None show ?thesis by simp
next
  case (Some i)
  then have "ss \<noteq> []" by (auto simp: find_available_def)
  with Some show ?thesis using scan_Some by (simp add: find_available_def)
qed

lemma or_insert_lookup:
  "map_of (or_insert cfg now d m) d =
     Some (case map_of m d of Some e \<Rightarrow> e | None \<Rightarrow> \<lparr>states = replicate (pool_size cfg) healthy, last_seen = now\<rparr>)"
  by (auto simp: or_insert_def map_add_def map_of_eq_None_iff [THEN iffD2] split: option.splits
      dest: map_of_SomeD weak_map_of_SomeI)

lemma acquire_entry_eq:
  fixes cfg now m d
  defines "e \<equiv> (case map_of m d of Some e \<Rightarrow> e
                 | None \<Rightarrow> \<lparr>states = replicate (pool_size cfg) healthy, last_seen = now\<rparr>)"
  shows "fst (acquire_entry cfg anchor now d m) = find_available anchor d (evict_expired cfg now (states e)) now"
  using or_insert_lookup [of cfg now d m]
  by (simp add: acquire_entry_def Let_def map_of_update_entry e_def)

lemma acquire_result: "fst (acquire cfg anchor now d m) = fst (acquire_entry cfg anchor now d m)"
  by (simp add: acquire_def case_prod_unfold Let_def)

section \<open>Cool-down\<close>

lemma stagger_bound:
  fixes s x d :: nat
  assumes "s < max (x div 5) 1" and "x \<le> d"
  shows "5 * s \<le> d"
proof -
  have "s \<le> x div 5" using assms(1) by auto
  then have "5 * s \<le> 5 * (x div 5)" by simp
  also have "\<dots> \<le> x" by simp
  finally show ?thesis using assms(2) by simp
qed

lemma as_millis_from [simp]: "as_millis (from_millis d) = d"
  by (simp add: as_millis_def from_millis_def)

lemma from_millis_add [simp]: "from_millis (a + b) = from_millis a + from_millis b"
  by (simp add: from_millis_def algebra_simps)

lemma ban_deadline:
  fixes cfg jit st
  defines "delay \<equiv> max (jit (capped_delay cfg (consecutive_failures st + 1))) 1"
  shows "\<exists>w. next_retry_time (apply_failure cfg jit t i True st) = Some (t + from_millis w)
    \<and> delay \<le> w \<and> 5 * w \<le> 6 * delay
    \<and> status (apply_failure cfg jit t i True st) = Banned
    \<and> last_failure_time (apply_failure cfg jit t i True st) = Some t"
proof -
  let ?x = "delay mod 2 ^ 64"
  let ?window = "max (?x div 5) 1"
  let ?stagger = "(i * 37) mod 2 ^ 64 mod ?window"
  have b: "backoff_delay cfg jit (consecutive_failures st + 1) = from_millis delay"
    by (simp add: backoff_delay_def delay_def)
  have "?stagger < ?window" by (rule mod_less_divisor) simp
  then have "5 * ?stagger \<le> delay" by (rule stagger_bound) (rule mod_less_eq_dividend)
  then show ?thesis
    by (intro exI [of _ "delay + ?stagger"])
      (simp add: apply_failure_def Let_def b add.assoc)
qed

lemma banned_usable:
  "status st = Banned \<Longrightarrow> next_retry_time st = Some deadline \<Longrightarrow> usable now st \<longleftrightarrow> deadline \<le> now"
  by (simp add: usable_def banned_session_ready_def)

lemma capped_delay_pos: "1 \<le> capped_delay cfg k"
  by (simp add: capped_delay_def Let_def)

lemma report_failure_lookup:
  assumes "map_of m d = Some e" and "i < length (states e)" and "code \<in> {429, 503, 403}"
  shows "map_of (report_failure cfg jit t d i code m) d =
    Some (e\<lparr>last_seen := t, states := (states e)[i := apply_failure cfg jit t i True (states e ! i)]\<rparr>)"
  using assms by (auto simp: report_failure_def Let_def map_of_update_entry)

lemma evict_fresh_failure:
  assumes "i < length ss" and "last_failure_time st = Some t" and "now - t \<le> ttl_duration cfg"
  shows "evict_expired cfg now (ss[i := st]) ! i = st"
  using assms by (simp add: evict_expired_def expired_def)

lemma pool_inv_slots: "pool_inv cfg (m, n) \<Longrightarrow> map_of m d = Some e \<Longrightarrow> length (states e) = pool_size cfg"
  by (force simp: pool_inv_def dest: map_of_SomeD)

text \<open>The definitions that pick the slot, as one case distinction.\<close>

lemma acquire_choice:
  assumes "map_of m d = Some e" and "ss = evict_expired cfg now (states e)"
  shows "case fst (acquire cfg anchor now d m) of
      Some i \<Rightarrow> i < length ss \<and> usable now (ss ! i) | None \<Rightarrow> \<forall>i < length ss. \<not> usable now (ss ! i)"
  using find_available_spec [where anchor = anchor and d = d and ss = ss and now = now] assms by (simp add: acquire_result acquire_entry_eq)

text \<open>
  Acquiring is sound and complete: in every reachable pool the call hands out a slot of the domain that
  is healthy or whose cool-down has run out, and refuses only when no slot is; the domain's slots are then
  as many as configured.
\<close>

theorem acquire_finds_usable_slot:
  assumes "(pool_step cfg)\<^sup>*\<^sup>* ([], 0) (m, n)"
  shows "\<exists>e. map_of (snd (acquire_entry cfg anchor now d m)) d = Some e
    \<and> length (states e) = pool_size cfg \<and> last_seen e = now
    \<and> (case fst (acquire cfg anchor now d m) of
         Some i \<Rightarrow> i < pool_size cfg \<and> usable now (states e ! i)
       | None \<Rightarrow> \<forall>i < pool_size cfg. \<not> usable now (states e ! i))"
proof -
  define e where "e = (case map_of m d of Some e \<Rightarrow> e
    | None \<Rightarrow> \<lparr>states = replicate (pool_size cfg) healthy, last_seen = now\<rparr>)"
  let ?e = "e\<lparr>states := evict_expired cfg now (states e), last_seen := now\<rparr>"
  have "length (states e) = pool_size cfg"
    using pool_inv_slots [OF pool_reachable_inv [OF assms]] by (auto simp: e_def split: option.splits)
  moreover have "map_of (snd (acquire_entry cfg anchor now d m)) d = Some ?e"
    by (simp add: snd_acquire_entry map_of_update_entry or_insert_lookup e_def)
  moreover have "fst (acquire cfg anchor now d m) = find_available anchor d (states ?e) now"
    by (simp add: acquire_result acquire_entry_eq e_def)
  ultimately show ?thesis
    using find_available_spec [where anchor = anchor and d = d and ss = "states ?e" and now = now]
    by (intro exI [of _ ?e]) (auto split: option.splits)
qed

text \<open>
  A banned slot cools down for its time and no longer: after a ban at time \<open>t\<close>, with the jitter between 0.8
  and 1.2 of the capped delay \<open>c\<close> in milliseconds, the slot is not handed out before 0.8 \<open>c\<close> have passed, and
  once 1.44 \<open>c\<close> have passed the domain is no longer refused; both up to the rounding to whole milliseconds
  and within the time to live.
\<close>

theorem banned_slot_cools_down:
  assumes "(pool_step cfg)\<^sup>*\<^sup>* ([], 0) (m, n)" and "map_of m d = Some e" and "i < pool_size cfg"
    and "code \<in> {429, 503, 403}" and "c = capped_delay cfg (consecutive_failures (states e ! i) + 1)"
    and "8 * c \<le> 10 * jit c + 5" and "10 * jit c \<le> 12 * c + 5"
    and "t \<le> now" and "now - t \<le> ttl_duration cfg"
  shows "(10 * (now - t) < (8 * c - 5) * 1000000 \<longrightarrow>
            fst (acquire cfg anchor now d (report_failure cfg jit t d i code m)) \<noteq> Some i)
    \<and> ((72 * c + 30) * 1000000 \<le> 50 * (now - t) \<longrightarrow>
            fst (acquire cfg anchor now d (report_failure cfg jit t d i code m)) \<noteq> None)"
proof -
  let ?st = "apply_failure cfg jit t i True (states e ! i)"
  have len: "i < length (states e)"
    using pool_inv_slots [OF pool_reachable_inv [OF assms(1)] assms(2)] assms(3) by simp
  obtain w where w: "next_retry_time ?st = Some (t + from_millis w)" "max (jit c) 1 \<le> w"
    "5 * w \<le> 6 * max (jit c) 1" "status ?st = Banned" "last_failure_time ?st = Some t"
    using ban_deadline [where cfg = cfg and jit = jit and st = "states e ! i" and t = t and i = i, folded assms(5)]
    by (elim exE conjE) (rule that, assumption+)
  define ss where "ss = evict_expired cfg now ((states e)[i := ?st])"
  have slot: "ss ! i = ?st" "i < length ss"
    using evict_fresh_failure [OF len w(5) assms(9)] len by (simp_all add: ss_def)
  note choice = acquire_choice [OF report_failure_lookup [OF assms(2) len assms(4), of cfg jit t], of ss cfg now anchor]
  have usable: "usable now ?st \<longleftrightarrow> w * 1000000 \<le> now - t"
    unfolding banned_usable [OF w(4,1)] from_millis_def using assms(8) by linarith
  have "1 \<le> c" using assms(5) capped_delay_pos by simp
  then have bounds: "8 * c - 5 \<le> 10 * w" "50 * w \<le> 72 * c + 30" using w(2,3) assms(6,7) by auto
  have "10 * (now - t) < (8 * c - 5) * 1000000 \<Longrightarrow> \<not> usable now ?st"
    unfolding usable using bounds(1) by linarith
  moreover have "usable now ?st" if "(72 * c + 30) * 1000000 \<le> 50 * (now - t)"
  proof -
    have "50 * w * 1000000 \<le> 50 * (now - t)" using order_trans [OF mult_le_mono1 [OF bounds(2)] that] .
    then show ?thesis unfolding usable by simp
  qed
  ultimately show ?thesis using choice slot
    by (cases "fst (acquire cfg anchor now d (report_failure cfg jit t d i code m))") (auto simp: ss_def)
qed

text \<open>
  The pool stays bounded: in every reachable state, with any number \<open>n\<close> of calls between releasing
  their entry and enforcing the cap, no more than 500 domains and those \<open>n\<close> are tracked, each once;
  enforcing the cap leaves at most 500, and what it removes was seen no later than anything it keeps.
\<close>

theorem pool_stays_bounded:
  assumes "(pool_step cfg)\<^sup>*\<^sup>* ([], 0) (m, n)"
  shows "distinct (map fst m) \<and> total_domains m \<le> MAX_TRACKED_DOMAINS + n
    \<and> total_domains (enforce_domain_cap m) = min (total_domains m) MAX_TRACKED_DOMAINS
    \<and> (\<forall>x \<in> set m - set (enforce_domain_cap m). \<forall>y \<in> set (enforce_domain_cap m).
         last_seen (snd x) \<le> last_seen (snd y))"
  using pool_reachable_inv [OF assms] enforce_length [of m] enforce_keeps_recent [of m]
  by (auto simp: pool_inv_def total_domains_def)

text \<open>A pool with one domain whose only slot has been acquired.\<close>

lemma sample_pool_reachable:
  "(pool_step (default_config\<lparr>pool_size := 1\<rparr>))\<^sup>*\<^sup>* ([], 0)
     ([(''d'', \<lparr>states = [healthy], last_seen = 7\<rparr>)], 1)"
  using p_acquire [of "default_config\<lparr>pool_size := 1\<rparr>" "[]" 0 0 7 "''d''"]
  by (intro r_into_rtranclp)
    (simp add: snd_acquire_entry or_insert_def update_entry_def evict_expired_def expired_def healthy_def)

theorem acquire_finds_usable_slot_witness:
  "\<exists>e. map_of (snd (acquire_entry (default_config\<lparr>pool_size := 1\<rparr>) 0 9 ''d'' [(''d'', \<lparr>states = [healthy], last_seen = 7\<rparr>)])) ''d''
     = Some e \<and> length (states e) = 1"
  using acquire_finds_usable_slot [OF sample_pool_reachable, of 0 9 "''d''"] by auto

theorem banned_slot_cools_down_witness:
  "fst (acquire (default_config\<lparr>pool_size := 1\<rparr>) 0 1000 ''d''
      (report_failure (default_config\<lparr>pool_size := 1\<rparr>) id 0 ''d'' 0 429 [(''d'', \<lparr>states = [healthy], last_seen = 7\<rparr>)]))
   \<noteq> Some 0"
proof -
  have c: "2000 = capped_delay (default_config\<lparr>pool_size := 1\<rparr>)
      (consecutive_failures (states \<lparr>states = [healthy], last_seen = 7\<rparr> ! 0) + 1)"
    by (simp add: default_config_def healthy_def capped_delay_def as_millis_def)
  show ?thesis
    by (rule banned_slot_cools_down [OF sample_pool_reachable _ _ _ c, THEN conjunct1, THEN mp])
      (simp_all add: default_config_def)
qed

theorem pool_stays_bounded_witness:
  "total_domains [(''d'', \<lparr>states = [healthy], last_seen = 7\<rparr>)] \<le> MAX_TRACKED_DOMAINS + 1"
  using pool_stays_bounded [OF sample_pool_reachable] by blast

end
