(* ===== verification/Http_Client.thy ===== *)
theory Http_Client
  imports Waf_Engine Session_Pool Filename Url_Validation
begin

text \<open>
  The hardened HTTP client: \<^verbatim>\<open>application/http_client/client.rs\<close> and \<^verbatim>\<open>retry.rs\<close>, with the errors, configuration and
  body cap of \<^verbatim>\<open>domain/http_error.rs\<close>, \<^verbatim>\<open>domain/http_config.rs\<close> and \<^verbatim>\<open>domain/body_cap.rs\<close>. The network is the
  argument \<open>env_net\<close>, which answers a request from the history of what was sent and slept; the whole-body
  read of the \<^verbatim>\<open>wreq\<close> crate, the decoder of \<^verbatim>\<open>encoding_rs\<close> and the installed inspector are the other fields of the
  environment. A decoded text is the list of its bytes. Arithmetic is that of the release profile, which
  wraps. Pacing by the rate limiter only delays and is left out.
\<close>

section \<open>Data\<close>

datatype http_error = Forbidden | RateLimited u64 | ClientError u16 | ServerError u16 | Timeout
  | Connection string | Request string | WafChallenge string | DomainBanned string | BodyTooLarge u64

record http_client_config =
  accept_language :: string
  accept :: string
  referer :: string
  cache_control :: string
  max_retries :: u32
  backoff_base_ms :: u64
  backoff_max_ms :: u64
  rate_limit_rpm :: "u32 option"
  user_agent :: "string option"
  cfg_ignore_waf :: bool
  custom_headers :: "(string \<times> string) list"
  max_page_bytes :: u64

definition default_http_config :: http_client_config where
  "default_http_config =
     \<lparr>accept_language = ''en-US,en;q=0.9'',
      accept = ''text/html,application/xhtml+xml,application/xml;q=0.9,*/*;q=0.8'',
      referer = ''https://www.google.com/'', cache_control = ''no-cache'', max_retries = 3,
      backoff_base_ms = 1000, backoff_max_ms = 10000, rate_limit_rpm = None, user_agent = None,
      cfg_ignore_waf = False, custom_headers = [], max_page_bytes = 50 * 1024 * 1024\<rparr>"

datatype send_error = TimedOut | ConnectFailed string | OtherFailure string

record response =
  rs_status :: u16
  rs_headers :: "(string \<times> string) list"
  rs_chunks :: "(string + string) list"

record request =
  rq_url :: string
  rq_headers :: "(string \<times> string) list"

datatype event = Sent request | Slept u64

record http_env =
  env_net :: "event list \<Rightarrow> request \<Rightarrow> send_error + response"
  env_text :: "response \<Rightarrow> string + string"
  env_decode :: "string \<Rightarrow> string \<Rightarrow> string"
  env_inspect :: "string \<Rightarrow> inspection_context \<Rightarrow> waf_verdict"

definition send :: "http_env \<Rightarrow> request \<Rightarrow> event list \<Rightarrow> (send_error + response) \<times> event list" where
  "send env rq tr = (env_net env tr rq, tr @ [Sent rq])"

text \<open>\<^verbatim>\<open>HeaderValue::to_str\<close> and \<^verbatim>\<open>HeaderMap::get\<close>.\<close>

definition header_str :: "string \<Rightarrow> string option" where
  "header_str v = (if list_all (\<lambda>c. let n = of_char c :: nat in n = 9 \<or> 32 \<le> n \<and> n < 127) v then Some v else None)"

definition header_get :: "response \<Rightarrow> string \<Rightarrow> string option" where
  "header_get resp name = Option.bind (map_of (rs_headers resp) name) header_str"

section \<open>Capped body\<close>

definition charset_label :: "response \<Rightarrow> string" where
  "charset_label resp =
     unwrap_or (Option.bind (header_get resp ''content-type'') (\<lambda>v.
       find_map (\<lambda>part. map_option (\<lambda>c. to_ascii_lowercase (trim (trim_matches (\<lambda>q. q = CHR 0x22) c)))
                   (strip_prefix ''charset='' (trim part)))
         (split_on (CHR '';'') v))) ''utf-8''"

fun read_chunks :: "u64 \<Rightarrow> string \<Rightarrow> (string + string) list \<Rightarrow> http_error + string" where
  "read_chunks limit buf [] = Inr buf"
| "read_chunks limit buf (Inl e # cs) = Inl (Request e)"
| "read_chunks limit buf (Inr chunk # cs) =
     (if min (length buf + length chunk) (2 ^ 64 - 1) > unat limit then Inl (BodyTooLarge limit)
      else read_chunks limit (buf @ chunk) cs)"

definition read_body_capped :: "http_env \<Rightarrow> response \<Rightarrow> u64 \<Rightarrow> http_error + string" where
  "read_body_capped env resp limit =
     (case read_chunks limit [] (rs_chunks resp) of
        Inl e \<Rightarrow> Inl e
      | Inr buf \<Rightarrow> Inr (env_decode env (charset_label resp) buf))"

section \<open>Retry loop\<close>

record retry_policy =
  retry_after_secs :: "u64 option"
  retryable :: "u16 \<Rightarrow> bool"
  exhausted :: http_error

definition compute_backoff_delay :: "u32 \<Rightarrow> u64 option \<Rightarrow> u64 \<Rightarrow> u64 \<Rightarrow> u64" where
  "compute_backoff_delay attempt retry_after base_ms max_ms =
     (case retry_after of
        Some secs \<Rightarrow> if 0 < secs then secs * 1000 else min (base_ms * 2 ^ (unat attempt - 1)) max_ms
      | None \<Rightarrow> min (base_ms * 2 ^ (unat attempt - 1)) max_ms)"

definition is_success :: "u16 \<Rightarrow> bool" where
  "is_success s = (200 \<le> s \<and> s \<le> 299)"

definition retry_request :: "http_client_config \<Rightarrow> string \<Rightarrow> string \<Rightarrow> request" where
  "retry_request config url ua =
     \<lparr>rq_url = url,
      rq_headers = [(''Accept-Language'', accept_language config), (''Accept'', accept config),
        (''Referer'', referer config), (''Cache-Control'', cache_control config), (''User-Agent'', ua)]
        @ custom_headers config\<rparr>"

function retry_loop ::
  "http_env \<Rightarrow> string \<Rightarrow> http_client_config \<Rightarrow> string \<Rightarrow> retry_policy \<Rightarrow> u32 \<Rightarrow> bool \<Rightarrow> event list
    \<Rightarrow> (http_error + string) \<times> event list" where
  "retry_loop env url config ua policy attempt last_failure_was_timeout tr =
     (if attempt < max_retries config then
        (let attempt' = attempt + 1;
             delay = compute_backoff_delay attempt' (retry_after_secs policy) (backoff_base_ms config)
                       (backoff_max_ms config);
             (outcome, tr1) = send env (retry_request config url ua) (tr @ [Slept delay])
         in case outcome of
              Inr resp \<Rightarrow>
                if is_success (rs_status resp)
                then (case env_text env resp of Inl e \<Rightarrow> Inl (Request e) | Inr body \<Rightarrow> Inr body, tr1)
                else if retryable policy (rs_status resp)
                then retry_loop env url config ua policy attempt' last_failure_was_timeout tr1
                else (Inl (ClientError (rs_status resp)), tr1)
            | Inl e \<Rightarrow> retry_loop env url config ua policy attempt' (e = TimedOut) tr1)
      else (Inl (if last_failure_was_timeout then Timeout else exhausted policy), tr))"
  by pat_completeness auto

termination
  by (relation "measure (\<lambda>(_, _, config, _, _, attempt, _, _). unat (max_retries config) - unat attempt)")
    (use attempt_measure in auto)

declare retry_loop.simps [simp del]

definition retry_with_backoff ::
  "http_env \<Rightarrow> string \<Rightarrow> http_client_config \<Rightarrow> string \<Rightarrow> retry_policy \<Rightarrow> event list
    \<Rightarrow> (http_error + string) \<times> event list" where
  "retry_with_backoff env url config ua policy tr = retry_loop env url config ua policy 0 False tr"

section \<open>Client\<close>

record http_client =
  hc_config :: http_client_config
  user_agents :: "string list"

definition fallback_agents :: "string list" where
  "fallback_agents =
     [''Mozilla/5.0 (Windows NT 10.0; Win64; x64) AppleWebKit/537.36 (KHTML, like Gecko) Chrome/131.0.0.0 Safari/537.36'',
      ''Mozilla/5.0 (Macintosh; Intel Mac OS X 10_15_7) AppleWebKit/537.36 (KHTML, like Gecko) Chrome/131.0.0.0 Safari/537.36'',
      ''Mozilla/5.0 (X11; Linux x86_64) AppleWebKit/537.36 (KHTML, like Gecko) Chrome/131.0.0.0 Safari/537.36'',
      ''Mozilla/5.0 (Windows NT 10.0; Win64; x64) AppleWebKit/537.36 (KHTML, like Gecko) Chrome/132.0.0.0 Safari/537.36'',
      ''Mozilla/5.0 (Macintosh; Intel Mac OS X 10_15_7) AppleWebKit/537.36 (KHTML, like Gecko) Chrome/132.0.0.0 Safari/537.36'',
      ''Mozilla/5.0 (Windows NT 10.0; Win64; x64; rv:123.0) Gecko/20100101 Firefox/123.0'',
      ''Mozilla/5.0 (Macintosh; Intel Mac OS X 10.15; rv:123.0) Gecko/20100101 Firefox/123.0'']"

text \<open>\<^verbatim>\<open>HttpClient::new\<close>, without the construction of the underlying client: \<open>None\<close> is the configuration error.\<close>

definition http_client_new :: "http_client_config \<Rightarrow> http_client option" where
  "http_client_new config =
     (if rate_limit_rpm config = Some 0 then None
      else Some \<lparr>hc_config = config,
                 user_agents = (case user_agent config of None \<Rightarrow> fallback_agents | Some ua \<Rightarrow> ua # fallback_agents)\<rparr>)"

text \<open>The pool of a constructed client is never empty; on an empty one the source's remainder would panic.\<close>

definition select_user_agent :: "http_client \<Rightarrow> nat \<Rightarrow> string" where
  "select_user_agent client ua_index =
     (let i = ua_index mod length (user_agents client) in
      if i < length (user_agents client) then user_agents client ! i
      else ''Mozilla/5.0 (Windows NT 10.0; Win64; x64) AppleWebKit/537.36'')"

definition build_request :: "http_client \<Rightarrow> string \<Rightarrow> string \<Rightarrow> nat \<Rightarrow> request" where
  "build_request client url ua ua_index =
     (let config = hc_config client in
      \<lparr>rq_url = url,
       rq_headers = [(''Accept-Language'', accept_language config), (''Accept'', accept config), (''User-Agent'', ua)]
         @ (if ua_index < 4 then [(''Referer'', referer config), (''Cache-Control'', cache_control config)] else [])
         @ custom_headers config\<rparr>)"

definition map_send_error :: "send_error \<Rightarrow> http_error" where
  "map_send_error e = (case e of TimedOut \<Rightarrow> Timeout | ConnectFailed m \<Rightarrow> Connection m | OtherFailure m \<Rightarrow> Request m)"

function send_timeout_loop ::
  "http_env \<Rightarrow> http_client \<Rightarrow> string \<Rightarrow> string \<Rightarrow> nat \<Rightarrow> u32 \<Rightarrow> event list \<Rightarrow> (http_error + response) \<times> event list" where
  "send_timeout_loop env client url ua ua_index attempt tr =
     (let (outcome, tr1) = send env (build_request client url ua ua_index) tr in
      case outcome of
        Inr resp \<Rightarrow> (Inr resp, tr1)
      | Inl e \<Rightarrow>
          if e \<noteq> TimedOut then (Inl (map_send_error e), tr1)
          else if max_retries (hc_config client) \<le> attempt then (Inl Timeout, tr1)
          else (let attempt' = attempt + 1;
                    delay = compute_backoff_delay attempt' None (backoff_base_ms (hc_config client))
                              (backoff_max_ms (hc_config client))
                in send_timeout_loop env client url ua ua_index attempt' (tr1 @ [Slept delay])))"
  by pat_completeness auto

termination
  by (relation "measure (\<lambda>(_, client, _, _, _, attempt, _). unat (max_retries (hc_config client)) - unat attempt)")
    (use attempt_measure in \<open>auto simp: not_le\<close>)

declare send_timeout_loop.simps [simp del]

definition send_with_timeout_retry ::
  "http_env \<Rightarrow> http_client \<Rightarrow> string \<Rightarrow> string \<Rightarrow> nat \<Rightarrow> event list \<Rightarrow> (http_error + response) \<times> event list" where
  "send_with_timeout_retry env client url ua ua_index tr = send_timeout_loop env client url ua ua_index 0 tr"

text \<open>Later values of a header replace earlier ones.\<close>

definition lowercase_headers :: "response \<Rightarrow> (string \<times> string) list" where
  "lowercase_headers resp =
     fold (\<lambda>(name, v) m. case header_str v of Some s \<Rightarrow> (to_lowercase name, s) # m | None \<Rightarrow> m) (rs_headers resp) []"

definition inspection_context_of :: "u16 \<Rightarrow> response \<Rightarrow> bool \<Rightarrow> inspection_context" where
  "inspection_context_of st resp ignore = from_lowercase_headers st (lowercase_headers resp) ignore"

definition waf_block_error :: "http_env \<Rightarrow> string \<Rightarrow> inspection_context \<Rightarrow> http_error option" where
  "waf_block_error env body ctx =
     (let verdict = env_inspect env body ctx in
      if is_blocked verdict then Some (WafChallenge (evidence_chain verdict)) else None)"

definition handle_success :: "http_env \<Rightarrow> http_client \<Rightarrow> response \<Rightarrow> u16 \<Rightarrow> http_error + string" where
  "handle_success env client resp st =
     (let ctx = inspection_context_of st resp (cfg_ignore_waf (hc_config client)) in
      case read_body_capped env resp (max_page_bytes (hc_config client)) of
        Inl e \<Rightarrow> Inl e
      | Inr body \<Rightarrow> (case waf_block_error env body ctx of Some err \<Rightarrow> Inl err | None \<Rightarrow> Inr body))"

definition handle_rate_limited ::
  "http_env \<Rightarrow> http_client \<Rightarrow> string \<Rightarrow> response \<Rightarrow> string \<Rightarrow> event list \<Rightarrow> (http_error + string) \<times> event list" where
  "handle_rate_limited env client url resp ua tr =
     (let retry_after = map_option (of_nat :: nat \<Rightarrow> u64)
            (Option.bind (header_get resp ''retry-after'') (from_str_radix 64 10))
      in retry_with_backoff env url (hc_config client) ua
           \<lparr>retry_after_secs = retry_after, retryable = \<lambda>code. code = 429 \<or> 500 \<le> code \<and> code \<le> 599,
            exhausted = RateLimited (unwrap_or retry_after 0)\<rparr> tr)"

definition handle_server_error ::
  "http_env \<Rightarrow> http_client \<Rightarrow> string \<Rightarrow> response \<Rightarrow> u16 \<Rightarrow> string \<Rightarrow> event list \<Rightarrow> (http_error + string) \<times> event list" where
  "handle_server_error env client url resp st ua tr =
     (let ctx = inspection_context_of st resp (cfg_ignore_waf (hc_config client));
          body = (case read_body_capped env resp (max_page_bytes (hc_config client)) of Inr b \<Rightarrow> b | Inl _ \<Rightarrow> [])
      in case waf_block_error env body ctx of
           Some err \<Rightarrow> (Inl err, tr)
         | None \<Rightarrow>
             retry_with_backoff env url (hc_config client) ua
               \<lparr>retry_after_secs = None, retryable = \<lambda>code. 500 \<le> code \<and> code \<le> 599, exhausted = ServerError st\<rparr> tr)"

function get_loop ::
  "http_env \<Rightarrow> http_client \<Rightarrow> string \<Rightarrow> nat \<Rightarrow> event list \<Rightarrow> (http_error + string) \<times> event list" where
  "get_loop env client url ua_index tr =
     (if length (user_agents client) \<le> ua_index \<and> 0 < ua_index then (Inl Forbidden, tr)
      else
        (let ua = select_user_agent client ua_index;
             (outcome, tr1) = send_with_timeout_retry env client url ua ua_index tr
         in case outcome of
              Inl e \<Rightarrow> (Inl e, tr1)
            | Inr resp \<Rightarrow>
                (let s = rs_status resp in
                 if 200 \<le> s \<and> s \<le> 299 then (handle_success env client resp s, tr1)
                 else if s = 403
                 then (if ua_index = 0 then get_loop env client url (ua_index + 1) tr1 else (Inl Forbidden, tr1))
                 else if s = 429 then handle_rate_limited env client url resp ua tr1
                 else if 500 \<le> s \<and> s \<le> 599 then handle_server_error env client url resp s ua tr1
                 else if 300 \<le> s \<and> s \<le> 399 then (Inl (ClientError s), tr1)
                 else if 400 \<le> s \<and> s \<le> 499 then (Inl (ClientError s), tr1)
                 else (Inl (ServerError s), tr1))))"
  by pat_completeness auto

termination
  by (relation "measure (\<lambda>(_, _, _, ua_index, _). 1 - ua_index)") auto

declare get_loop.simps [simp del]

definition get_inner :: "http_env \<Rightarrow> http_client \<Rightarrow> string \<Rightarrow> event list \<Rightarrow> (http_error + string) \<times> event list" where
  "get_inner env client url tr = get_loop env client url 0 tr"

section \<open>Session gating\<close>

text \<open>The status reported to the session pool for an error; none for an error that is no one's fault.\<close>

definition outcome_status :: "http_error \<Rightarrow> u16 option" where
  "outcome_status e =
     (case e of
        WafChallenge _ \<Rightarrow> Some 403
      | Forbidden \<Rightarrow> Some 403
      | RateLimited _ \<Rightarrow> Some 429
      | Timeout \<Rightarrow> Some 504
      | Connection _ \<Rightarrow> Some 503
      | ClientError code \<Rightarrow> if code = 404 then None else Some code
      | ServerError code \<Rightarrow> Some code
      | Request _ \<Rightarrow> None
      | DomainBanned _ \<Rightarrow> None
      | BodyTooLarge _ \<Rightarrow> None)"

definition report_outcome ::
  "pool_config \<Rightarrow> (nat \<Rightarrow> nat) \<Rightarrow> nat \<Rightarrow> string \<Rightarrow> nat option \<Rightarrow> http_error + string \<Rightarrow> domain_map \<Rightarrow> domain_map" where
  "report_outcome cfg jit now domain session_id result pool =
     (case session_id of
        None \<Rightarrow> pool
      | Some sid \<Rightarrow>
          (case result of
             Inr _ \<Rightarrow> report_success now domain sid pool
           | Inl e \<Rightarrow> (case outcome_status e of None \<Rightarrow> pool | Some st \<Rightarrow> report_failure cfg jit now domain sid st pool)))"

definition session_domain :: "'u url_api \<Rightarrow> string \<Rightarrow> 'u \<Rightarrow> string" where
  "session_domain api url parsed = unwrap_or (extract_domain api url) (unwrap_or (api_host_str api parsed) ''unknown'')"

text \<open>
  \<^verbatim>\<open>HttpClient::get\<close> with a session pool: \<open>t0\<close> is the time of the acquisition and \<open>t1\<close> that of the report. The pool
  between the two is the one the acquisition left. The result carries the pool and the history.
\<close>

definition get ::
  "http_env \<Rightarrow> 'u url_api \<Rightarrow> http_client \<Rightarrow> pool_config \<Rightarrow> (nat \<Rightarrow> nat) \<Rightarrow> nat \<Rightarrow> nat \<Rightarrow> nat \<Rightarrow> string
    \<Rightarrow> domain_map \<Rightarrow> event list \<Rightarrow> (http_error + string) \<times> domain_map \<times> event list" where
  "get env api client cfg jit anchor t0 t1 url pool tr =
     (case api_parse api url of
        None \<Rightarrow> (Inl (Request ''Invalid URL''), pool, tr)
      | Some parsed \<Rightarrow>
          if api_scheme api parsed \<noteq> ''http'' \<and> api_scheme api parsed \<noteq> ''https''
          then (Inl (Request ''URL must use http or https scheme''), pool, tr)
          else
            (let domain = session_domain api url parsed;
                 (slot, pool1) = acquire cfg anchor t0 domain pool
             in case slot of
                  None \<Rightarrow> (Inl (DomainBanned domain), pool1, tr)
                | Some sid \<Rightarrow>
                    (let (result, tr1) = get_inner env client url tr in
                     (result, report_outcome cfg jit t1 domain (Some sid) result pool1, tr1))))"

text \<open>The raw port: one request, every status as data.\<close>

definition port_get ::
  "http_env \<Rightarrow> http_client \<Rightarrow> string \<Rightarrow> event list \<Rightarrow> (http_error + (u16 \<times> string \<times> (string \<times> string) list)) \<times> event list" where
  "port_get env client url tr =
     (let (outcome, tr1) = send env \<lparr>rq_url = url, rq_headers = []\<rparr> tr in
      case outcome of
        Inl e \<Rightarrow> (Inl (map_send_error e), tr1)
      | Inr resp \<Rightarrow>
          (case read_body_capped env resp (max_page_bytes (hc_config client)) of
             Inl e \<Rightarrow> (Inl e, tr1)
           | Inr body \<Rightarrow> (Inr (rs_status resp, body, lowercase_headers resp), tr1)))"

section \<open>Requests sent\<close>

definition sent_count :: "event list \<Rightarrow> nat" where
  "sent_count tr = length (filter (\<lambda>e. case e of Sent _ \<Rightarrow> True | Slept _ \<Rightarrow> False) tr)"

lemma sent_count_simps [simp]:
  "sent_count (tr @ [Sent rq]) = Suc (sent_count tr)" "sent_count (tr @ [Slept d]) = sent_count tr"
  by (simp_all add: sent_count_def)

lemma unat_step: "(a :: u32) < m \<Longrightarrow> unat (a + 1) = unat a + 1"
  using unsigned_less [of m, where 'a = nat] by (simp add: unat_add_lem [THEN iffD1] word_less_nat_alt)

abbreviation retry_delay :: "http_client_config \<Rightarrow> retry_policy \<Rightarrow> u32 \<Rightarrow> u64" where
  "retry_delay config policy attempt \<equiv>
     compute_backoff_delay (attempt + 1) (retry_after_secs policy) (backoff_base_ms config) (backoff_max_ms config)"

lemma retry_step:
  assumes "attempt < max_retries config"
  shows "retry_loop env url config ua policy attempt b tr =
    (let tr0 = tr @ [Slept (retry_delay config policy attempt)];
         tr1 = tr0 @ [Sent (retry_request config url ua)]
     in case env_net env tr0 (retry_request config url ua) of
          Inl e \<Rightarrow> retry_loop env url config ua policy (attempt + 1) (e = TimedOut) tr1
        | Inr resp \<Rightarrow>
            if is_success (rs_status resp)
            then (case env_text env resp of Inl e \<Rightarrow> Inl (Request e) | Inr body \<Rightarrow> Inr body, tr1)
            else if retryable policy (rs_status resp) then retry_loop env url config ua policy (attempt + 1) b tr1
            else (Inl (ClientError (rs_status resp)), tr1))"
  using assms by (subst retry_loop.simps) (simp add: send_def Let_def split: sum.split)

lemma retry_done:
  "\<not> attempt < max_retries config \<Longrightarrow>
     retry_loop env url config ua policy attempt b tr = (Inl (if b then Timeout else exhausted policy), tr)"
  by (subst retry_loop.simps) simp

lemma retry_loop_sent:
  "n = unat (max_retries config) - unat attempt \<Longrightarrow>
   sent_count (snd (retry_loop env url config ua policy attempt b tr)) \<le> sent_count tr + n"
proof (induction n arbitrary: attempt b tr)
  case 0
  then show ?case by (simp add: retry_done word_less_nat_alt)
next
  case (Suc n)
  then have a: "attempt < max_retries config" by (simp add: word_less_nat_alt)
  have n: "n = unat (max_retries config) - unat (attempt + 1)" using Suc.prems unat_step [OF a] by simp
  let ?tr0 = "tr @ [Slept (retry_delay config policy attempt)]"
  let ?rq = "retry_request config url ua"
  have IH: "sent_count (snd (retry_loop env url config ua policy (attempt + 1) b' (?tr0 @ [Sent ?rq]))) \<le> Suc (sent_count tr) + n" for b'
    using Suc.IH [OF n, of b' "?tr0 @ [Sent ?rq]"] by (simp del: append_assoc)
  show ?case
    using IH by (auto simp: retry_step [OF a] Let_def simp del: append_assoc split: sum.splits)
qed

lemma timeout_step:
  "send_timeout_loop env client url ua ui attempt tr =
    (let rq = build_request client url ua ui; tr1 = tr @ [Sent rq] in
     case env_net env tr rq of
       Inr resp \<Rightarrow> (Inr resp, tr1)
     | Inl e \<Rightarrow>
         if e \<noteq> TimedOut then (Inl (map_send_error e), tr1)
         else if max_retries (hc_config client) \<le> attempt then (Inl Timeout, tr1)
         else send_timeout_loop env client url ua ui (attempt + 1)
                (tr1 @ [Slept (compute_backoff_delay (attempt + 1) None (backoff_base_ms (hc_config client))
                          (backoff_max_ms (hc_config client)))]))"
  by (subst send_timeout_loop.simps) (simp add: send_def Let_def split: sum.split)

lemma send_timeout_sent:
  "n = unat (max_retries (hc_config client)) - unat attempt \<Longrightarrow>
   sent_count (snd (send_timeout_loop env client url ua ui attempt tr)) \<le> sent_count tr + Suc n"
proof (induction n arbitrary: attempt tr)
  case 0
  then have "max_retries (hc_config client) \<le> attempt" by (simp add: word_le_nat_alt)
  then show ?case by (simp add: timeout_step Let_def split: sum.splits)
next
  case (Suc n)
  then have a: "attempt < max_retries (hc_config client)" by (simp add: word_less_nat_alt)
  have n: "n = unat (max_retries (hc_config client)) - unat (attempt + 1)" using Suc.prems unat_step [OF a] by simp
  let ?tr1 = "tr @ [Sent (build_request client url ua ui)]"
  have IH: "sent_count (snd (send_timeout_loop env client url ua ui (attempt + 1) (?tr1 @ [Slept d]))) \<le> Suc (sent_count tr) + Suc n" for d
    using Suc.IH [OF n, of "?tr1 @ [Slept d]"] by (simp del: append_assoc)
  show ?case
    using IH a by (subst timeout_step) (auto simp: Let_def not_le simp del: append_assoc split: sum.splits)
qed

lemma get_round:
  assumes "user_agents client \<noteq> []" "0 < length (user_agents client) - ui"
  shows "get_loop env client url ui tr =
    (let (outcome, tr1) = send_with_timeout_retry env client url (user_agents client ! ui) ui tr in
     case outcome of
       Inl e \<Rightarrow> (Inl e, tr1)
     | Inr resp \<Rightarrow>
         (let s = rs_status resp in
          if is_success s then (handle_success env client resp s, tr1)
          else if s = 403 then (if ui = 0 then get_loop env client url 1 tr1 else (Inl Forbidden, tr1))
          else if s = 429 then handle_rate_limited env client url resp (user_agents client ! ui) tr1
          else if 500 \<le> s \<and> s \<le> 599 then handle_server_error env client url resp s (user_agents client ! ui) tr1
          else if 300 \<le> s \<and> s \<le> 499 then (Inl (ClientError s), tr1)
          else (Inl (ServerError s), tr1)))"
proof -
  have "select_user_agent client ui = user_agents client ! ui" using assms by (simp add: select_user_agent_def Let_def)
  moreover have "300 \<le> s \<and> s \<le> 499 \<longleftrightarrow> 300 \<le> s \<and> s \<le> 399 \<or> 400 \<le> s \<and> s \<le> 499" for s :: u16
    by (auto simp: word_le_nat_alt)
  ultimately show ?thesis
    using assms by (subst get_loop.simps) (auto simp: is_success_def Let_def split: prod.splits sum.splits)
qed

lemma send_retry_sent:
  "sent_count (snd (send_with_timeout_retry env client url ua ui tr)) \<le> sent_count tr + unat (max_retries (hc_config client)) + 1"
  using send_timeout_sent [of "unat (max_retries (hc_config client))" client 0] by (simp add: send_with_timeout_retry_def)

lemma retry_sent:
  "sent_count (snd (retry_with_backoff env url config ua policy tr)) \<le> sent_count tr + unat (max_retries config)"
  using retry_loop_sent [of "unat (max_retries config)" config 0] by (simp add: retry_with_backoff_def)

lemma handlers_sent:
  "sent_count (snd (handle_rate_limited env client url resp ua tr)) \<le> sent_count tr + unat (max_retries (hc_config client))"
  "sent_count (snd (handle_server_error env client url resp s ua tr)) \<le> sent_count tr + unat (max_retries (hc_config client))"
  using retry_sent by (auto simp: handle_rate_limited_def handle_server_error_def Let_def split: option.splits)

lemma get_loop_sent:
  assumes "0 < length (user_agents client) - ui"
    and "ui = 0 \<Longrightarrow> \<forall>tr. sent_count (snd (get_loop env client url 1 tr)) \<le> sent_count tr + b"
  shows "sent_count (snd (get_loop env client url ui tr)) \<le>
    sent_count tr + unat (max_retries (hc_config client)) + 1 + (if ui = 0 then max b (unat (max_retries (hc_config client)))
      else unat (max_retries (hc_config client)))"
proof -
  have u: "user_agents client \<noteq> []" using assms(1) by auto
  obtain out tr1 where s: "send_with_timeout_retry env client url (user_agents client ! ui) ui tr = (out, tr1)" by fastforce
  have s1: "sent_count tr1 \<le> sent_count tr + unat (max_retries (hc_config client)) + 1"
    using send_retry_sent [of env client url "user_agents client ! ui" ui tr] by (simp add: s)
  define x where "x = (if ui = 0 then max b (unat (max_retries (hc_config client))) else unat (max_retries (hc_config client)))"
  have "sent_count (snd (handle_rate_limited env client url resp (user_agents client ! ui) tr1)) \<le> sent_count tr1 + x"
    "sent_count (snd (handle_server_error env client url resp st (user_agents client ! ui) tr1)) \<le> sent_count tr1 + x" for resp st
    using handlers_sent(1) [of env client url resp "user_agents client ! ui" tr1]
      handlers_sent(2) [of env client url resp st "user_agents client ! ui" tr1] by (auto simp: x_def)
  moreover have "ui = 0 \<Longrightarrow> sent_count (snd (get_loop env client url 1 tr1)) \<le> sent_count tr1 + x"
    using assms(2) [rule_format, of tr1] by (simp add: x_def)
  ultimately have "sent_count (snd (get_loop env client url ui tr)) \<le> sent_count tr1 + x"
    by (auto simp: get_round [OF u assms(1)] s Let_def split: sum.splits)
  then show ?thesis using s1 by (simp add: x_def)
qed

text \<open>
  A fetch always returns, with a budget of requests: with the configured number of retries, never more
  than three times that number and two requests are sent for one URL, whatever the network answers.
\<close>

theorem fetch_request_budget:
  assumes "http_client_new config = Some client"
  shows "sent_count (snd (get_inner env client url tr)) \<le> sent_count tr + 3 * unat (max_retries config) + 2"
proof -
  have c: "hc_config client = config" "user_agents client \<noteq> []"
    using assms by (auto simp: http_client_new_def fallback_agents_def split: if_splits option.splits)
  let ?m = "unat (max_retries config)"
  have second: "sent_count (snd (get_loop env client url 1 tr)) \<le> sent_count tr + (2 * ?m + 1)" for tr
  proof (cases "length (user_agents client) \<le> 1")
    case True
    then show ?thesis by (subst get_loop.simps) simp
  next
    case False
    then show ?thesis using get_loop_sent [of client 1 env url 0 tr] c by simp
  qed
  then show ?thesis using get_loop_sent [of client 0 env url "2 * ?m + 1" tr] c by (simp add: get_inner_def)
qed

text \<open>A network that never answers in time, the plain body and an inspector that finds nothing.\<close>

definition silent_env :: http_env where
  "silent_env = \<lparr>env_net = \<lambda>_ _. Inl TimedOut, env_text = \<lambda>_. Inr [], env_decode = \<lambda>_ b. b, env_inspect = \<lambda>_ _. clean\<rparr>"

theorem fetch_request_budget_witness:
  "sent_count (snd (get_inner silent_env (the (http_client_new default_http_config)) ''http://h/'' [])) \<le> 11"
  using fetch_request_budget [of default_http_config "the (http_client_new default_http_config)" silent_env "''http://h/''" "[]"]
  by (simp add: http_client_new_def default_http_config_def sent_count_def)

section \<open>Outcome of the retry loop\<close>

text \<open>A network whose answers depend on the number of requests sent before.\<close>

definition scripted :: "http_env \<Rightarrow> (nat \<Rightarrow> send_error + response) \<Rightarrow> bool" where
  "scripted env script = (\<forall>tr rq. env_net env tr rq = script (sent_count tr))"

definition transient :: "retry_policy \<Rightarrow> send_error + response \<Rightarrow> bool" where
  "transient policy answer =
     (case answer of Inl _ \<Rightarrow> True | Inr resp \<Rightarrow> \<not> is_success (rs_status resp) \<and> retryable policy (rs_status resp))"

text \<open>Whether the last transport failure among some answers was a timeout.\<close>

definition timeout_flag :: "bool \<Rightarrow> (send_error + response) list \<Rightarrow> bool" where
  "timeout_flag b answers = foldl (\<lambda>b a. case a of Inl e \<Rightarrow> e = TimedOut | Inr _ \<Rightarrow> b) b answers"

lemma retry_transient:
  assumes "scripted env script" "attempt < max_retries config" "transient policy (script (sent_count tr))"
  shows "\<exists>tr1. sent_count tr1 = Suc (sent_count tr) \<and>
    retry_loop env url config ua policy attempt b tr =
    retry_loop env url config ua policy (attempt + 1) (timeout_flag b [script (sent_count tr)]) tr1"
proof -
  let ?tr0 = "tr @ [Slept (retry_delay config policy attempt)]"
  let ?rq = "retry_request config url ua"
  have "env_net env ?tr0 ?rq = script (sent_count tr)" using assms(1) by (simp add: scripted_def)
  then have "retry_loop env url config ua policy attempt b tr =
      retry_loop env url config ua policy (attempt + 1) (timeout_flag b [script (sent_count tr)]) (?tr0 @ [Sent ?rq])"
    using assms(3)
    by (auto simp: retry_step [OF assms(2)] transient_def timeout_flag_def Let_def simp del: append_assoc split: sum.splits)
  then show ?thesis by (intro exI [of _ "?tr0 @ [Sent ?rq]"]) (simp del: append_assoc)
qed

lemma retry_after_transients:
  assumes "scripted env script" "unat attempt + k \<le> unat (max_retries config)"
    "\<forall>j < k. transient policy (script (sent_count tr + j))"
  shows "\<exists>tr1 attempt1. sent_count tr1 = sent_count tr + k \<and> unat attempt1 = unat attempt + k \<and>
    retry_loop env url config ua policy attempt b tr =
    retry_loop env url config ua policy attempt1 (timeout_flag b (map script [sent_count tr..<sent_count tr + k])) tr1"
  using assms(2,3)
proof (induction k arbitrary: attempt b tr)
  case 0
  then show ?case by (intro exI [of _ tr] exI [of _ attempt]) (simp add: timeout_flag_def)
next
  case (Suc k)
  have a: "attempt < max_retries config" using Suc.prems(1) by (simp add: word_less_nat_alt)
  have "transient policy (script (sent_count tr))" using Suc.prems(2) by (metis add_0_right zero_less_Suc)
  then obtain tr1 where tr1: "sent_count tr1 = Suc (sent_count tr)"
    "retry_loop env url config ua policy attempt b tr =
       retry_loop env url config ua policy (attempt + 1) (timeout_flag b [script (sent_count tr)]) tr1"
    using retry_transient [OF assms(1) a] by blast
  have "unat (attempt + 1) + k \<le> unat (max_retries config)" using Suc.prems(1) unat_step [OF a] by simp
  moreover have "\<forall>j < k. transient policy (script (sent_count tr1 + j))" using Suc.prems(2) tr1(1) by auto
  ultimately obtain tr2 a2 where 2: "sent_count tr2 = sent_count tr1 + k" "unat a2 = unat (attempt + 1) + k"
    "retry_loop env url config ua policy (attempt + 1) (timeout_flag b [script (sent_count tr)]) tr1 =
      retry_loop env url config ua policy a2
        (timeout_flag (timeout_flag b [script (sent_count tr)]) (map script [sent_count tr1..<sent_count tr1 + k])) tr2"
    using Suc.IH by blast
  have "[sent_count tr..<sent_count tr + Suc k] = sent_count tr # [sent_count tr1..<sent_count tr1 + k]"
    by (simp add: tr1(1) upt_rec)
  then show ?case
    using 2 tr1 unat_step [OF a] by (intro exI [of _ tr2] exI [of _ a2]) (simp add: timeout_flag_def)
qed


text \<open>A first answer that times out and then only answers with status 503.\<close>

definition plain_response :: "u16 \<Rightarrow> string \<Rightarrow> response" where
  "plain_response st body = \<lparr>rs_status = st, rs_headers = [], rs_chunks = [Inr body]\<rparr>"

lemma plain_status [simp]: "rs_status (plain_response st body) = st"
  by (simp add: plain_response_def)

definition stale_script :: "nat \<Rightarrow> send_error + response" where
  "stale_script n = (if n = 0 then Inl TimedOut else Inr (plain_response 503 []))"

definition script_env :: "(nat \<Rightarrow> send_error + response) \<Rightarrow> http_env" where
  "script_env script =
     \<lparr>env_net = \<lambda>tr _. script (sent_count tr), env_text = \<lambda>resp. Inr (concat (map projr (rs_chunks resp))),
      env_decode = \<lambda>_ b. b, env_inspect = \<lambda>_ _. clean\<rparr>"

lemma scripted_env [simp]: "scripted (script_env script) script"
  by (simp add: scripted_def script_env_def)

definition server_policy :: retry_policy where
  "server_policy =
     \<lparr>retry_after_secs = None, retryable = \<lambda>code. 500 \<le> code \<and> code \<le> 599, exhausted = ServerError 503\<rparr>"


lemma unat_of_u64: "n < 2 ^ 64 \<Longrightarrow> unat (word_of_nat n :: u64) = n"
  by (simp add: unsigned_of_nat take_bit_nat_eq_self)

text \<open>
  Backoff doubles up to its cap as long as the product fits a machine word: with no positive retry hint,
  attempt \<open>k\<close> waits for the base times two to the \<open>k - 1\<close>, or the cap. From attempt 65 on the power itself
  wraps to zero in the release profile and the wait is over at once. A positive hint is waited for exactly
  while its milliseconds fit, whatever the cap.
\<close>

theorem backoff_delay_value:
  assumes "hint \<noteq> Some 0"
  shows "(hint = None \<and> unat base * 2 ^ (unat k - 1) < 2 ^ 64 \<longrightarrow>
            unat (compute_backoff_delay k hint base cap) = min (unat base * 2 ^ (unat k - 1)) (unat cap))
    \<and> (hint = None \<and> 65 \<le> unat k \<longrightarrow> compute_backoff_delay k hint base cap = 0)
    \<and> (\<forall>secs. hint = Some secs \<and> unat secs * 1000 < 2 ^ 64 \<longrightarrow>
            unat (compute_backoff_delay k hint base cap) = unat secs * 1000)"
proof (intro conjI allI impI)
  let ?p = "base * 2 ^ (unat k - 1)"
  assume h: "hint = None \<and> unat base * 2 ^ (unat k - 1) < 2 ^ 64"
  have "?p = word_of_nat (unat base * 2 ^ (unat k - 1))" by simp
  then have "unat ?p = unat base * 2 ^ (unat k - 1)" using h unat_of_u64 by metis
  then show "unat (compute_backoff_delay k hint base cap) = min (unat base * 2 ^ (unat k - 1)) (unat cap)"
    using h by (simp add: compute_backoff_delay_def min_def word_le_nat_alt)
next
  assume h: "hint = None \<and> 65 \<le> unat k"
  then obtain j where "unat k = 65 + j" using le_Suc_ex by blast
  then have "(2 :: u64) ^ (unat k - 1) = 0" by simp
  then have "base * 2 ^ (unat k - 1) = 0" by (simp only: mult_zero_right)
  then have "compute_backoff_delay k None base cap = min 0 cap" unfolding compute_backoff_delay_def by (simp only: option.case)
  then show "compute_backoff_delay k hint base cap = 0" using h by (simp add: min_def)
next
  fix secs assume h: "hint = Some secs \<and> unat secs * 1000 < 2 ^ 64"
  then have "0 < secs" using assms word_neq_0_conv by blast
  moreover have "secs * 1000 = word_of_nat (unat secs * 1000)" by simp
  then have "unat (secs * 1000) = unat secs * 1000" using h unat_of_u64 by metis
  ultimately show "unat (compute_backoff_delay k hint base cap) = unat secs * 1000"
    using h by (simp add: compute_backoff_delay_def)
qed

theorem backoff_delay_value_witness:
  "unat (compute_backoff_delay 3 None 1000 10000) = 4000 \<and> compute_backoff_delay 70 None 1000 10000 = 0"
  using backoff_delay_value [of None 1000 3 10000] backoff_delay_value [of None 1000 70 10000] by simp

section \<open>Inspection\<close>

text \<open>
  The first answer is read under the size cap and inspected, a retried one is neither. When the first
  answer is a success, a fetch returns its decoded body only if the body came whole within the cap and the
  inspector did not block it. When the first answer is a server error that the inspector lets pass and the
  second a success, the fetch returns the second body as the network library reads it, of any size and
  whatever the inspector says of it.
\<close>

theorem first_answer_is_inspected_retried_one_is_not:
  assumes "http_client_new config = Some client" and "scripted env script" and "n = sent_count tr" and "script n = Inr resp"
  shows "(is_success (rs_status resp) \<and> fst (get_inner env client url tr) = Inr body \<longrightarrow>
      (\<exists>buf. read_chunks (max_page_bytes config) [] (rs_chunks resp) = Inr buf
         \<and> body = env_decode env (charset_label resp) buf
         \<and> \<not> is_blocked (env_inspect env body (inspection_context_of (rs_status resp) resp (cfg_ignore_waf config)))))
    \<and> (500 \<le> rs_status resp \<and> rs_status resp \<le> 599 \<and> 0 < max_retries config
         \<and> (\<forall>b ctx. ctx_status ctx = Some (rs_status resp) \<longrightarrow> \<not> is_blocked (env_inspect env b ctx))
         \<and> script (Suc n) = Inr resp2 \<and> is_success (rs_status resp2) \<and> env_text env resp2 = Inr body2
       \<longrightarrow> fst (get_inner env client url tr) = Inr body2)"
proof -
  have c: "hc_config client = config" "user_agents client \<noteq> []"
    using assms(1) by (auto simp: http_client_new_def fallback_agents_def split: if_splits option.splits)
  let ?ua = "user_agents client ! 0"
  let ?tr1 = "tr @ [Sent (build_request client url ?ua 0)]"
  have send: "send_with_timeout_retry env client url ?ua 0 tr = (Inr resp, ?tr1)"
    using assms(2-4) by (simp add: send_with_timeout_retry_def timeout_step scripted_def Let_def)
  note round = get_round [OF c(2), of 0 env url tr, folded get_inner_def, unfolded send]
  have ok: "is_success (rs_status resp) \<Longrightarrow> fst (get_inner env client url tr) = handle_success env client resp (rs_status resp)"
    using c(2) round by (simp add: Let_def)
  have err: "fst (get_inner env client url tr) = fst (handle_server_error env client url resp (rs_status resp) ?ua ?tr1)"
    if "500 \<le> rs_status resp" "rs_status resp \<le> 599"
  proof -
    have "\<not> is_success (rs_status resp)" "rs_status resp \<noteq> 403" "rs_status resp \<noteq> 429"
      using that by (auto simp: is_success_def word_le_nat_alt)
    then show ?thesis using c(2) round that by (simp add: Let_def)
  qed
  have "fst (handle_server_error env client url resp (rs_status resp) ?ua ?tr1) = Inr body2"
    if pass: "\<forall>b ctx. ctx_status ctx = Some (rs_status resp) \<longrightarrow> \<not> is_blocked (env_inspect env b ctx)"
      and two: "0 < max_retries config" "script (Suc n) = Inr resp2" "is_success (rs_status resp2)" "env_text env resp2 = Inr body2"
  proof -
    have "waf_block_error env b (inspection_context_of (rs_status resp) resp i) = None" for b i
      using pass by (simp add: waf_block_error_def inspection_context_of_def from_lowercase_headers_def Let_def)
    moreover have "env_net env (?tr1 @ [Slept d]) rq = Inr resp2" for d rq
      using assms(2,3) two(2) by (simp add: scripted_def del: append_assoc)
    ultimately show ?thesis
      using two c(1) by (simp add: handle_server_error_def retry_with_backoff_def retry_step Let_def del: append_assoc)
  qed
  then show ?thesis
    using ok err c(1)
    by (auto simp: handle_success_def read_body_capped_def waf_block_error_def Let_def split: sum.splits option.splits if_splits)
qed

text \<open>A server that fails once and then serves, before an inspector that blocks every page with status 200.\<close>

definition recovering_env :: http_env where
  "recovering_env =
     \<lparr>env_net = \<lambda>tr _. Inr (plain_response (if sent_count tr = 0 then 500 else 200) ''x''),
      env_text = \<lambda>resp. Inr (concat (map projr (rs_chunks resp))), env_decode = \<lambda>_ b. b,
      env_inspect = \<lambda>_ ctx. \<lparr>is_blocked = (ctx_status ctx = Some 200), evidences = []\<rparr>\<rparr>"

theorem first_answer_is_inspected_retried_one_is_not_witness:
  "fst (get_inner recovering_env (the (http_client_new default_http_config)) ''http://h/'' []) = Inr ''x''"
proof -
  let ?script = "\<lambda>n :: nat. Inr (plain_response (if n = 0 then 500 else 200) ''x'') :: send_error + response"
  have s: "scripted recovering_env ?script" by (simp add: scripted_def recovering_env_def)
  have new: "http_client_new default_http_config = Some (the (http_client_new default_http_config))"
    by (simp add: http_client_new_def default_http_config_def)
  show ?thesis
    using first_answer_is_inspected_retried_one_is_not
        [OF new s, of 0 "[]" "plain_response 500 ''x''" "''http://h/''" "[]" "plain_response 200 ''x''" "''x''"]
    by (simp add: sent_count_def plain_response_def is_success_def default_http_config_def recovering_env_def)
qed

section \<open>Sessions\<close>

lemma map_of_filter_keys: "map_of (filter (\<lambda>(k, e). k \<notin> V) m) d = (if d \<in> V then None else map_of m d)"
  by (induction m) auto

lemma acquired_entry:
  assumes "acquire cfg anchor t d pool = (Some i, pool1)" "map_of pool1 d = Some e"
  shows "i < length (states e)"
proof -
  let ?m1 = "snd (acquire_entry cfg anchor t d pool)"
  have p1: "pool1 = enforce_domain_cap ?m1" "fst (acquire_entry cfg anchor t d pool) = Some i"
    using assms(1) by (auto simp: acquire_def case_prod_unfold Let_def)
  then have "map_of ?m1 d = Some e"
    using assms(2) by (auto simp: enforce_domain_cap_def Let_def fold_remove map_of_filter_keys split: if_splits)
  moreover have "find_available anchor d (states e) t = Some i" if "map_of ?m1 d = Some e"
    using p1(2) that by (auto simp: acquire_entry_def Let_def split: option.splits)
  ultimately show ?thesis
    using find_available_spec [where anchor = anchor and d = d and ss = "states e" and now = t] by simp
qed

lemma get_gated:
  assumes "api_parse api url = Some parsed" "api_scheme api parsed \<in> {''http'', ''https''}"
    "d = session_domain api url parsed" "acquire cfg anchor t0 d pool = (slot, pool1)"
  shows "get env api client cfg jit anchor t0 t1 url pool tr =
    (case slot of None \<Rightarrow> (Inl (DomainBanned d), pool1, tr)
     | Some i \<Rightarrow> let (r, tr1) = get_inner env client url tr in (r, report_outcome cfg jit t1 d (Some i) r pool1, tr1))"
  using assms by (auto simp: get_def Let_def)

text \<open>
  A fetch is gated by its session and reports back to it. With no usable session the domain is reported
  as banned and nothing is sent. Otherwise, when the fetch succeeds its slot is healthy again, and when it
  fails with a blocked page, a refusal, a rate limit, a connection failure or one of these statuses its slot
  is banned and not usable at the time of the report.
\<close>

theorem fetch_session_gating:
  assumes "api_parse api url = Some parsed" and "api_scheme api parsed \<in> {''http'', ''https''}"
    and "d = session_domain api url parsed" and "acquire cfg anchor t0 d pool = (slot, pool1)"
    and "get env api client cfg jit anchor t0 t1 url pool tr = (result, pool2, tr2)"
  shows "(slot = None \<longrightarrow> result = Inl (DomainBanned d) \<and> tr2 = tr)
    \<and> (\<forall>i entry. slot = Some i \<and> map_of pool2 d = Some entry \<longrightarrow>
          (\<forall>body. result = Inr body \<longrightarrow> states entry ! i = healthy)
        \<and> (\<forall>e. result = Inl e \<and> outcome_status e \<in> {Some 403, Some 429, Some 503} \<longrightarrow>
             status (states entry ! i) = Banned \<and> \<not> usable t1 (states entry ! i)))"
proof (intro conjI impI allI)
  note g = get_gated [OF assms(1-4), of env client jit t1 tr]
  {
    assume "slot = None"
    then show "result = Inl (DomainBanned d)" "tr2 = tr" using g assms(5) by auto
  }
  fix i entry assume i: "slot = Some i \<and> map_of pool2 d = Some entry"
  then have p2: "pool2 = report_outcome cfg jit t1 d (Some i) result pool1"
    using g assms(5) by (auto simp: case_prod_unfold Let_def)
  {
    fix body assume "result = Inr body"
    then have "pool2 = report_success t1 d i pool1" using p2 by (simp add: report_outcome_def)
    then obtain e1 where e1: "map_of pool1 d = Some e1"
      "entry = (let e = e1\<lparr>last_seen := t1\<rparr> in if i < length (states e) then e\<lparr>states := (states e)[i := healthy]\<rparr> else e)"
      using i by (auto simp: report_success_def map_of_update_entry)
    then show "states entry ! i = healthy" using acquired_entry i assms(4) by (auto simp: Let_def)
  }
  {
    fix e assume e: "result = Inl e \<and> outcome_status e \<in> {Some 403, Some 429, Some 503}"
    then obtain code where code: "outcome_status e = Some code" "code \<in> {429, 503, 403}" by auto
    then have p: "pool2 = report_failure cfg jit t1 d i code pool1" using p2 e by (simp add: report_outcome_def)
    then obtain e1 where e1: "map_of pool1 d = Some e1"
      using i by (auto simp: report_failure_def map_of_update_entry Let_def)
    then have len: "i < length (states e1)" using acquired_entry i assms(4) by auto
    have "entry = e1\<lparr>last_seen := t1, states := (states e1)[i := apply_failure cfg jit t1 i True (states e1 ! i)]\<rparr>"
      using report_failure_lookup [OF e1 len code(2), of cfg jit t1] i p by simp
    then have slot: "states entry ! i = apply_failure cfg jit t1 i True (states e1 ! i)" using len by simp
    obtain w where w: "next_retry_time (states entry ! i) = Some (t1 + from_millis w)" "1 \<le> w" "status (states entry ! i) = Banned"
      using ban_deadline [where cfg = cfg and jit = jit and st = "states e1 ! i" and t = t1 and i = i] slot by fastforce
    then show "status (states entry ! i) = Banned" "\<not> usable t1 (states entry ! i)"
      using banned_usable [OF w(3,1)] by (simp_all add: from_millis_def)
  }
qed

text \<open>A host that refuses every request: the fetch rotates the agent once and gives up.\<close>

abbreviation refusing_env :: http_env where
  "refusing_env \<equiv> script_env (\<lambda>_. Inr (plain_response 403 []))"

lemma refusing_fetch:
  assumes "2 \<le> length (user_agents client)"
  shows "fst (get_inner refusing_env client url tr) = Inl Forbidden"
proof -
  have send: "send_with_timeout_retry refusing_env client url ua ui tr =
      (Inr (plain_response 403 []), tr @ [Sent (build_request client url ua ui)])" for ua ui tr
    by (simp add: send_with_timeout_retry_def timeout_step script_env_def Let_def)
  have "user_agents client \<noteq> []" "0 < length (user_agents client) - 1" "0 < length (user_agents client) - 0"
    using assms by auto
  then show ?thesis
    by (simp add: get_inner_def get_round send is_success_def Let_def)
qed

lemma fresh_acquire:
  assumes "0 < pool_size cfg"
  obtains i pool1 e where "acquire cfg anchor t d [] = (Some i, pool1)" "map_of pool1 d = Some e"
proof -
  let ?e = "\<lparr>states = replicate (pool_size cfg) healthy, last_seen = t\<rparr>"
  have m1: "snd (acquire_entry cfg anchor t d []) = [(d, ?e\<lparr>states := evict_expired cfg t (states ?e), last_seen := t\<rparr>)]"
    by (simp add: snd_acquire_entry or_insert_def update_entry_def)
  have "usable t (evict_expired cfg t (states ?e) ! 0)"
    using assms by (simp add: evict_expired_def expired_def healthy_def usable_def)
  then have "find_available anchor d (evict_expired cfg t (states ?e)) t \<noteq> None"
    using find_available_spec [where anchor = anchor and d = d and ss = "evict_expired cfg t (states ?e)" and now = t] assms
    by (auto split: option.splits)
  then obtain i where "fst (acquire cfg anchor t d []) = Some i"
    by (auto simp: acquire_result acquire_entry_eq)
  moreover have "map_of (snd (acquire cfg anchor t d [])) d \<noteq> None"
    using m1 by (simp add: acquire_def case_prod_unfold enforce_domain_cap_def MAX_TRACKED_DOMAINS_def Let_def)
  ultimately show thesis using that by (metis option.collapse prod.collapse)
qed

theorem fetch_session_gating_witness:
  "\<exists>i entry.
     fst (get refusing_env small_api (the (http_client_new default_http_config)) default_config (\<lambda>d. d) 0 0 7 ''http://h/'' [] [])
       = Inl Forbidden
     \<and> map_of (fst (snd (get refusing_env small_api (the (http_client_new default_http_config)) default_config (\<lambda>d. d) 0 0 7
          ''http://h/'' [] []))) (session_domain small_api ''http://h/'' (the (small_parse ''http://h/''))) = Some entry
     \<and> \<not> usable 7 (states entry ! i)"
proof -
  let ?c = "the (http_client_new default_http_config)"
  let ?d = "session_domain small_api ''http://h/'' (the (small_parse ''http://h/''))"
  let ?g = "get refusing_env small_api ?c default_config (\<lambda>d. d) 0 0 7 ''http://h/'' [] []"
  have parse: "api_parse small_api ''http://h/'' = Some (the (small_parse ''http://h/''))" by (simp add: small_parse_def)
  have scheme: "api_scheme small_api (the (small_parse ''http://h/'')) \<in> {''http'', ''https''}"
    by (simp add: small_parse_def small_api_def)
  obtain i pool1 e where a: "acquire default_config 0 0 ?d [] = (Some i, pool1)" "map_of pool1 ?d = Some e"
    using fresh_acquire [of default_config] by (metis default_config_def pool_config.select_convs(1) zero_less_numeral)
  have "2 \<le> length (user_agents ?c)"
    by (simp add: http_client_new_def default_http_config_def fallback_agents_def)
  from refusing_fetch [OF this] have f: "fst (get_inner refusing_env ?c ''http://h/'' []) = Inl Forbidden" .
  then have g: "fst ?g = Inl Forbidden" "fst (snd ?g) = report_failure default_config (\<lambda>d. d) 7 ?d i 403 pool1"
    using get_gated [OF parse scheme refl a(1), of refusing_env ?c "\<lambda>d. d" 7 "[]"]
    by (simp_all add: report_outcome_def outcome_status_def case_prod_unfold Let_def)
  then obtain entry where entry: "map_of (fst (snd ?g)) ?d = Some entry"
    using a(2) by (auto simp: report_failure_def map_of_update_entry Let_def)
  show ?thesis
    using fetch_session_gating [OF parse scheme refl a(1), of refusing_env ?c "\<lambda>d. d" 7 "[]" "fst ?g" "fst (snd ?g)" "snd (snd ?g)"]
      g(1) entry by (intro exI [of _ i] exI [of _ entry]) (auto simp: outcome_status_def prod_eq_iff)
qed

end
