(* ===== verification/Asset_Downloader.thy ===== *)
theory Asset_Downloader
  imports Asset_Cache Filename Std_Path Pattern_Matching Http_Client
begin

text \<open>
  Downloading images and documents: \<^verbatim>\<open>adapters/downloader/mod.rs\<close> and the detector beside it. One attempt
  streams a body into a temporary file and renames it; the files of the download folders are a map from
  paths to contents, and every system call may fail. The retry loop, the naming strategies and the filters
  are here, the registry that callers share is \<open>Asset_Cache\<close>. SHA-256 in hexadecimal, the percent decoder,
  the default hasher and the fresh names of temporary files are parameters. Folders inside the two folders
  are not part of the state.
\<close>

section \<open>Kinds and names\<close>

datatype asset_type = Image | Document | UnknownAsset

definition IMAGE_EXTENSIONS :: "string list" where
  "IMAGE_EXTENSIONS =
     [''jpg'', ''jpeg'', ''png'', ''gif'', ''webp'', ''svg'', ''bmp'', ''ico'', ''tiff'', ''tif'']"

definition DOCUMENT_EXTENSIONS :: "string list" where
  "DOCUMENT_EXTENSIONS =
     [''pdf'', ''doc'', ''docx'', ''xls'', ''xlsx'', ''ppt'', ''pptx'', ''csv'', ''odt'', ''ods'', ''odp'', ''epub'',
      ''rtf'', ''json'', ''xml'']"

definition detect_from_path :: "string \<Rightarrow> asset_type" where
  "detect_from_path path =
     (let extension = to_lowercase (last (split_on (CHR ''.'') path)) in
      if extension \<in> set IMAGE_EXTENSIONS then Image
      else if extension \<in> set DOCUMENT_EXTENSIONS then Document
      else UnknownAsset)"

definition detect_from_url :: "'u url_api \<Rightarrow> string \<Rightarrow> asset_type" where
  "detect_from_url api u =
     (case api_parse api u of Some parsed \<Rightarrow> detect_from_path (api_path api parsed) | None \<Rightarrow> UnknownAsset)"

datatype asset_naming_strategy = HashNaming | SlugNaming | ContentDispositionNaming

record download_config =
  dl_output_dir :: string
  dl_images_dir :: string
  dl_documents_dir :: string
  dl_max_file_size :: u64
  dl_include_patterns :: "string list"
  dl_exclude_patterns :: "string list"
  dl_asset_naming :: asset_naming_strategy
  dl_max_retries :: u32
  dl_backoff_base_ms :: u64
  dl_backoff_max_ms :: u64

record 'u asset_env =
  ae_api :: "'u url_api"
  ae_glob :: globber
  ae_sha :: "u8 list \<Rightarrow> string"
  ae_percent :: "string \<Rightarrow> string"
  ae_hash :: "string \<Rightarrow> u64"

definition MIME_EXTENSIONS :: "(string \<times> string) list" where
  "MIME_EXTENSIONS =
     [(''image/jpeg'', ''jpg''), (''image/jpg'', ''jpg''), (''image/png'', ''png''), (''image/gif'', ''gif''),
      (''image/webp'', ''webp''), (''image/svg+xml'', ''svg''), (''image/bmp'', ''bmp''), (''image/tiff'', ''tiff''),
      (''image/x-icon'', ''ico''), (''application/pdf'', ''pdf''), (''application/msword'', ''doc''),
      (''application/vnd.openxmlformats-officedocument.wordprocessingml.document'', ''docx''),
      (''application/vnd.ms-excel'', ''xls''),
      (''application/vnd.openxmlformats-officedocument.spreadsheetml.sheet'', ''xlsx''),
      (''application/vnd.ms-powerpoint'', ''ppt''),
      (''application/vnd.openxmlformats-officedocument.presentationml.presentation'', ''pptx''),
      (''text/csv'', ''csv''), (''application/vnd.oasis.opendocument.text'', ''odt''),
      (''application/vnd.oasis.opendocument.spreadsheet'', ''ods''), (''application/epub+zip'', ''epub''),
      (''application/rtf'', ''rtf''), (''text/plain'', ''txt''), (''application/json'', ''json''),
      (''application/xml'', ''xml''), (''text/xml'', ''xml'')]"

definition mime_type_to_extension :: "string \<Rightarrow> string option" where
  "mime_type_to_extension mime = map_of MIME_EXTENSIONS (trim mime)"

text \<open>\<^verbatim>\<open>str::find\<close> with a string, as an index into the characters.\<close>

fun find_str :: "string \<Rightarrow> string \<Rightarrow> nat option" where
  "find_str p [] = (if p = [] then Some 0 else None)"
| "find_str p (c # cs) = (if starts_with p (c # cs) then Some 0 else map_option Suc (find_str p cs))"

definition parse_content_disposition_header :: "(string \<Rightarrow> string) \<Rightarrow> string \<Rightarrow> string option" where
  "parse_content_disposition_header percent_decode_utf8 v =
     (let lower = to_ascii_lowercase v; extended = ''filename*=utf-8'' @ [CHR 0x27, CHR 0x27] in
      case find_str extended lower of
        Some start \<Rightarrow>
          Some (percent_decode_utf8 (takeWhile (\<lambda>c. c \<noteq> CHR '';'' \<and> c \<noteq> CHR '' '') (drop (start + length extended) v)))
      | None \<Rightarrow>
          (case find_str ''filename='' lower of
             None \<Rightarrow> None
           | Some after \<Rightarrow>
               (let rest = drop (after + length ''filename='') v in
                case (case strip_prefix [CHR 0x22] rest of
                        Some inner \<Rightarrow>
                          if CHR 0x22 \<in> set inner then Some (takeWhile (\<lambda>c. c \<noteq> CHR 0x22) inner) else None
                      | None \<Rightarrow> Some (trim (hd (split_on (CHR '';'') rest)))) of
                  None \<Rightarrow> None
                | Some name \<Rightarrow> if name = [] then None else Some name)))"

definition sanitize_filename :: "(string \<Rightarrow> u64) \<Rightarrow> string \<Rightarrow> string" where
  "sanitize_filename hash name = unwrap_or (sanitize_filename_component hash name) []"

definition derive_slug_from_url :: "'u url_api \<Rightarrow> 'u \<Rightarrow> string" where
  "derive_slug_from_url api u = last (split_on (CHR ''/'') (api_path api u))"

definition generate_filename ::
  "'u asset_env \<Rightarrow> download_config \<Rightarrow> 'u \<Rightarrow> string \<Rightarrow> string option \<Rightarrow> string option \<Rightarrow> string" where
  "generate_filename env cfg u digest mime_type content_disposition_filename =
     (let extension = unwrap_or (mime_type_to_extension (unwrap_or mime_type [])) ''bin'';
          by_hash = take 12 digest @ ''.'' @ extension
      in case dl_asset_naming cfg of
           HashNaming \<Rightarrow> by_hash
         | SlugNaming \<Rightarrow>
             (let name = sanitize_filename (ae_hash env) (derive_slug_from_url (ae_api env) u) in
              if name = [] then by_hash
              else (let slug_ext = last (split_on (CHR ''.'') name) in
                    if slug_ext \<noteq> [] \<and> slug_ext \<noteq> name then sanitize_filename (ae_hash env) name
                    else name @ ''.'' @ extension))
         | ContentDispositionNaming \<Rightarrow>
             (case content_disposition_filename of
                Some name \<Rightarrow>
                  (let sanitized = sanitize_filename (ae_hash env) name in if sanitized \<noteq> [] then sanitized else by_hash)
              | None \<Rightarrow> by_hash))"

text \<open>\<^verbatim>\<open>Path::file_stem\<close> and \<^verbatim>\<open>Path::extension\<close> of a name; a leading dot belongs to the stem.\<close>

definition stem_and_extension :: "string \<Rightarrow> string \<times> string" where
  "stem_and_extension name =
     (case split_once (CHR ''.'') (rev name) of
        None \<Rightarrow> (name, [])
      | Some (ext, stem) \<Rightarrow> if stem = [] then (name, []) else (rev stem, rev ext))"

definition resolve_collision :: "string \<Rightarrow> string \<Rightarrow> string \<Rightarrow> string" where
  "resolve_collision subdir filename digest =
     (let hash_suffix = take 8 digest;
          (stem, ext) = (case file_name (components filename) of Some n \<Rightarrow> stem_and_extension n | None \<Rightarrow> (''file'', []))
      in path_join subdir (if ext = [] then stem @ ''-'' @ hash_suffix else stem @ ''-'' @ hash_suffix @ ''.'' @ ext))"

section \<open>One attempt\<close>

type_synonym asset_fs = "string \<rightharpoonup> u8 list"

record asset_response =
  as_status :: u16
  as_content_type :: "string option"
  as_content_disposition :: "string option"
  as_chunks :: "(dyn_error + u8 list) list"

text \<open>The outcomes of one attempt: the answer of the server, and of each system call the error it fails with.\<close>

record asset_outcome =
  ao_send :: "dyn_error + asset_response"
  ao_create_dir :: "io_error option"
  ao_create :: "io_error option"
  ao_write :: "nat \<Rightarrow> (io_error \<times> nat) option"
  ao_remove :: "io_error option"
  ao_sync :: "io_error option"
  ao_rename :: "io_error option"
  ao_uuid :: string

record downloaded_asset =
  da_url :: string
  da_local_path :: string
  da_mime_type :: "string option"
  da_size :: u64
  da_content_hash :: string

datatype stream_end = BodyDone u64 "u8 list" | BodyFailed scraper_error "u8 list" | BodyTooBig "u8 list"

text \<open>\<open>written\<close> is the content of the temporary file; the sizes of chunks are below \<open>2 ^ 64\<close>.\<close>

fun stream_body ::
  "u64 \<Rightarrow> (nat \<Rightarrow> (io_error \<times> nat) option) \<Rightarrow> nat \<Rightarrow> (dyn_error + u8 list) list \<Rightarrow> u64 \<Rightarrow> u8 list \<Rightarrow> stream_end" where
  "stream_body max_file_size write i [] downloaded written = BodyDone downloaded written"
| "stream_body max_file_size write i (Inl e # chunks) downloaded written = BodyFailed (scraper_error.Network e) written"
| "stream_body max_file_size write i (Inr chunk # chunks) downloaded written =
     (if chunk = [] then stream_body max_file_size write i chunks downloaded written
      else if 2 ^ 64 \<le> unat downloaded + length chunk
      then BodyFailed (scraper_error.Internal ''integer overflow in download size'') written
      else (let downloaded1 = downloaded + of_nat (length chunk) in
            if max_file_size < downloaded1 then BodyTooBig written
            else (case write i of
                    Some (e, n) \<Rightarrow> BodyFailed (scraper_error.Io e) (written @ take n chunk)
                  | None \<Rightarrow> stream_body max_file_size write (Suc i) chunks downloaded1 (written @ chunk))))"

definition choose_path :: "string \<Rightarrow> string \<Rightarrow> string \<Rightarrow> asset_fs \<Rightarrow> string" where
  "choose_path subdir filename digest fs =
     (let final_path = path_join subdir filename in
      if fs final_path \<noteq> None then resolve_collision subdir filename digest else final_path)"

definition rename_asset :: "string \<Rightarrow> string \<Rightarrow> asset_fs \<Rightarrow> asset_fs" where
  "rename_asset temp final_path fs = (fs(temp := None))(final_path := fs temp)"

definition asset_folder :: "'u asset_env \<Rightarrow> download_config \<Rightarrow> 'u \<Rightarrow> string" where
  "asset_folder env cfg u =
     path_join (dl_output_dir cfg)
       (if detect_from_url (ae_api env) (api_to_string (ae_api env) u) = Image then dl_images_dir cfg else dl_documents_dir cfg)"

definition asset_temp :: "'u asset_env \<Rightarrow> download_config \<Rightarrow> 'u \<Rightarrow> asset_outcome \<Rightarrow> string" where
  "asset_temp env cfg u a = path_join (asset_folder env cfg u) (ao_uuid a @ ''.tmp'')"

definition asset_filename :: "'u asset_env \<Rightarrow> download_config \<Rightarrow> 'u \<Rightarrow> asset_response \<Rightarrow> string \<Rightarrow> string" where
  "asset_filename env cfg u response digest =
     generate_filename env cfg u digest (as_content_type response)
       (Option.bind (as_content_disposition response) (parse_content_disposition_header (ae_percent env)))"

definition finish_asset ::
  "'u asset_env \<Rightarrow> download_config \<Rightarrow> 'u \<Rightarrow> asset_outcome \<Rightarrow> asset_response \<Rightarrow> u64 \<Rightarrow> u8 list \<Rightarrow> asset_fs
    \<Rightarrow> (scraper_error + downloaded_asset) \<times> asset_fs" where
  "finish_asset env cfg u a response downloaded written fs =
     (let digest = ae_sha env written;
          filename = asset_filename env cfg u response digest;
          final_path = choose_path (asset_folder env cfg u) filename digest fs
      in case ao_rename a of
           Some e \<Rightarrow> (Inl (scraper_error.Io e), fs)
         | None \<Rightarrow>
             (Inr \<lparr>da_url = api_to_string (ae_api env) u, da_local_path = final_path, da_mime_type = as_content_type response,
                da_size = downloaded, da_content_hash = take 12 digest\<rparr>,
              rename_asset (asset_temp env cfg u a) final_path fs))"

definition download_once ::
  "'u asset_env \<Rightarrow> download_config \<Rightarrow> 'u \<Rightarrow> asset_outcome \<Rightarrow> asset_fs \<Rightarrow> (scraper_error + downloaded_asset) \<times> asset_fs" where
  "download_once env cfg u a fs =
     (case ao_send a of
        Inl e \<Rightarrow> (Inl (scraper_error.Network e), fs)
      | Inr response \<Rightarrow>
          if \<not> is_success (as_status response)
          then (Inl (scraper_error.Http (as_status response) (api_to_string (ae_api env) u)), fs)
          else (case ao_create_dir a of
                  Some e \<Rightarrow> (Inl (scraper_error.Io e), fs)
                | None \<Rightarrow>
                    (case ao_create a of
                       Some e \<Rightarrow> (Inl (scraper_error.Io e), fs)
                     | None \<Rightarrow>
                         (let temp = asset_temp env cfg u a in
                          case stream_body (dl_max_file_size cfg) (ao_write a) 0 (as_chunks response) 0 [] of
                            BodyTooBig written \<Rightarrow>
                              (Inl scraper_error.PayloadTooLarge,
                               if ao_remove a = None then fs(temp := None) else fs(temp \<mapsto> written))
                          | BodyFailed e written \<Rightarrow> (Inl e, fs(temp \<mapsto> written))
                          | BodyDone downloaded written \<Rightarrow>
                              (case ao_sync a of
                                 Some e \<Rightarrow> (Inl (scraper_error.Io e), fs(temp \<mapsto> written))
                               | None \<Rightarrow> finish_asset env cfg u a response downloaded written (fs(temp \<mapsto> written)))))))"

section \<open>Retries\<close>

definition U64_MAX :: nat where "U64_MAX = 2 ^ 64 - 1"

definition compute_backoff_delay :: "nat \<Rightarrow> u64 \<Rightarrow> u64 \<Rightarrow> nat \<Rightarrow> nat" where
  "compute_backoff_delay attempt base_ms max_ms offset =
     (let shift = min (attempt - 1) 62;
          delay_ms = min (min (unat base_ms * 2 ^ shift) U64_MAX) (unat max_ms);
          jitter = delay_ms div 4
      in min (min (delay_ms - jitter + offset) U64_MAX) (unat max_ms))"

text \<open>
  The loop over \<open>0..=max_retries\<close>, by the attempts that are left. \<open>answers n\<close> is what the n-th attempt
  meets, \<open>offsets n\<close> the jitter before it, at most half the delay. The result carries the delays slept.
\<close>

fun download_with_retry ::
  "'u asset_env \<Rightarrow> download_config \<Rightarrow> 'u \<Rightarrow> (nat \<Rightarrow> asset_outcome) \<Rightarrow> (nat \<Rightarrow> nat) \<Rightarrow> nat \<Rightarrow> nat \<Rightarrow> asset_fs
    \<Rightarrow> (scraper_error + downloaded_asset) \<times> asset_fs \<times> nat list" where
  "download_with_retry env cfg u answers offsets attempt left fs =
     (case download_once env cfg u (answers attempt) fs of
        (Inr asset, fs1) \<Rightarrow> (Inr asset, fs1, [])
      | (Inl e, fs1) \<Rightarrow>
          if scraper_classify e \<noteq> TransientRetriable then (Inl e, fs1, [])
          else (case left of
                  0 \<Rightarrow> (Inl e, fs1, [])
                | Suc n \<Rightarrow>
                    (let delay = compute_backoff_delay (Suc attempt) (dl_backoff_base_ms cfg) (dl_backoff_max_ms cfg)
                           (offsets (Suc attempt));
                         (result, fs2, delays) = download_with_retry env cfg u answers offsets (Suc attempt) n fs1
                     in (result, fs2, delay # delays))))"

definition run_download ::
  "'u asset_env \<Rightarrow> download_config \<Rightarrow> 'u \<Rightarrow> (nat \<Rightarrow> asset_outcome) \<Rightarrow> (nat \<Rightarrow> nat) \<Rightarrow> asset_fs
    \<Rightarrow> (scraper_error + downloaded_asset) \<times> asset_fs \<times> nat list" where
  "run_download env cfg u answers offsets fs = download_with_retry env cfg u answers offsets 0 (unat (dl_max_retries cfg)) fs"

section \<open>Batches\<close>

definition pattern_matches_asset :: "'u asset_env \<Rightarrow> 'u \<Rightarrow> string \<Rightarrow> bool" where
  "pattern_matches_asset env u pattern =
     (case strip_prefix ''*.'' (trim pattern) of
        Some ext \<Rightarrow>
          if ext \<noteq> [] \<and> CHR ''.'' \<notin> set ext
          then ends_with (CHR ''.'' # to_ascii_lowercase ext)
                 (to_ascii_lowercase (last (split_on (CHR ''/'') (api_path (ae_api env) u))))
          else matches_pattern (ae_api env) (ae_glob env) (api_to_string (ae_api env) u) pattern
      | None \<Rightarrow> matches_pattern (ae_api env) (ae_glob env) (api_to_string (ae_api env) u) pattern)"

definition url_matches_filters :: "'u asset_env \<Rightarrow> 'u \<Rightarrow> string list \<Rightarrow> string list \<Rightarrow> bool" where
  "url_matches_filters env u includes excludes =
     (if list_ex (pattern_matches_asset env u) excludes then False
      else if includes = [] then True
      else list_ex (pattern_matches_asset env u) includes)"

text \<open>What a batch downloads, and what the port makes of its results: the failures are dropped.\<close>

definition filtered_assets :: "'u asset_env \<Rightarrow> download_config \<Rightarrow> 'u list \<Rightarrow> 'u list" where
  "filtered_assets env cfg urls =
     filter (\<lambda>u. url_matches_filters env u (dl_include_patterns cfg) (dl_exclude_patterns cfg)) urls"

definition asset_type_str :: "asset_type \<Rightarrow> string" where
  "asset_type_str t = (case t of Image \<Rightarrow> ''image'' | Document \<Rightarrow> ''document'' | UnknownAsset \<Rightarrow> ''unknown'')"

record domain_asset =
  dd_url :: string
  dd_local_path :: string
  dd_asset_type :: string
  dd_size :: u64

definition port_assets :: "'u asset_env \<Rightarrow> (scraper_error + downloaded_asset) list \<Rightarrow> domain_asset list" where
  "port_assets env results =
     List.map_filter (\<lambda>r. case r of
        Inl _ \<Rightarrow> None
      | Inr a \<Rightarrow> Some \<lparr>dd_url = da_url a, dd_local_path = da_local_path a,
          dd_asset_type = asset_type_str (detect_from_url (ae_api env) (da_url a)), dd_size = da_size a\<rparr>) results"

section \<open>Names of assets\<close>

definition plain_name :: "string \<Rightarrow> bool" where
  "plain_name s \<longleftrightarrow> s \<noteq> [] \<and> list_all safe_char s \<and> last s \<noteq> CHR ''.'' \<and> last s \<noteq> CHR '' ''"

definition hex_digest :: "string \<Rightarrow> bool" where
  "hex_digest digest \<longleftrightarrow> length digest = 64 \<and> set digest \<subseteq> set ''0123456789abcdef''"

lemma lower_case_safe: "c \<in> set ''abcdefghijklmnopqrstuvwxyz'' \<Longrightarrow> safe_char c \<and> c \<noteq> CHR ''.'' \<and> c \<noteq> CHR '' ''"
  by (auto simp: safe_char_def is_separator_def is_control_def WINDOWS_INVALID_COMPONENT_CHARS_def of_char_def)

lemma extension_table: "\<forall>(_, ext) \<in> set MIME_EXTENSIONS. ext \<noteq> [] \<and> set ext \<subseteq> set ''abcdefghijklmnopqrstuvwxyz''"
  by (simp add: MIME_EXTENSIONS_def)

lemma extension_letters:
  "mime_type_to_extension mime = Some ext \<Longrightarrow> ext \<noteq> [] \<and> set ext \<subseteq> set ''abcdefghijklmnopqrstuvwxyz''"
  unfolding mime_type_to_extension_def using extension_table by (blast dest: map_of_SomeD)

lemma plain_extension:
  assumes "list_all safe_char s" "ext \<noteq> []" "set ext \<subseteq> set ''abcdefghijklmnopqrstuvwxyz''"
  shows "plain_name (s @ ''.'' @ ext)"
proof -
  have "list_all safe_char ext" using assms(3) lower_case_safe by (auto simp: list_all_iff)
  moreover have "last ext \<noteq> CHR ''.''" "last ext \<noteq> CHR '' ''"
    using lower_case_safe [of "last ext"] assms(2,3) last_in_set by blast+
  ultimately show ?thesis using assms(1,2) by (simp add: plain_name_def)
qed

lemma hex_safe: "hex_digest digest \<Longrightarrow> list_all safe_char (take n digest)"
  using safe_literals(5) by (fastforce simp: hex_digest_def list_all_iff dest: in_set_takeD)

lemma sanitized_plain: "sanitize_filename hash name = [] \<or> plain_name (sanitize_filename hash name)"
  using sanitize_safe [of hash name]
  by (auto simp: sanitize_filename_def unwrap_or_def plain_name_def safe_component_def split: option.split)

lemma split_any_none: "list_all (\<lambda>x. \<not> P x) xs \<Longrightarrow> split_any P xs = [xs]"
  by (induction xs) auto

lemma sanitized_again:
  assumes "plain_name n"
  shows "plain_name (sanitize_filename hash n)"
proof -
  have chars: "list_all (\<lambda>c. \<not> is_separator c \<and> \<not> is_control c \<and> c \<notin> set WINDOWS_INVALID_COMPONENT_CHARS) n"
    using assms by (auto simp: plain_name_def safe_char_def list_all_iff)
  have "filter (\<lambda>c. \<not> is_control c) n = n" using chars by (simp add: filter_id_conv list_all_iff)
  moreover have "split_any is_separator n = [n]" using chars by (intro split_any_none) (simp add: list_all_iff)
  moreover have "neutralize_windows_invalid_chars n = n"
    using chars by (simp add: neutralize_windows_invalid_chars_def map_idI list_all_iff)
  moreover have "trim_windows_trailing_dots_and_spaces n = n" "n \<noteq> ''.''" "n \<noteq> ''..''" "n \<noteq> []"
    using assms by (cases n rule: rev_cases; auto simp: plain_name_def trim_windows_trailing_dots_and_spaces_def trim_end_matches_def)+
  ultimately have "sanitize_filename hash n \<noteq> []"
    by (simp add: sanitize_filename_def sanitize_filename_component_def unwrap_or_def cap_filename_def Let_def RESERVED_SAFE_SUFFIX_def)
  then show ?thesis using sanitized_plain [of hash n] by blast
qed

lemma generated_name_plain:
  assumes "hex_digest digest"
  shows "plain_name (generate_filename env cfg u digest mime_type header)"
proof -
  let ?ext = "unwrap_or (mime_type_to_extension (unwrap_or mime_type [])) ''bin''"
  have ext: "?ext \<noteq> []" "set ?ext \<subseteq> set ''abcdefghijklmnopqrstuvwxyz''"
    using extension_letters [of "unwrap_or mime_type []"] by (auto simp: unwrap_or_def split: option.split)
  have by_hash: "plain_name (take 12 digest @ ''.'' @ ?ext)" by (rule plain_extension [OF hex_safe [OF assms] ext])
  have slug: "plain_name (n @ ''.'' @ ?ext)" if "plain_name n" for n
    using that plain_extension [OF _ ext, of n] by (simp add: plain_name_def)
  show ?thesis
    using by_hash slug sanitized_again sanitized_plain [of "ae_hash env"]
    by (auto simp: generate_filename_def Let_def simp del: append.simps split: asset_naming_strategy.split option.split)
qed

lemma split_once_parts: "split_once c xs = Some (a, b) \<Longrightarrow> xs = a @ c # b"
  by (induction xs arbitrary: a) (auto split: if_splits)

lemma stem_parts:
  assumes "stem_and_extension n = (stem, ext)"
  shows "n = stem \<and> ext = [] \<or> n = stem @ CHR ''.'' # ext"
proof (cases "split_once (CHR ''.'') (rev n)")
  case None
  then show ?thesis using assms by (simp add: stem_and_extension_def)
next
  case (Some parts)
  obtain a b where ab: "parts = (a, b)" by (cases parts)
  have "rev n = a @ CHR ''.'' # b" by (rule split_once_parts [OF Some [unfolded ab]])
  then have "rev (rev n) = rev (a @ CHR ''.'' # b)" by (rule arg_cong)
  then have "n = rev b @ CHR ''.'' # rev a" by simp
  moreover have "(if b = [] then (n, []) else (rev b, rev a)) = (stem, ext)"
    using assms Some ab by (simp add: stem_and_extension_def)
  ultimately show ?thesis by (cases "b = []") simp_all
qed

lemma stem_plain:
  "plain_name n \<Longrightarrow> n = stem \<and> ext = [] \<or> n = stem @ CHR ''.'' # ext \<Longrightarrow>
   list_all safe_char stem \<and> list_all safe_char ext \<and> (ext \<noteq> [] \<longrightarrow> last n = last ext)"
  by (elim disjE conjE; hypsubst?) (simp_all add: plain_name_def)

lemma collision_name:
  assumes n: "plain_name n" and digest: "hex_digest digest"
  shows "\<exists>m. resolve_collision subdir n digest = path_join subdir m \<and> plain_name m"
proof -
  obtain stem ext where se: "stem_and_extension n = (stem, ext)" by (cases "stem_and_extension n")
  have "CHR ''/'' \<notin> set n" using n by (auto simp: plain_name_def list_all_iff safe_char_def is_separator_def)
  moreover have "n \<noteq> []" "n \<noteq> ''.''" "n \<noteq> ''..''" using n by (auto simp: plain_name_def)
  moreover have "\<not> has_root n"
    using \<open>CHR ''/'' \<notin> set n\<close> unfolding has_root_def starts_with_def by (cases n) auto
  ultimately have "components n = [Normal n]"
    by (simp add: components_def split_on_no_sep List.map_filter_def)
  then have "file_name (components n) = Some n" by (simp add: file_name_def)
  then have path: "resolve_collision subdir n digest = path_join subdir
      (if ext = [] then stem @ ''-'' @ take 8 digest else stem @ ''-'' @ take 8 digest @ ''.'' @ ext)"
    by (simp add: resolve_collision_def se)
  have parts: "list_all safe_char stem" "list_all safe_char ext" "ext \<noteq> [] \<Longrightarrow> last n = last ext"
    using stem_plain [OF n stem_parts [OF se]] by blast+
  have hash: "list_all safe_char (take 8 digest)" by (rule hex_safe [OF digest])
  have "take 8 digest \<noteq> []" using digest by (cases digest) (auto simp: hex_digest_def)
  then have "last (take 8 digest) \<in> set (take 8 digest)" by (rule last_in_set)
  then have "last (take 8 digest) \<in> set ''0123456789abcdef''"
    using set_take_subset [of 8 digest] digest unfolding hex_digest_def by blast
  then have ends: "last (take 8 digest) \<noteq> CHR ''.''" "last (take 8 digest) \<noteq> CHR '' ''" by auto
  with ends have "plain_name (if ext = [] then stem @ ''-'' @ take 8 digest else stem @ ''-'' @ take 8 digest @ ''.'' @ ext)"
    using parts hash n \<open>take 8 digest \<noteq> []\<close> by (cases "ext = []") (simp_all add: plain_name_def)
  with path show ?thesis by blast
qed

section \<open>A finished download\<close>

lemma add_size:
  fixes d :: u64
  shows "unat d + n < 2 ^ 64 \<Longrightarrow> unat (d + of_nat n) = unat d + n"
  by (simp add: unat_word_ariths(1) take_bit_nat_eq_self unsigned_of_nat)

lemma stream_body_done:
  assumes "stream_body max_file_size wr i chunks downloaded written = BodyDone sz content"
    and "unat downloaded = length written" "downloaded \<le> max_file_size"
  shows "\<exists>body. chunks = map Inr body \<and> content = written @ concat body \<and> unat sz = length content \<and> sz \<le> max_file_size"
  using assms
proof (induction max_file_size wr i chunks downloaded written rule: stream_body.induct)
  case (3 max_file_size wr i chunk chunks downloaded written)
  show ?case
  proof (cases "chunk = []")
    case True
    then obtain body where "chunks = map Inr body" "content = written @ concat body" "unat sz = length content" "sz \<le> max_file_size"
      using 3 by auto
    then show ?thesis using True by (intro exI [of _ "[] # body"]) simp
  next
    case False
    let ?d = "downloaded + of_nat (length chunk)"
    have d: "unat downloaded + length chunk < 2 ^ 64" "\<not> max_file_size < ?d" "wr i = None"
      "stream_body max_file_size wr (Suc i) chunks ?d (written @ chunk) = BodyDone sz content"
      using "3.prems"(1) False by (auto simp: Let_def split: if_splits option.splits)
    have len: "unat ?d = length (written @ chunk)" using add_size [OF d(1)] "3.prems"(2) by simp
    have "\<exists>body. chunks = map Inr body \<and> content = (written @ chunk) @ concat body \<and> unat sz = length content \<and> sz \<le> max_file_size"
      by (rule "3.IH"(2) [OF False _ refl d(2,3,4) len]) (use d(1,2) in auto)
    then obtain body where "chunks = map Inr body" "content = written @ chunk @ concat body"
        "unat sz = length content" "sz \<le> max_file_size" by auto
    then show ?thesis by (intro exI [of _ "chunk # body"]) simp
  qed
qed auto

lemma chosen_path:
  assumes "plain_name n" "hex_digest digest"
  shows "\<exists>m. choose_path folder n digest fs = path_join folder m \<and> plain_name m \<and>
    (fs (path_join folder m) = None \<or> path_join folder m = resolve_collision folder n digest)"
proof (cases "fs (path_join folder n)")
  case None
  then show ?thesis using assms(1) by (auto simp: choose_path_def)
next
  case (Some d)
  then show ?thesis using collision_name [OF assms, of folder] by (auto simp: choose_path_def)
qed

text \<open>
  C40. A finished download is whole, confined and alone: the file holds every chunk of a successful answer,
  at most the configured number of bytes, and its size is reported; it lies directly in the folder of its
  kind under a plain name without separators; every other file is untouched, the temporary one is gone, and a
  file of that name is kept unless it already carried this content's own suffix.
\<close>

theorem finished_download_is_whole_and_confined:
  assumes "download_once env cfg u outcome fs = (Inr asset, fs')"
    and "\<And>content. hex_digest (ae_sha env content)"
  shows "\<exists>response body name. ao_send outcome = Inr response \<and> is_success (as_status response) \<and>
    as_chunks response = map Inr body \<and> da_local_path asset = path_join (asset_folder env cfg u) name \<and> plain_name name \<and>
    fs' (da_local_path asset) = Some (concat body) \<and> unat (da_size asset) = length (concat body) \<and>
    da_size asset \<le> dl_max_file_size cfg \<and>
    (\<forall>p. p \<noteq> da_local_path asset \<longrightarrow> p \<noteq> asset_temp env cfg u outcome \<longrightarrow> fs' p = fs p) \<and>
    (fs (da_local_path asset) = None \<or>
     da_local_path asset = resolve_collision (asset_folder env cfg u)
       (asset_filename env cfg u response (ae_sha env (concat body))) (ae_sha env (concat body))) \<and>
    (da_local_path asset \<noteq> asset_temp env cfg u outcome \<longrightarrow> fs' (asset_temp env cfg u outcome) = None)"
proof -
  let ?temp = "asset_temp env cfg u outcome" and ?folder = "asset_folder env cfg u"
  obtain response sz content where send: "ao_send outcome = Inr response" "is_success (as_status response)"
    and body: "stream_body (dl_max_file_size cfg) (ao_write outcome) 0 (as_chunks response) 0 [] = BodyDone sz content"
    and finish: "finish_asset env cfg u outcome response sz content (fs(?temp \<mapsto> content)) = (Inr asset, fs')"
    using assms(1) by (auto simp: download_once_def Let_def split: sum.splits if_splits option.splits stream_end.splits)
  obtain chunks where chunks: "as_chunks response = map Inr chunks" "content = concat chunks" "unat sz = length content"
      "sz \<le> dl_max_file_size cfg"
    using stream_body_done [OF body] by auto
  let ?digest = "ae_sha env content"
  let ?name = "asset_filename env cfg u response ?digest" and ?fs = "fs(?temp \<mapsto> content)"
  have plain: "plain_name ?name" using generated_name_plain [OF assms(2)] by (simp add: asset_filename_def)
  obtain m where m: "choose_path ?folder ?name ?digest ?fs = path_join ?folder m" "plain_name m"
      "?fs (path_join ?folder m) = None \<or> path_join ?folder m = resolve_collision ?folder ?name ?digest"
    using chosen_path [OF plain assms(2)] by blast
  have fin: "da_local_path asset = path_join ?folder m" "da_size asset = sz" "fs' = rename_asset ?temp (path_join ?folder m) ?fs"
    using finish m(1) by (auto simp: finish_asset_def Let_def split: option.splits)
  have "fs' (path_join ?folder m) = Some content" "fs (path_join ?folder m) = None \<or> path_join ?folder m = resolve_collision ?folder ?name ?digest"
    using m(3) by (auto simp: fin(3) rename_asset_def split: if_splits)
  moreover have "\<forall>p. p \<noteq> path_join ?folder m \<longrightarrow> p \<noteq> ?temp \<longrightarrow> fs' p = fs p" "path_join ?folder m \<noteq> ?temp \<longrightarrow> fs' ?temp = None"
    by (auto simp: fin(3) rename_asset_def)
  ultimately show ?thesis
    using send chunks m(2) fin(1,2) by (intro exI [of _ response] exI [of _ chunks] exI [of _ m]) simp
qed

text \<open>
  A failed download changes no finished file: every path but that of its temporary file is untouched; a
  body over the limit leaves no temporary file either, if that could be removed.
\<close>

theorem failed_download_changes_no_file:
  assumes "download_once env cfg u outcome fs = (Inl e, fs')"
  shows "(\<forall>p. p \<noteq> asset_temp env cfg u outcome \<longrightarrow> fs' p = fs p) \<and>
    (e = scraper_error.PayloadTooLarge \<and> ao_remove outcome = None \<longrightarrow> fs' (asset_temp env cfg u outcome) = None)"
proof -
  have "stream_body m w i chunks d out \<noteq> BodyFailed scraper_error.PayloadTooLarge left" for m w i chunks d out left
    by (induction m w i chunks d out rule: stream_body.induct) (auto simp: Let_def split: option.split)
  then show ?thesis using assms
    by (auto simp: download_once_def finish_asset_def Let_def split: sum.splits if_splits option.splits stream_end.splits)
qed

text \<open>Every other failure after the first byte leaves it: a stream that breaks off is not cleaned up.\<close>

lemma broken_stream_leaves_its_temporary_file:
  assumes "ao_send outcome = Inr response" "is_success (as_status response)" "as_chunks response = [Inr [b], Inl e]"
    and "ao_create_dir outcome = None" "ao_create outcome = None" "\<forall>i. ao_write outcome i = None" "0 < dl_max_file_size cfg"
  shows "download_once env cfg u outcome fs = (Inl (scraper_error.Network e), fs(asset_temp env cfg u outcome \<mapsto> [b]))"
proof -
  have "\<not> dl_max_file_size cfg < 1" using assms(7) by (simp add: word_less_nat_alt)
  then show ?thesis using assms by (simp add: download_once_def)
qed

text \<open>
  The test for an existing file and the rename are two steps: of two downloads that derive the same free
  name at the same time, both report it, and it holds the content of the later.
\<close>

lemma same_name_overwrites:
  assumes "fs (path_join folder name) = None" "temp1 \<noteq> path_join folder name" "temp2 \<noteq> path_join folder name" "temp1 \<noteq> temp2"
  shows "choose_path folder name digest1 fs = path_join folder name \<and> choose_path folder name digest2 fs = path_join folder name \<and>
    rename_asset temp2 (path_join folder name) (rename_asset temp1 (path_join folder name) fs) (path_join folder name) = fs temp2"
  using assms by (simp add: choose_path_def rename_asset_def)

text \<open>A content type with a parameter is in no table, so its file is called \<^verbatim>\<open>.bin\<close>.\<close>

lemma parameter_hides_the_extension: "mime_type_to_extension ''text/plain; charset=utf-8'' = None"
  by (simp add: mime_type_to_extension_def MIME_EXTENSIONS_def trim_def trim_start_def is_whitespace_def)

section \<open>Retries\<close>

text \<open>
  Retries are bounded: an asset is attempted at most once more than the configured number of retries, no
  delay exceeds the configured maximum, and a failure is reported as soon as it is not transient or when
  all retries are used.
\<close>

theorem asset_retries_are_bounded:
  "case run_download env cfg u answers offsets fs of
     (result, fs', delays) \<Rightarrow> length delays \<le> unat (dl_max_retries cfg) \<and>
       list_all (\<lambda>d. d \<le> unat (dl_backoff_max_ms cfg)) delays \<and>
       (case result of
          Inr _ \<Rightarrow> True
        | Inl e \<Rightarrow> scraper_classify e \<noteq> TransientRetriable \<or> length delays = unat (dl_max_retries cfg))"
proof -
  have "case download_with_retry env cfg u answers offsets attempt left fs of
     (result, fs', delays) \<Rightarrow> length delays \<le> left \<and> list_all (\<lambda>d. d \<le> unat (dl_backoff_max_ms cfg)) delays \<and>
       (case result of Inr _ \<Rightarrow> True | Inl e \<Rightarrow> scraper_classify e \<noteq> TransientRetriable \<or> length delays = left)" for attempt left
  proof (induction left arbitrary: attempt fs)
    case 0
    show ?case by (subst download_with_retry.simps) (auto split: prod.split sum.split)
  next
    case (Suc left)
    show ?case
    proof (cases "download_once env cfg u (answers attempt) fs")
      case (Pair result fs1)
      show ?thesis
      proof (cases result)
        case (Inl e)
        obtain r fs2 ds where rec: "download_with_retry env cfg u answers offsets (Suc attempt) left fs1 = (r, fs2, ds)"
          by (cases "download_with_retry env cfg u answers offsets (Suc attempt) left fs1")
        have delay: "compute_backoff_delay n base limit offset \<le> unat limit" for n base limit offset
          by (simp add: compute_backoff_delay_def Let_def)
        show ?thesis using Suc.IH [of "Suc attempt" fs1]
          by (subst download_with_retry.simps)
            (simp add: Pair Inl rec delay del: download_with_retry.simps split: sum.splits)
      next
        case (Inr asset)
        then show ?thesis using Pair by (subst download_with_retry.simps) simp
      qed
    qed
  qed
  from this [of "unat (dl_max_retries cfg)" 0] show ?thesis unfolding run_download_def .
qed

section \<open>A download and a failure\<close>

definition sample_assets :: "string asset_env" where
  "sample_assets =
     \<lparr>ae_api =
        \<lparr>api_parse = Some, api_scheme = \<lambda>_. ''https'', api_host_str = \<lambda>_. Some ''a.io'', api_path = \<lambda>p. p,
         api_set_path = \<lambda>p _. p, api_to_string = \<lambda>p. p\<rparr>,
      ae_glob = \<lambda>_. None, ae_sha = \<lambda>_. replicate 64 CHR ''0'', ae_percent = \<lambda>s. s, ae_hash = \<lambda>_. 0\<rparr>"

definition sample_download_config :: download_config where
  "sample_download_config =
     \<lparr>dl_output_dir = ''out'', dl_images_dir = ''images'', dl_documents_dir = ''documents'', dl_max_file_size = 4,
      dl_include_patterns = [], dl_exclude_patterns = [], dl_asset_naming = HashNaming, dl_max_retries = 3,
      dl_backoff_base_ms = 1000, dl_backoff_max_ms = 10000\<rparr>"

definition sample_outcome :: "(dyn_error + u8 list) list \<Rightarrow> asset_outcome" where
  "sample_outcome chunks =
     \<lparr>ao_send = Inr \<lparr>as_status = 200, as_content_type = Some ''image/png'', as_content_disposition = None, as_chunks = chunks\<rparr>,
      ao_create_dir = None, ao_create = None, ao_write = \<lambda>_. None, ao_remove = None, ao_sync = None, ao_rename = None,
      ao_uuid = ''t''\<rparr>"

lemma sample_digest: "hex_digest (ae_sha sample_assets content)"
  by (simp add: hex_digest_def sample_assets_def)

theorem finished_download_is_whole_and_confined_witness:
  "\<exists>asset fs'. download_once sample_assets sample_download_config ''/a.png'' (sample_outcome [Inr [1, 2], Inr [3]]) Map.empty =
     (Inr asset, fs') \<and> (\<exists>name. da_local_path asset = path_join (asset_folder sample_assets sample_download_config ''/a.png'') name \<and>
       plain_name name) \<and> fs' (da_local_path asset) = Some [1, 2, 3]"
proof -
  have "\<exists>asset fs'. download_once sample_assets sample_download_config ''/a.png'' (sample_outcome [Inr [1, 2], Inr [3]]) Map.empty =
      (Inr asset, fs')"
    by (simp add: download_once_def sample_outcome_def is_success_def sample_download_config_def finish_asset_def Let_def)
  then obtain asset fs' where run: "download_once sample_assets sample_download_config ''/a.png''
      (sample_outcome [Inr [1, 2], Inr [3]]) Map.empty = (Inr asset, fs')" by blast
  from finished_download_is_whole_and_confined [OF run sample_digest] obtain response body name where
      send: "ao_send (sample_outcome [Inr [1, 2], Inr [3]]) = Inr response" "as_chunks response = map Inr body" and
      saved: "da_local_path asset = path_join (asset_folder sample_assets sample_download_config ''/a.png'') name" "plain_name name"
        "fs' (da_local_path asset) = Some (concat body)"
    by blast
  have "map Inr body = [Inr [1, 2], Inr [3] :: dyn_error + u8 list]" using send by (auto simp: sample_outcome_def)
  then have "body = [[1, 2], [3]]" by auto
  then show ?thesis using run saved by (intro exI [of _ asset] exI [of _ fs']) auto
qed

theorem failed_download_changes_no_file_witness:
  "\<exists>fs'. download_once sample_assets sample_download_config ''/a.png'' (sample_outcome [Inr [1, 2, 3, 4, 5]]) [''out/b'' \<mapsto> [7]] =
     (Inl scraper_error.PayloadTooLarge, fs') \<and>
   fs' (asset_temp sample_assets sample_download_config ''/a.png'' (sample_outcome [Inr [1, 2, 3, 4, 5]])) = None"
proof -
  have "\<exists>fs'. download_once sample_assets sample_download_config ''/a.png'' (sample_outcome [Inr [1, 2, 3, 4, 5]]) [''out/b'' \<mapsto> [7]] =
      (Inl scraper_error.PayloadTooLarge, fs')"
    by (simp add: download_once_def sample_outcome_def is_success_def sample_download_config_def Let_def)
  then obtain fs' where run: "download_once sample_assets sample_download_config ''/a.png''
      (sample_outcome [Inr [1, 2, 3, 4, 5]]) [''out/b'' \<mapsto> [7]] = (Inl scraper_error.PayloadTooLarge, fs')" by blast
  have "ao_remove (sample_outcome [Inr [1, 2, 3, 4, 5]]) = None" by (simp add: sample_outcome_def)
  with failed_download_changes_no_file [OF run] run show ?thesis by blast
qed

end
