(* ===== verification/Std_Sort.thy ===== *)
theory Std_Sort
  imports Prelude "HOL-Library.List_Lexorder" "HOL-Library.Option_ord"
begin

text \<open>
  \<^verbatim>\<open>slice::sort_by\<close>, \<^verbatim>\<open>Vec::dedup_by\<close> and \<^verbatim>\<open>cmp::Ordering\<close> of the standard library. The sort is stable, and
  it is specified for comparators that are total orders on the elements of the slice only: on any other
  comparator the call may panic or leave the elements in any order, which the model answers with
  \<open>None\<close>. The locale states what a comparator has to provide and what a sort with it then gives.
\<close>

section \<open>Orderings\<close>

datatype ordering = Less | Equal | Greater

definition reverse :: "ordering \<Rightarrow> ordering" where
  "reverse o1 = (case o1 of Less \<Rightarrow> Greater | Equal \<Rightarrow> Equal | Greater \<Rightarrow> Less)"

definition then_with :: "ordering \<Rightarrow> ordering \<Rightarrow> ordering" where
  "then_with o1 o2 = (case o1 of Equal \<Rightarrow> o2 | _ \<Rightarrow> o1)"

text \<open>\<^verbatim>\<open>Ord::cmp\<close> of a linear order; strings compare by code point, and \<^verbatim>\<open>None\<close> is below every \<^verbatim>\<open>Some\<close>.\<close>

definition ord_cmp :: "'a::linorder \<Rightarrow> 'a \<Rightarrow> ordering" where
  "ord_cmp a b = (if a < b then Less else if a = b then Equal else Greater)"

lemma reverse_simps [simp]:
  "reverse Less = Greater" "reverse Equal = Equal" "reverse Greater = Less" "reverse (reverse x) = x"
  by (cases x; simp add: reverse_def)+

lemma then_with_simps [simp]:
  "then_with Less o2 = Less" "then_with Equal o2 = o2" "then_with Greater o2 = Greater"
  by (simp_all add: then_with_def)

lemma reverse_then_with: "reverse (then_with a b) = then_with (reverse a) (reverse b)"
  by (cases a) simp_all

lemma ord_cmp_reverse: "ord_cmp b a = reverse (ord_cmp a b)"
  by (auto simp: ord_cmp_def)

lemma ord_cmp_not_Greater [simp]: "ord_cmp a b \<noteq> Greater \<longleftrightarrow> a \<le> b"
  by (auto simp: ord_cmp_def)

lemma ord_cmp_Equal [simp]: "ord_cmp a b = Equal \<longleftrightarrow> a = b"
  by (auto simp: ord_cmp_def)

section \<open>Sorting and removing neighbours\<close>

fun insert_by :: "('a \<Rightarrow> 'a \<Rightarrow> ordering) \<Rightarrow> 'a \<Rightarrow> 'a list \<Rightarrow> 'a list" where
  "insert_by cmp x [] = [x]"
| "insert_by cmp x (y # ys) = (if cmp x y \<noteq> Greater then x # y # ys else y # insert_by cmp x ys)"

definition total_order_on :: "('a \<Rightarrow> 'a \<Rightarrow> ordering) \<Rightarrow> 'a list \<Rightarrow> bool" where
  "total_order_on cmp xs =
     list_all (\<lambda>a. list_all (\<lambda>b. cmp b a = reverse (cmp a b) \<and>
       list_all (\<lambda>c. cmp a b \<noteq> Greater \<longrightarrow> cmp b c \<noteq> Greater \<longrightarrow> cmp a c \<noteq> Greater) xs) xs) xs"

definition sort_by :: "('a \<Rightarrow> 'a \<Rightarrow> ordering) \<Rightarrow> 'a list \<Rightarrow> 'a list option" where
  "sort_by cmp xs = (if total_order_on cmp xs then Some (foldr (insert_by cmp) xs []) else None)"

text \<open>\<open>same_bucket y x\<close> with \<open>x\<close> the element kept last and \<open>y\<close> the one under test.\<close>

fun dedup_by :: "('a \<Rightarrow> 'a \<Rightarrow> bool) \<Rightarrow> 'a list \<Rightarrow> 'a list" where
  "dedup_by same_bucket [] = []"
| "dedup_by same_bucket [x] = [x]"
| "dedup_by same_bucket (x # y # ys) =
     (if same_bucket y x then dedup_by same_bucket (x # ys) else x # dedup_by same_bucket (y # ys))"

lemma set_insert_by [simp]: "set (insert_by cmp x xs) = insert x (set xs)"
  by (induction xs) auto

lemma set_foldr_insert_by [simp]: "set (foldr (insert_by cmp) xs []) = set xs"
  by (induction xs) auto

lemma length_insert_by [simp]: "length (insert_by cmp x xs) = Suc (length xs)"
  by (induction xs) auto

lemma length_foldr_insert_by [simp]: "length (foldr (insert_by cmp) xs []) = length xs"
  by (induction xs) auto

lemma sort_by_set: "sort_by cmp xs = Some ys \<Longrightarrow> set ys = set xs"
  by (auto simp: sort_by_def split: if_splits)

lemma sort_by_length: "sort_by cmp xs = Some ys \<Longrightarrow> length ys = length xs"
  by (auto simp: sort_by_def split: if_splits)

lemma sort_by_Nil_iff: "sort_by cmp xs = Some ys \<Longrightarrow> ys = [] \<longleftrightarrow> xs = []"
  using sort_by_length by fastforce

lemma set_dedup_by: "set (dedup_by p xs) \<subseteq> set xs"
  by (induction p xs rule: dedup_by.induct) auto

lemma length_dedup_by: "length (dedup_by p xs) \<le> length xs"
  by (induction p xs rule: dedup_by.induct) auto

lemma dedup_by_Nil_iff [simp]: "dedup_by p xs = [] \<longleftrightarrow> xs = []"
  by (induction p xs rule: dedup_by.induct) auto

section \<open>Total comparators\<close>

locale total_comparator =
  fixes cmp :: "'a \<Rightarrow> 'a \<Rightarrow> ordering" and S :: "'a set"
  assumes cmp_reverse: "a \<in> S \<Longrightarrow> b \<in> S \<Longrightarrow> cmp b a = reverse (cmp a b)"
    and cmp_trans: "\<lbrakk>a \<in> S; b \<in> S; c \<in> S; cmp a b \<noteq> Greater; cmp b c \<noteq> Greater\<rbrakk> \<Longrightarrow> cmp a c \<noteq> Greater"
begin

lemma sort_by_Some: "set xs \<subseteq> S \<Longrightarrow> sort_by cmp xs = Some (foldr (insert_by cmp) xs [])"
proof -
  assume "set xs \<subseteq> S"
  then have "total_order_on cmp xs"
    unfolding total_order_on_def list_all_iff using cmp_reverse cmp_trans by (meson subsetD)
  then show ?thesis by (simp add: sort_by_def)
qed

lemma flip: "a \<in> S \<Longrightarrow> b \<in> S \<Longrightarrow> cmp a b = Greater \<Longrightarrow> cmp b a \<noteq> Greater"
  using cmp_reverse [of a b] by simp

lemma sorted_insert_by:
  assumes "x \<in> S" "set xs \<subseteq> S" "sorted_wrt (\<lambda>a b. cmp a b \<noteq> Greater) xs"
  shows "sorted_wrt (\<lambda>a b. cmp a b \<noteq> Greater) (insert_by cmp x xs)"
  using assms(2,3)
proof (induction xs)
  case (Cons y ys)
  show ?case
  proof (cases "cmp x y = Greater")
    case True
    then show ?thesis using Cons flip [OF \<open>x \<in> S\<close>, of y] by auto
  next
    case False
    then have "cmp x z \<noteq> Greater" if "z \<in> set ys" for z
      using that Cons.prems cmp_trans [OF \<open>x \<in> S\<close>, of y z] by auto
    with False Cons.prems show ?thesis by auto
  qed
qed simp

lemma sorted_sort_by:
  assumes "set xs \<subseteq> S" "sort_by cmp xs = Some ys"
  shows "sorted_wrt (\<lambda>a b. cmp a b \<noteq> Greater) ys"
proof -
  have "sorted_wrt (\<lambda>a b. cmp a b \<noteq> Greater) (foldr (insert_by cmp) xs [])"
    using assms(1) by (induction xs) (auto intro!: sorted_insert_by)
  with assms show ?thesis by (simp add: sort_by_Some)
qed

lemma filter_insert_by_other: "\<not> P x \<Longrightarrow> filter P (insert_by cmp x xs) = filter P xs"
  by (induction xs) auto

lemma cmp_refl: "a \<in> S \<Longrightarrow> cmp a a = Equal"
  using cmp_reverse [of a a] by (cases "cmp a a") auto

lemma filter_insert_by_same:
  assumes "x \<in> S" "k \<in> S" "set xs \<subseteq> S" "cmp k x = Equal"
  shows "filter (\<lambda>b. cmp k b = Equal) (insert_by cmp x xs) = x # filter (\<lambda>b. cmp k b = Equal) xs"
  using assms(3)
proof (induction xs)
  case (Cons y ys)
  have "cmp k y \<noteq> Equal" if "cmp x y = Greater"
  proof
    assume "cmp k y = Equal"
    moreover have "cmp x k = Equal" using cmp_reverse [of k x] assms by simp
    ultimately show False using cmp_trans [of x k y] assms Cons.prems that by simp
  qed
  with Cons assms show ?case by auto
qed (use assms in simp)

lemma sort_by_stable:
  assumes "k \<in> S" "set xs \<subseteq> S" "sort_by cmp xs = Some ys"
  shows "filter (\<lambda>b. cmp k b = Equal) ys = filter (\<lambda>b. cmp k b = Equal) xs"
proof -
  have "filter (\<lambda>b. cmp k b = Equal) (foldr (insert_by cmp) xs []) = filter (\<lambda>b. cmp k b = Equal) xs"
    using assms(2)
    by (induction xs) (auto simp: filter_insert_by_same [OF _ assms(1)] filter_insert_by_other)
  with assms show ?thesis by (simp add: sort_by_Some)
qed

end

section \<open>Comparison by a key\<close>

text \<open>Sorting by a key and removing equal neighbours keeps the first element of every key.\<close>

definition key_cmp :: "('a \<Rightarrow> 'k::linorder) \<Rightarrow> 'a \<Rightarrow> 'a \<Rightarrow> ordering" where
  "key_cmp f a b = ord_cmp (f a) (f b)"

interpretation keyed: total_comparator "key_cmp f" UNIV for f :: "'a \<Rightarrow> 'k::linorder"
proof unfold_locales
  show "key_cmp f b a = reverse (key_cmp f a b)" for a b
    unfolding key_cmp_def by (rule ord_cmp_reverse)
  show "key_cmp f a b \<noteq> Greater \<Longrightarrow> key_cmp f b c \<noteq> Greater \<Longrightarrow> key_cmp f a c \<noteq> Greater" for a b c
    unfolding key_cmp_def ord_cmp_not_Greater by (rule order.trans)
qed

lemma sort_by_key: "\<exists>ys. sort_by (key_cmp f) xs = Some ys"
  by (simp add: keyed.sort_by_Some)

lemma sorted_sort_by_key: "sort_by (key_cmp f) xs = Some ys \<Longrightarrow> sorted (map f ys)"
  using keyed.sorted_sort_by [of xs f ys] by (simp add: sorted_wrt_map key_cmp_def)

lemma find_hd_filter: "List.find P xs = (case filter P xs of [] \<Rightarrow> None | y # _ \<Rightarrow> Some y)"
  by (induction xs) auto

lemma dedup_by_key:
  assumes "sorted (map f xs)"
  shows "distinct (map f (dedup_by (\<lambda>y x. f y = f x) xs))"
    and "f ` set (dedup_by (\<lambda>y x. f y = f x) xs) = f ` set xs"
    and "List.find (\<lambda>e. f e = k) (dedup_by (\<lambda>y x. f y = f x) xs) = List.find (\<lambda>e. f e = k) xs"
proof -
  let ?p = "\<lambda>y x. f y = f x"
  show img: "f ` set (dedup_by ?p xs) = f ` set xs" for xs
    by (induction ?p xs rule: dedup_by.induct) auto
  show "distinct (map f (dedup_by ?p xs))" using assms
  proof (induction ?p xs rule: dedup_by.induct)
    case (3 x y ys)
    then show ?case using img [of "y # ys"] by (fastforce simp: image_iff)
  qed simp_all
  show "List.find (\<lambda>e. f e = k) (dedup_by ?p xs) = List.find (\<lambda>e. f e = k) xs"
    by (induction ?p xs rule: dedup_by.induct) auto
qed

lemma find_after_sort_and_dedup:
  assumes "sort_by (key_cmp f) xs = Some ys"
  shows "List.find (\<lambda>e. f e = k) (dedup_by (\<lambda>y x. f y = f x) ys) = List.find (\<lambda>e. f e = k) xs"
proof -
  have "filter (\<lambda>b. f b = k) ys = filter (\<lambda>b. f b = k) xs"
  proof (cases "\<exists>a \<in> set xs. f a = k")
    case True
    then obtain a where a: "f a = k" by blast
    show ?thesis
      using keyed.sort_by_stable [of a xs f ys] assms a by (simp add: key_cmp_def eq_commute [of k])
  next
    case False
    then show ?thesis using sort_by_set [OF assms] by (auto simp: filter_empty_conv filter_False)
  qed
  then have "List.find (\<lambda>e. f e = k) ys = List.find (\<lambda>e. f e = k) xs" by (simp add: find_hd_filter)
  then show ?thesis by (simp add: dedup_by_key(3) [OF sorted_sort_by_key [OF assms]])
qed

end
