(* ===== verification/Sitemap_Xml.thy ===== *)
theory Sitemap_Xml
  imports Url_Validation Std_Sort "HOL-Library.Log_Nat"
begin

text \<open>
  Reading one sitemap document: \<^verbatim>\<open>domain/crawler_port/sitemap.rs\<close>, the pattern filter of
  \<^verbatim>\<open>domain/url_validator.rs\<close> and the document half of \<^verbatim>\<open>infrastructure/crawler/sitemap_parser.rs\<close>
  (\<open>resolve_url\<close>, \<open>parse_sitemap_core\<close>, \<open>dedup_and_sort_sitemap_urls\<close>). The reader of \<^verbatim>\<open>quick-xml\<close> is
  the list of its answers up to the end of the document, the crate \<^verbatim>\<open>url\<close> a record of the methods called.
  \<^verbatim>\<open>f32\<close> values are exact: an integer counts units of \<open>2 ^ -149\<close>, the smallest positive value.
\<close>

section \<open>Errors, entries, library\<close>

datatype sitemap_error =
    InvalidUrl string
  | HttpError u16 string
  | XmlError string
  | IoError string
  | NoUrlsFound
  | InvalidStructure
  | MaxDepthExceeded
  | InvalidScheme string
  | ResponseTooLarge nat
  | DecompressedTooLarge nat
  | MemoryLimitExceeded nat
  | SitemapNotFound string
  | InvalidContentType string
  | DecompressionError string
  | AllChildrenFailed nat string
  | WafChallenge string string
  | SsrfLiteralRejected string

datatype f32 = Nan | Num int

record 'u sitemap_url =
  sm_url :: 'u
  sm_lastmod :: "string option"
  sm_priority :: "f32 option"
  sm_changefreq :: "string option"

definition sitemap_url_new :: "'u \<Rightarrow> 'u sitemap_url" where
  "sitemap_url_new u = \<lparr>sm_url = u, sm_lastmod = None, sm_priority = None, sm_changefreq = None\<rparr>"

record 'u sitemap_lib =
  sl_api :: "'u url_api"
  sl_join :: "'u \<Rightarrow> string \<Rightarrow> 'u option"
  sl_query_pairs :: "'u \<Rightarrow> nat"

abbreviation url_text :: "'u sitemap_lib \<Rightarrow> 'u \<Rightarrow> string" where
  "url_text lib \<equiv> api_to_string (sl_api lib)"

text \<open>The library of \<^verbatim>\<open>Url_Validation\<close> with relative references that name a path.\<close>

definition small_lib :: "small_url sitemap_lib" where
  "small_lib =
     \<lparr>sl_api = small_api, sl_join = \<lambda>b s. Some (b\<lparr>su_path := ''/'' @ s, su_query := []\<rparr>), sl_query_pairs = \<lambda>u. 0\<rparr>"

definition small_page :: "string \<Rightarrow> small_url" where
  "small_page p = \<lparr>su_base = ''https://a.io'', su_path = p, su_query = []\<rparr>"

section \<open>Numbers of the standard library\<close>

text \<open>
  The value nearest to \<open>num / den\<close> with a significand of 24 binary digits, ties to even. Values that round
  past the finite ones, and the infinities, stand as \<open>2 ^ 128\<close>.
\<close>

definition F32_ONE :: int where "F32_ONE = 2 ^ 149"

definition f32_infinity :: nat where "f32_infinity = 2 ^ 277"

definition f32_round :: "nat \<Rightarrow> nat \<Rightarrow> nat" where
  "f32_round num den =
     (let scaled = num * 2 ^ 149; e = floorlog 2 (scaled div den) - 24; step = den * 2 ^ e;
          q = scaled div step; r = scaled mod step;
          m = (if 2 * r > step \<or> 2 * r = step \<and> odd q then q + 1 else q)
      in min (m * 2 ^ e) f32_infinity)"

text \<open>\<^verbatim>\<open>f32::from_str\<close>: sign, then a name or digits with a point and an exponent.\<close>

definition decimal_value :: "string \<Rightarrow> nat" where
  "decimal_value ds = foldl (\<lambda>a c. a * 10 + (of_char c - 48)) 0 ds"

definition parse_exponent :: "string \<Rightarrow> int option" where
  "parse_exponent s =
     (let (neg, ds) = (case s of CHR ''-'' # r \<Rightarrow> (True, r) | CHR ''+'' # r \<Rightarrow> (False, r) | _ \<Rightarrow> (False, s)) in
      if ds = [] \<or> \<not> list_all is_ascii_digit ds then None
      else Some (if neg then - int (decimal_value ds) else int (decimal_value ds)))"

definition parse_decimal :: "string \<Rightarrow> (nat \<times> nat) option" where
  "parse_decimal s =
     (let whole = takeWhile is_ascii_digit s; rest = dropWhile is_ascii_digit s;
          (frac, tail) = (case rest of CHR ''.'' # r \<Rightarrow> (takeWhile is_ascii_digit r, dropWhile is_ascii_digit r)
                          | _ \<Rightarrow> ([], rest))
      in if whole = [] \<and> frac = [] then None
         else (case (case tail of [] \<Rightarrow> Some 0 | CHR ''e'' # x \<Rightarrow> parse_exponent x | _ \<Rightarrow> None) of
                 None \<Rightarrow> None
               | Some x \<Rightarrow>
                   (let m = decimal_value (whole @ frac); k = x - int (length frac)
                    in Some (if 0 \<le> k then (m * 10 ^ nat k, 1) else (m, 10 ^ nat (- k))))))"

definition parse_f32 :: "string \<Rightarrow> f32 option" where
  "parse_f32 s =
     (let (neg, body) = (case s of CHR ''-'' # r \<Rightarrow> (True, r) | CHR ''+'' # r \<Rightarrow> (False, r) | _ \<Rightarrow> (False, s));
          l = to_ascii_lowercase body; signed = (\<lambda>n :: nat. if neg then - int n else int n)
      in if l = ''nan'' then Some Nan
         else if l = ''inf'' \<or> l = ''infinity'' then Some (Num (signed f32_infinity))
         else map_option (\<lambda>(num, den). Num (signed (f32_round num den))) (parse_decimal l))"

text \<open>\<^verbatim>\<open>p.clamp(0.0, 1.0)\<close> keeps a NaN; \<^verbatim>\<open>partial_cmp\<close> is \<open>None\<close> on one.\<close>

definition clamp_priority :: "f32 \<Rightarrow> f32" where
  "clamp_priority p = (case p of Nan \<Rightarrow> Nan | Num n \<Rightarrow> Num (max 0 (min n F32_ONE)))"

definition partial_cmp :: "f32 \<Rightarrow> f32 \<Rightarrow> ordering option" where
  "partial_cmp a b = (case (a, b) of (Num m, Num n) \<Rightarrow> Some (ord_cmp m n) | _ \<Rightarrow> None)"

section \<open>The pattern filter\<close>

datatype 'u validation_result = Valid | Invalid string | NeedsRedirect 'u

text \<open>The part of a string before, and the part after, the first occurrence of a pattern.\<close>

fun before_str :: "string \<Rightarrow> string \<Rightarrow> string" where
  "before_str p [] = []"
| "before_str p (c # cs) = (if starts_with p (c # cs) then [] else c # before_str p cs)"

fun after_str :: "string \<Rightarrow> string \<Rightarrow> string option" where
  "after_str p [] = (if p = [] then Some [] else None)"
| "after_str p (c # cs) = (if starts_with p (c # cs) then strip_prefix p (c # cs) else after_str p cs)"

definition filter_invalid_patterns :: "'u url_api \<Rightarrow> 'u \<Rightarrow> 'u validation_result" where
  "filter_invalid_patterns api u =
     (let release = ''/blog/release/v'';
          bad_version =
            (case after_str release (api_path api u) of
               None \<Rightarrow> None
             | Some rest \<Rightarrow>
                 (let version_part = before_str release rest;
                      version = takeWhile (\<lambda>c. c \<noteq> CHR ''?'' \<and> c \<noteq> CHR ''#'') version_part
                  in case from_str_radix 32 10 (takeWhile (\<lambda>c. c \<noteq> CHR ''.'') version) of
                       Some major \<Rightarrow> if 99 < major then Some version else None
                     | None \<Rightarrow> None));
          scheme = api_scheme api u
      in case bad_version of
           Some version \<Rightarrow> Invalid (''Invalid Node.js version pattern: v'' @ version)
         | None \<Rightarrow>
             if scheme = ''http'' \<or> scheme = ''https'' then Valid
             else Invalid (''Unsupported scheme: '' @ scheme))"

section \<open>Locations\<close>

definition resolve_url :: "'u sitemap_lib \<Rightarrow> 'u \<Rightarrow> string \<Rightarrow> 'u option" where
  "resolve_url lib base input0 =
     (let input = trim input0 in
      if input = [] then None
      else if starts_with ''http://'' input \<or> starts_with ''https://'' input
      then api_parse (sl_api lib) input
      else (case sl_join lib base input of
              None \<Rightarrow> None
            | Some resolved \<Rightarrow>
                (let seed_host = unwrap_or (api_host_str (sl_api lib) base) [] in
                 if is_internal_link (sl_api lib) (url_text lib resolved) seed_host then Some resolved
                 else None)))"

definition apply_url_validation :: "'u sitemap_lib \<Rightarrow> 'u \<Rightarrow> bool \<Rightarrow> 'u option \<Rightarrow> 'u option" where
  "apply_url_validation lib u url_validator current_url =
     (if url_validator
      then (case filter_invalid_patterns (sl_api lib) u of
              Valid \<Rightarrow> Some u
            | Invalid reason \<Rightarrow> current_url
            | NeedsRedirect new_url \<Rightarrow> Some new_url)
      else Some u)"

section \<open>The event loop\<close>

text \<open>
  The reader's events. A text that does not decode is \<open>Inl\<close> of the message; an element written as
  \<^verbatim>\<open><x/>\<close> is \<open>EmptyElement\<close>, an entity or character reference is \<open>GeneralRef\<close>.
\<close>

datatype xml_event =
    Start string
  | End string
  | EmptyElement string
  | Text "string + string"
  | CData string
  | GeneralRef string
  | OtherEvent
  | Eof

record 'u core_state =
  c_urls :: "'u sitemap_url list"
  c_root_tag :: "string option"
  c_is_index :: bool
  c_saw_element :: bool
  c_in_url :: bool
  c_in_sitemap :: bool
  c_in_loc :: bool
  c_in_lastmod :: bool
  c_in_priority :: bool
  c_in_changefreq :: bool
  c_url :: "'u option"
  c_lastmod :: "string option"
  c_priority :: "f32 option"
  c_changefreq :: "string option"

definition core_init :: "'u core_state" where
  "core_init =
     \<lparr>c_urls = [], c_root_tag = None, c_is_index = False, c_saw_element = False, c_in_url = False,
      c_in_sitemap = False, c_in_loc = False, c_in_lastmod = False, c_in_priority = False,
      c_in_changefreq = False, c_url = None, c_lastmod = None, c_priority = None, c_changefreq = None\<rparr>"

definition classify_root :: "bool \<Rightarrow> string \<Rightarrow> 'u core_state \<Rightarrow> sitemap_error + 'u core_state" where
  "classify_root handle_sitemap_index name st =
     (if handle_sitemap_index \<and> c_root_tag st = None
      then (if name = ''sitemapindex'' then Inr (st\<lparr>c_is_index := True, c_root_tag := Some name\<rparr>)
            else if name = ''urlset'' then Inr (st\<lparr>c_root_tag := Some name\<rparr>)
            else Inl InvalidStructure)
      else Inr st)"

definition open_element :: "bool \<Rightarrow> string \<Rightarrow> 'u core_state \<Rightarrow> 'u core_state" where
  "open_element handle_sitemap_index name st =
     (if name = ''url''
      then st\<lparr>c_in_url := True, c_url := None, c_lastmod := None, c_priority := None, c_changefreq := None\<rparr>
      else if handle_sitemap_index \<and> name = ''sitemap''
      then st\<lparr>c_in_sitemap := True, c_url := None, c_lastmod := None\<rparr>
      else if (c_in_url st \<or> handle_sitemap_index \<and> c_in_sitemap st) \<and> name = ''loc''
      then st\<lparr>c_in_loc := True\<rparr>
      else if c_in_url st \<and> name = ''lastmod'' then st\<lparr>c_in_lastmod := True\<rparr>
      else if c_in_url st \<and> name = ''priority'' then st\<lparr>c_in_priority := True\<rparr>
      else if c_in_url st \<and> name = ''changefreq'' then st\<lparr>c_in_changefreq := True\<rparr>
      else st)"

definition on_start :: "bool \<Rightarrow> string \<Rightarrow> 'u core_state \<Rightarrow> sitemap_error + 'u core_state" where
  "on_start handle_sitemap_index name st0 =
     (case classify_root handle_sitemap_index name (st0\<lparr>c_saw_element := True\<rparr>) of
        Inl e \<Rightarrow> Inl e
      | Inr st \<Rightarrow> Inr (open_element handle_sitemap_index name st))"

definition push_entry :: "'u sitemap_url option \<Rightarrow> 'u core_state \<Rightarrow> 'u core_state" where
  "push_entry e st = (case e of None \<Rightarrow> st | Some x \<Rightarrow> st\<lparr>c_urls := c_urls st @ [x]\<rparr>)"

definition on_end :: "bool \<Rightarrow> string \<Rightarrow> 'u core_state \<Rightarrow> 'u core_state" where
  "on_end handle_sitemap_index name st =
     (if name = ''url''
      then push_entry
             (map_option (\<lambda>u. \<lparr>sm_url = u, sm_lastmod = c_lastmod st, sm_priority = c_priority st,
                              sm_changefreq = c_changefreq st\<rparr>) (c_url st))
             (st\<lparr>c_in_url := False\<rparr>)
      else if handle_sitemap_index \<and> name = ''sitemap''
      then push_entry
             (map_option (\<lambda>u. \<lparr>sm_url = u, sm_lastmod = c_lastmod st, sm_priority = None,
                              sm_changefreq = None\<rparr>) (c_url st))
             (st\<lparr>c_in_sitemap := False\<rparr>)
      else if name = ''loc'' then st\<lparr>c_in_loc := False\<rparr>
      else if name = ''lastmod'' then st\<lparr>c_in_lastmod := False\<rparr>
      else if name = ''priority'' then st\<lparr>c_in_priority := False\<rparr>
      else if name = ''changefreq'' then st\<lparr>c_in_changefreq := False\<rparr>
      else st)"

definition loc_content :: "'u sitemap_lib \<Rightarrow> 'u \<Rightarrow> bool \<Rightarrow> string \<Rightarrow> 'u core_state \<Rightarrow> 'u core_state" where
  "loc_content lib base validator content st =
     (let url_str = trim content in
      if url_str = [] then st
      else (case resolve_url lib base url_str of
              None \<Rightarrow> st
            | Some u \<Rightarrow> st\<lparr>c_url := apply_url_validation lib u validator (c_url st)\<rparr>))"

definition on_text :: "'u sitemap_lib \<Rightarrow> 'u \<Rightarrow> bool \<Rightarrow> string + string \<Rightarrow> 'u core_state \<Rightarrow> sitemap_error + 'u core_state" where
  "on_text lib base validator decoded st =
     (if c_in_loc st
      then (case decoded of Inl e \<Rightarrow> Inl (XmlError e) | Inr text1 \<Rightarrow> Inr (loc_content lib base validator text1 st))
      else Inr (case decoded of
                  Inl _ \<Rightarrow> st
                | Inr text1 \<Rightarrow>
                    if c_in_lastmod st then st\<lparr>c_lastmod := Some (trim text1)\<rparr>
                    else if c_in_priority st
                    then (case parse_f32 (trim text1) of
                            None \<Rightarrow> st
                          | Some p \<Rightarrow> st\<lparr>c_priority := Some (clamp_priority p)\<rparr>)
                    else if c_in_changefreq st then st\<lparr>c_changefreq := Some (trim text1)\<rparr>
                    else st))"

definition core_step ::
  "'u sitemap_lib \<Rightarrow> 'u \<Rightarrow> bool \<Rightarrow> bool \<Rightarrow> xml_event \<Rightarrow> 'u core_state \<Rightarrow> sitemap_error + 'u core_state" where
  "core_step lib base handle_sitemap_index validator ev st =
     (case ev of
        Start name \<Rightarrow> on_start handle_sitemap_index name st
      | End name \<Rightarrow> Inr (on_end handle_sitemap_index name st)
      | Text decoded \<Rightarrow> on_text lib base validator decoded st
      | CData content \<Rightarrow> Inr (if c_in_loc st then loc_content lib base validator content st else st)
      | _ \<Rightarrow> Inr st)"

fun core_loop ::
  "'u sitemap_lib \<Rightarrow> 'u \<Rightarrow> bool \<Rightarrow> bool \<Rightarrow> (string + xml_event) list \<Rightarrow> 'u core_state \<Rightarrow> sitemap_error + 'u core_state" where
  "core_loop lib base hi validator [] st = Inr st"
| "core_loop lib base hi validator (Inl e # reads) st = Inl (XmlError e)"
| "core_loop lib base hi validator (Inr ev # reads) st =
     (if ev = Eof then Inr st
      else (case core_step lib base hi validator ev st of
              Inl e \<Rightarrow> Inl e
            | Inr st1 \<Rightarrow> core_loop lib base hi validator reads st1))"

definition parse_sitemap_core ::
  "'u sitemap_lib \<Rightarrow> (string + xml_event) list \<Rightarrow> 'u \<Rightarrow> bool \<Rightarrow> bool \<Rightarrow> sitemap_error + 'u sitemap_url list \<times> bool" where
  "parse_sitemap_core lib reads base handle_sitemap_index validator =
     (case core_loop lib base handle_sitemap_index validator reads core_init of
        Inl e \<Rightarrow> Inl e
      | Inr st \<Rightarrow> if \<not> c_saw_element st then Inl InvalidStructure else Inr (c_urls st, c_is_index st))"

section \<open>Ordering and duplicates\<close>

definition rank_cmp :: "'u sitemap_url \<Rightarrow> 'u sitemap_url \<Rightarrow> ordering" where
  "rank_cmp a b =
     (let pri_a = unwrap_or (sm_priority a) (Num (2 ^ 148)); pri_b = unwrap_or (sm_priority b) (Num (2 ^ 148))
      in then_with (unwrap_or (partial_cmp pri_b pri_a) Equal) (ord_cmp (sm_lastmod b) (sm_lastmod a)))"

definition dedup_and_sort_sitemap_urls ::
  "'u sitemap_lib \<Rightarrow> 'u sitemap_url list \<Rightarrow> 'u sitemap_url list option" where
  "dedup_and_sort_sitemap_urls lib urls =
     (case sort_by (\<lambda>a b. ord_cmp (url_text lib (sm_url a)) (url_text lib (sm_url b))) urls of
        None \<Rightarrow> None
      | Some sorted_urls \<Rightarrow>
          sort_by rank_cmp
            (dedup_by (\<lambda>a b. url_text lib (sm_url a) = url_text lib (sm_url b)) sorted_urls))"

text \<open>A call that can fail in the sort has \<open>None\<close>; an error of the parser is \<open>Inl\<close>.\<close>

type_synonym 'a outcome = "(sitemap_error + 'a) option"

definition parse_xml_sitemap ::
  "'u sitemap_lib \<Rightarrow> (string + xml_event) list \<Rightarrow> 'u \<Rightarrow> ('u sitemap_url list \<times> bool) outcome" where
  "parse_xml_sitemap lib reads base_url =
     (case parse_sitemap_core lib reads base_url True True of
        Inl e \<Rightarrow> Some (Inl e)
      | Inr (urls, is_index) \<Rightarrow>
          if urls = [] then Some (Inl NoUrlsFound)
          else map_option (\<lambda>us. Inr (us, is_index)) (dedup_and_sort_sitemap_urls lib urls))"

text \<open>\<^verbatim>\<open>Display\<close> of the errors.\<close>

abbreviation show_dec :: "nat \<Rightarrow> string" where
  "show_dec \<equiv> show_radix 10"

fun sitemap_display :: "sitemap_error \<Rightarrow> string" where
  "sitemap_display (InvalidUrl e) = ''invalid URL: '' @ e"
| "sitemap_display (HttpError st m) = ''http request failed: '' @ show_dec (unat st) @ '': '' @ m"
| "sitemap_display (XmlError m) = ''XML parsing failed: '' @ m"
| "sitemap_display (IoError e) = ''IO error: '' @ e"
| "sitemap_display NoUrlsFound = ''no URLs found in sitemap''"
| "sitemap_display InvalidStructure = ''invalid sitemap structure''"
| "sitemap_display MaxDepthExceeded = ''maximum recursion depth exceeded''"
| "sitemap_display (InvalidScheme s) = ''invalid scheme: '' @ s @ '' (only http/https allowed)''"
| "sitemap_display (ResponseTooLarge n) = ''response too large: exceeds '' @ show_dec n @ '' bytes''"
| "sitemap_display (DecompressedTooLarge n) = ''decompressed data too large: exceeds '' @ show_dec n @ '' bytes''"
| "sitemap_display (MemoryLimitExceeded n) = ''sitemap memory limit exceeded: '' @ show_dec n @ '' MB''"
| "sitemap_display (SitemapNotFound u) = ''no sitemap found at '' @ u"
| "sitemap_display (InvalidContentType t) = ''invalid content type: expected XML, got '' @ t"
| "sitemap_display (DecompressionError e) = ''decompression failed: '' @ e"
| "sitemap_display (AllChildrenFailed n m) = ''all '' @ show_dec n @ '' child sitemaps failed: '' @ m"
| "sitemap_display (WafChallenge u p) = ''waf challenge detected at '' @ u @ '': '' @ p"
| "sitemap_display (SsrfLiteralRejected m) = ''SSRF literal rejected: '' @ m"

text \<open>The standalone \<^verbatim>\<open>parse_sitemap\<close>: its error is the text inside \<^verbatim>\<open>CrawlError::Parse\<close>.\<close>

definition parse_sitemap_str ::
  "'u sitemap_lib \<Rightarrow> (string + xml_event) list \<Rightarrow> 'u \<Rightarrow> (string + 'u sitemap_url list) option" where
  "parse_sitemap_str lib reads base_url =
     (case parse_sitemap_core lib reads base_url False False of
        Inl e \<Rightarrow> Some (Inl (sitemap_display e))
      | Inr (urls, _) \<Rightarrow>
          if urls = [] then Some (Inr [])
          else map_option Inr (dedup_and_sort_sitemap_urls lib urls))"

section \<open>What the event loop collects\<close>

text \<open>
  \<open>admitted lib base u\<close>: the URLs a location can become. A relative location stays on a host internal
  to the document's, and what the filter refuses is never kept.
\<close>

definition admitted :: "'u sitemap_lib \<Rightarrow> 'u \<Rightarrow> 'u \<Rightarrow> bool" where
  "admitted lib base u \<longleftrightarrow>
     filter_invalid_patterns (sl_api lib) u = Valid \<and>
     ((\<exists>text1. (starts_with ''http://'' text1 \<or> starts_with ''https://'' text1) \<and> api_parse (sl_api lib) text1 = Some u)
      \<or> is_internal_link (sl_api lib) (url_text lib u) (unwrap_or (api_host_str (sl_api lib) base) []))"

lemma filter_never_redirects: "filter_invalid_patterns api u \<noteq> NeedsRedirect v"
  by (auto simp: filter_invalid_patterns_def Let_def split: option.split)

lemma filter_scheme:
  "filter_invalid_patterns api u = Valid \<Longrightarrow> api_scheme api u = ''http'' \<or> api_scheme api u = ''https''"
  by (auto simp: filter_invalid_patterns_def Let_def split: option.splits if_splits)

lemma apply_url_validation_cases:
  "apply_url_validation lib u True c = (if filter_invalid_patterns (sl_api lib) u = Valid then Some u else c)"
  using filter_never_redirects [of "sl_api lib" u]
  by (auto simp: apply_url_validation_def split: validation_result.split)

lemma resolve_url_admitted:
  assumes "resolve_url lib base t = Some u" "filter_invalid_patterns (sl_api lib) u = Valid"
  shows "admitted lib base u"
  using assms unfolding admitted_def resolve_url_def Let_def
  by (auto split: if_splits option.splits)

definition core_inv :: "('u \<Rightarrow> bool) \<Rightarrow> (f32 option \<Rightarrow> bool) \<Rightarrow> 'u core_state \<Rightarrow> bool" where
  "core_inv P R st \<longleftrightarrow>
     (\<forall>e \<in> set (c_urls st). P (sm_url e) \<and> R (sm_priority e)) \<and> pred_option P (c_url st) \<and> R (c_priority st)"

lemma core_inv_init: "R None \<Longrightarrow> core_inv P R core_init"
  by (simp add: core_inv_def core_init_def)

lemma core_inv_loc:
  assumes "core_inv (admitted lib base) R st"
  shows "core_inv (admitted lib base) R (loc_content lib base True t st)"
  using assms resolve_url_admitted [of lib base "trim t"]
  by (auto simp: loc_content_def core_inv_def Let_def apply_url_validation_cases split: option.splits)

lemma core_inv_end:
  assumes "core_inv P R st" "R None"
  shows "core_inv P R (on_end hi name st)"
  using assms by (cases "c_url st") (simp_all add: on_end_def core_inv_def push_entry_def ball_Un)

lemma core_inv_start:
  assumes "core_inv P R st" "R None" "on_start hi name st = Inr st1"
  shows "core_inv P R st1"
proof -
  obtain st2 where st2: "classify_root hi name (st\<lparr>c_saw_element := True\<rparr>) = Inr st2"
      and st1: "st1 = open_element hi name st2"
    using assms(3) by (auto simp: on_start_def split: sum.splits)
  have "core_inv P R st2" using assms(1) st2
    by (auto simp: classify_root_def core_inv_def split: if_splits)
  then show ?thesis using \<open>R None\<close> by (simp add: st1 open_element_def core_inv_def)
qed

lemma core_inv_step:
  assumes "core_inv (admitted lib base) R st" "R None"
    and "\<And>d p. ev = Text (Inr d) \<Longrightarrow> parse_f32 (trim d) = Some p \<Longrightarrow> R (Some (clamp_priority p))"
    and "core_step lib base hi True ev st = Inr st1"
  shows "core_inv (admitted lib base) R st1"
proof (cases ev)
  case (Start name)
  then show ?thesis using assms core_inv_start by (simp add: core_step_def)
next
  case (End name)
  then show ?thesis using assms(4) core_inv_end [OF assms(1,2), of hi name] by (simp add: core_step_def)
next
  case (CData t)
  then show ?thesis using assms(1,4) core_inv_loc [OF assms(1), of t] by (auto simp: core_step_def split: if_splits)
next
  case (Text d)
  show ?thesis
  proof (cases d)
    case (Inl e)
    then show ?thesis using assms(1,4) Text by (simp add: core_step_def on_text_def split: if_splits)
  next
    case (Inr t)
    have step: "on_text lib base True (Inr t) st = Inr st1" using assms(4) Text Inr by (simp add: core_step_def)
    show ?thesis
    proof (cases "c_in_loc st")
      case True
      with step core_inv_loc [OF assms(1), of t] show ?thesis by (simp add: on_text_def)
    next
      case False
      with step assms(1) assms(3) [OF Text [unfolded Inr]] show ?thesis
        by (auto simp: on_text_def core_inv_def split: if_splits option.splits)
    qed
  qed
qed (use assms(1,4) in \<open>simp_all add: core_step_def\<close>)

lemma core_inv_loop:
  assumes "core_inv (admitted lib base) R st" "R None"
    and "\<And>d p. Inr (Text (Inr d)) \<in> set reads \<Longrightarrow> parse_f32 (trim d) = Some p \<Longrightarrow> R (Some (clamp_priority p))"
    and "core_loop lib base hi True reads st = Inr st1"
  shows "core_inv (admitted lib base) R st1"
  using assms(1,3,4)
proof (induction reads arbitrary: st)
  case (Cons r reads)
  show ?case
  proof (cases r)
    case (Inl e)
    then show ?thesis using Cons.prems by simp
  next
    case (Inr ev)
    show ?thesis
    proof (cases "ev = Eof")
      case False
      then obtain st2 where st2: "core_step lib base hi True ev st = Inr st2"
          and rest: "core_loop lib base hi True reads st2 = Inr st1"
        using Cons.prems(3) Inr by (auto split: sum.splits)
      have "core_inv (admitted lib base) R st2"
        by (rule core_inv_step [OF Cons.prems(1) assms(2) _ st2]) (use Cons.prems(2) Inr in auto)
      then show ?thesis by (rule Cons.IH [OF _ _ rest]) (use Cons.prems(2) in auto)
    qed (use Cons.prems Inr in simp)
  qed
qed simp

section \<open>The order of the entries\<close>

definition rank_priority :: "'u sitemap_url \<Rightarrow> int" where
  "rank_priority e = (case sm_priority e of Some (Num n) \<Rightarrow> n | _ \<Rightarrow> 2 ^ 148)"

lemma rank_cmp_ord:
  assumes "sm_priority a \<noteq> Some Nan" "sm_priority b \<noteq> Some Nan"
  shows "rank_cmp a b =
    then_with (ord_cmp (rank_priority b) (rank_priority a)) (ord_cmp (sm_lastmod b) (sm_lastmod a))"
  using assms
  by (auto simp: rank_cmp_def rank_priority_def partial_cmp_def unwrap_or_def split: option.splits f32.splits)

lemma rank_not_Greater:
  assumes "sm_priority a \<noteq> Some Nan" "sm_priority b \<noteq> Some Nan"
  shows "rank_cmp a b \<noteq> Greater \<longleftrightarrow>
    rank_priority b < rank_priority a \<or> rank_priority b = rank_priority a \<and> sm_lastmod b \<le> sm_lastmod a"
proof -
  have "then_with (ord_cmp x y) o2 \<noteq> Greater \<longleftrightarrow> x < y \<or> x = y \<and> o2 \<noteq> Greater" for x y :: int and o2
    by (auto simp: ord_cmp_def)
  then show ?thesis by (simp add: rank_cmp_ord assms)
qed

interpretation ranked: total_comparator rank_cmp "{e. sm_priority e \<noteq> Some Nan}"
proof unfold_locales
  fix a b c :: "'u sitemap_url"
  assume a: "a \<in> {e. sm_priority e \<noteq> Some Nan}" and b: "b \<in> {e. sm_priority e \<noteq> Some Nan}"
  then show "rank_cmp b a = reverse (rank_cmp a b)"
    by (simp add: rank_cmp_ord reverse_then_with ord_cmp_reverse [symmetric])
  assume c: "c \<in> {e. sm_priority e \<noteq> Some Nan}" and "rank_cmp a b \<noteq> Greater" "rank_cmp b c \<noteq> Greater"
  with a b show "rank_cmp a c \<noteq> Greater"
    by (auto simp: rank_not_Greater intro: order.trans)
qed

abbreviation entry_key :: "'u sitemap_lib \<Rightarrow> 'u sitemap_url \<Rightarrow> string" where
  "entry_key lib e \<equiv> url_text lib (sm_url e)"

lemma distinct_map_perm:
  assumes "distinct (map f xs)" "set ys = set xs" "length ys = length xs"
  shows "distinct (map f ys)"
proof -
  have "card (f ` set ys) = length (map f ys)"
    using assms distinct_card [of "map f xs"] by simp
  then show ?thesis by (simp add: card_distinct)
qed

lemma find_key_perm:
  assumes "distinct (map f xs)" "set ys = set xs" "length ys = length xs"
  shows "List.find (\<lambda>e. f e = k) ys = List.find (\<lambda>e. f e = k) xs"
proof -
  have unique: "List.find (\<lambda>e. f e = k) zs = Some e \<longleftrightarrow> e \<in> set zs \<and> f e = k" if "distinct (map f zs)" for zs e
    using that by (induction zs) (auto simp: image_iff)
  have d: "distinct (map f ys)" by (rule distinct_map_perm [OF assms])
  show ?thesis
  proof (cases "List.find (\<lambda>e. f e = k) ys")
    case None
    moreover from this have "List.find (\<lambda>e. f e = k) xs = None" using assms(2) by (simp add: find_None_iff)
    ultimately show ?thesis by simp
  next
    case (Some e)
    then have "List.find (\<lambda>e. f e = k) xs = Some e" using unique [OF d] unique [OF assms(1)] assms(2) by simp
    with Some show ?thesis by simp
  qed
qed

text \<open>The first sort and the removal of duplicates.\<close>

lemma dedup_sorted_entries:
  obtains us where "sort_by (\<lambda>a b. ord_cmp (entry_key lib a) (entry_key lib b)) urls = Some us"
    "distinct (map (entry_key lib) (dedup_by (\<lambda>a b. entry_key lib a = entry_key lib b) us))"
    "set (dedup_by (\<lambda>a b. entry_key lib a = entry_key lib b) us) \<subseteq> set urls"
    "\<And>k. List.find (\<lambda>e. entry_key lib e = k) (dedup_by (\<lambda>a b. entry_key lib a = entry_key lib b) us)
       = List.find (\<lambda>e. entry_key lib e = k) urls"
proof -
  have key: "(\<lambda>a b. ord_cmp (entry_key lib a) (entry_key lib b)) = key_cmp (entry_key lib)"
    by (simp add: fun_eq_iff key_cmp_def)
  obtain us where us: "sort_by (key_cmp (entry_key lib)) urls = Some us" using sort_by_key by blast
  show thesis
  proof (rule that)
    show "sort_by (\<lambda>a b. ord_cmp (entry_key lib a) (entry_key lib b)) urls = Some us" using us by (simp add: key)
    show "distinct (map (entry_key lib) (dedup_by (\<lambda>a b. entry_key lib a = entry_key lib b) us))"
      by (rule dedup_by_key(1) [OF sorted_sort_by_key [OF us]])
    show "set (dedup_by (\<lambda>a b. entry_key lib a = entry_key lib b) us) \<subseteq> set urls"
      using set_dedup_by sort_by_set [OF us] by fastforce
    show "List.find (\<lambda>e. entry_key lib e = k) (dedup_by (\<lambda>a b. entry_key lib a = entry_key lib b) us)
       = List.find (\<lambda>e. entry_key lib e = k) urls" for k
      by (rule find_after_sort_and_dedup [OF us])
  qed
qed

lemma dedup_and_sort_set: "dedup_and_sort_sitemap_urls lib urls = Some ys \<Longrightarrow> set ys \<subseteq> set urls"
  by (rule dedup_sorted_entries [of lib urls]) (auto simp: dedup_and_sort_sitemap_urls_def dest: sort_by_set)

lemma dedup_and_sort_steps:
  assumes "dedup_and_sort_sitemap_urls lib urls = Some ys"
  obtains us where "sort_by (\<lambda>a b. ord_cmp (entry_key lib a) (entry_key lib b)) urls = Some us"
    "sort_by rank_cmp (dedup_by (\<lambda>a b. entry_key lib a = entry_key lib b) us) = Some ys"
  using assms by (auto simp: dedup_and_sort_sitemap_urls_def split: option.splits)

lemma dedup_and_sort_distinct:
  assumes "dedup_and_sort_sitemap_urls lib urls = Some ys"
  shows "distinct (map (entry_key lib) ys)"
proof (rule dedup_sorted_entries [of lib urls])
  fix us assume "sort_by (\<lambda>a b. ord_cmp (entry_key lib a) (entry_key lib b)) urls = Some us"
    and d: "distinct (map (entry_key lib) (dedup_by (\<lambda>a b. entry_key lib a = entry_key lib b) us))"
  with assms have "sort_by rank_cmp (dedup_by (\<lambda>a b. entry_key lib a = entry_key lib b) us) = Some ys"
    by (simp add: dedup_and_sort_sitemap_urls_def)
  from distinct_map_perm [OF d sort_by_set [OF this] sort_by_length [OF this]] show ?thesis .
qed

lemma dedup_and_sort_length:
  assumes "dedup_and_sort_sitemap_urls lib urls = Some ys"
  shows "length ys \<le> length urls"
  using assms by (rule dedup_and_sort_steps) (metis length_dedup_by sort_by_length)

lemma dedup_and_sort_Nil:
  assumes "dedup_and_sort_sitemap_urls lib urls = Some ys"
  shows "ys = [] \<longleftrightarrow> urls = []"
  using assms by (rule dedup_and_sort_steps) (metis dedup_by_Nil_iff sort_by_Nil_iff)

lemma dedup_and_sort_total:
  assumes "\<forall>e \<in> set urls. sm_priority e \<noteq> Some Nan"
  shows "\<exists>ys. dedup_and_sort_sitemap_urls lib urls = Some ys \<and>
    sorted_wrt (\<lambda>a b. rank_cmp a b \<noteq> Greater) ys \<and>
    (\<forall>k. List.find (\<lambda>e. entry_key lib e = k) ys = List.find (\<lambda>e. entry_key lib e = k) urls)"
proof -
  obtain us where us: "sort_by (\<lambda>a b. ord_cmp (entry_key lib a) (entry_key lib b)) urls = Some us"
    and d: "distinct (map (entry_key lib) (dedup_by (\<lambda>a b. entry_key lib a = entry_key lib b) us))"
    and sub: "set (dedup_by (\<lambda>a b. entry_key lib a = entry_key lib b) us) \<subseteq> set urls"
    and find: "\<And>k. List.find (\<lambda>e. entry_key lib e = k) (dedup_by (\<lambda>a b. entry_key lib a = entry_key lib b) us)
       = List.find (\<lambda>e. entry_key lib e = k) urls"
    by (rule dedup_sorted_entries [of lib urls]) (rule that)
  let ?vs = "dedup_by (\<lambda>a b. entry_key lib a = entry_key lib b) us"
  have ok: "set ?vs \<subseteq> {e. sm_priority e \<noteq> Some Nan}" using sub assms by blast
  obtain ys where ys: "sort_by rank_cmp ?vs = Some ys" using ranked.sort_by_Some [OF ok] by blast
  have "List.find (\<lambda>e. entry_key lib e = k) ys = List.find (\<lambda>e. entry_key lib e = k) urls" for k
    using find_key_perm [OF d sort_by_set [OF ys] sort_by_length [OF ys]] find by simp
  moreover have "sorted_wrt (\<lambda>a b. rank_cmp a b \<noteq> Greater) ys" by (rule ranked.sorted_sort_by [OF ok ys])
  ultimately show ?thesis using us ys by (simp add: dedup_and_sort_sitemap_urls_def)
qed

section \<open>Documents written out\<close>

text \<open>The events of a \<^verbatim>\<open>urlset\<close> and of a \<^verbatim>\<open>sitemapindex\<close> with the given texts, as a writer prints them.\<close>

record sitemap_item =
  it_loc :: string
  it_lastmod :: "string option"
  it_priority :: "string option"
  it_changefreq :: "string option"

definition field_events :: "string \<Rightarrow> string option \<Rightarrow> xml_event list" where
  "field_events tag v = (case v of None \<Rightarrow> [] | Some t \<Rightarrow> [Start tag, Text (Inr t), End tag])"

definition url_events :: "sitemap_item \<Rightarrow> xml_event list" where
  "url_events it =
     [Start ''url''] @ field_events ''loc'' (Some (it_loc it)) @ field_events ''lastmod'' (it_lastmod it) @
     field_events ''priority'' (it_priority it) @ field_events ''changefreq'' (it_changefreq it) @ [End ''url'']"

definition child_events :: "sitemap_item \<Rightarrow> xml_event list" where
  "child_events it =
     [Start ''sitemap''] @ field_events ''loc'' (Some (it_loc it)) @ field_events ''lastmod'' (it_lastmod it) @
     [End ''sitemap'']"

definition document_events :: "string \<Rightarrow> (sitemap_item \<Rightarrow> xml_event list) \<Rightarrow> sitemap_item list \<Rightarrow> (string + xml_event) list" where
  "document_events doc_root item its = map Inr ([Start doc_root] @ concat (map item its) @ [End doc_root])"

text \<open>What an entry of such a document stands for.\<close>

definition item_url :: "'u sitemap_lib \<Rightarrow> 'u \<Rightarrow> sitemap_item \<Rightarrow> 'u option" where
  "item_url lib base it =
     (case resolve_url lib base (it_loc it) of
        Some u \<Rightarrow> if filter_invalid_patterns (sl_api lib) u = Valid then Some u else None
      | None \<Rightarrow> None)"

definition item_priority :: "sitemap_item \<Rightarrow> f32 option" where
  "item_priority it =
     (case it_priority it of
        Some t \<Rightarrow> (case parse_f32 (trim t) of Some p \<Rightarrow> Some (clamp_priority p) | None \<Rightarrow> None)
      | None \<Rightarrow> None)"

definition item_entry :: "'u sitemap_lib \<Rightarrow> 'u \<Rightarrow> sitemap_item \<Rightarrow> 'u sitemap_url option" where
  "item_entry lib base it =
     map_option (\<lambda>u. \<lparr>sm_url = u, sm_lastmod = map_option trim (it_lastmod it),
                     sm_priority = item_priority it, sm_changefreq = map_option trim (it_changefreq it)\<rparr>)
       (item_url lib base it)"

definition option_list :: "'a option \<Rightarrow> 'a list" where
  "option_list x = (case x of None \<Rightarrow> [] | Some y \<Rightarrow> [y])"

text \<open>The states inside a document: between two elements of an entry, only the flag of the entry is up.\<close>

abbreviation doc_state ::
  "string \<Rightarrow> bool \<Rightarrow> bool \<Rightarrow> 'u sitemap_url list \<Rightarrow> 'u option \<Rightarrow> string option \<Rightarrow> f32 option \<Rightarrow> string option \<Rightarrow> 'u core_state" where
  "doc_state doc_root iu is us u l p f \<equiv>
     \<lparr>c_urls = us, c_root_tag = Some doc_root, c_is_index = (doc_root = ''sitemapindex''), c_saw_element = True,
      c_in_url = iu, c_in_sitemap = is, c_in_loc = False, c_in_lastmod = False, c_in_priority = False,
      c_in_changefreq = False, c_url = u, c_lastmod = l, c_priority = p, c_changefreq = f\<rparr>"

lemma core_loop_append:
  assumes "core_loop lib base hi v (map Inr evs) st = Inr st1" "Eof \<notin> set evs"
  shows "core_loop lib base hi v (map Inr evs @ reads) st = core_loop lib base hi v reads st1"
  using assms by (induction evs arbitrary: st) (auto split: sum.splits)

lemma trim_start_fixed: "s = [] \<or> \<not> is_whitespace (hd s) \<Longrightarrow> trim_start s = s"
  by (cases s) (auto simp: trim_start_def)

lemma trim_trim [simp]: "trim (trim s) = trim s"
proof -
  let ?t = "trim_start s" and ?d = "\<lambda>s. dropWhile is_whitespace s"
  have "trim_start (rev (?d (rev ?t))) = rev (?d (rev ?t))"
  proof (rule trim_start_fixed)
    show "rev (?d (rev ?t)) = [] \<or> \<not> is_whitespace (hd (rev (?d (rev ?t))))"
    proof (cases "?d (rev ?t) = []")
      case False
      obtain ws where "rev ?t = ws @ ?d (rev ?t)" by (metis takeWhile_dropWhile_id)
      then have "?t = rev (?d (rev ?t)) @ rev ws" by (metis rev_append rev_rev_ident)
      then have "hd ?t = hd (rev (?d (rev ?t)))" using False by (metis hd_append2 rev_is_Nil_conv)
      moreover have "?t \<noteq> []" using False by auto
      then have "\<not> is_whitespace (hd ?t)" unfolding trim_start_def by (rule hd_dropWhile)
      ultimately show ?thesis by simp
    qed simp
  qed
  moreover have "?d (?d r) = ?d r" for r by (induction r) auto
  ultimately show ?thesis by (simp add: trim_def)
qed

lemma resolve_url_trim: "resolve_url lib base (trim s) = resolve_url lib base s"
  by (simp add: resolve_url_def)

lemma loc_content_fresh:
  assumes "c_url st = None"
  shows "loc_content lib base True (it_loc it) st = st\<lparr>c_url := item_url lib base it\<rparr>"
proof -
  have keep: "st\<lparr>c_url := None\<rparr> = st" using assms by (cases st) simp
  show ?thesis
  proof (cases "resolve_url lib base (it_loc it)")
    case None
    then show ?thesis by (simp add: loc_content_def item_url_def resolve_url_trim keep Let_def)
  next
    case (Some u)
    then have "trim (it_loc it) \<noteq> []" by (auto simp: resolve_url_def)
    with Some show ?thesis
      by (simp add: loc_content_def item_url_def resolve_url_trim apply_url_validation_cases assms Let_def)
  qed
qed

lemmas core_event_simps =
  core_step_def on_start_def classify_root_def open_element_def on_end_def on_text_def push_entry_def

lemma lastmod_field:
  "core_loop lib base True True (map Inr (field_events ''lastmod'' v)) (doc_state r True False us u None p f)
     = Inr (doc_state r True False us u (map_option trim v) p f)"
  by (cases v) (simp_all add: field_events_def core_event_simps)

lemma priority_field:
  "core_loop lib base True True (map Inr (field_events ''priority'' (it_priority it))) (doc_state r True False us u l None f)
     = Inr (doc_state r True False us u l (item_priority it) f)"
  by (cases "it_priority it") (simp_all add: field_events_def core_event_simps item_priority_def split: option.split)

lemma changefreq_field:
  "core_loop lib base True True (map Inr (field_events ''changefreq'' v)) (doc_state r True False us u l p None)
     = Inr (doc_state r True False us u l p (map_option trim v))"
  by (cases v) (simp_all add: field_events_def core_event_simps)

lemma loc_field:
  "iu \<or> is \<Longrightarrow> core_loop lib base True True (map Inr (field_events ''loc'' (Some (it_loc it)))) (doc_state r iu is us None l p f)
     = Inr (doc_state r iu is us (item_url lib base it) l p f)"
  by (auto simp: field_events_def core_event_simps loc_content_fresh)

text \<open>An index ignores the date of a child: the flag \<open>c_in_lastmod\<close> rises inside a \<^verbatim>\<open>url\<close> element only.\<close>

lemma child_lastmod_field:
  "core_loop lib base True True (map Inr (field_events ''lastmod'' v)) (doc_state r False True us u l p f)
     = Inr (doc_state r False True us u l p f)"
  by (cases v) (simp_all add: field_events_def core_event_simps)

lemma no_Eof_field [simp]: "Eof \<notin> set (field_events tag v)"
  by (simp add: field_events_def split: option.split)

lemma url_element:
  "core_loop lib base True True (map Inr (url_events it)) (doc_state r False False us u l p f)
     = Inr (doc_state r False False (us @ option_list (item_entry lib base it)) (item_url lib base it)
              (map_option trim (it_lastmod it)) (item_priority it) (map_option trim (it_changefreq it)))"
proof -
  have start: "core_loop lib base True True (Inr (Start ''url'') # reads) (doc_state r False False us u l p f)
    = core_loop lib base True True reads (doc_state r True False us None None None None)" for reads
    by (simp add: core_event_simps)
  show ?thesis
    unfolding url_events_def
    by (simp only: map_append append_Cons append_Nil list.map start append_assoc
        core_loop_append [OF loc_field [of True False lib base it] no_Eof_field]
        core_loop_append [OF lastmod_field no_Eof_field] core_loop_append [OF priority_field no_Eof_field]
        core_loop_append [OF changefreq_field no_Eof_field] simp_thms)
      (cases "item_url lib base it"; simp add: core_event_simps item_entry_def option_list_def)
qed

lemma child_element:
  "core_loop lib base True True (map Inr (child_events it)) (doc_state r False False us u None p f)
     = Inr (doc_state r False False (us @ option_list (map_option sitemap_url_new (item_url lib base it)))
              (item_url lib base it) None p f)"
proof -
  have start: "core_loop lib base True True (Inr (Start ''sitemap'') # reads) (doc_state r False False us u None p f)
    = core_loop lib base True True reads (doc_state r False True us None None p f)" for reads
    by (simp add: core_event_simps)
  show ?thesis
    unfolding child_events_def
    by (simp only: map_append append_Cons append_Nil list.map start append_assoc
        core_loop_append [OF loc_field [of False True lib base it] no_Eof_field]
        core_loop_append [OF child_lastmod_field no_Eof_field] simp_thms)
      (cases "item_url lib base it"; simp add: core_event_simps option_list_def sitemap_url_new_def)
qed

lemma url_elements:
  "\<exists>u' l' p' f'. core_loop lib base True True (map Inr (concat (map url_events its))) (doc_state r False False us u l p f)
     = Inr (doc_state r False False (us @ concat (map (\<lambda>it. option_list (item_entry lib base it)) its)) u' l' p' f')"
proof (induction its arbitrary: us u l p f)
  case (Cons it its)
  have "Eof \<notin> set (url_events it)" by (simp add: url_events_def)
  note step = core_loop_append [OF url_element this]
  show ?case using Cons.IH by (simp only: list.map concat.simps map_append step append_assoc [symmetric])
qed auto

lemma child_elements:
  "\<exists>u'. core_loop lib base True True (map Inr (concat (map child_events its))) (doc_state r False False us u None p f)
     = Inr (doc_state r False False
              (us @ concat (map (\<lambda>it. option_list (map_option sitemap_url_new (item_url lib base it))) its)) u' None p f)"
proof (induction its arbitrary: us u)
  case (Cons it its)
  have "Eof \<notin> set (child_events it)" by (simp add: child_events_def)
  note step = core_loop_append [OF child_element this]
  show ?case using Cons.IH by (simp only: list.map concat.simps map_append step append_assoc [symmetric])
qed auto

lemma no_Eof_elements [simp]: "Eof \<notin> set (concat (map url_events its))" "Eof \<notin> set (concat (map child_events its))"
  by (auto simp: url_events_def child_events_def)

lemma document_start:
  "doc_root = ''urlset'' \<or> doc_root = ''sitemapindex'' \<Longrightarrow>
   core_loop lib base True True (Inr (Start doc_root) # reads) core_init
     = core_loop lib base True True reads (doc_state doc_root False False [] None None None None)"
  by (auto simp: core_event_simps core_init_def)


text \<open>
  The same for a sitemap index. The date of a child is dropped whatever the document says: the entry has
  its URL and nothing else, so the children of an index cannot be ordered by date.
\<close>

theorem index_document_loses_the_dates:
  "parse_sitemap_core lib (document_events ''sitemapindex'' child_events its) base True True
     = Inr (concat (map (\<lambda>it. option_list (map_option sitemap_url_new (item_url lib base it))) its), True)"
proof -
  obtain u where loop:
    "core_loop lib base True True (map Inr (concat (map child_events its))) (doc_state ''sitemapindex'' False False [] None None None None)
      = Inr (doc_state ''sitemapindex'' False False
          (concat (map (\<lambda>it. option_list (map_option sitemap_url_new (item_url lib base it))) its)) u None None None)"
    using child_elements [of lib base its "[]" "''sitemapindex''" None None None] by auto
  show ?thesis
    unfolding parse_sitemap_core_def document_events_def
    by (simp only: map_append append_Cons append_Nil list.map document_start simp_thms
        core_loop_append [OF loop [unfolded simp_thms] no_Eof_elements(2)])
      (simp add: core_event_simps)
qed

section \<open>Properties of a parsed document\<close>

text \<open>
  What a document can put into the frontier: every entry of a parsed sitemap has scheme http or https
  and passes the release-page filter, and it is either an absolute location the document spelled out or one
  that stays on a host internal to the document's own.
\<close>

theorem sitemap_entries_are_admitted:
  assumes "parse_xml_sitemap lib reads base = Some (Inr (us, is_index))"
  shows "list_all (\<lambda>e. admitted lib base (sm_url e) \<and>
    (api_scheme (sl_api lib) (sm_url e) = ''http'' \<or> api_scheme (sl_api lib) (sm_url e) = ''https'')) us"
proof -
  obtain urls idx st where core: "core_loop lib base True True reads core_init = Inr st" "urls = c_urls st"
      and us: "dedup_and_sort_sitemap_urls lib urls = Some us"
    using assms
    by (auto simp: parse_xml_sitemap_def parse_sitemap_core_def split: sum.splits if_splits)
  have "core_inv (admitted lib base) (\<lambda>_. True) st"
    by (rule core_inv_loop [OF core_inv_init _ _ core(1)]) simp_all
  then have "\<forall>e \<in> set us. admitted lib base (sm_url e)"
    using dedup_and_sort_set [OF us] core(2) by (auto simp: core_inv_def)
  then show ?thesis using filter_scheme by (fastforce simp: list_all_iff admitted_def)
qed

lemma small_lib_sel: "sl_api small_lib = small_api" "sl_join small_lib b s = Some (b\<lparr>su_path := ''/'' @ s, su_query := []\<rparr>)"
  by (simp_all add: small_lib_def)

lemma small_page_resolves: "resolve_url small_lib base ''https://a.io/p'' = Some (small_page ''/p'')"
  by (simp add: resolve_url_def small_lib_sel small_api_def small_parse_def trim_def trim_start_def is_whitespace_def
      starts_with_def small_page_def)

lemma small_page_valid: "filter_invalid_patterns small_api (small_page ''/p'') = Valid"
  by (simp add: filter_invalid_patterns_def small_api_def small_page_def starts_with_def)

theorem sitemap_entries_are_admitted_witness:
  "list_all (\<lambda>e. admitted small_lib (small_page ''/'') (sm_url e) \<and>
      (api_scheme (sl_api small_lib) (sm_url e) = ''http'' \<or> api_scheme (sl_api small_lib) (sm_url e) = ''https''))
     [sitemap_url_new (small_page ''/p'')]"
proof -
  have "resolve_url small_lib base ''https://a.io/p'' = Some (small_page ''/p'')" for base
    by (rule small_page_resolves)
  then have "parse_xml_sitemap small_lib
      (map Inr [Start ''urlset'', Start ''url'', Start ''loc'', Text (Inr ''https://a.io/p''), End ''loc'', End ''url''])
      (small_page ''/'') = Some (Inr ([sitemap_url_new (small_page ''/p'')], False))"
    by (simp add: parse_xml_sitemap_def parse_sitemap_core_def core_event_simps core_init_def loc_content_def
        resolve_url_trim small_lib_sel apply_url_validation_cases small_page_valid sitemap_url_new_def
        dedup_and_sort_sitemap_urls_def sort_by_def total_order_on_def ord_cmp_def rank_cmp_def partial_cmp_def
        unwrap_or_def trim_def trim_start_def is_whitespace_def)
  from sitemap_entries_are_admitted [OF this] show ?thesis .
qed

text \<open>
  Order and duplicates: unless a priority is a NaN, \<open>dedup_and_sort_sitemap_urls\<close> returns a list in
  which no URL occurs twice and every URL of the input keeps the data of its first occurrence, ordered by
  falling priority (one half when there is none) and, for equal priorities, by falling date.
\<close>

theorem sitemap_entries_sorted_and_unique:
  assumes "list_all (\<lambda>e. sm_priority e \<noteq> Some Nan) urls"
  shows "\<exists>ys. dedup_and_sort_sitemap_urls lib urls = Some ys \<and> distinct (map (entry_key lib) ys) \<and>
    (\<forall>k. List.find (\<lambda>e. entry_key lib e = k) ys = List.find (\<lambda>e. entry_key lib e = k) urls) \<and>
    sorted_wrt (\<lambda>a b. rank_priority b < rank_priority a \<or>
      rank_priority b = rank_priority a \<and> sm_lastmod b \<le> sm_lastmod a) ys"
proof -
  have ok: "\<forall>e \<in> set urls. sm_priority e \<noteq> Some Nan" using assms by (simp add: list_all_iff)
  obtain ys where ys: "dedup_and_sort_sitemap_urls lib urls = Some ys"
      and sorted: "sorted_wrt (\<lambda>a b. rank_cmp a b \<noteq> Greater) ys"
      and find: "\<forall>k. List.find (\<lambda>e. entry_key lib e = k) ys = List.find (\<lambda>e. entry_key lib e = k) urls"
    using dedup_and_sort_total [OF ok] by blast
  have "sorted_wrt (\<lambda>a b. rank_priority b < rank_priority a \<or>
      rank_priority b = rank_priority a \<and> sm_lastmod b \<le> sm_lastmod a) ys"
    using sorted dedup_and_sort_set [OF ys] ok
    by (elim sorted_wrt_mono_rel [rotated]) (meson rank_not_Greater subsetD)
  with ys find dedup_and_sort_distinct [OF ys] show ?thesis by blast
qed

theorem sitemap_entries_sorted_and_unique_witness:
  "\<exists>ys. dedup_and_sort_sitemap_urls small_lib
      [sitemap_url_new (small_page ''/p''), (sitemap_url_new (small_page ''/p''))\<lparr>sm_priority := Some (Num 1)\<rparr>] = Some ys \<and>
    distinct (map (entry_key small_lib) ys)"
  using sitemap_entries_sorted_and_unique
    [of "[sitemap_url_new (small_page ''/p''), (sitemap_url_new (small_page ''/p''))\<lparr>sm_priority := Some (Num 1)\<rparr>]" small_lib]
  by (auto simp: sitemap_url_new_def)

text \<open>
  A NaN priority, which \<^verbatim>\<open><priority>NaN</priority>\<close> gives, breaks the order: next to two numeric
  priorities and equal dates the comparison is no total order, and the sort has no specified result (it
  may panic).
\<close>

theorem nan_priority_leaves_the_order_undefined:
  assumes "{a, b, c} \<subseteq> set urls" "distinct (map (entry_key lib) urls)"
    and "sm_priority a = Some (Num m)" "sm_priority b = Some Nan" "sm_priority c = Some (Num n)" "m < n"
    and "sm_lastmod a = sm_lastmod b" "sm_lastmod b = sm_lastmod c"
  shows "dedup_and_sort_sitemap_urls lib urls = None"
proof (rule dedup_sorted_entries [of lib urls])
  fix us assume us: "sort_by (\<lambda>a b. ord_cmp (entry_key lib a) (entry_key lib b)) urls = Some us"
    and find: "\<And>k. List.find (\<lambda>e. entry_key lib e = k) (dedup_by (\<lambda>a b. entry_key lib a = entry_key lib b) us)
       = List.find (\<lambda>e. entry_key lib e = k) urls"
  have found: "List.find (\<lambda>e. entry_key lib e = entry_key lib x) zs = Some x"
    if "x \<in> set zs" "distinct (map (entry_key lib) zs)" for x and zs :: "'a sitemap_url list"
    using that by (induction zs) (auto simp: image_iff)
  have in_dedup: "x \<in> set (dedup_by (\<lambda>a b. entry_key lib a = entry_key lib b) us)" if "x \<in> set urls" for x
    using found [OF that assms(2)] find [of "entry_key lib x"] by (metis find_Some_iff nth_mem)
  have "rank_cmp a b \<noteq> Greater" "rank_cmp b c \<noteq> Greater" "rank_cmp a c = Greater"
    using assms(3-) by (simp_all add: rank_cmp_def partial_cmp_def unwrap_or_def ord_cmp_def)
  then have "\<not> total_order_on rank_cmp (dedup_by (\<lambda>a b. entry_key lib a = entry_key lib b) us)"
    using assms(1) in_dedup unfolding total_order_on_def list_all_iff by blast
  then show ?thesis using us by (simp add: dedup_and_sort_sitemap_urls_def sort_by_def [of rank_cmp])
qed

theorem nan_priority_leaves_the_order_undefined_witness:
  "dedup_and_sort_sitemap_urls small_lib
     (map (\<lambda>(s, p). (sitemap_url_new (small_page s))\<lparr>sm_priority := Some p\<rparr>)
        [(''/a'', Num 0), (''/b'', Nan), (''/c'', Num 1)]) = None"
  by (rule nan_priority_leaves_the_order_undefined
      [of "(sitemap_url_new (small_page ''/a''))\<lparr>sm_priority := Some (Num 0)\<rparr>"
        "(sitemap_url_new (small_page ''/b''))\<lparr>sm_priority := Some Nan\<rparr>"
        "(sitemap_url_new (small_page ''/c''))\<lparr>sm_priority := Some (Num 1)\<rparr>" _ _ 0 1])
    (simp_all add: sitemap_url_new_def small_lib_sel small_api_def small_page_def)

text \<open>
  An ampersand in a location. The reader reports the reference between two texts, and the second text
  replaces what the first had given: when the part after \<^verbatim>\<open>&amp;\<close> resolves on its own, as a relative
  reference does, the entry carries that URL and the location the document named is lost.
\<close>

theorem location_after_a_reference_replaces_the_url:
  assumes "resolve_url lib base before = Some u" "resolve_url lib base after = Some v"
    and "filter_invalid_patterns (sl_api lib) v = Valid"
  shows "parse_sitemap_core lib
    (map Inr [Start ''urlset'', Start ''url'', Start ''loc'', Text (Inr before), GeneralRef ''amp'', Text (Inr after),
              End ''loc'', End ''url'', End ''urlset'']) base True True = Inr ([sitemap_url_new v], False)"
proof -
  have nonempty: "trim s \<noteq> []" if "resolve_url lib base s = Some w" for s w
    using that by (auto simp: resolve_url_def)
  have content: "loc_content lib base True s st = st\<lparr>c_url := apply_url_validation lib w True (c_url st)\<rparr>"
    if "resolve_url lib base s = Some w" for s w st
    using that nonempty [OF that] by (simp add: loc_content_def resolve_url_trim)
  show ?thesis
    by (simp add: parse_sitemap_core_def core_event_simps core_init_def content [OF assms(1)] content [OF assms(2)]
        apply_url_validation_cases assms(3) sitemap_url_new_def)
qed

theorem location_after_a_reference_replaces_the_url_witness:
  "parse_sitemap_core small_lib
    (map Inr [Start ''urlset'', Start ''url'', Start ''loc'', Text (Inr ''https://a.io/p?x=1''), GeneralRef ''amp'',
              Text (Inr ''y=2''), End ''loc'', End ''url'', End ''urlset'']) (small_page ''/'') True True
   = Inr ([sitemap_url_new (small_page ''/y=2'')], False)"
proof (rule location_after_a_reference_replaces_the_url)
  show "resolve_url small_lib (small_page ''/'') ''https://a.io/p?x=1'' = Some ((small_page ''/p'')\<lparr>su_query := ''?x=1''\<rparr>)"
    by (simp add: resolve_url_def small_lib_sel small_api_def small_parse_def trim_def trim_start_def is_whitespace_def
        starts_with_def small_page_def)
  show "resolve_url small_lib (small_page ''/'') ''y=2'' = Some (small_page ''/y=2'')"
    by (simp add: resolve_url_def small_lib_sel small_api_def small_parse_def trim_def trim_start_def is_whitespace_def
        starts_with_def ends_with_def strip_suffix_def small_page_def unwrap_or_def is_internal_link_def extract_domain_def
        normalize_seed_host_def bare_host_def strip_www_prefix_def to_lowercase_def to_lower_def)
  show "filter_invalid_patterns (sl_api small_lib) (small_page ''/y=2'') = Valid"
    by (simp add: filter_invalid_patterns_def small_lib_sel small_api_def small_page_def starts_with_def)
qed

text \<open>
  A document that is one self-closing element, \<^verbatim>\<open><urlset/>\<close>, is refused as a structure error; the same
  document written with an opening and a closing tag is an empty sitemap.
\<close>

theorem self_closed_document_is_refused:
  "parse_sitemap_core lib [Inr (EmptyElement ''urlset'')] base True True = Inl InvalidStructure \<and>
   parse_sitemap_core lib [Inr (Start ''urlset''), Inr (End ''urlset'')] base True True = Inr ([], False)"
  by (simp add: parse_sitemap_core_def core_event_simps core_init_def)

end
