(* ===== verification/Std_Net.thy ===== *)
theory Std_Net
  imports Prelude
begin

text \<open>
  The part of Rust's \<^verbatim>\<open>std::net\<close> the network guard uses: \<^verbatim>\<open>Ipv4Addr\<close> as a 32-bit word and
  \<^verbatim>\<open>Ipv6Addr\<close> as a 128-bit word in network order, the octet and segment accessors, the standard
  range predicates, and the text parser behind \<^verbatim>\<open>str::parse::<IpAddr>()\<close>. The standard library is
  not part of the repository, so nothing here has a line of its own; the parser follows the
  library's recursive-descent parser function by function.
\<close>

type_synonym ipv4 = "32 word"
type_synonym ipv6 = "128 word"

datatype ip_addr = V4 ipv4 | V6 ipv6

section \<open>Octets and segments\<close>

definition octet :: "ipv4 \<Rightarrow> nat \<Rightarrow> u8" where
  "octet ip i = of_nat (unat ip div 2 ^ (24 - 8 * i))"

definition segment :: "ipv6 \<Rightarrow> nat \<Rightarrow> u16" where
  "segment ip i = of_nat (unat ip div 2 ^ (112 - 16 * i))"

definition ipv4_new :: "u8 \<Rightarrow> u8 \<Rightarrow> u8 \<Rightarrow> u8 \<Rightarrow> ipv4" where
  "ipv4_new a b c d =
     of_nat (((unat a * 256 + unat b) * 256 + unat c) * 256 + unat d)"

definition ipv6_new :: "u16 list \<Rightarrow> ipv6" where
  "ipv6_new ss = of_nat (foldl (\<lambda>acc s. acc * 65536 + unat s) 0 ss)"

text \<open>The two bytes of a segment: \<^verbatim>\<open>(s >> 8) as u8\<close> and \<^verbatim>\<open>s as u8\<close>.\<close>

definition hi_byte :: "u16 \<Rightarrow> u8" where
  "hi_byte s = of_nat (unat s div 256)"

definition lo_byte :: "u16 \<Rightarrow> u8" where
  "lo_byte s = of_nat (unat s)"

section \<open>Range predicates of the standard library\<close>

definition v4_is_loopback :: "ipv4 \<Rightarrow> bool" where
  "v4_is_loopback ip = (octet ip 0 = 127)"

definition v4_is_private :: "ipv4 \<Rightarrow> bool" where
  "v4_is_private ip =
     (octet ip 0 = 10
      \<or> octet ip 0 = 172 \<and> 16 \<le> octet ip 1 \<and> octet ip 1 \<le> 31
      \<or> octet ip 0 = 192 \<and> octet ip 1 = 168)"

definition v4_is_link_local :: "ipv4 \<Rightarrow> bool" where
  "v4_is_link_local ip = (octet ip 0 = 169 \<and> octet ip 1 = 254)"

definition v4_is_broadcast :: "ipv4 \<Rightarrow> bool" where
  "v4_is_broadcast ip = (ip = 0xFFFFFFFF)"

definition v4_is_multicast :: "ipv4 \<Rightarrow> bool" where
  "v4_is_multicast ip = (224 \<le> octet ip 0 \<and> octet ip 0 \<le> 239)"

definition v6_is_loopback :: "ipv6 \<Rightarrow> bool" where
  "v6_is_loopback ip = (ip = 1)"

definition v6_is_unspecified :: "ipv6 \<Rightarrow> bool" where
  "v6_is_unspecified ip = (ip = 0)"

definition v6_is_multicast :: "ipv6 \<Rightarrow> bool" where
  "v6_is_multicast ip = (segment ip 0 AND 0xff00 = 0xff00)"

text \<open>
  \<^verbatim>\<open>Ipv6Addr::to_ipv4\<close> matches both the IPv4-compatible and the IPv4-mapped form,
  \<^verbatim>\<open>to_ipv4_mapped\<close> only the latter.
\<close>

definition low_v4 :: "ipv6 \<Rightarrow> ipv4" where
  "low_v4 ip = of_nat (unat ip)"

definition to_ipv4 :: "ipv6 \<Rightarrow> ipv4 option" where
  "to_ipv4 ip =
     (if list_all (\<lambda>i. segment ip i = 0) [0, 1, 2, 3, 4] \<and> (segment ip 5 = 0 \<or> segment ip 5 = 0xffff)
      then Some (low_v4 ip) else None)"

definition to_ipv4_mapped :: "ipv6 \<Rightarrow> ipv4 option" where
  "to_ipv4_mapped ip =
     (if list_all (\<lambda>i. segment ip i = 0) [0, 1, 2, 3, 4] \<and> segment ip 5 = 0xffff then Some (low_v4 ip) else None)"

section \<open>The text parser\<close>

type_synonym 'a reader = "string \<Rightarrow> ('a \<times> string) option"

definition read_number :: "nat \<Rightarrow> nat \<Rightarrow> bool \<Rightarrow> nat \<Rightarrow> nat reader" where
  "read_number radix max_digits allow_zero_prefix bound s =
     (let ds = takeWhile (\<lambda>c. to_digit radix c \<noteq> None) s; n = length ds in
      if n > max_digits \<or> n = 0 then None
      else if \<not> allow_zero_prefix \<and> hd ds = CHR ''0'' \<and> n > 1 then None
      else (case digits_value radix 0 ds of
              None \<Rightarrow> None
            | Some v \<Rightarrow> if v < bound then Some (v, drop n s) else None))"

definition read_separator :: "char \<Rightarrow> nat \<Rightarrow> 'a reader \<Rightarrow> 'a reader" where
  "read_separator sep index inner s =
     (if index > 0
      then (case s of c # cs \<Rightarrow> if c = sep then inner cs else None | [] \<Rightarrow> None)
      else inner s)"

text \<open>The parser's loops run over the indices of a fixed-size array.\<close>

fun read_octets :: "nat list \<Rightarrow> nat list reader" where
  "read_octets [] s = Some ([], s)"
| "read_octets (i # is) s =
     (case read_separator (CHR ''.'') i (read_number 10 3 False 256) s of
        None \<Rightarrow> None
      | Some (v, s') \<Rightarrow>
          (case read_octets is s' of
             None \<Rightarrow> None
           | Some (vs, s'') \<Rightarrow> Some (v # vs, s'')))"

definition read_ipv4_addr :: "ipv4 reader" where
  "read_ipv4_addr s =
     (case read_octets [0, 1, 2, 3] s of
        Some ([a, b, c, d], s') \<Rightarrow>
          Some (ipv4_new (of_nat a) (of_nat b) (of_nat c) (of_nat d), s')
      | _ \<Rightarrow> None)"

fun read_groups :: "nat list \<Rightarrow> string \<Rightarrow> u16 list \<times> bool \<times> string" where
  "read_groups [] s = ([], False, s)"
| "read_groups (i # is) s =
     (case (if is \<noteq> [] then read_separator (CHR '':'') i read_ipv4_addr s else None) of
        Some (v4, s') \<Rightarrow> ([of_nat (unat v4 div 65536), of_nat (unat v4)], True, s')
      | None \<Rightarrow>
          (case read_separator (CHR '':'') i (read_number 16 4 True 65536) s of
             None \<Rightarrow> ([], False, s)
           | Some (g, s') \<Rightarrow>
               (let (gs, b, s'') = read_groups is s' in (of_nat g # gs, b, s''))))"

definition read_ipv6_addr :: "ipv6 reader" where
  "read_ipv6_addr s =
     (let (front, front_v4, s1) = read_groups [0, 1, 2, 3, 4, 5, 6, 7] s in
      if length front = 8 then Some (ipv6_new front, s1)
      else if front_v4 then None
      else (case strip_prefix ''::'' s1 of
              None \<Rightarrow> None
            | Some s2 \<Rightarrow>
                (let (back, _, s3) = read_groups (take (7 - length front) [0, 1, 2, 3, 4, 5, 6]) s2;
                     zeros = take (8 - length front - length back) [0, 0, 0, 0, 0, 0, 0, 0]
                 in Some (ipv6_new (front @ zeros @ back), s3))))"

definition parse_ip_addr :: "string \<Rightarrow> ip_addr option" where
  "parse_ip_addr s =
     (case read_ipv4_addr s of
        Some (v4, rest) \<Rightarrow> if rest = [] then Some (V4 v4) else None
      | None \<Rightarrow>
          (case read_ipv6_addr s of
             Some (v6, rest) \<Rightarrow> if rest = [] then Some (V6 v6) else None
           | None \<Rightarrow> None))"

section \<open>Shared word lemmas\<close>

lemma mask_eq_drop_bit:
  fixes a b :: "'a::len word"
  shows "a AND NOT (mask n) = b AND NOT (mask n) \<longleftrightarrow> drop_bit n a = drop_bit n b"
proof
  assume eq: "a AND NOT (mask n) = b AND NOT (mask n)"
  show "drop_bit n a = drop_bit n b"
  proof (rule bit_word_eqI)
    fix m assume "m < LENGTH('a)"
    from eq have "bit (a AND NOT (mask n)) (n + m) = bit (b AND NOT (mask n)) (n + m)" by simp
    then show "bit (drop_bit n a) m = bit (drop_bit n b) m"
      by (auto simp: bit_simps dest: bit_imp_le_length)
  qed
next
  assume eq: "drop_bit n a = drop_bit n b"
  show "a AND NOT (mask n) = b AND NOT (mask n)"
  proof (rule bit_word_eqI)
    fix m assume m: "m < LENGTH('a)"
    have "n \<le> m \<Longrightarrow> bit a m = bit b m"
      using arg_cong [OF eq, of "\<lambda>w. bit w (m - n)"] by (simp add: bit_simps)
    then show "bit (a AND NOT (mask n)) m = bit (b AND NOT (mask n)) m"
      by (auto simp: bit_simps)
  qed
qed

lemma octet_eq_iff:
  "octet ip i = of_nat k \<longleftrightarrow> unat ip div 2 ^ (24 - 8 * i) mod 256 = k mod 256"
  by (simp add: octet_def word_of_nat_eq_iff take_bit_eq_mod)

lemma unat_octet: "unat (octet ip i) = unat ip div 2 ^ (24 - 8 * i) mod 256"
  by (simp add: octet_def unsigned_of_nat take_bit_nat_def)

lemma unat_segment: "unat (segment ip i) = unat ip div 2 ^ (112 - 16 * i) mod 65536"
  by (simp add: segment_def unsigned_of_nat take_bit_nat_def)

lemma unat_low_v4: "unat (low_v4 ip) = unat ip mod 4294967296"
  by (simp add: low_v4_def unsigned_ucast_eq take_bit_nat_def)

lemma div_eq_digits:
  fixes x m k a c :: nat
  assumes "c < k"
  shows "x div m = a * k + c \<longleftrightarrow> x div (m * k) = a \<and> x div m mod k = c"
proof -
  have "y = a * k + c \<longleftrightarrow> y div k = a \<and> y mod k = c" for y
    using assms by (metis add.commute add_cancel_right_left div_less div_mult_self1 div_mult_mod_eq
        less_nat_zero_code mod_less mod_mult_self1)
  then show ?thesis by (simp add: div_mult2_eq)
qed

lemma mod_mult_div_eq:
  fixes y a b :: nat
  assumes "0 < a"
  shows "y mod (a * b) div a = y div a mod b"
  using assms by (simp add: mod_mult2_eq)

lemma unat_v4_lt [simp]: "unat (ip :: ipv4) < 4294967296"
  using unsigned_less [of ip, where 'a = nat] by simp

lemma unat_v6_lt [simp]: "unat (ip :: ipv6) < 340282366920938463463374607431768211456"
  using unsigned_less [of ip, where 'a = nat] by simp

lemma unat_octet0: "unat (octet ip 0) = unat ip div 16777216"
  by (simp add: unat_octet less_mult_imp_div_less)

lemma unat_octet1: "unat (octet ip 1) = unat ip div 65536 mod 256"
  by (simp add: unat_octet)

lemma unat_segment0: "unat (segment ip 0) = unat ip div 2 ^ 112"
  by (simp add: unat_segment less_mult_imp_div_less)

lemmas parser_eval =
  parse_ip_addr_def read_ipv4_addr_def read_ipv6_addr_def read_separator_def read_number_def
  to_digit_def ipv4_new_def ipv6_new_def

end
