(* ===== verification/Network_Policy.thy ===== *)
theory Network_Policy
  imports Std_Net
begin

text \<open>
  The per-provider network allowlist of \<^verbatim>\<open>domain/network_policy.rs\<close>: CIDR blocks, the
  never-allowable table, config validation (\<^verbatim>\<open>NetworkPolicyRaw::into_policy\<close>) and the two dial-time
  lookups \<open>allows_ip\<close> and \<open>allows_host\<close>. A block's prefix length is a \<^verbatim>\<open>u8\<close> in the source; it is
  a \<^typ>\<open>nat\<close> here and \<open>cidr_wf\<close> is the bound that parsing establishes.
\<close>

section \<open>Types\<close>

datatype network_policy_mode = Restricted | Allowlist

record cidr_block =
  addr :: ip_addr
  prefix_len :: nat

record network_policy =
  mode :: network_policy_mode
  allow_cidrs :: "cidr_block list"
  allow_hosts :: "string list"

record network_policy_raw =
  raw_mode :: network_policy_mode
  raw_cidrs :: "string list"
  raw_hosts :: "string list"

datatype network_policy_error =
    InvalidCidr string
  | NeverAllowable string cidr_block string
  | LoopbackEntry string
  | EntriesWithoutAllowlistMode
  | HostIpLiteral string
  | HostBlank
  | MappedV6Entry string

definition default_policy :: network_policy where
  "default_policy = \<lparr>mode = Restricted, allow_cidrs = [], allow_hosts = []\<rparr>"

definition cidr :: "ip_addr \<Rightarrow> nat \<Rightarrow> cidr_block" where
  "cidr a n = \<lparr>addr = a, prefix_len = n\<rparr>"

definition NEVER_ALLOWABLE :: "(ip_addr \<times> nat \<times> string) list" where
  "NEVER_ALLOWABLE =
    [(V4 (ipv4_new 0 0 0 0), 8, ''this-network (routes to the local host)''),
     (V4 (ipv4_new 169 254 0 0), 16, ''link-local (cloud metadata)''),
     (V4 (ipv4_new 224 0 0 0), 4, ''multicast''),
     (V4 (ipv4_new 240 0 0 0), 4, ''reserved''),
     (V4 (ipv4_new 255 255 255 255), 32, ''broadcast''),
     (V6 0, 128, ''unspecified''),
     (V6 (ipv6_new [0xfe80, 0, 0, 0, 0, 0, 0, 0]), 10, ''link-local''),
     (V6 (ipv6_new [0xff00, 0, 0, 0, 0, 0, 0, 0]), 8, ''multicast''),
     (V6 (ipv6_new [0x2001, 0, 0, 0, 0, 0, 0, 0]), 32, ''Teredo''),
     (V6 (ipv6_new [0x0064, 0xff9b, 0, 0, 0, 0, 0, 0]), 32, ''NAT64 translation prefix''),
     (V6 (ipv6_new [0x2002, 0, 0, 0, 0, 0, 0, 0]), 16, ''6to4 translation prefix'')]"

definition LOOPBACK_PREFIXES :: "(ip_addr \<times> nat) list" where
  "LOOPBACK_PREFIXES =
    [(V4 (ipv4_new 127 0 0 0), 8), (V6 (ipv6_new [0, 0, 0, 0, 0, 0, 0, 1]), 128)]"

section \<open>CIDR blocks\<close>

definition cidr_parse :: "string \<Rightarrow> network_policy_error + cidr_block" where
  "cidr_parse text =
     (case split_once (CHR ''/'') (trim text) of
        None \<Rightarrow> Inl (InvalidCidr text)
      | Some (addr_text, prefix_text) \<Rightarrow>
          (case parse_ip_addr addr_text of
             None \<Rightarrow> Inl (InvalidCidr text)
           | Some a \<Rightarrow>
               (let mx = (case a of V4 _ \<Rightarrow> 32 | V6 _ \<Rightarrow> 128) in
                (case from_str_radix 8 10 prefix_text of
                   None \<Rightarrow> Inl (InvalidCidr text)
                 | Some n \<Rightarrow> if n > mx then Inl (InvalidCidr text) else Inr (cidr a n)))))"

definition normalize_mapped :: "ip_addr \<Rightarrow> ip_addr" where
  "normalize_mapped ip =
     (case ip of
        V6 v6 \<Rightarrow> (case to_ipv4_mapped v6 of Some v4 \<Rightarrow> V4 v4 | None \<Rightarrow> ip)
      | V4 _ \<Rightarrow> ip)"

definition cidr_contains :: "cidr_block \<Rightarrow> ip_addr \<Rightarrow> bool" where
  "cidr_contains b ip =
     (case (addr b, normalize_mapped ip) of
        (V4 net, V4 a) \<Rightarrow>
          (let bits = prefix_len b in
           if bits = 0 then True
           else (let mask = push_bit (32 - bits) (- 1) in net AND mask = a AND mask))
      | (V6 net, V6 a) \<Rightarrow>
          (let bits = prefix_len b in
           if bits = 0 then True
           else (let shift = 128 - bits in drop_bit shift net = drop_bit shift a))
      | _ \<Rightarrow> False)"

definition cidr_intersects :: "cidr_block \<Rightarrow> cidr_block \<Rightarrow> bool" where
  "cidr_intersects a b = (cidr_contains a (addr b) \<or> cidr_contains b (addr a))"

section \<open>Policy lookups\<close>

definition allows_ip :: "network_policy \<Rightarrow> ip_addr \<Rightarrow> bool" where
  "allows_ip p ip =
     (if mode p \<noteq> Allowlist then False
      else list_ex (\<lambda>b. cidr_contains b (normalize_mapped ip)) (allow_cidrs p))"

definition normalize_host :: "string \<Rightarrow> string" where
  "normalize_host host =
     (let h = to_ascii_lowercase (trim host) in
      (case strip_suffix ''.'' h of Some r \<Rightarrow> r | None \<Rightarrow> h))"

definition allows_host :: "network_policy \<Rightarrow> string \<Rightarrow> bool" where
  "allows_host p host =
     (if mode p \<noteq> Allowlist \<or> allow_hosts p = [] then False
      else (let h = normalize_host host in
            list_ex (\<lambda>declared. normalize_host declared = h) (allow_hosts p)))"

section \<open>Config validation\<close>

definition validate_block :: "string \<Rightarrow> cidr_block \<Rightarrow> network_policy_error + cidr_block" where
  "validate_block entry_text block =
     (if (case addr block of V6 v6 \<Rightarrow> to_ipv4 v6 \<noteq> None | V4 _ \<Rightarrow> False)
      then Inl (MappedV6Entry entry_text)
      else (case find (\<lambda>(a, n, c). cidr_intersects (cidr a n) block) NEVER_ALLOWABLE of
              Some (a, n, c) \<Rightarrow> Inl (NeverAllowable entry_text (cidr a n) c)
            | None \<Rightarrow>
                (case find (\<lambda>(a, n). cidr_intersects (cidr a n) block) LOOPBACK_PREFIXES of
                   Some _ \<Rightarrow> Inl (LoopbackEntry entry_text)
                 | None \<Rightarrow> Inr block)))"

fun validate_cidrs :: "string list \<Rightarrow> network_policy_error + cidr_block list" where
  "validate_cidrs [] = Inr []"
| "validate_cidrs (entry_text # rest) =
     (case cidr_parse (trim entry_text) of
        Inl e \<Rightarrow> Inl e
      | Inr block \<Rightarrow>
          (case validate_block entry_text block of
             Inl e \<Rightarrow> Inl e
           | Inr b \<Rightarrow>
               (case validate_cidrs rest of Inl e \<Rightarrow> Inl e | Inr bs \<Rightarrow> Inr (b # bs))))"

fun validate_hosts :: "string list \<Rightarrow> network_policy_error + string list" where
  "validate_hosts [] = Inr []"
| "validate_hosts (host_text # rest) =
     (let host = trim host_text in
      if host = [] then Inl HostBlank
      else if parse_ip_addr host \<noteq> None then Inl (HostIpLiteral host_text)
      else (case validate_hosts rest of
              Inl e \<Rightarrow> Inl e | Inr hs \<Rightarrow> Inr (normalize_host host # hs)))"

definition into_policy :: "network_policy_raw \<Rightarrow> network_policy_error + network_policy" where
  "into_policy raw =
     (let has_entries = (raw_cidrs raw \<noteq> [] \<or> raw_hosts raw \<noteq> []) in
      if has_entries \<and> raw_mode raw = Restricted then Inl EntriesWithoutAllowlistMode
      else (case validate_cidrs (raw_cidrs raw) of
              Inl e \<Rightarrow> Inl e
            | Inr cidrs \<Rightarrow>
                (case validate_hosts (raw_hosts raw) of
                   Inl e \<Rightarrow> Inl e
                 | Inr hosts \<Rightarrow>
                     Inr \<lparr>mode = raw_mode raw, allow_cidrs = cidrs, allow_hosts = hosts\<rparr>)))"

section \<open>CIDR membership as prefix equality\<close>

text \<open>
  Both arms of \<^verbatim>\<open>contains\<close>, the masked comparison of IPv4 and the shifted comparison of IPv6,
  compare the leading \<open>prefix_len\<close> bits; a prefix length of zero is no exception to that reading.
\<close>

fun same_prefix :: "ip_addr \<Rightarrow> nat \<Rightarrow> ip_addr \<Rightarrow> bool" where
  "same_prefix (V4 n) k (V4 a) = (drop_bit (32 - k) n = drop_bit (32 - k) a)"
| "same_prefix (V6 n) k (V6 a) = (drop_bit (128 - k) n = drop_bit (128 - k) a)"
| "same_prefix _ _ _ = False"

text \<open>A block is canonical when its network address is not written in IPv4-mapped form.\<close>

definition cidr_canonical :: "cidr_block \<Rightarrow> bool" where
  "cidr_canonical b = (normalize_mapped (addr b) = addr b)"

text \<open>What validation establishes of an accepted block.\<close>

definition block_safe :: "cidr_block \<Rightarrow> bool" where
  "block_safe b =
     (cidr_canonical b
      \<and> list_all (\<lambda>(a, n, c). \<not> cidr_intersects (cidr a n) b) NEVER_ALLOWABLE
      \<and> list_all (\<lambda>(a, n). \<not> cidr_intersects (cidr a n) b) LOOPBACK_PREFIXES)"

lemma drop_bit_whole [simp]: "drop_bit LENGTH('a) (w :: 'a::len word) = 0"
  by (rule bit_word_eqI) (simp add: bit_simps)

lemma cidr_contains_iff:
  "cidr_contains b ip \<longleftrightarrow> same_prefix (addr b) (prefix_len b) (normalize_mapped ip)"
proof (cases "addr b")
  case (V4 net)
  then show ?thesis
    using drop_bit_whole [where 'a = 32]
    by (cases "normalize_mapped ip") (auto simp: cidr_contains_def Let_def mask_eq_drop_bit)
next
  case (V6 net)
  then show ?thesis
    using drop_bit_whole [where 'a = 128]
    by (cases "normalize_mapped ip") (auto simp: cidr_contains_def Let_def)
qed

lemma drop_bit_mono_eq:
  fixes a b :: "'a::len word"
  assumes "drop_bit m a = drop_bit m b" and "m \<le> n"
  shows "drop_bit n a = drop_bit n b"
proof -
  have "drop_bit n a = drop_bit (n - m) (drop_bit m a)" using assms(2) by simp
  also have "\<dots> = drop_bit n b" using assms by simp
  finally show ?thesis .
qed

lemma same_prefix_common:
  assumes "same_prefix x k ip" and "same_prefix y l ip"
  shows "same_prefix x k y \<or> same_prefix y l x"
proof (cases "k \<le> l")
  case True
  with assms show ?thesis
    by (cases x; cases y; cases ip) (auto dest: drop_bit_mono_eq [where n = "32 - k"]
        drop_bit_mono_eq [where n = "128 - k"])
next
  case False
  with assms show ?thesis
    by (cases x; cases y; cases ip) (auto dest: drop_bit_mono_eq [where n = "32 - l"]
        drop_bit_mono_eq [where n = "128 - l"])
qed

lemma same_prefix_refl [simp]: "same_prefix x k x"
  by (cases x) auto

lemma normalize_mapped_idem [simp]: "normalize_mapped (normalize_mapped ip) = normalize_mapped ip"
  by (auto simp: normalize_mapped_def split: ip_addr.splits option.splits)

lemma cidr_intersects_iff_common:
  assumes "cidr_canonical a" and "cidr_canonical b"
  shows "cidr_intersects a b \<longleftrightarrow> (\<exists>ip. cidr_contains a ip \<and> cidr_contains b ip)"
proof
  assume "cidr_intersects a b"
  with assms show "\<exists>ip. cidr_contains a ip \<and> cidr_contains b ip"
    by (metis cidr_canonical_def cidr_contains_iff cidr_intersects_def same_prefix_refl)
next
  assume "\<exists>ip. cidr_contains a ip \<and> cidr_contains b ip"
  with assms show "cidr_intersects a b"
    by (auto simp: cidr_intersects_def cidr_contains_iff cidr_canonical_def
        dest: same_prefix_common)
qed

lemma not_to_ipv4_canonical:
  "(\<And>v6. addr b = V6 v6 \<Longrightarrow> to_ipv4 v6 = None) \<Longrightarrow> cidr_canonical b"
  by (auto simp: cidr_canonical_def normalize_mapped_def to_ipv4_def to_ipv4_mapped_def
      split: ip_addr.splits if_splits)

section \<open>What an accepted policy can open\<close>

lemma tables_canonical:
  "(a, n, c) \<in> set NEVER_ALLOWABLE \<Longrightarrow> cidr_canonical (cidr a m)"
  "(a, n) \<in> set LOOPBACK_PREFIXES \<Longrightarrow> cidr_canonical (cidr a m)"
  by (auto simp: NEVER_ALLOWABLE_def LOOPBACK_PREFIXES_def cidr_canonical_def cidr_def
      normalize_mapped_def to_ipv4_mapped_def segment_def ipv6_new_def)

lemma validate_block_safe: "validate_block t b = Inr b' \<Longrightarrow> b' = b \<and> block_safe b"
  unfolding validate_block_def block_safe_def list_all_iff
  by (auto simp: find_None_iff split: if_splits option.splits ip_addr.splits
      intro: not_to_ipv4_canonical)

lemma validate_cidrs_safe: "validate_cidrs es = Inr bs \<Longrightarrow> b \<in> set bs \<Longrightarrow> block_safe b"
  by (induction es arbitrary: bs)
    (auto split: sum.splits dest: validate_block_safe)

lemma into_policy_cidrs:
  "into_policy raw = Inr p \<Longrightarrow> validate_cidrs (raw_cidrs raw) = Inr (allow_cidrs p)"
  by (auto simp: into_policy_def Let_def split: if_splits sum.splits)

lemma block_safe_excludes:
  assumes "block_safe b"
    and "(a, n, c) \<in> set NEVER_ALLOWABLE \<or> (a, n) \<in> set LOOPBACK_PREFIXES"
    and "cidr_contains (cidr a n) ip"
  shows "\<not> cidr_contains b ip"
proof
  assume "cidr_contains b ip"
  moreover have "cidr_canonical (cidr a n)" using assms(2) tables_canonical by blast
  moreover have "cidr_canonical b" using assms(1) by (simp add: block_safe_def)
  ultimately have "cidr_intersects (cidr a n) b"
    using assms(3) cidr_intersects_iff_common by blast
  with assms(1,2) show False by (auto simp: block_safe_def list_all_iff)
qed

lemma allows_ip_block: "allows_ip p ip \<Longrightarrow> \<exists>b \<in> set (allow_cidrs p). cidr_contains b ip"
  by (auto simp: allows_ip_def list_ex_iff cidr_contains_iff split: if_splits)

text \<open>
  C3. A policy that config validation accepts never allows an address of a never-allowable range
  (link-local and cloud metadata, this-network, multicast, reserved, broadcast, Teredo and the
  translation prefixes) nor a loopback address, whatever entries the file declares and in whichever
  form the address is written: the overlap test of \<^verbatim>\<open>into_policy\<close> leaves no common address.
\<close>

theorem validated_policy_never_opens:
  assumes "into_policy raw = Inr p"
    and "(a, n, c) \<in> set NEVER_ALLOWABLE \<or> (a, n) \<in> set LOOPBACK_PREFIXES"
    and "cidr_contains (cidr a n) ip"
  shows "\<not> allows_ip p ip"
  using allows_ip_block block_safe_excludes [OF _ assms(2,3)]
    validate_cidrs_safe [OF into_policy_cidrs [OF assms(1)]] by blast

definition lan_raw :: network_policy_raw where
  "lan_raw = \<lparr>raw_mode = Allowlist, raw_cidrs = [''10.0.0.0/8''], raw_hosts = [''Vllm.lan.'']\<rparr>"

definition lan_policy :: network_policy where
  "lan_policy =
     \<lparr>mode = Allowlist, allow_cidrs = [cidr (V4 0x0A000000) 8], allow_hosts = [''vllm.lan'']\<rparr>"

lemmas policy_eval =
  parser_eval cidr_parse_def from_str_radix_def trim_def trim_start_def is_whitespace_def
  normalize_host_def to_ascii_lowercase_def to_ascii_lower_def char_of_def strip_suffix_def
  validate_block_def NEVER_ALLOWABLE_def LOOPBACK_PREFIXES_def cidr_intersects_def
  cidr_contains_iff normalize_mapped_def to_ipv4_mapped_def cidr_def segment_def

lemma lan_raw_accepted: "into_policy lan_raw = Inr lan_policy"
  by (simp add: into_policy_def lan_raw_def lan_policy_def policy_eval bit_0)

theorem validated_policy_never_opens_witness:
  "into_policy lan_raw = Inr lan_policy \<and> allows_ip lan_policy (V4 0x0A000005)
   \<and> \<not> allows_ip lan_policy (V4 0xA9FEA9FE)"
proof -
  have "(V4 (ipv4_new 169 254 0 0), 16, ''link-local (cloud metadata)'') \<in> set NEVER_ALLOWABLE"
    by (simp add: NEVER_ALLOWABLE_def)
  moreover have "cidr_contains (cidr (V4 (ipv4_new 169 254 0 0)) 16) (V4 0xA9FEA9FE)"
    by (simp add: policy_eval)
  ultimately have "\<not> allows_ip lan_policy (V4 0xA9FEA9FE)"
    using validated_policy_never_opens [OF lan_raw_accepted] by blast
  moreover have "allows_ip lan_policy (V4 0x0A000005)"
    by (simp add: allows_ip_def lan_policy_def policy_eval)
  ultimately show ?thesis using lan_raw_accepted by blast
qed

end
