(* ===== verification/Ssrf_Guard.thy ===== *)
theory Ssrf_Guard
  imports Network_Policy
begin

text \<open>
  The pure deny-list policy of \<^verbatim>\<open>domain/ssrf_guard.rs\<close>: the flat verdict \<open>is_forbidden_ip\<close>, its
  loopback- and policy-parameterised variants, the literal-host parser that understands every
  \<^verbatim>\<open>inet_aton\<close> spelling, the entry guard and the redirect verdicts. A request URL enters only through
  \<^verbatim>\<open>url.host_str()\<close>, so the guards take the host as an argument; process environment variables are
  arguments too. What the \<^verbatim>\<open>wreq\<close> base redirect policy answers is the argument \<open>base\<close>.
\<close>

section \<open>Ranges\<close>

definition disables_ssrf :: "string option \<Rightarrow> bool" where
  "disables_ssrf raw = (raw = Some ''1'')"

definition is_cgnat :: "ipv4 \<Rightarrow> bool" where
  "is_cgnat ip = (octet ip 0 = 100 \<and> octet ip 1 AND 0b11000000 = 0b01000000)"

definition is_reserved_v4 :: "ipv4 \<Rightarrow> bool" where
  "is_reserved_v4 ip = (octet ip 0 AND 0b11110000 = 0b11110000 \<and> \<not> v4_is_broadcast ip)"

definition is_ipv4_this_network :: "ipv4 \<Rightarrow> bool" where
  "is_ipv4_this_network ip = (octet ip 0 = 0)"

definition is_ipv6_unique_local :: "ipv6 \<Rightarrow> bool" where
  "is_ipv6_unique_local ip = (segment ip 0 AND 0xfe00 = 0xfc00)"

definition is_ipv6_link_local :: "ipv6 \<Rightarrow> bool" where
  "is_ipv6_link_local ip = (segment ip 0 AND 0xffc0 = 0xfe80)"

text \<open>The IPv4 address written in two adjacent segments.\<close>

definition v4_of_segments :: "u16 \<Rightarrow> u16 \<Rightarrow> ipv4" where
  "v4_of_segments s t = ipv4_new (hi_byte s) (lo_byte s) (hi_byte t) (lo_byte t)"

definition is_ipv6_nat64_well_known_prefix :: "ipv6 \<Rightarrow> bool" where
  "is_ipv6_nat64_well_known_prefix ip =
     (segment ip 0 = 0x0064 \<and> segment ip 1 = 0xff9b
      \<and> list_all (\<lambda>i. segment ip i = 0) [2, 3, 4, 5])"

definition is_ipv6_nat64_prefix_space :: "ipv6 \<Rightarrow> bool" where
  "is_ipv6_nat64_prefix_space ip = (segment ip 0 = 0x0064 \<and> segment ip 1 = 0xff9b)"

definition is_ipv6_nat64_non_canonical :: "ipv6 \<Rightarrow> bool" where
  "is_ipv6_nat64_non_canonical ip =
     (is_ipv6_nat64_prefix_space ip \<and> \<not> is_ipv6_nat64_well_known_prefix ip)"

definition ipv6_nat64_embedded_v4 :: "ipv6 \<Rightarrow> ipv4 option" where
  "ipv6_nat64_embedded_v4 ip =
     (if \<not> is_ipv6_nat64_well_known_prefix ip then None
      else Some (v4_of_segments (segment ip 6) (segment ip 7)))"

definition ipv6_6to4_embedded_v4 :: "ipv6 \<Rightarrow> ipv4 option" where
  "ipv6_6to4_embedded_v4 ip =
     (if segment ip 0 \<noteq> 0x2002 then None
      else Some (v4_of_segments (segment ip 1) (segment ip 2)))"

definition ipv6_isatap_embedded_v4 :: "ipv6 \<Rightarrow> ipv4 option" where
  "ipv6_isatap_embedded_v4 ip =
     (if segment ip 5 \<noteq> 0x5efe then None
      else Some (v4_of_segments (segment ip 6) (segment ip 7)))"

definition is_ipv6_teredo :: "ipv6 \<Rightarrow> bool" where
  "is_ipv6_teredo ip = (segment ip 0 = 0x2001 \<and> segment ip 1 = 0x0000)"

text \<open>The embedded-address chain that the three verdicts share.\<close>

definition embedded_v4 :: "ipv6 \<Rightarrow> ipv4 option" where
  "embedded_v4 ip =
     or_else (ipv6_nat64_embedded_v4 ip)
       (or_else (ipv6_6to4_embedded_v4 ip) (ipv6_isatap_embedded_v4 ip))"

section \<open>Verdicts\<close>

function is_forbidden_ip :: "ip_addr \<Rightarrow> bool" where
  "is_forbidden_ip (V4 v4) =
     (v4_is_loopback v4 \<or> v4_is_private v4 \<or> v4_is_link_local v4 \<or> is_ipv4_this_network v4
      \<or> v4_is_broadcast v4 \<or> is_reserved_v4 v4 \<or> is_cgnat v4)"
| "is_forbidden_ip (V6 v6) =
     (if v6_is_loopback v6 \<or> v6_is_unspecified v6 \<or> is_ipv6_unique_local v6 \<or> is_ipv6_link_local v6
      then True
      else if is_ipv6_nat64_non_canonical v6 then True
      else (case to_ipv4 v6 of
              Some v4 \<Rightarrow> is_forbidden_ip (V4 v4)
            | None \<Rightarrow>
                if is_ipv6_teredo v6 then True
                else (case embedded_v4 v6 of
                        Some v4 \<Rightarrow> is_forbidden_ip (V4 v4)
                      | None \<Rightarrow> False)))"
  by pat_completeness auto
termination
  by (relation "measure (\<lambda>ip. case ip of V4 _ \<Rightarrow> 0 | V6 _ \<Rightarrow> 1)") auto

definition is_permitted_loopback :: "ip_addr \<Rightarrow> bool" where
  "is_permitted_loopback ip =
     (case ip of V4 v4 \<Rightarrow> v4 = ipv4_new 127 0 0 1 | V6 v6 \<Rightarrow> v6_is_loopback v6)"

definition is_forbidden_ip_with :: "ip_addr \<Rightarrow> bool \<Rightarrow> bool" where
  "is_forbidden_ip_with ip allow_loopback =
     (if allow_loopback \<and> is_permitted_loopback ip then False else is_forbidden_ip ip)"

definition is_always_denied_ip :: "ip_addr \<Rightarrow> bool" where
  "is_always_denied_ip ip =
     (let normalized =
        (case ip of
           V6 v6 \<Rightarrow>
             if v6_is_loopback v6 \<or> v6_is_unspecified v6 then ip
             else (case to_ipv4 v6 of Some v4 \<Rightarrow> V4 v4 | None \<Rightarrow> ip)
         | V4 _ \<Rightarrow> ip)
      in (case normalized of
            V4 v4 \<Rightarrow> v4_is_link_local v4 \<or> is_ipv4_this_network v4 \<or> v4_is_broadcast v4
                     \<or> v4_is_multicast v4 \<or> is_reserved_v4 v4
          | V6 v6 \<Rightarrow> v6_is_unspecified v6 \<or> is_ipv6_link_local v6 \<or> v6_is_multicast v6
                     \<or> is_ipv6_teredo v6 \<or> is_ipv6_nat64_non_canonical v6))"

function is_forbidden_ip_with_policy :: "ip_addr \<Rightarrow> bool \<Rightarrow> network_policy \<Rightarrow> bool" where
  "is_forbidden_ip_with_policy ip allow_loopback policy =
     (if is_always_denied_ip ip then True
      else if allow_loopback \<and> is_permitted_loopback ip then False
      else if \<not> is_forbidden_ip ip then False
      else (case ip of
              V6 v6 \<Rightarrow>
                (case embedded_v4 v6 of
                   Some v4 \<Rightarrow>
                     if is_permitted_loopback (V4 v4) then True
                     else is_forbidden_ip_with_policy (V4 v4) allow_loopback policy
                 | None \<Rightarrow> \<not> allows_ip policy ip)
            | V4 _ \<Rightarrow> \<not> allows_ip policy ip))"
  by pat_completeness auto
termination
  by (relation "measure (\<lambda>(ip, _). case ip of V4 _ \<Rightarrow> 0 | V6 _ \<Rightarrow> 1)") auto

section \<open>Literal hosts in every spelling\<close>

definition parse_ipv4_number :: "string \<Rightarrow> nat option" where
  "parse_ipv4_number part =
     (let (radix, digits) =
        (case or_else (strip_prefix ''0x'' part) (strip_prefix ''0X'' part) of
           Some hex \<Rightarrow> (16, hex)
         | None \<Rightarrow>
             if length part > 1 \<and> starts_with ''0'' part then (8, part) else (10, part))
      in if digits = [] then None
         else if \<not> (if radix = 16 then list_all is_ascii_hexdigit digits
                    else if radix = 8 then list_all is_octal_digit digits
                    else list_all is_ascii_digit digits) then None
         else from_str_radix 64 radix digits)"

fun parse_parts :: "string list \<Rightarrow> nat list option" where
  "parse_parts [] = Some []"
| "parse_parts (p # ps) =
     (case parse_ipv4_number p of
        None \<Rightarrow> None
      | Some n \<Rightarrow> (case parse_parts ps of None \<Rightarrow> None | Some ns \<Rightarrow> Some (n # ns)))"

text \<open>
  The two loops over the parsed numbers: the range check (one octet for each leading part, the last
  part fills the rest) and the accumulation \<^verbatim>\<open>value += number << (8 * (3 - index))\<close>.
\<close>

fun parts_in_range :: "nat \<Rightarrow> nat list \<Rightarrow> bool" where
  "parts_in_range len [] = True"
| "parts_in_range len [n] = (n < 256 ^ (5 - len))"
| "parts_in_range len (n # m # ns) = (n < 256 \<and> parts_in_range len (m # ns))"

fun parts_value :: "nat \<Rightarrow> nat list \<Rightarrow> nat" where
  "parts_value index [] = 0"
| "parts_value index [n] = n"
| "parts_value index (n # m # ns) = n * 2 ^ (8 * (3 - index)) + parts_value (Suc index) (m # ns)"

definition parse_ipv4_all_forms :: "string \<Rightarrow> ipv4 option" where
  "parse_ipv4_all_forms text =
     (let text = (case strip_suffix ''.'' text of Some r \<Rightarrow> r | None \<Rightarrow> text) in
      if text = [] then None
      else (let parts = split_on (CHR ''.'') text in
            if length parts > 4 \<or> list_ex (\<lambda>p. p = []) parts then None
            else (case parse_parts parts of
                    None \<Rightarrow> None
                  | Some numbers \<Rightarrow>
                      if \<not> parts_in_range (length numbers) numbers then None
                      else Some (of_nat (parts_value 0 numbers)))))"

definition parse_ip_literal :: "string \<Rightarrow> ip_addr option" where
  "parse_ip_literal host =
     (let literal = (case Option.bind (strip_prefix ''['' host) (strip_suffix '']'') of
                       Some h \<Rightarrow> h | None \<Rightarrow> host) in
      (case parse_ip_addr literal of
         Some ip \<Rightarrow> Some ip
       | None \<Rightarrow> if CHR '':'' \<in> set literal then None
                 else map_option V4 (parse_ipv4_all_forms literal)))"

definition is_forbidden_literal_host :: "string \<Rightarrow> bool" where
  "is_forbidden_literal_host host =
     (case parse_ip_literal host of Some ip \<Rightarrow> is_forbidden_ip ip | None \<Rightarrow> False)"

definition is_forbidden_literal_host_with :: "string \<Rightarrow> bool \<Rightarrow> bool" where
  "is_forbidden_literal_host_with host allow_loopback =
     (case parse_ip_literal host of
        Some ip \<Rightarrow> is_forbidden_ip_with ip allow_loopback | None \<Rightarrow> False)"

definition is_forbidden_literal_host_with_policy ::
  "string \<Rightarrow> bool \<Rightarrow> network_policy \<Rightarrow> bool" where
  "is_forbidden_literal_host_with_policy host allow_loopback policy =
     (case parse_ip_literal host of
        Some ip \<Rightarrow> is_forbidden_ip_with_policy ip allow_loopback policy | None \<Rightarrow> False)"

function is_forbidden_resolved_address ::
  "ip_addr \<Rightarrow> string \<Rightarrow> bool \<Rightarrow> network_policy \<Rightarrow> bool" where
  "is_forbidden_resolved_address ip host allow_loopback policy =
     (if is_always_denied_ip ip then True
      else if allow_loopback \<and> is_permitted_loopback ip then False
      else if \<not> is_forbidden_ip ip then False
      else (let gate = (if \<not> allows_ip policy ip then True
                        else (let host_is_literal = (parse_ip_literal host \<noteq> None) in
                              \<not> (host_is_literal \<or> allows_host policy host))) in
            (case ip of
               V6 v6 \<Rightarrow>
                 (case embedded_v4 v6 of
                    Some v4 \<Rightarrow>
                      if is_permitted_loopback (V4 v4) then True
                      else is_forbidden_resolved_address (V4 v4) host allow_loopback policy
                  | None \<Rightarrow> gate)
             | V4 _ \<Rightarrow> gate)))"
  by pat_completeness auto
termination
  by (relation "measure (\<lambda>(ip, _). case ip of V4 _ \<Rightarrow> 0 | V6 _ \<Rightarrow> 1)") auto

section \<open>Entry guard and redirect verdicts\<close>

record forbidden_literal =
  fl_host :: string
  fl_ip :: ip_addr

definition seed_guard_refusal :: "string option \<Rightarrow> string option \<Rightarrow> forbidden_literal option" where
  "seed_guard_refusal disable_entry_guard_env host_str =
     (if disable_entry_guard_env = Some ''1'' then None
      else (let host = (case host_str of Some h \<Rightarrow> h | None \<Rightarrow> []) in
            (case parse_ip_literal host of
               None \<Rightarrow> None
             | Some ip \<Rightarrow>
                 if is_forbidden_ip ip then Some \<lparr>fl_host = host, fl_ip = ip\<rparr> else None)))"

definition reject_forbidden_literal_url ::
  "string option \<Rightarrow> string option \<Rightarrow> forbidden_literal + unit" where
  "reject_forbidden_literal_url disable_entry_guard_env host_str =
     (case seed_guard_refusal disable_entry_guard_env host_str of
        Some rejection \<Rightarrow> Inl rejection | None \<Rightarrow> Inr ())"

datatype 'a redirect_action = Stop | Base 'a

definition redirect_policy ::
  "string option \<Rightarrow> 'a \<Rightarrow> string option \<Rightarrow> 'a redirect_action" where
  "redirect_policy disable_redirect_guard_env base host =
     (let guard_enabled = (disable_redirect_guard_env = None) in
      if guard_enabled \<and> (case host of Some h \<Rightarrow> is_forbidden_literal_host h | None \<Rightarrow> False)
      then Stop else Base base)"

definition redirect_literal_blocked :: "string option \<Rightarrow> bool \<Rightarrow> bool" where
  "redirect_literal_blocked host allow_loopback =
     (case host of Some h \<Rightarrow> is_forbidden_literal_host_with h allow_loopback | None \<Rightarrow> False)"

definition redirect_literal_blocked_with_policy ::
  "string option \<Rightarrow> bool \<Rightarrow> network_policy \<Rightarrow> bool" where
  "redirect_literal_blocked_with_policy host allow_loopback policy =
     (case host of
        Some h \<Rightarrow> is_forbidden_literal_host_with_policy h allow_loopback policy | None \<Rightarrow> False)"

definition redirect_policy_with_loopback ::
  "bool \<Rightarrow> 'a \<Rightarrow> string option \<Rightarrow> 'a redirect_action" where
  "redirect_policy_with_loopback allow_loopback base host =
     (if redirect_literal_blocked host allow_loopback then Stop else Base base)"

definition redirect_policy_with_policy ::
  "bool \<Rightarrow> network_policy \<Rightarrow> 'a \<Rightarrow> string option \<Rightarrow> 'a redirect_action" where
  "redirect_policy_with_policy allow_loopback policy base host =
     (if redirect_literal_blocked_with_policy host allow_loopback policy then Stop else Base base)"

text \<open>The IPv4 ranges that the documentation of \<^verbatim>\<open>is_forbidden_ip\<close> lists, in its order.\<close>

definition DENIED_V4 :: "(ipv4 \<times> nat) list" where
  "DENIED_V4 =
    [(ipv4_new 127 0 0 0, 8), (ipv4_new 10 0 0 0, 8), (ipv4_new 172 16 0 0, 12),
     (ipv4_new 192 168 0 0, 16), (ipv4_new 169 254 0 0, 16), (ipv4_new 0 0 0 0, 8),
     (ipv4_new 255 255 255 255, 32), (ipv4_new 240 0 0 0, 4), (ipv4_new 100 64 0 0, 10)]"

declare is_forbidden_ip.simps [simp del] is_forbidden_ip_with_policy.simps [simp del]
  is_forbidden_resolved_address.simps [simp del]

section \<open>Ranges as prefixes\<close>

lemma and_prefix:
  fixes x w m :: "'a::len word"
  assumes "NOT (mask n) = m" and "m AND w = w"
  shows "x AND m = w \<longleftrightarrow> unat x div 2 ^ n = unat w div 2 ^ n"
  using mask_eq_drop_bit [of x n w] assms
  by (simp add: and.commute word_unat_eq_iff unat_drop_bit_eq drop_bit_nat_def)

lemma v4_prefix_iff [word_fields]:
  "v4_is_loopback ip \<longleftrightarrow> unat ip div 16777216 = 127"
  "is_ipv4_this_network ip \<longleftrightarrow> unat ip div 16777216 = 0"
  "is_reserved_v4 ip \<longleftrightarrow> unat ip div 268435456 = 15 \<and> \<not> v4_is_broadcast ip"
  using and_prefix [of 4 "0b11110000 :: u8" "0b11110000" "octet ip 0"]
  by (simp_all add: v4_is_loopback_def is_ipv4_this_network_def is_reserved_v4_def
      word_unat_eq_iff unat_octet0 div_mult2_eq [symmetric] mask_eq_exp_minus_1)

lemma v4_multicast_prefix [word_fields]: "v4_is_multicast ip \<longleftrightarrow> unat ip div 268435456 = 14"
proof -
  have "v4_is_multicast ip \<longleftrightarrow> unat ip div 16777216 div 16 = 14"
    by (auto simp: v4_is_multicast_def word_le_nat_alt unat_octet0)
  then show ?thesis by (simp add: div_mult2_eq [symmetric])
qed

lemma v4_link_local_prefix [word_fields]: "v4_is_link_local ip \<longleftrightarrow> unat ip div 65536 = 43518"
  using div_eq_digits [of 254 256 "unat ip" 65536 169]
  by (simp add: v4_is_link_local_def word_unat_eq_iff unat_octet0 unat_octet1 [simplified])

lemma v4_cgnat_prefix [word_fields]: "is_cgnat ip \<longleftrightarrow> unat ip div 4194304 = 401"
proof -
  have "octet ip 1 AND 0b11000000 = 0b01000000 \<longleftrightarrow> unat ip div 65536 mod 256 div 64 = 1"
    using and_prefix [of 6 "0b11000000 :: u8" "0b01000000" "octet ip 1"]
    by (simp add: unat_octet1 [simplified] mask_eq_exp_minus_1)
  also have "unat ip div 65536 mod 256 div 64 = unat ip div 4194304 mod 4"
    using mod_mult_div_eq [of 64 "unat ip div 65536" 4] by (simp add: div_mult2_eq [symmetric])
  finally show ?thesis
    using div_eq_digits [of 1 4 "unat ip" 4194304 100]
    by (simp add: is_cgnat_def word_unat_eq_iff unat_octet0)
qed

lemma v4_private_prefix [word_fields]:
  "v4_is_private ip \<longleftrightarrow>
     unat ip div 16777216 = 10 \<or> unat ip div 1048576 = 2753 \<or> unat ip div 65536 = 49320"
proof -
  have "16 \<le> octet ip 1 \<and> octet ip 1 \<le> 31 \<longleftrightarrow> unat ip div 65536 mod 256 div 16 = 1"
    by (auto simp: word_le_nat_alt unat_octet1 [simplified])
  also have "unat ip div 65536 mod 256 div 16 = unat ip div 1048576 mod 16"
    using mod_mult_div_eq [of 16 "unat ip div 65536" 16] by (simp add: div_mult2_eq [symmetric])
  finally show ?thesis
    using div_eq_digits [of 1 16 "unat ip" 1048576 172] div_eq_digits [of 168 256 "unat ip" 65536 192]
    by (simp add: v4_is_private_def word_unat_eq_iff unat_octet0 unat_octet1 [simplified])
qed

lemma v6_prefix_iff [word_fields]:
  "is_ipv6_unique_local ip \<longleftrightarrow> unat ip div 2 ^ 121 = 126"
  "is_ipv6_link_local ip \<longleftrightarrow> unat ip div 2 ^ 118 = 1018"
  "v6_is_multicast ip \<longleftrightarrow> unat ip div 2 ^ 120 = 255"
  using and_prefix [of 9 "0xfe00 :: u16" "0xfc00" "segment ip 0"]
    and_prefix [of 6 "0xffc0 :: u16" "0xfe80" "segment ip 0"]
    and_prefix [of 8 "0xff00 :: u16" "0xff00" "segment ip 0"]
  by (simp_all add: is_ipv6_unique_local_def is_ipv6_link_local_def v6_is_multicast_def
      unat_segment0 div_mult2_eq [symmetric] mask_eq_exp_minus_1)

lemma v6_segments01:
  assumes "b < 65536"
  shows "unat (segment ip 0) = a \<and> unat (segment ip 1) = b \<longleftrightarrow> unat ip div 2 ^ 96 = a * 65536 + b"
  using div_eq_digits [of b 65536 "unat ip" "2 ^ 96" a] assms
  by (simp add: unat_segment0 unat_segment [of ip 1, simplified])

lemma v6_space_prefix [word_fields]:
  "is_ipv6_teredo ip \<longleftrightarrow> unat ip div 2 ^ 96 = 0x20010000"
  "is_ipv6_nat64_prefix_space ip \<longleftrightarrow> unat ip div 2 ^ 96 = 0x0064ff9b"
  using v6_segments01 [of 0 ip "0x2001"] v6_segments01 [of "0xff9b" ip "0x64"]
  by (simp_all add: is_ipv6_teredo_def is_ipv6_nat64_prefix_space_def word_unat_eq_iff)

section \<open>The documented table\<close>

lemma cidr_v4_nat:
  "cidr_contains (cidr (V4 net) k) ip \<longleftrightarrow>
     (\<exists>a. normalize_mapped ip = V4 a \<and> unat a div 2 ^ (32 - k) = unat net div 2 ^ (32 - k))"
  by (cases "normalize_mapped ip")
    (auto simp: cidr_contains_iff cidr_def word_unat_eq_iff unat_drop_bit_eq drop_bit_nat_def)

lemma cidr_v6_nat:
  "cidr_contains (cidr (V6 net) k) ip \<longleftrightarrow>
     (\<exists>a. normalize_mapped ip = V6 a \<and> unat a div 2 ^ (128 - k) = unat net div 2 ^ (128 - k))"
  by (cases "normalize_mapped ip")
    (auto simp: cidr_contains_iff cidr_def word_unat_eq_iff unat_drop_bit_eq drop_bit_nat_def)

lemma normalize_mapped_V4 [simp]: "normalize_mapped (V4 a) = V4 a"
  by (simp add: normalize_mapped_def)

lemma v4_broadcast_nat: "v4_is_broadcast ip \<longleftrightarrow> unat ip = 4294967295"
  by (simp add: v4_is_broadcast_def word_unat_eq_iff)

text \<open>
  C1. The flat verdict on an IPv4 address is exactly membership in the documented ranges: loopback,
  the three private blocks, link-local, this-network, broadcast, reserved and CGNAT. The octet and
  bit-mask tests of the code compute the CIDR table of its documentation.
\<close>

theorem flat_verdict_is_documented_table:
  "is_forbidden_ip (V4 ip) \<longleftrightarrow>
     list_ex (\<lambda>(net, k). cidr_contains (cidr (V4 net) k) (V4 ip)) DENIED_V4"
  by (auto simp: is_forbidden_ip.simps DENIED_V4_def cidr_v4_nat ipv4_new_def word_fields v4_broadcast_nat)

section \<open>The never-allowable table at dial time\<close>

lemma to_ipv4_nat:
  "list_all (\<lambda>i. segment ip i = 0) [0, 1, 2, 3, 4] \<longleftrightarrow> unat ip div 2 ^ 48 = 0"
proof -
  have "unat ip div 2 ^ 48 = 0 \<longleftrightarrow>
    unat ip div 2 ^ 112 = 0 \<and> unat ip div 2 ^ 96 mod 65536 = 0 \<and> unat ip div 2 ^ 80 mod 65536 = 0
    \<and> unat ip div 2 ^ 64 mod 65536 = 0 \<and> unat ip div 2 ^ 48 mod 65536 = 0"
    using div_eq_digits [of 0 65536 "unat ip" "2 ^ 96" 0] div_eq_digits [of 0 65536 "unat ip" "2 ^ 80" 0]
      div_eq_digits [of 0 65536 "unat ip" "2 ^ 64" 0] div_eq_digits [of 0 65536 "unat ip" "2 ^ 48" 0]
    by simp
  then show ?thesis
    by (simp add: word_unat_eq_iff unat_segment0 unat_segment [of ip 1, simplified]
        unat_segment [of ip 2, simplified] unat_segment [of ip 3, simplified]
        unat_segment [of ip 4, simplified])
qed

lemma to_ipv4_high: "to_ipv4 ip = Some a \<Longrightarrow> unat ip < 2 ^ 48"
  using to_ipv4_nat [of ip] by (auto simp: to_ipv4_def div_eq_0_iff split: if_splits)

lemma always_denied_mapped:
  assumes "normalize_mapped ip = V4 a"
  shows "is_always_denied_ip ip \<longleftrightarrow>
    v4_is_link_local a \<or> is_ipv4_this_network a \<or> v4_is_broadcast a \<or> v4_is_multicast a
    \<or> is_reserved_v4 a"
proof (cases ip)
  case (V4 b)
  with assms show ?thesis by (simp add: is_always_denied_ip_def)
next
  case (V6 v)
  with assms have m: "to_ipv4_mapped v = Some a"
    by (auto simp: normalize_mapped_def split: option.splits)
  then have "to_ipv4 v = Some a" by (auto simp: to_ipv4_mapped_def to_ipv4_def split: if_splits)
  moreover have "v \<noteq> 0" "v \<noteq> 1"
    using m by (auto simp: to_ipv4_mapped_def segment_def split: if_splits)
  ultimately show ?thesis
    using V6 by (simp add: is_always_denied_ip_def v6_is_loopback_def v6_is_unspecified_def)
qed

lemma always_denied_native:
  assumes "to_ipv4 v = None \<or> v = 0"
  shows "is_always_denied_ip (V6 v) \<longleftrightarrow>
    v6_is_unspecified v \<or> is_ipv6_link_local v \<or> v6_is_multicast v \<or> is_ipv6_teredo v
    \<or> is_ipv6_nat64_non_canonical v"
  using assms by (auto simp: is_always_denied_ip_def v6_is_unspecified_def Let_def)

lemma high_not_ipv4: "2 ^ 48 \<le> unat v \<Longrightarrow> to_ipv4 v = None"
  using to_ipv4_high [of v] by (cases "to_ipv4 v") auto

lemma normalize_mapped_V6: "normalize_mapped ip = V6 v \<Longrightarrow> ip = V6 v"
  by (auto simp: normalize_mapped_def split: ip_addr.splits option.splits)

lemma high_prefix: "x div (m :: nat) = q \<Longrightarrow> 0 < q \<Longrightarrow> m \<le> x"
  by (metis div_less not_less gr_implies_not0)

text \<open>
  C2. The config-time table and the dial-time deny set agree: an address inside any never-allowable
  range is denied at dial time under every policy, except that the canonical NAT64 prefix and 6to4,
  whose verdict derives from the IPv4 address they embed, stay outside the unconditional set.
\<close>

theorem never_allowable_denied_at_dial:
  assumes "(a, n, c) \<in> set NEVER_ALLOWABLE" and "cidr_contains (cidr a n) ip"
  shows "is_always_denied_ip ip
    \<or> (\<exists>v6. ip = V6 v6 \<and> (is_ipv6_nat64_well_known_prefix v6 \<or> segment v6 0 = 0x2002))"
proof (cases "normalize_mapped ip")
  case (V4 b)
  from assms V4 show ?thesis
    by (auto simp: NEVER_ALLOWABLE_def cidr_v4_nat cidr_v6_nat ipv4_new_def always_denied_mapped
        word_fields v4_broadcast_nat)
next
  case (V6 v)
  have ip: "ip = V6 v" by (rule normalize_mapped_V6 [OF V6])
  have "v = 0 \<or> is_ipv6_link_local v \<or> v6_is_multicast v \<or> is_ipv6_teredo v
      \<or> is_ipv6_nat64_prefix_space v \<or> segment v 0 = 0x2002"
    using assms V6 by (auto simp: NEVER_ALLOWABLE_def cidr_v4_nat cidr_v6_nat ipv6_new_def word_fields
        word_unat_eq_iff unat_segment0)
  moreover have "v = 0 \<or> to_ipv4 v = None"
    if "v = 0 \<or> is_ipv6_link_local v \<or> v6_is_multicast v \<or> is_ipv6_teredo v
      \<or> is_ipv6_nat64_prefix_space v"
    using that by (auto simp: word_fields intro!: high_not_ipv4 dest!: high_prefix)
  ultimately show ?thesis
    unfolding ip by (auto simp: always_denied_native is_ipv6_nat64_non_canonical_def
        v6_is_unspecified_def)
qed

theorem never_allowable_denied_at_dial_witness:
  "is_always_denied_ip (V4 0xA9FEA9FE)"
proof -
  have "(V4 (ipv4_new 169 254 0 0), 16, ''link-local (cloud metadata)'') \<in> set NEVER_ALLOWABLE"
    by (simp add: NEVER_ALLOWABLE_def)
  moreover have "cidr_contains (cidr (V4 (ipv4_new 169 254 0 0)) 16) (V4 0xA9FEA9FE)"
    by (simp add: policy_eval)
  ultimately show ?thesis using never_allowable_denied_at_dial by blast
qed

section \<open>The verdict ladder as an interface\<close>

text \<open>
  \<^verbatim>\<open>is_forbidden_ip_with_policy\<close> and \<^verbatim>\<open>is_forbidden_resolved_address\<close> are two copies of one ladder that
  differ only in the last rung, the condition under which a forbidden address is opened. The locale
  states the ladder once, over the opening condition, and carries the facts both verdicts share.
\<close>

locale dial_ladder =
  fixes verdict :: "bool \<Rightarrow> ip_addr \<Rightarrow> bool"
    and opens :: "ip_addr \<Rightarrow> bool"
  assumes ladder_V4: "verdict lb (V4 a) \<longleftrightarrow>
      is_always_denied_ip (V4 a)
      \<or> \<not> (lb \<and> is_permitted_loopback (V4 a)) \<and> is_forbidden_ip (V4 a) \<and> \<not> opens (V4 a)"
    and ladder_V6: "verdict lb (V6 v) \<longleftrightarrow>
      is_always_denied_ip (V6 v)
      \<or> \<not> (lb \<and> is_permitted_loopback (V6 v)) \<and> is_forbidden_ip (V6 v)
        \<and> (case embedded_v4 v of
             Some a \<Rightarrow> is_permitted_loopback (V4 a) \<or> verdict lb (V4 a)
           | None \<Rightarrow> \<not> opens (V6 v))"
begin

lemma always_denied_first: "is_always_denied_ip ip \<Longrightarrow> verdict lb ip"
  by (cases ip) (simp_all add: ladder_V4 ladder_V6)

lemma flag_irrelevant_off_loopback:
  "\<not> is_permitted_loopback ip \<Longrightarrow> verdict lb ip = verdict lb' ip"
  by (cases ip) (auto simp: ladder_V4 ladder_V6 split: option.splits)

lemma allowed_forbidden_V4:
  "\<not> verdict lb (V4 a) \<Longrightarrow> is_forbidden_ip (V4 a) \<Longrightarrow>
   lb \<and> is_permitted_loopback (V4 a) \<or> opens (V4 a)"
  by (auto simp: ladder_V4)

lemma allowed_forbidden_V6:
  assumes "\<not> verdict lb (V6 v)" and "is_forbidden_ip (V6 v)"
    and "\<not> (lb \<and> is_permitted_loopback (V6 v))"
  shows "(embedded_v4 v = None \<and> opens (V6 v))
    \<or> (\<exists>a. embedded_v4 v = Some a \<and> (opens (V4 a) \<or> \<not> is_forbidden_ip (V4 a)))"
  using assms by (auto simp: ladder_V4 ladder_V6 split: option.splits)

lemma closed_when_nothing_opens:
  assumes "\<And>x. \<not> opens x"
    and "\<And>v a. ip = V6 v \<Longrightarrow> embedded_v4 v = Some a \<Longrightarrow> is_forbidden_ip (V6 v) \<Longrightarrow>
      \<not> is_always_denied_ip (V6 v) \<Longrightarrow> is_forbidden_ip (V4 a)"
  shows "verdict lb ip \<longleftrightarrow> is_always_denied_ip ip \<or> is_forbidden_ip_with ip lb"
  using assms
  by (cases ip) (auto simp: ladder_V4 ladder_V6 is_forbidden_ip_with_def split: option.splits)

end

interpretation policy_ladder: dial_ladder
  "\<lambda>lb ip. is_forbidden_ip_with_policy ip lb p" "allows_ip p" for p
  by unfold_locales
    (auto simp: is_forbidden_ip_with_policy.simps [of "V4 a" for a]
      is_forbidden_ip_with_policy.simps [of "V6 v" for v] split: option.splits)

interpretation resolved_ladder: dial_ladder
  "\<lambda>lb ip. is_forbidden_resolved_address ip host lb p"
  "\<lambda>ip. allows_ip p ip \<and> (parse_ip_literal host \<noteq> None \<or> allows_host p host)" for host p
  by unfold_locales
    (auto simp: is_forbidden_resolved_address.simps [of "V4 a" for a] Let_def
      is_forbidden_resolved_address.simps [of "V6 v" for v] split: option.splits)

section \<open>Embedded addresses\<close>

text \<open>An address of one of the unique-local prefixes whose interface identifier carries the ISATAP marker.\<close>

lemma embedded_needs_high: "unat v < 2 ^ 48 \<Longrightarrow> segment v 5 \<noteq> 0x5efe \<Longrightarrow> embedded_v4 v = None"
  by (simp add: embedded_v4_def or_else_eq_None ipv6_nat64_embedded_v4_def ipv6_6to4_embedded_v4_def
      ipv6_isatap_embedded_v4_def is_ipv6_nat64_well_known_prefix_def word_unat_eq_iff unat_segment0)

lemma unique_local_embedded:
  "is_ipv6_unique_local v \<Longrightarrow> embedded_v4 v = ipv6_isatap_embedded_v4 v"
  by (auto simp: embedded_v4_def word_fields ipv6_nat64_embedded_v4_def ipv6_6to4_embedded_v4_def
      is_ipv6_nat64_well_known_prefix_def word_unat_eq_iff unat_segment0 div_mult2_eq
      dest: arg_cong [where f = "\<lambda>x. x div 512"])

lemma embedded_forbidden:
  assumes "embedded_v4 v = Some a" and "is_forbidden_ip (V6 v)" and "\<not> is_always_denied_ip (V6 v)"
    and "\<not> is_ipv6_unique_local v"
  shows "is_forbidden_ip (V4 a)"
proof -
  have "v \<noteq> 0 \<and> v \<noteq> 1"
    using assms(1) embedded_needs_high [of 0] embedded_needs_high [of 1] by (auto simp: segment_def)
  moreover have t: "to_ipv4 v = None"
    using assms(1) embedded_needs_high [of v] to_ipv4_high [of v]
    by (cases "to_ipv4 v") (auto simp: to_ipv4_def split: if_splits)
  ultimately show ?thesis
    using assms by (auto simp: always_denied_native is_forbidden_ip.simps(2)
        v6_is_loopback_def v6_is_unspecified_def split: if_splits)
qed

text \<open>
  Without an allowlist the parameterised verdicts decide exactly what the flat deny list, the
  loopback flag and the unconditional set decide together, on the dial path and on the resolved path,
  for every address outside the unique-local range.
\<close>

theorem restricted_policy_is_flat_verdict:
  assumes "mode p = Restricted" and "\<And>v. ip = V6 v \<Longrightarrow> \<not> is_ipv6_unique_local v"
  shows "is_forbidden_ip_with_policy ip lb p = (is_always_denied_ip ip \<or> is_forbidden_ip_with ip lb)
    \<and> is_forbidden_resolved_address ip host lb p
      = (is_always_denied_ip ip \<or> is_forbidden_ip_with ip lb)"
proof -
  have "\<not> allows_ip p x" for x using assms(1) by (simp add: allows_ip_def)
  then show ?thesis
    using assms(2) policy_ladder.closed_when_nothing_opens [of p ip lb]
      resolved_ladder.closed_when_nothing_opens [of p host ip lb] embedded_forbidden by metis
qed

theorem restricted_policy_is_flat_verdict_witness:
  "is_forbidden_ip_with_policy (V4 0x0A000001) True default_policy
   \<and> \<not> is_forbidden_ip_with_policy (V4 0x7F000001) True default_policy"
proof -
  have "mode default_policy = Restricted" by (simp add: default_policy_def)
  note eq = restricted_policy_is_flat_verdict [OF this, THEN conjunct1]
  have "is_forbidden_ip_with_policy (V4 0x0A000001) True default_policy"
    by (subst eq) (simp_all add: is_forbidden_ip_with_def is_permitted_loopback_def ipv4_new_def
        is_forbidden_ip.simps v4_private_prefix)
  moreover have "\<not> is_forbidden_ip_with_policy (V4 0x7F000001) True default_policy"
    by (subst eq) (simp_all add: is_forbidden_ip_with_def is_permitted_loopback_def ipv4_new_def
        always_denied_mapped word_fields v4_broadcast_nat)
  ultimately show ?thesis by blast
qed

text \<open>
  C4. DNS rebinding is closed by the conjunction of the two allowlists: when a name that is not an IP
  literal resolves to a forbidden address, the dial is let through only if the operator declared that
  very name, or the address is the literal loopback under its flag, or the address is unique-local.
\<close>

theorem undeclared_name_cannot_reach_forbidden:
  assumes "\<not> is_forbidden_resolved_address ip host lb p" and "is_forbidden_ip ip"
    and "parse_ip_literal host = None"
  shows "allows_host p host \<or> (lb \<and> is_permitted_loopback ip)
    \<or> (\<exists>v. ip = V6 v \<and> is_ipv6_unique_local v)"
proof (cases ip)
  case (V4 a)
  with assms resolved_ladder.allowed_forbidden_V4 [of a host lb p] show ?thesis by auto
next
  case (V6 v)
  with assms resolved_ladder.allowed_forbidden_V6 [of v host lb p]
    resolved_ladder.always_denied_first [of ip host lb p] embedded_forbidden [of v] show ?thesis
    by (metis (no_types, lifting))
qed

theorem undeclared_name_cannot_reach_forbidden_witness:
  "\<not> is_forbidden_resolved_address (V4 0x0A000005) ''vllm.lan'' False lan_policy
   \<and> allows_host lan_policy ''vllm.lan''"
proof -
  have a: "\<not> is_forbidden_resolved_address (V4 0x0A000005) ''vllm.lan'' False lan_policy"
    by (subst is_forbidden_resolved_address.simps)
      (simp add: always_denied_mapped word_fields v4_broadcast_nat allows_ip_def allows_host_def
        lan_policy_def policy_eval)
  have b: "is_forbidden_ip (V4 0x0A000005)" by (simp add: is_forbidden_ip.simps v4_private_prefix)
  have c: "parse_ip_literal ''vllm.lan'' = None"
    by (simp add: parse_ip_literal_def parse_ipv4_all_forms_def parse_ipv4_number_def policy_eval
        is_ascii_digit_def starts_with_def)
  show ?thesis using a undeclared_name_cannot_reach_forbidden [OF a b c] by simp
qed

text \<open>
  The loopback flag opens nothing but the two literal loopback addresses: wherever switching it on
  changes a verdict, the address is \<^verbatim>\<open>127.0.0.1\<close> or \<^verbatim>\<open>::1\<close> itself, never a mapped or translated form.
\<close>

theorem loopback_flag_opens_only_literal_loopback:
  assumes "is_forbidden_ip_with_policy ip False p \<noteq> is_forbidden_ip_with_policy ip True p
    \<or> is_forbidden_resolved_address ip host False p \<noteq> is_forbidden_resolved_address ip host True p"
  shows "ip = V4 0x7F000001 \<or> ip = V6 1"
  using assms policy_ladder.flag_irrelevant_off_loopback [of ip False p True]
    resolved_ladder.flag_irrelevant_off_loopback [of ip host False p True]
  by (cases ip) (auto simp: is_permitted_loopback_def ipv4_new_def v6_is_loopback_def)

theorem loopback_flag_opens_only_literal_loopback_witness:
  "\<exists>ip. is_forbidden_ip_with_policy ip False default_policy
     \<noteq> is_forbidden_ip_with_policy ip True default_policy \<and> (ip = V4 0x7F000001 \<or> ip = V6 1)"
proof -
  have "is_forbidden_ip_with_policy (V4 0x7F000001) False default_policy
      \<noteq> is_forbidden_ip_with_policy (V4 0x7F000001) True default_policy"
    by (simp add: is_forbidden_ip_with_policy.simps [of "V4 a" for a] default_policy_def
        allows_ip_def is_permitted_loopback_def ipv4_new_def is_forbidden_ip.simps word_fields
        always_denied_mapped v4_broadcast_nat)
  with loopback_flag_opens_only_literal_loopback show ?thesis by blast
qed

end
