(* ===== verification/Retry_Policy.thy ===== *)
theory Retry_Policy
  imports Prelude
begin

text \<open>
  Retrying an operation: \<^verbatim>\<open>infrastructure/crawler/retry_policy.rs\<close>. The operation is the argument \<open>operation\<close>, from the
  number of the call to its outcome; the result carries the delays slept, in milliseconds. The only
  multiplier a policy can have is two, and every delay is at most 30000, so the floating-point product
  is exact and is written on integers.
\<close>

datatype retry_error = MaxRetriesExceeded string

record retry_policy_cfg =
  max_attempts :: u32
  base_delay_ms :: nat
  max_delay_ms :: nat
  backoff_multiplier :: nat

definition retry_policy_new :: retry_policy_cfg where
  "retry_policy_new = \<lparr>max_attempts = 3, base_delay_ms = 1000, max_delay_ms = 30000, backoff_multiplier = 2\<rparr>"

definition with_max_attempts :: "u32 \<Rightarrow> retry_policy_cfg" where
  "with_max_attempts n = retry_policy_new\<lparr>max_attempts := n\<rparr>"

text \<open>The counter stays at most \<^verbatim>\<open>max_attempts\<close> and never overflows: a natural number.\<close>

function execute_loop ::
  "retry_policy_cfg \<Rightarrow> (nat \<Rightarrow> string + 'a) \<Rightarrow> nat \<Rightarrow> nat \<Rightarrow> nat list \<Rightarrow> (retry_error + 'a) \<times> nat list" where
  "execute_loop policy operation attempt0 delay slept =
     (let attempt = attempt0 + 1 in
      case operation attempt of
        Inr result \<Rightarrow> (Inr result, slept)
      | Inl error \<Rightarrow>
          if unat (max_attempts policy) \<le> attempt then (Inl (MaxRetriesExceeded error), slept)
          else execute_loop policy operation attempt
                 (min (delay * backoff_multiplier policy) (max_delay_ms policy)) (slept @ [delay]))"
  by pat_completeness auto

termination
  by (relation "measure (\<lambda>(policy, _, attempt, _, _). unat (max_attempts policy) - attempt)") auto

declare execute_loop.simps [simp del]

definition execute_with_retry :: "retry_policy_cfg \<Rightarrow> (nat \<Rightarrow> string + 'a) \<Rightarrow> (retry_error + 'a) \<times> nat list" where
  "execute_with_retry policy operation = execute_loop policy operation 0 (base_delay_ms policy) []"

definition nth_delay :: "nat \<Rightarrow> nat" where
  "nth_delay i = min (1000 * 2 ^ i) 30000"

lemma nth_delay_Suc: "min (nth_delay i * 2) 30000 = nth_delay (Suc i)"
  by (auto simp: nth_delay_def min_def)

lemma execute_fails:
  assumes "policy = with_max_attempts m" "\<forall>j. a < j \<and> j \<le> a + k \<longrightarrow> (\<exists>e. operation j = Inl e)" "a + k < max 1 (unat m)"
  shows "execute_loop policy operation a (nth_delay a) slept =
    execute_loop policy operation (a + k) (nth_delay (a + k)) (slept @ map nth_delay [a..<a + k])"
  using assms(2,3)
proof (induction k arbitrary: a slept)
  case (Suc k)
  obtain e where "operation (Suc a) = Inl e" using Suc.prems(1) by fastforce
  moreover have "\<not> unat (max_attempts policy) \<le> Suc a"
    using Suc.prems(2) assms(1) by (simp add: with_max_attempts_def max_def split: if_splits)
  ultimately have "execute_loop policy operation a (nth_delay a) slept =
      execute_loop policy operation (Suc a) (nth_delay (Suc a)) (slept @ [nth_delay a])"
    using assms(1) nth_delay_Suc [of a]
    by (subst execute_loop.simps) (simp add: with_max_attempts_def retry_policy_new_def)
  also have "\<dots> = execute_loop policy operation (Suc a + k) (nth_delay (Suc a + k))
      ((slept @ [nth_delay a]) @ map nth_delay [Suc a..<Suc a + k])"
    using Suc.prems by (intro Suc.IH) auto
  finally show ?case by (simp add: upt_rec [of a])
qed simp

text \<open>
  An operation is retried until it succeeds or its attempts are used up: when the first \<open>k\<close> calls fail and
  the next succeeds within the attempts, its value is the result; when every call fails the last error is
  reported after exactly the allowed number of calls, one where zero are allowed. The waits in between
  double from one second to the cap of thirty.
\<close>

theorem execute_retries_until_success:
  assumes "\<forall>j. 0 < j \<and> j \<le> k \<longrightarrow> (\<exists>e. operation j = Inl e)" and "k < max 1 (unat m)"
  shows "(\<forall>v. operation (Suc k) = Inr v \<longrightarrow>
            execute_with_retry (with_max_attempts m) operation = (Inr v, map nth_delay [0..<k]))
    \<and> (\<forall>e. Suc k = max 1 (unat m) \<and> operation (Suc k) = Inl e \<longrightarrow>
            execute_with_retry (with_max_attempts m) operation = (Inl (MaxRetriesExceeded e), map nth_delay [0..<k]))"
proof -
  have "execute_with_retry (with_max_attempts m) operation =
      execute_loop (with_max_attempts m) operation k (nth_delay k) (map nth_delay [0..<k])"
    using execute_fails [OF refl, of 0 k operation m "[]"] assms
    by (simp add: execute_with_retry_def nth_delay_def [of 0] with_max_attempts_def retry_policy_new_def)
  then show ?thesis
    by (auto simp: execute_loop.simps [of _ _ k] with_max_attempts_def max_def split: if_splits)
qed

theorem execute_retries_until_success_witness:
  "execute_with_retry (with_max_attempts 3) (\<lambda>n. if n < 3 then Inl ''down'' else Inr n) = (Inr 3, [1000, 2000])
    \<and> execute_with_retry (with_max_attempts 0) (\<lambda>n. Inl ''down'' :: string + nat) = (Inl (MaxRetriesExceeded ''down''), [])"
  using execute_retries_until_success [of 2 "\<lambda>n. if n < 3 then Inl ''down'' else Inr n" 3]
    execute_retries_until_success [of 0 "\<lambda>n. Inl ''down'' :: string + nat" 0]
  by (simp add: nth_delay_def upt_rec)

end
