(* ===== verification/Sitemap_Parser.thy ===== *)
theory Sitemap_Parser
  imports Sitemap_Xml Ssrf_Guard Waf_Engine Retry_Policy
begin

text \<open>
  Fetching a sitemap and the sitemaps it names: the configuration of \<^verbatim>\<open>domain/crawler_port.rs\<close>,
  \<^verbatim>\<open>compression_handler.rs\<close>, \<^verbatim>\<open>memory_manager.rs\<close>, \<^verbatim>\<open>batch_processor.rs\<close> and the fetching half of
  \<^verbatim>\<open>sitemap_parser.rs\<close>. Bodies are strings of bytes. A call of \<open>parse_with_depth\<close> is named by its
  path, the positions of the children from the first sitemap down; the children of an index run
  concurrently over one set of visited URLs, so a call finds there the URLs of its own chain, which were
  entered before it started, and whatever other calls entered by then: \<open>se_seen\<close> says that of each
  path, and the theorems hold for every answer. The log has the requests of all children, also of those
  an early stop would drop. The lock of the visited set is never poisoned, since no code panics
  under it.
\<close>

section \<open>Configuration\<close>

datatype compression_type = NoCompression | Gzip | Deflate | Brotli | Zstd

record sitemap_config =
  sc_gzip_enabled :: bool
  sc_max_depth :: u8
  sc_concurrency :: nat
  sc_max_response_size :: nat
  sc_max_decompressed_size :: nat
  sc_pagination_enabled :: bool
  sc_batch_size :: nat
  sc_compression_types :: "compression_type list"
  sc_url_validation_enabled :: bool
  sc_memory_limit_mb :: nat
  sc_crawl_budget_enabled :: bool

definition sitemap_config_default :: sitemap_config where
  "sitemap_config_default =
     \<lparr>sc_gzip_enabled = True, sc_max_depth = 3, sc_concurrency = 5, sc_max_response_size = 52428800,
      sc_max_decompressed_size = 104857600, sc_pagination_enabled = False, sc_batch_size = 10000,
      sc_compression_types = [Gzip], sc_url_validation_enabled = False, sc_memory_limit_mb = 500,
      sc_crawl_budget_enabled = False\<rparr>"

text \<open>The builder has the same fields, all zero at first; its setters are record updates.\<close>

type_synonym sitemap_config_builder = sitemap_config

definition config_builder :: sitemap_config_builder where
  "config_builder =
     \<lparr>sc_gzip_enabled = False, sc_max_depth = 0, sc_concurrency = 0, sc_max_response_size = 0,
      sc_max_decompressed_size = 0, sc_pagination_enabled = False, sc_batch_size = 0,
      sc_compression_types = [], sc_url_validation_enabled = False, sc_memory_limit_mb = 0,
      sc_crawl_budget_enabled = False\<rparr>"

definition nonzero_or :: "nat \<Rightarrow> nat \<Rightarrow> nat" where
  "nonzero_or n d = (if n = 0 then d else n)"

definition config_build :: "sitemap_config_builder \<Rightarrow> sitemap_config" where
  "config_build b =
     (let defaults = sitemap_config_default in
      \<lparr>sc_gzip_enabled = sc_gzip_enabled b, sc_max_depth = sc_max_depth b, sc_concurrency = sc_concurrency b,
       sc_max_response_size = nonzero_or (sc_max_response_size b) (sc_max_response_size defaults),
       sc_max_decompressed_size = nonzero_or (sc_max_decompressed_size b) (sc_max_decompressed_size defaults),
       sc_pagination_enabled = sc_pagination_enabled b,
       sc_batch_size = nonzero_or (sc_batch_size b) (sc_batch_size defaults),
       sc_compression_types = (if sc_compression_types b = [] then sc_compression_types defaults
                               else sc_compression_types b),
       sc_url_validation_enabled = sc_url_validation_enabled b,
       sc_memory_limit_mb = nonzero_or (sc_memory_limit_mb b) (sc_memory_limit_mb defaults),
       sc_crawl_budget_enabled = sc_crawl_budget_enabled b\<rparr>)"

section \<open>Compression\<close>

datatype compression_error = DecompressionFailed string | SizeLimitExceeded nat

definition compression_display :: "compression_error \<Rightarrow> string" where
  "compression_display e =
     (case e of DecompressionFailed m \<Rightarrow> ''decompression failed: '' @ m
      | SizeLimitExceeded n \<Rightarrow> ''size limit exceeded: '' @ show_dec n @ '' bytes'')"

text \<open>A decoder gives the bytes it can produce and, when the input is broken, its error.\<close>

type_synonym decoder = "compression_type \<Rightarrow> string \<Rightarrow> string \<times> string option"

definition has_magic :: "nat list \<Rightarrow> string \<Rightarrow> bool" where
  "has_magic ns content = starts_with ns (map of_char content)"

definition detect_compression :: "string \<Rightarrow> string \<Rightarrow> compression_type list" where
  "detect_compression content url1 =
     (let formats = (if has_magic [0x1f, 0x8b] content then [Gzip] else []) @
                    (if has_magic [0x28, 0xb5, 0x2f, 0xfd] content \<or> has_magic [0x37, 0xa4, 0x30, 0xec] content
                     then [Zstd] else [])
      in if formats = [] \<and> ends_with ''.br'' (to_lowercase url1) then [Brotli] else formats)"

definition decompress :: "decoder \<Rightarrow> nat \<Rightarrow> compression_type \<Rightarrow> string \<Rightarrow> compression_error + string" where
  "decompress decode max_size format content =
     (case decode format content of
        (out, failure) \<Rightarrow>
          if max_size \<le> length out then Inl (SizeLimitExceeded max_size)
          else (case failure of Some e \<Rightarrow> Inl (DecompressionFailed e) | None \<Rightarrow> Inr out))"

fun decompress_formats ::
  "decoder \<Rightarrow> nat \<Rightarrow> string \<Rightarrow> compression_type list \<Rightarrow> compression_error + string" where
  "decompress_formats decode max_size content [] = Inr content"
| "decompress_formats decode max_size content (f # fs) =
     (if f = NoCompression then decompress_formats decode max_size content fs
      else decompress decode max_size f content)"

definition detect_and_decompress :: "decoder \<Rightarrow> nat \<Rightarrow> string \<Rightarrow> string \<Rightarrow> compression_error + string" where
  "detect_and_decompress decode max_size content url1 =
     (let formats = detect_compression content url1 in
      if formats = [] then Inr content
      else (case decompress_formats decode max_size content formats of
              Inl e \<Rightarrow> Inl e
            | Inr decompressed \<Rightarrow>
                (let nested = detect_compression decompressed url1 in
                 if nested \<noteq> [] then decompress_formats decode max_size decompressed nested
                 else Inr decompressed)))"

section \<open>Memory\<close>

datatype memory_error = MemoryLimit nat | DiskSwapFailed string

definition memory_display :: "memory_error \<Rightarrow> string" where
  "memory_display e =
     (case e of MemoryLimit n \<Rightarrow> ''memory limit exceeded: '' @ show_dec n @ '' MB''
      | DiskSwapFailed m \<Rightarrow> ''disk swap failed: '' @ m)"

record memory_manager =
  mm_memory_limit_mb :: nat
  mm_enable_disk_swap :: bool
  mm_temp_dir :: "string option"

definition memory_manager_new :: memory_manager where
  "memory_manager_new = \<lparr>mm_memory_limit_mb = 500, mm_enable_disk_swap = False, mm_temp_dir = None\<rparr>"

definition with_memory_limit :: "nat \<Rightarrow> memory_manager" where
  "with_memory_limit n = memory_manager_new\<lparr>mm_memory_limit_mb := n\<rparr>"

definition with_disk_swap :: "string \<Rightarrow> memory_manager" where
  "with_disk_swap dir = memory_manager_new\<lparr>mm_enable_disk_swap := True, mm_temp_dir := Some dir\<rparr>"

definition estimated_mb :: "'a list \<Rightarrow> nat" where
  "estimated_mb urls = length urls * 2000 div (1024 * 1024)"

definition ensure_within_budget :: "memory_manager \<Rightarrow> 'a list \<Rightarrow> memory_error + unit" where
  "ensure_within_budget mm urls =
     (if mm_memory_limit_mb mm \<le> estimated_mb urls then Inl (MemoryLimit (estimated_mb urls)) else Inr ())"

text \<open>
  Swapping to disk: \<open>write_file dir name content\<close> is \<open>Some\<close> of the error when a chunk cannot be
  written. The lines of a chunk are the URLs.
\<close>

function swap_chunks ::
  "(string \<Rightarrow> string \<Rightarrow> string \<Rightarrow> string option) \<Rightarrow> string \<Rightarrow> nat \<Rightarrow> string list \<Rightarrow> memory_error + unit" where
  "swap_chunks write_file dir chunk_idx urls =
     (if urls = [] then Inr ()
      else (case write_file dir (''urls_chunk_'' @ show_dec chunk_idx @ ''.txt'')
                   (concat (map (\<lambda>u. u @ [CHR 0x0A]) (take 10000 urls))) of
              Some e \<Rightarrow> Inl (DiskSwapFailed (''failed to write chunk '' @ show_dec chunk_idx @ '': '' @ e))
            | None \<Rightarrow> swap_chunks write_file dir (chunk_idx + 1) (drop 10000 urls)))"
  by pat_completeness auto
termination
  by (relation "measure (\<lambda>(_, _, _, urls). length urls)") auto

declare swap_chunks.simps [simp del]

definition handle_disk_swapping ::
  "(string \<Rightarrow> string \<Rightarrow> string \<Rightarrow> string option) \<Rightarrow> memory_manager \<Rightarrow> string list \<Rightarrow> memory_error + unit" where
  "handle_disk_swapping write_file mm urls =
     (if \<not> mm_enable_disk_swap mm then ensure_within_budget mm urls
      else (case mm_temp_dir mm of
              None \<Rightarrow> Inl (DiskSwapFailed ''temp directory not set'')
            | Some dir \<Rightarrow> swap_chunks write_file dir 0 urls))"

section \<open>Crawl budget\<close>

record batch_processor = max_params_threshold :: nat

definition batch_processor_new :: batch_processor where
  "batch_processor_new = \<lparr>max_params_threshold = 5\<rparr>"

definition filter_parameter_heavy_urls ::
  "'u sitemap_lib \<Rightarrow> batch_processor \<Rightarrow> 'u sitemap_url list \<Rightarrow> 'u sitemap_url list" where
  "filter_parameter_heavy_urls lib bp urls = filter (\<lambda>u. sl_query_pairs lib (sm_url u) \<le> max_params_threshold bp) urls"

fun deduplicate_loop :: "('u sitemap_url \<Rightarrow> string) \<Rightarrow> string set \<Rightarrow> 'u sitemap_url list \<Rightarrow> 'u sitemap_url list" where
  "deduplicate_loop canon_of seen [] = []"
| "deduplicate_loop canon_of seen (u # us) =
     (if canon_of u \<in> seen then deduplicate_loop canon_of seen us
      else u # deduplicate_loop canon_of (insert (canon_of u) seen) us)"

definition deduplicate_urls :: "'u sitemap_lib \<Rightarrow> normalizer \<Rightarrow> 'u sitemap_url list \<Rightarrow> 'u sitemap_url list" where
  "deduplicate_urls lib url_normalize urls =
     deduplicate_loop
       (\<lambda>u. normalize_url (sl_api lib) url_normalize \<lparr>nc_strip_www = True, nc_query_policy = QueryAll\<rparr> (entry_key lib u))
       {} urls"

definition apply_crawl_budget ::
  "'u sitemap_lib \<Rightarrow> normalizer \<Rightarrow> batch_processor \<Rightarrow> sitemap_config \<Rightarrow> 'u sitemap_url list \<Rightarrow> 'u sitemap_url list option" where
  "apply_crawl_budget lib url_normalize bp config urls =
     (if \<not> sc_crawl_budget_enabled config then Some urls
      else sort_by rank_cmp (deduplicate_urls lib url_normalize (filter_parameter_heavy_urls lib bp urls)))"

section \<open>The parser and what it calls\<close>

record sitemap_parser =
  sp_config :: sitemap_config
  sp_max_decompressed :: nat
  sp_memory :: memory_manager
  sp_batch :: batch_processor

definition parser_with_config :: "sitemap_config \<Rightarrow> sitemap_parser" where
  "parser_with_config config =
     \<lparr>sp_config = config, sp_max_decompressed = sc_max_decompressed_size config,
      sp_memory = with_memory_limit (sc_memory_limit_mb config), sp_batch = batch_processor_new\<rparr>"

record sitemap_response =
  sr_status :: u16
  sr_content_type :: string
  sr_chunks :: "(string + string) list"

record 'u sitemap_env =
  se_lib :: "'u sitemap_lib"
  se_normalize :: normalizer
  se_entry_guard :: "string option"
  se_url_error :: "string \<Rightarrow> string"
  se_show_ip :: "ip_addr \<Rightarrow> string"
  se_status_text :: "u16 \<Rightarrow> string"
  se_decode :: decoder
  se_write :: "string \<Rightarrow> string \<Rightarrow> string \<Rightarrow> string option"
  se_utf8_lossy :: "string \<Rightarrow> string"
  se_find_iter :: "string \<Rightarrow> ac_match list"
  se_high_entropy :: "string \<Rightarrow> bool"
  se_reader :: "string \<Rightarrow> (string + xml_event) list"
  se_fetch :: "nat list \<Rightarrow> string \<Rightarrow> nat \<Rightarrow> string + sitemap_response"
  se_seen :: "nat list \<Rightarrow> string \<Rightarrow> bool"

definition forbidden_literal_display :: "(ip_addr \<Rightarrow> string) \<Rightarrow> forbidden_literal \<Rightarrow> string" where
  "forbidden_literal_display show_ip r =
     ''SSRF detectado: la IP '' @ show_ip (fl_ip r) @ '' del host '' @ [CHR 0x27] @ fl_host r @ [CHR 0x27] @ '' est'' @
     [CHR 0xE1] @ '' prohibida (acceso a red interna/cloud metadata bloqueado)''"

definition retry_display :: "retry_error \<Rightarrow> string" where
  "retry_display e = (case e of MaxRetriesExceeded m \<Rightarrow> ''max retries exceeded: '' @ m)"

definition validate_response :: "(u16 \<Rightarrow> string) \<Rightarrow> u16 \<Rightarrow> string \<Rightarrow> string \<Rightarrow> sitemap_error + unit" where
  "validate_response status_text st ct url1 =
     (if \<not> (200 \<le> st \<and> st \<le> 299) then Inl (HttpError st (''server returned '' @ status_text st))
      else if ct = [] \<or> contains_str ''application/xml'' ct \<or> contains_str ''text/xml'' ct \<or>
              contains_str ''application/xhtml+xml'' ct \<or> ends_with ''.xml'' url1 \<or> ends_with ''.xml.gz'' url1
      then Inr ()
      else Inl (InvalidContentType ct))"

fun read_body_chunks :: "nat \<Rightarrow> (string + string) list \<Rightarrow> string \<Rightarrow> sitemap_error + string" where
  "read_body_chunks max_size [] raw = Inr raw"
| "read_body_chunks max_size (Inl e # chunks) raw = Inl (HttpError 0 e)"
| "read_body_chunks max_size (Inr chunk # chunks) raw =
     (if max_size < length raw + length chunk then Inl (ResponseTooLarge max_size)
      else read_body_chunks max_size chunks (raw @ chunk))"

definition waf_challenge_error ::
  "'u sitemap_env \<Rightarrow> string \<Rightarrow> string \<Rightarrow> u16 \<Rightarrow> string \<Rightarrow> sitemap_error option" where
  "waf_challenge_error env body url1 st ct =
     (let ctx = \<lparr>ctx_status = Some st, content_type = (if ct = [] then None else Some ct), headers = [], ignore_waf = False\<rparr>;
          verdict = inspect (se_find_iter env) (se_high_entropy env) (se_utf8_lossy env body) ctx
      in if is_blocked verdict then Some (WafChallenge url1 (evidence_chain verdict)) else None)"

section \<open>Index and document\<close>

definition enforce_aggregate_budget :: "memory_manager \<Rightarrow> 'a list \<Rightarrow> sitemap_error + unit" where
  "enforce_aggregate_budget mm all_urls =
     (case ensure_within_budget mm all_urls of
        Inr _ \<Rightarrow> Inr ()
      | Inl (MemoryLimit n) \<Rightarrow> Inl (MemoryLimitExceeded n)
      | Inl (DiskSwapFailed m) \<Rightarrow> Inl (HttpError 0 (''memory management failed: '' @ m)))"

type_synonym 'u failures = "(string \<times> sitemap_error) list"

fun index_loop ::
  "memory_manager \<Rightarrow> (string \<times> 'u sitemap_url list outcome) list \<Rightarrow> 'u sitemap_url list \<Rightarrow> 'u failures
    \<Rightarrow> ('u sitemap_url list \<times> 'u failures) outcome" where
  "index_loop mm [] all_urls failures = Some (Inr (all_urls, failures))"
| "index_loop mm ((u, None) # results) all_urls failures = None"
| "index_loop mm ((u, Some (Inr urls)) # results) all_urls failures =
     (case enforce_aggregate_budget mm (all_urls @ urls) of
        Inl e \<Rightarrow> Some (Inl e)
      | Inr _ \<Rightarrow> index_loop mm results (all_urls @ urls) failures)"
| "index_loop mm ((u, Some (Inl e)) # results) all_urls failures =
     index_loop mm results all_urls (failures @ [(u, e)])"

fun aborts_index :: "sitemap_error \<Rightarrow> bool" where
  "aborts_index (WafChallenge u p) = True"
| "aborts_index (SsrfLiteralRejected m) = True"
| "aborts_index e = False"

definition index_verdict ::
  "'u sitemap_lib \<Rightarrow> 'u sitemap_url list \<Rightarrow> 'u failures \<Rightarrow> 'u sitemap_url list outcome" where
  "index_verdict lib all_urls failures =
     (case List.find (\<lambda>(_, e). aborts_index e) failures of
        Some (_, e) \<Rightarrow> Some (Inl e)
      | None \<Rightarrow>
          if all_urls = []
          then (let real_failures = filter (\<lambda>(_, e). e \<noteq> NoUrlsFound) failures in
                if real_failures = [] then Some (Inl NoUrlsFound)
                else Some (Inl (AllChildrenFailed (length real_failures)
                       (join_str ''; '' (map (\<lambda>(u, e). u @ '': '' @ sitemap_display e) real_failures)))))
          else map_option Inr (dedup_and_sort_sitemap_urls lib all_urls))"

text \<open>\<open>child\<close> is the call for one child: its position and its URL, to its outcome and its requests.\<close>

type_synonym request_log = "(nat list \<times> string) list"

definition parse_sitemap_index ::
  "sitemap_parser \<Rightarrow> 'u sitemap_env \<Rightarrow> (nat \<Rightarrow> string \<Rightarrow> 'u sitemap_url list outcome \<times> request_log)
    \<Rightarrow> 'u sitemap_url list \<Rightarrow> 'u sitemap_url list outcome \<times> request_log" where
  "parse_sitemap_index parser env child sitemap_urls =
     (let runs = map (\<lambda>(i, u). (u, child i u)) (enumerate 0 (map (entry_key (se_lib env)) sitemap_urls))
      in (case index_loop (sp_memory parser) (map (\<lambda>(u, run). (u, fst run)) runs) [] [] of
            None \<Rightarrow> None
          | Some (Inl e) \<Rightarrow> Some (Inl e)
          | Some (Inr (all_urls, failures)) \<Rightarrow> index_verdict (se_lib env) all_urls failures,
          concat (map (\<lambda>(u, run). snd run) runs)))"

definition parse_decompressed_body ::
  "sitemap_parser \<Rightarrow> 'u sitemap_env \<Rightarrow> (nat \<Rightarrow> string \<Rightarrow> 'u sitemap_url list outcome \<times> request_log)
    \<Rightarrow> string \<Rightarrow> string \<Rightarrow> 'u \<Rightarrow> u16 \<Rightarrow> string \<Rightarrow> 'u sitemap_url list outcome \<times> request_log" where
  "parse_decompressed_body parser env child body url1 base_url st ct =
     (case waf_challenge_error env body url1 st ct of
        Some e \<Rightarrow> (Some (Inl e), [])
      | None \<Rightarrow>
          if body = [] then (Some (Inl NoUrlsFound), [])
          else (case parse_xml_sitemap (se_lib env) (se_reader env body) base_url of
                  None \<Rightarrow> (None, [])
                | Some (Inl e) \<Rightarrow> (Some (Inl e), [])
                | Some (Inr (urls, is_index)) \<Rightarrow>
                    (case handle_disk_swapping (se_write env) (sp_memory parser) (map (entry_key (se_lib env)) urls) of
                       Inl e \<Rightarrow> (Some (Inl (HttpError 0 (''memory management failed: '' @ memory_display e))), [])
                     | Inr _ \<Rightarrow>
                         if is_index then parse_sitemap_index parser env child urls
                         else (map_option Inr (apply_crawl_budget (se_lib env) (se_normalize env) (sp_batch parser)
                                 (sp_config parser) urls), []))))"

text \<open>
  The depth is the \<^verbatim>\<open>u8\<close> of the configuration as a natural number: it is tested for zero before every
  decrement. \<open>ancestors\<close> are the URLs of the calls above this one.
\<close>

primrec parse_with_depth ::
  "sitemap_parser \<Rightarrow> 'u sitemap_env \<Rightarrow> nat \<Rightarrow> nat list \<Rightarrow> string list \<Rightarrow> string
    \<Rightarrow> 'u sitemap_url list outcome \<times> request_log" where
  "parse_with_depth parser env 0 = (\<lambda>path ancestors url1. (Some (Inl MaxDepthExceeded), []))"
| "parse_with_depth parser env (Suc depth) = (\<lambda>path ancestors url1.
     (case api_parse (sl_api (se_lib env)) url1 of
        None \<Rightarrow> (Some (Inl (InvalidUrl (se_url_error env url1))), [])
      | Some base_url \<Rightarrow>
          if url_text (se_lib env) base_url \<in> set ancestors \<or> se_seen env path (url_text (se_lib env) base_url)
          then (Some (Inl InvalidStructure), [])
          else (case reject_forbidden_literal_url (se_entry_guard env) (api_host_str (sl_api (se_lib env)) base_url) of
                  Inl rejection \<Rightarrow>
                    (Some (Inl (SsrfLiteralRejected (forbidden_literal_display (se_show_ip env) rejection))), [])
                | Inr _ \<Rightarrow>
                    (case fst (execute_with_retry retry_policy_new (se_fetch env path url1)) of
                       Inl e \<Rightarrow> (Some (Inl (HttpError 0 (retry_display e))), [(path, url1)])
                     | Inr response \<Rightarrow>
                         (case validate_response (se_status_text env) (sr_status response) (sr_content_type response) url1 of
                            Inl e \<Rightarrow> (Some (Inl e), [(path, url1)])
                          | Inr _ \<Rightarrow>
                              (case read_body_chunks (sc_max_response_size (sp_config parser)) (sr_chunks response) [] of
                                 Inl e \<Rightarrow> (Some (Inl e), [(path, url1)])
                               | Inr raw \<Rightarrow>
                                   (case detect_and_decompress (se_decode env) (sp_max_decompressed parser) raw url1 of
                                      Inl e \<Rightarrow> (Some (Inl (DecompressionError (compression_display e))), [(path, url1)])
                                    | Inr body \<Rightarrow>
                                        (let (outcome, reqs) = parse_decompressed_body parser env
                                               (\<lambda>i child_url. parse_with_depth parser env depth (path @ [i])
                                                  (url_text (se_lib env) base_url # ancestors) child_url)
                                               body url1 base_url (sr_status response) (sr_content_type response)
                                         in (outcome, (path, url1) # reqs)))))))))"

definition parse_from_url ::
  "sitemap_parser \<Rightarrow> 'u sitemap_env \<Rightarrow> string \<Rightarrow> 'u sitemap_url list outcome \<times> request_log" where
  "parse_from_url parser env sitemap_url1 =
     parse_with_depth parser env (unat (sc_max_depth (sp_config parser))) [] [] sitemap_url1"

section \<open>Budgets\<close>

definition permitted :: "'u sitemap_env \<Rightarrow> string \<Rightarrow> bool" where
  "permitted env u =
     (case api_parse (sl_api (se_lib env)) u of
        None \<Rightarrow> False
      | Some b \<Rightarrow> reject_forbidden_literal_url (se_entry_guard env) (api_host_str (sl_api (se_lib env)) b) = Inr ())"

definition target :: "'u sitemap_env \<Rightarrow> string \<Rightarrow> string option" where
  "target env u = map_option (url_text (se_lib env)) (api_parse (sl_api (se_lib env)) u)"

definition index_bound :: "memory_manager \<Rightarrow> nat" where
  "index_bound mm = mm_memory_limit_mb mm * (1024 * 1024) div 2000"

definition tree_bound :: "memory_manager \<Rightarrow> nat \<Rightarrow> nat" where
  "tree_bound mm depth = (\<Sum>k<depth. index_bound mm ^ k)"

abbreviation in_budget :: "memory_manager \<Rightarrow> 'a list \<Rightarrow> bool" where
  "in_budget mm us \<equiv> ensure_within_budget mm us = Inr ()"

lemma in_budget_iff: "in_budget mm us \<longleftrightarrow> estimated_mb us < mm_memory_limit_mb mm"
  by (auto simp: ensure_within_budget_def)

lemma in_budget_mono: "in_budget mm us \<Longrightarrow> length vs \<le> length us \<Longrightarrow> in_budget mm vs"
  unfolding in_budget_iff estimated_mb_def
  by (meson div_le_mono le_less_trans mult_le_mono1)

lemma in_budget_length: "in_budget mm us \<Longrightarrow> length us \<le> index_bound mm"
proof -
  assume "in_budget mm us"
  then have "length us * 2000 < mm_memory_limit_mb mm * (1024 * 1024)"
    unfolding in_budget_iff estimated_mb_def by (simp add: div_less_iff_less_mult)
  then show ?thesis by (simp add: index_bound_def less_eq_div_iff_mult_less_eq)
qed

lemma tree_bound_Suc: "tree_bound mm (Suc d) = 1 + index_bound mm * tree_bound mm d"
  by (simp add: tree_bound_def sum.lessThan_Suc_shift sum_distrib_left del: sum.lessThan_Suc)

lemma length_concat_le:
  "(\<And>x. x \<in> set xs \<Longrightarrow> length (f x) \<le> b) \<Longrightarrow> length (concat (map f xs)) \<le> length xs * b"
  by (induction xs) (auto intro!: add_mono)

lemma deduplicate_loop_sub: "set (deduplicate_loop c seen us) \<subseteq> set us" "length (deduplicate_loop c seen us) \<le> length us"
  by (induction us arbitrary: seen) (auto intro: le_SucI)

lemma deduplicate_loop_distinct: "distinct (map f us) \<Longrightarrow> distinct (map f (deduplicate_loop c seen us))"
proof (induction us arbitrary: seen)
  case (Cons u us)
  then show ?case using deduplicate_loop_sub(1) [of c _ us] by (fastforce simp: image_iff)
qed simp

lemma apply_crawl_budget_keeps:
  assumes "apply_crawl_budget lib nz bp config us = Some ys" "distinct (map (entry_key lib) us)"
  shows "distinct (map (entry_key lib) ys)" "length ys \<le> length us" "set ys \<subseteq> set us"
proof -
  have "distinct (map (entry_key lib) ys) \<and> length ys \<le> length us \<and> set ys \<subseteq> set us"
  proof (cases "sc_crawl_budget_enabled config")
    case True
    let ?ds = "deduplicate_urls lib nz (filter_parameter_heavy_urls lib bp us)"
    have s: "sort_by rank_cmp ?ds = Some ys" using assms(1) True by (simp add: apply_crawl_budget_def)
    have "distinct (map (entry_key lib) ?ds)"
      using assms(2) by (simp add: deduplicate_urls_def filter_parameter_heavy_urls_def deduplicate_loop_distinct distinct_map_filter)
    moreover have "length ?ds \<le> length us" "set ?ds \<subseteq> set us"
      using deduplicate_loop_sub by (fastforce simp: deduplicate_urls_def filter_parameter_heavy_urls_def
        intro: order.trans length_filter_le)+
    ultimately show ?thesis
      using sort_by_set [OF s] sort_by_length [OF s] distinct_map_perm by simp
  qed (use assms in \<open>simp add: apply_crawl_budget_def\<close>)
  then show "distinct (map (entry_key lib) ys)" "length ys \<le> length us" "set ys \<subseteq> set us" by blast+
qed

lemma index_loop_within:
  "index_loop mm results all_urls failures = Some (Inr (us, fs)) \<Longrightarrow> us = all_urls \<or> in_budget mm us"
proof (induction mm results all_urls failures rule: index_loop.induct)
  case (3 mm u urls results all_urls failures)
  then show ?case
    by (auto simp: enforce_aggregate_budget_def split: sum.splits memory_error.splits)
qed auto

lemma index_verdict_result:
  assumes "index_verdict lib all_urls failures = Some (Inr us)"
  shows "dedup_and_sort_sitemap_urls lib all_urls = Some us" "all_urls \<noteq> []"
    "List.find (\<lambda>(_, e). aborts_index e) failures = None"
  using assms by (auto simp: index_verdict_def Let_def split: option.splits if_splits)

lemma parse_sitemap_index_result:
  assumes "fst (parse_sitemap_index parser env child sitemap_urls) = Some (Inr us)"
  shows "in_budget (sp_memory parser) us" "distinct (map (entry_key (se_lib env)) us)" "us \<noteq> []"
proof -
  obtain all_urls fs results where loop: "index_loop (sp_memory parser) results [] [] = Some (Inr (all_urls, fs))"
      and v: "index_verdict (se_lib env) all_urls fs = Some (Inr us)"
    using assms by (auto simp: parse_sitemap_index_def Let_def split: option.splits sum.splits)
  note d = index_verdict_result(1) [OF v]
  show "us \<noteq> []" using dedup_and_sort_Nil [OF d] index_verdict_result(2) [OF v] by simp
  show "distinct (map (entry_key (se_lib env)) us)" by (rule dedup_and_sort_distinct [OF d])
  have "in_budget (sp_memory parser) all_urls"
    using index_loop_within [OF loop] index_verdict_result(2) [OF v] by simp
  then show "in_budget (sp_memory parser) us" using dedup_and_sort_length [OF d] by (rule in_budget_mono)
qed

lemma index_log_eq:
  "snd (parse_sitemap_index parser env child us)
     = concat (map (\<lambda>(i, u). snd (child i u)) (enumerate 0 (map (entry_key (se_lib env)) us)))"
  by (simp add: parse_sitemap_index_def Let_def comp_def case_prod_unfold)

lemma index_log:
  "(p, u) \<in> set (snd (parse_sitemap_index parser env child us)) \<longleftrightarrow>
     (\<exists>i < length us. (p, u) \<in> set (snd (child i (entry_key (se_lib env) (us ! i)))))"
proof -
  have "(i, v) \<in> set (enumerate 0 (map (entry_key (se_lib env)) us)) \<longleftrightarrow>
      i < length us \<and> v = entry_key (se_lib env) (us ! i)" for i v
    by (auto simp: in_set_enumerate_eq)
  then show ?thesis unfolding index_log_eq by auto
qed

lemma index_log_length:
  assumes "\<And>i u. length (snd (child i u)) \<le> b"
  shows "length (snd (parse_sitemap_index parser env child us)) \<le> length us * b"
  using length_concat_le [of "enumerate 0 (map (entry_key (se_lib env)) us)" "\<lambda>(i, u). snd (child i u)" b] assms
  by (simp add: index_log_eq length_enumerate split_beta)

section \<open>The contract of a call\<close>

text \<open>
  What a call with \<open>depth\<close> levels left promises to the index that started it: where its requests go,
  how deep and how many they are, that no URL is requested again below itself, and what a result looks
  like.
\<close>

locale sitemap_call =
  fixes parser :: sitemap_parser and env :: "'u sitemap_env" and depth :: nat
    and call :: "nat list \<Rightarrow> string list \<Rightarrow> string \<Rightarrow> 'u sitemap_url list outcome \<times> request_log"
  assumes no_swap: "\<not> mm_enable_disk_swap (sp_memory parser)"
    and call_permitted: "(p, u) \<in> set (snd (call path ancestors url1)) \<Longrightarrow> permitted env u"
    and call_below: "(p, u) \<in> set (snd (call path ancestors url1)) \<Longrightarrow> \<exists>s. p = path @ s \<and> length s < depth"
    and call_fresh: "(p, u) \<in> set (snd (call path ancestors url1)) \<Longrightarrow> target env u \<notin> Some ` set ancestors"
    and call_chain: "\<lbrakk>(p, u) \<in> set (snd (call path ancestors url1)); (q, v) \<in> set (snd (call path ancestors url1));
      strict_prefix p q\<rbrakk> \<Longrightarrow> target env u \<noteq> target env v"
    and call_count: "length (snd (call path ancestors url1)) \<le> tree_bound (sp_memory parser) depth"
    and call_result: "fst (call path ancestors url1) = Some (Inr us) \<Longrightarrow>
      in_budget (sp_memory parser) us \<and> distinct (map (entry_key (se_lib env)) us)"
begin

abbreviation children :: "nat list \<Rightarrow> string list \<Rightarrow> nat \<Rightarrow> string \<Rightarrow> 'u sitemap_url list outcome \<times> request_log" where
  "children path ancestors \<equiv> \<lambda>i child_url. call (path @ [i]) ancestors child_url"

lemma index_permitted:
  "(p, u) \<in> set (snd (parse_sitemap_index parser env (children path ancestors) us)) \<Longrightarrow>
     permitted env u \<and> (\<exists>i s. p = path @ i # s \<and> length s < depth) \<and> target env u \<notin> Some ` set ancestors"
proof -
  assume "(p, u) \<in> set (snd (parse_sitemap_index parser env (children path ancestors) us))"
  then obtain i url1 where i: "(p, u) \<in> set (snd (call (path @ [i]) ancestors url1))" by (auto simp: index_log)
  from call_below [OF this] have "\<exists>s. p = path @ i # s \<and> length s < depth" by auto
  with call_permitted [OF i] call_fresh [OF i] show ?thesis by blast
qed

lemma index_chain:
  assumes "(p, u) \<in> set (snd (parse_sitemap_index parser env (children path ancestors) us))"
    and "(q, v) \<in> set (snd (parse_sitemap_index parser env (children path ancestors) us))"
    and "strict_prefix p q"
  shows "target env u \<noteq> target env v"
proof -
  let ?reqs = "\<lambda>i. set (snd (call (path @ [i]) ancestors (entry_key (se_lib env) (us ! i))))"
  obtain i j where i: "(p, u) \<in> ?reqs i" and j: "(q, v) \<in> ?reqs j"
    using assms(1,2) by (auto simp: index_log)
  from call_below [OF i] call_below [OF j] have "j = i"
    using assms(3) by (auto simp: strict_prefix_def prefix_def)
  with call_chain [OF i _ assms(3)] j show ?thesis by simp
qed

lemma index_count:
  assumes "in_budget (sp_memory parser) (map (entry_key (se_lib env)) us)"
  shows "length (snd (parse_sitemap_index parser env (children path ancestors) us))
    \<le> index_bound (sp_memory parser) * tree_bound (sp_memory parser) depth"
proof -
  have "length (snd (parse_sitemap_index parser env (children path ancestors) us))
      \<le> length us * tree_bound (sp_memory parser) depth"
    by (rule index_log_length) (rule call_count)
  also have "\<dots> \<le> index_bound (sp_memory parser) * tree_bound (sp_memory parser) depth"
    using in_budget_length [OF assms] by simp
  finally show ?thesis .
qed

text \<open>A body is an error, a document without requests, or an index within the budget.\<close>

lemma body_cases:
  obtains (error) e where "parse_decompressed_body parser env child body url1 b st ct = (Some (Inl e), [])"
  | (unsorted) "parse_decompressed_body parser env child body url1 b st ct = (None, [])"
  | (entries) us where "parse_decompressed_body parser env child body url1 b st ct = (Some (Inr us), [])"
      "in_budget (sp_memory parser) us" "distinct (map (entry_key (se_lib env)) us)"
  | (index) us where "parse_decompressed_body parser env child body url1 b st ct = parse_sitemap_index parser env child us"
      "in_budget (sp_memory parser) (map (entry_key (se_lib env)) us)"
proof -
  let ?r = "parse_decompressed_body parser env child body url1 b st ct" and ?keys = "map (entry_key (se_lib env))"
  show thesis
  proof (cases "\<exists>urls idx. waf_challenge_error env body url1 st ct = None \<and> body \<noteq> [] \<and>
      parse_xml_sitemap (se_lib env) (se_reader env body) b = Some (Inr (urls, idx)) \<and> in_budget (sp_memory parser) (?keys urls)")
    case False
    then have "(\<exists>e. ?r = (Some (Inl e), [])) \<or> ?r = (None, [])"
      using no_swap by (auto simp: parse_decompressed_body_def handle_disk_swapping_def split: option.split sum.split)
    then show thesis using error unsorted by blast
  next
    case True
    then obtain urls idx where xml: "parse_xml_sitemap (se_lib env) (se_reader env body) b = Some (Inr (urls, idx))"
        and inb: "in_budget (sp_memory parser) (?keys urls)"
        and r: "?r = (if idx then parse_sitemap_index parser env child urls
          else (map_option Inr (apply_crawl_budget (se_lib env) (se_normalize env) (sp_batch parser) (sp_config parser) urls), []))"
      using no_swap by (auto simp: parse_decompressed_body_def handle_disk_swapping_def)
    have distinct: "distinct (?keys urls)"
      using xml by (auto simp: parse_xml_sitemap_def split: sum.splits if_splits intro: dedup_and_sort_distinct)
    show thesis
    proof (cases "apply_crawl_budget (se_lib env) (se_normalize env) (sp_batch parser) (sp_config parser) urls")
      case None
      then show thesis using index [OF _ inb] unsorted r by (cases idx) simp_all
    next
      case (Some us)
      note keep = apply_crawl_budget_keeps [OF Some distinct]
      have "in_budget (sp_memory parser) us" using in_budget_mono [OF inb] keep(2) by simp
      then show thesis using index [OF _ inb] entries [of us] r Some keep(1) by (cases idx) simp_all
    qed
  qed
qed

lemma body_log:
  assumes "parse_decompressed_body parser env (children path ancestors) body url1 b st ct = (outcome, reqs)"
  shows "(p, u) \<in> set reqs \<Longrightarrow> permitted env u"
    and "(p, u) \<in> set reqs \<Longrightarrow> \<exists>i s. p = path @ i # s \<and> length s < depth"
    and "(p, u) \<in> set reqs \<Longrightarrow> target env u \<notin> Some ` set ancestors"
    and "\<lbrakk>(p, u) \<in> set reqs; (q, v) \<in> set reqs; strict_prefix p q\<rbrakk> \<Longrightarrow> target env u \<noteq> target env v"
    and "length reqs \<le> index_bound (sp_memory parser) * tree_bound (sp_memory parser) depth"
    and "outcome = Some (Inr us) \<Longrightarrow> in_budget (sp_memory parser) us \<and> distinct (map (entry_key (se_lib env)) us)"
proof -
  consider (none) "reqs = []" "\<And>us. outcome = Some (Inr us) \<Longrightarrow>
        in_budget (sp_memory parser) us \<and> distinct (map (entry_key (se_lib env)) us)"
    | (index) ws where "reqs = snd (parse_sitemap_index parser env (children path ancestors) ws)"
        "outcome = fst (parse_sitemap_index parser env (children path ancestors) ws)"
        "in_budget (sp_memory parser) (map (entry_key (se_lib env)) ws)"
  proof (cases rule: body_cases [of "children path ancestors" body url1 b st ct])
    case (error e)
    show ?thesis by (rule that(1)) (use assms error in auto)
  next
    case unsorted
    show ?thesis by (rule that(1)) (use assms unsorted in auto)
  next
    case (entries us)
    show ?thesis by (rule that(1)) (use assms entries in auto)
  next
    case (index ws)
    with assms have run: "parse_sitemap_index parser env (children path ancestors) ws = (outcome, reqs)" by simp
    show ?thesis by (rule that(2) [of ws]) (simp_all add: run index(2))
  qed
  note kinds = this
  have below: "permitted env u \<and> (\<exists>i s. p = path @ i # s \<and> length s < depth) \<and> target env u \<notin> Some ` set ancestors"
    if "(p, u) \<in> set reqs"
    using that index_permitted [of p u path ancestors] by (cases rule: kinds) simp_all
  show "(p, u) \<in> set reqs \<Longrightarrow> permitted env u" "(p, u) \<in> set reqs \<Longrightarrow> \<exists>i s. p = path @ i # s \<and> length s < depth"
    "(p, u) \<in> set reqs \<Longrightarrow> target env u \<notin> Some ` set ancestors"
    using below by blast+
  show "target env u \<noteq> target env v" if "(p, u) \<in> set reqs" "(q, v) \<in> set reqs" "strict_prefix p q"
    using that index_chain [of p u path ancestors _ q v] by (cases rule: kinds) simp_all
  show "length reqs \<le> index_bound (sp_memory parser) * tree_bound (sp_memory parser) depth"
    using index_count by (cases rule: kinds) simp_all
  show "in_budget (sp_memory parser) us \<and> distinct (map (entry_key (se_lib env)) us)" if "outcome = Some (Inr us)"
    using that parse_sitemap_index_result [of parser env "children path ancestors"] by (cases rule: kinds) simp_all
qed

end

section \<open>The recursion keeps the contract\<close>

lemma parse_with_depth_cases:
  obtains (refused) e where "parse_with_depth parser env (Suc d) path ancestors url1 = (Some (Inl e), [])"
  | (failed) e where "parse_with_depth parser env (Suc d) path ancestors url1 = (Some (Inl e), [(path, url1)])"
      "permitted env url1" "target env url1 \<notin> Some ` set ancestors"
  | (read) t b body st ct outcome reqs where "target env url1 = Some t" "t \<notin> set ancestors" "permitted env url1"
      "parse_decompressed_body parser env (\<lambda>i u. parse_with_depth parser env d (path @ [i]) (t # ancestors) u)
         body url1 b st ct = (outcome, reqs)"
      "parse_with_depth parser env (Suc d) path ancestors url1 = (outcome, (path, url1) # reqs)"
proof (cases "permitted env url1 \<and> target env url1 \<notin> Some ` set ancestors \<and> \<not> se_seen env path (the (target env url1))")
  case False
  then have "\<exists>e. parse_with_depth parser env (Suc d) path ancestors url1 = (Some (Inl e), [])"
    by (auto simp: permitted_def target_def split: option.splits sum.splits)
  then show thesis using refused by blast
next
  case ok: True
  then obtain b where b: "api_parse (sl_api (se_lib env)) url1 = Some b"
      and guard: "reject_forbidden_literal_url (se_entry_guard env) (api_host_str (sl_api (se_lib env)) b) = Inr ()"
    by (auto simp: permitted_def split: option.splits)
  have t: "target env url1 = Some (url_text (se_lib env) b)" by (simp add: target_def b)
  with ok have new: "url_text (se_lib env) b \<notin> set ancestors" "\<not> se_seen env path (url_text (se_lib env) b)" by auto
  let ?run = "\<lambda>body st ct. parse_decompressed_body parser env
      (\<lambda>i u. parse_with_depth parser env d (path @ [i]) (url_text (se_lib env) b # ancestors) u) body url1 b st ct"
  have "(\<exists>e. parse_with_depth parser env (Suc d) path ancestors url1 = (Some (Inl e), [(path, url1)])) \<or>
    (\<exists>body st ct. parse_with_depth parser env (Suc d) path ancestors url1
       = (fst (?run body st ct), (path, url1) # snd (?run body st ct)))"
    by (simp add: b guard new split: sum.split) (auto simp: case_prod_unfold)
  then show thesis using failed read [OF t new(1)] ok by (metis prod.collapse)
qed

lemma sitemap_call_Suc:
  assumes "sitemap_call parser env d (parse_with_depth parser env d)"
  shows "sitemap_call parser env (Suc d) (parse_with_depth parser env (Suc d))"
proof
  note body = sitemap_call.body_log [OF assms]
  show "\<not> mm_enable_disk_swap (sp_memory parser)" by (rule sitemap_call.no_swap [OF assms])
  fix path ancestors url1
  let ?call = "parse_with_depth parser env (Suc d) path ancestors url1"
  show "length (snd ?call) \<le> tree_bound (sp_memory parser) (Suc d)"
    by (cases rule: parse_with_depth_cases [of parser env d path ancestors url1]) (auto simp: tree_bound_Suc dest: body(5))
  show "in_budget (sp_memory parser) us \<and> distinct (map (entry_key (se_lib env)) us)" if "fst ?call = Some (Inr us)" for us
    using that by (cases rule: parse_with_depth_cases [of parser env d path ancestors url1]) (auto dest: body(6))
  fix p u assume pu: "(p, u) \<in> set (snd ?call)"
  show "permitted env u" using pu
    by (cases rule: parse_with_depth_cases [of parser env d path ancestors url1]) (auto dest: body(1))
  show "\<exists>s. p = path @ s \<and> length s < Suc d" using pu
    by (cases rule: parse_with_depth_cases [of parser env d path ancestors url1]) (fastforce dest: body(2))+
  show "target env u \<notin> Some ` set ancestors" using pu
    by (cases rule: parse_with_depth_cases [of parser env d path ancestors url1]) (fastforce dest: body(3))+
  fix q v assume qv: "(q, v) \<in> set (snd ?call)" and pq: "strict_prefix p q"
  show "target env u \<noteq> target env v"
  proof (cases rule: parse_with_depth_cases [of parser env d path ancestors url1])
    case (read t b body1 st ct outcome reqs)
    have "q \<noteq> path" if "(p, u) \<in> set reqs" using body(2) [OF read(4) that] pq by (auto simp: strict_prefix_def prefix_def)
    moreover have "(q, v) \<in> set reqs" if "(p, u) = (path, url1)" using that qv pq read(5) by auto
    ultimately show ?thesis
      using pu qv pq read(1,5) body(3) [OF read(4)] body(4) [OF read(4)] by (fastforce dest: body(3) [OF read(4)])
  qed (use pu qv pq in auto)
qed

lemma sitemap_call_tree:
  "\<not> mm_enable_disk_swap (sp_memory parser) \<Longrightarrow> sitemap_call parser env d (parse_with_depth parser env d)"
proof (induction d)
  case 0
  then show ?case by unfold_locales auto
next
  case (Suc d)
  then show ?case by (blast intro: sitemap_call_Suc)
qed

interpretation tree: sitemap_call "parser_with_config config" env d "parse_with_depth (parser_with_config config) env d"
  for config env d
  by (rule sitemap_call_tree) (simp add: parser_with_config_def with_memory_limit_def memory_manager_new_def)

section \<open>Requests and results of a parse\<close>

text \<open>
  C30. Guard of the sitemap chain: whatever the servers answer and however the concurrent children
  interleave, every request of a parse, for the given sitemap or for one that an index at any level
  names, goes to a URL whose host passed the literal-address guard.
\<close>

theorem sitemap_requests_are_guarded:
  "list_all (\<lambda>(p, u). permitted env u) (snd (parse_from_url (parser_with_config config) env url1))"
  using tree.call_permitted unfolding parse_from_url_def list_all_iff by fast

text \<open>
  A parse is bounded: an index has fewer entries than the memory limit pays for, the nesting is at
  most the configured depth, and so a parse sends requests for at most \<open>1 + B + B^2 + \<dots>\<close> sitemaps, with
  one term per level. A loop among sitemaps cannot make it longer.
\<close>

theorem sitemap_requests_are_bounded:
  "length (snd (parse_from_url (parser_with_config config) env url1))
     \<le> (\<Sum>k<unat (sc_max_depth config). (sc_memory_limit_mb config * (1024 * 1024) div 2000) ^ k) \<and>
   list_all (\<lambda>(p, u). length p < unat (sc_max_depth config)) (snd (parse_from_url (parser_with_config config) env url1))"
proof -
  have sel: "sp_config (parser_with_config config) = config"
    "mm_memory_limit_mb (sp_memory (parser_with_config config)) = sc_memory_limit_mb config"
    by (simp_all add: parser_with_config_def with_memory_limit_def)
  show ?thesis
    using tree.call_count [of config env "unat (sc_max_depth config)" "[]" "[]" url1]
      tree.call_below [of _ _ config env "unat (sc_max_depth config)" "[]" "[]" url1]
    by (fastforce simp: parse_from_url_def sel tree_bound_def index_bound_def list_all_iff)
qed

text \<open>
  C31. No sitemap is fetched below itself: two requests of which one belongs to an index above the other are
  for different URLs, whatever else the concurrent children have marked as visited.
\<close>

theorem sitemap_chain_has_no_repetition:
  "list_all (\<lambda>(p, u). list_all (\<lambda>(q, v). if strict_prefix p q then target env u \<noteq> target env v else True)
     (snd (parse_from_url (parser_with_config config) env url1)))
     (snd (parse_from_url (parser_with_config config) env url1))"
  using tree.call_chain [of _ _ config env "unat (sc_max_depth config)" "[]" "[]" url1]
  by (fastforce simp: parse_from_url_def list_all_iff parser_with_config_def)

text \<open>
  The result of a parse: no URL occurs twice, and the estimated size of the whole list, over all
  sitemaps of an index, is below the memory limit.
\<close>

theorem sitemap_result_is_in_budget:
  "case fst (parse_from_url (parser_with_config config) env url1) of
     Some (Inr us) \<Rightarrow> length us * 2000 div (1024 * 1024) < sc_memory_limit_mb config \<and>
                      distinct (map (entry_key (se_lib env)) us)
   | _ \<Rightarrow> True"
  using tree.call_result [of config env "unat (sc_max_depth config)" "[]" "[]" url1]
  by (auto simp: parse_from_url_def in_budget_iff estimated_mb_def parser_with_config_def with_memory_limit_def
      split: option.split sum.split)

section \<open>Failing children\<close>

definition child_urls :: "(string \<times> 'u sitemap_url list outcome) list \<Rightarrow> 'u sitemap_url list" where
  "child_urls results = concat (map (\<lambda>(u, r). case r of Some (Inr us) \<Rightarrow> us | _ \<Rightarrow> []) results)"

definition child_errors :: "(string \<times> 'u sitemap_url list outcome) list \<Rightarrow> (string \<times> sitemap_error) list" where
  "child_errors results = concat (map (\<lambda>(u, r). case r of Some (Inl e) \<Rightarrow> [(u, e)] | _ \<Rightarrow> []) results)"

definition child_results ::
  "'u sitemap_env \<Rightarrow> (nat \<Rightarrow> string \<Rightarrow> 'u sitemap_url list outcome \<times> request_log) \<Rightarrow> 'u sitemap_url list
    \<Rightarrow> (string \<times> 'u sitemap_url list outcome) list" where
  "child_results env child us =
     map (\<lambda>(i, u). (u, fst (child i u))) (enumerate 0 (map (entry_key (se_lib env)) us))"

lemma index_loop_complete:
  assumes "list_all (\<lambda>(u, r). r \<noteq> None) results" "in_budget mm (all_urls @ child_urls results)"
  shows "index_loop mm results all_urls failures
    = Some (Inr (all_urls @ child_urls results, failures @ child_errors results))"
  using assms
proof (induction mm results all_urls failures rule: index_loop.induct)
  case (3 mm u urls results all_urls failures)
  then have "in_budget mm (all_urls @ urls)"
    using in_budget_mono [OF "3.prems"(2), of "all_urls @ urls"] by (simp add: child_urls_def)
  with 3 show ?case by (simp add: enforce_aggregate_budget_def child_urls_def child_errors_def)
qed (simp_all add: child_urls_def child_errors_def)

lemma parse_sitemap_index_outcome:
  "fst (parse_sitemap_index parser env child us) =
     (case index_loop (sp_memory parser) (child_results env child us) [] [] of
        None \<Rightarrow> None
      | Some (Inl e) \<Rightarrow> Some (Inl e)
      | Some (Inr (all_urls, failures)) \<Rightarrow> index_verdict (se_lib env) all_urls failures)"
  by (simp add: parse_sitemap_index_def child_results_def Let_def comp_def case_prod_unfold)

text \<open>
  A challenge or a refused address in any child stops the index: when the children's URLs fit the
  memory limit, the outcome of the index is the first such error, however many other children succeeded.
\<close>

theorem refused_child_aborts_the_index:
  assumes "list_all (\<lambda>(u, r). r \<noteq> None) (child_results env child us)"
    and "ensure_within_budget (sp_memory parser) (child_urls (child_results env child us)) = Inr ()"
    and "List.find (\<lambda>(_, e). aborts_index e) (child_errors (child_results env child us)) = Some (u, e)"
  shows "fst (parse_sitemap_index parser env child us) = Some (Inl e)"
  unfolding parse_sitemap_index_outcome
  using index_loop_complete [OF assms(1), of "sp_memory parser" "[]" "[]"] assms(2,3)
  by (simp add: index_verdict_def)

definition small_env :: "small_url sitemap_env" where
  "small_env =
     \<lparr>se_lib = small_lib, se_normalize = \<lambda>_ u. Some u, se_entry_guard = None, se_url_error = \<lambda>u. u,
      se_show_ip = \<lambda>_. [], se_status_text = \<lambda>_. [], se_decode = \<lambda>_ c. (c, None), se_write = \<lambda>_ _ _. None,
      se_utf8_lossy = \<lambda>b. b, se_find_iter = \<lambda>_. [], se_high_entropy = \<lambda>_. False, se_reader = \<lambda>_. [],
      se_fetch = \<lambda>_ _ _. Inl [], se_seen = \<lambda>_ _. False\<rparr>"

theorem refused_child_aborts_the_index_witness:
  "fst (parse_sitemap_index (parser_with_config sitemap_config_default) small_env
      (\<lambda>i u. (Some (if i = 0 then Inr [sitemap_url_new (small_page ''/p'')] else Inl (WafChallenge u [])), []))
      [sitemap_url_new (small_page ''/a''), sitemap_url_new (small_page ''/b'')])
   = Some (Inl (WafChallenge ''https://a.io/b'' []))"
proof (rule refused_child_aborts_the_index [where u = "''https://a.io/b''"])
  let ?child = "\<lambda>i u. (Some (if i = (0 :: nat) then Inr [sitemap_url_new (small_page ''/p'')] else Inl (WafChallenge u [])), [])"
  have results: "child_results small_env ?child [sitemap_url_new (small_page ''/a''), sitemap_url_new (small_page ''/b'')]
      = [(''https://a.io/a'', Some (Inr [sitemap_url_new (small_page ''/p'')])),
         (''https://a.io/b'', Some (Inl (WafChallenge ''https://a.io/b'' [])))]"
    by (simp add: child_results_def small_env_def small_lib_def small_api_def small_page_def sitemap_url_new_def)
  show "list_all (\<lambda>(u, r). r \<noteq> None) (child_results small_env ?child
      [sitemap_url_new (small_page ''/a''), sitemap_url_new (small_page ''/b'')])" by (simp only: results) simp
  show "ensure_within_budget (sp_memory (parser_with_config sitemap_config_default))
      (child_urls (child_results small_env ?child [sitemap_url_new (small_page ''/a''), sitemap_url_new (small_page ''/b'')])) = Inr ()"
    by (simp only: results) (simp add: child_urls_def in_budget_iff estimated_mb_def parser_with_config_def with_memory_limit_def sitemap_config_default_def)
  show "List.find (\<lambda>(_, e). aborts_index e) (child_errors (child_results small_env ?child
      [sitemap_url_new (small_page ''/a''), sitemap_url_new (small_page ''/b'')])) = Some (''https://a.io/b'', WafChallenge ''https://a.io/b'' [])"
    by (simp only: results) (simp add: child_errors_def)
qed

text \<open>
  The memory stop comes first: a challenge met before the limit is passed is dropped, and the index
  reports the limit. An index above treats that as an ordinary failure.
\<close>

lemma memory_stop_hides_a_challenge:
  assumes "ensure_within_budget (sp_memory parser) us \<noteq> Inr ()"
    and "child_results env child vs = (u, Some (Inl (WafChallenge w p))) # (v, Some (Inr us)) # rest"
  shows "fst (parse_sitemap_index parser env child vs) = Some (Inl (MemoryLimitExceeded (estimated_mb us)))"
  using assms by (auto simp: parse_sitemap_index_outcome enforce_aggregate_budget_def ensure_within_budget_def split: if_splits)

section \<open>A parse returns\<close>

text \<open>
  \<open>reads_numbers\<close>: no text of the document is the name of a NaN, so every priority the parser takes from it
  is a number and the sorts are specified.
\<close>

definition reads_numbers :: "(string + xml_event) list \<Rightarrow> bool" where
  "reads_numbers reads =
     list_all (\<lambda>r. case r of Inr (Text (Inr t)) \<Rightarrow> parse_f32 (trim t) \<noteq> Some Nan | _ \<Rightarrow> True) reads"

abbreviation numeric :: "'u sitemap_url list \<Rightarrow> bool" where
  "numeric us \<equiv> \<forall>e \<in> set us. sm_priority e \<noteq> Some Nan"

definition returns_numbers :: "'u sitemap_url list outcome \<Rightarrow> bool" where
  "returns_numbers r = (case r of None \<Rightarrow> False | Some (Inl e) \<Rightarrow> True | Some (Inr us) \<Rightarrow> numeric us)"

lemma returns_numbers_simps [simp]:
  "returns_numbers (Some (Inl e))" "returns_numbers (Some (Inr us)) = numeric us" "\<not> returns_numbers None"
  by (simp_all add: returns_numbers_def)

lemma parse_xml_sitemap_numbers:
  assumes "reads_numbers reads"
  obtains e where "parse_xml_sitemap lib reads b = Some (Inl e)"
  | us idx where "parse_xml_sitemap lib reads b = Some (Inr (us, idx))" "numeric us"
proof (cases "parse_sitemap_core lib reads b True True")
  case (Inl e)
  then show ?thesis using that(1) by (simp add: parse_xml_sitemap_def)
next
  case (Inr w)
  obtain urls idx where w: "w = (urls, idx)" by (cases w)
  obtain st where st: "core_loop lib b True True reads core_init = Inr st" "urls = c_urls st"
    using Inr w by (auto simp: parse_sitemap_core_def split: sum.splits if_splits)
  have plain: "clamp_priority p \<noteq> Nan" if "Inr (Text (Inr d)) \<in> set reads" "parse_f32 (trim d) = Some p" for d p
  proof -
    have "parse_f32 (trim d) \<noteq> Some Nan" using assms that(1) by (auto simp: reads_numbers_def list_all_iff)
    then show ?thesis using that(2) by (cases p) (auto simp: clamp_priority_def)
  qed
  have "core_inv (admitted lib b) (\<lambda>p. p \<noteq> Some Nan) st"
    by (rule core_inv_loop [OF core_inv_init _ _ st(1)]) (use plain in auto)
  then have num: "numeric urls" using st(2) by (simp add: core_inv_def)
  obtain ys where ys: "dedup_and_sort_sitemap_urls lib urls = Some ys" using dedup_and_sort_total [OF num] by blast
  show ?thesis
  proof (cases "urls = []")
    case True
    then show ?thesis using that(1) Inr w by (simp add: parse_xml_sitemap_def)
  next
    case False
    then show ?thesis using that(2) [of ys idx] Inr w ys dedup_and_sort_set [OF ys] num
      by (auto simp: parse_xml_sitemap_def)
  qed
qed

lemma apply_crawl_budget_numbers:
  assumes "numeric us"
  obtains ys where "apply_crawl_budget lib nz bp config us = Some ys" "numeric ys"
proof (cases "sc_crawl_budget_enabled config")
  case True
  let ?ds = "deduplicate_urls lib nz (filter_parameter_heavy_urls lib bp us)"
  have "set ?ds \<subseteq> set us"
    using deduplicate_loop_sub(1) by (fastforce simp: deduplicate_urls_def filter_parameter_heavy_urls_def)
  then have num: "set ?ds \<subseteq> {e. sm_priority e \<noteq> Some Nan}" using assms by blast
  note s = ranked.sort_by_Some [OF num]
  show ?thesis using that s sort_by_set [OF s] num True by (auto simp: apply_crawl_budget_def)
qed (use that assms in \<open>simp add: apply_crawl_budget_def\<close>)

lemma index_loop_numbers:
  assumes "\<forall>(u, r) \<in> set results. returns_numbers r" "numeric all_urls"
  shows "\<exists>r. index_loop mm results all_urls failures = Some r \<and>
    (case r of Inl e \<Rightarrow> True | Inr (us, fs) \<Rightarrow> numeric us)"
  using assms
proof (induction mm results all_urls failures rule: index_loop.induct)
  case (3 mm u urls results all_urls failures)
  then have "numeric (all_urls @ urls)" by (auto simp: returns_numbers_def)
  with 3 show ?case by (simp split: sum.split)
qed (auto simp: returns_numbers_def)

lemma parse_sitemap_index_numbers:
  assumes "\<And>i u. returns_numbers (fst (child i u))"
  shows "returns_numbers (fst (parse_sitemap_index parser env child us))"
proof -
  have "\<forall>(u, r) \<in> set (child_results env child us). returns_numbers r" using assms by (auto simp: child_results_def)
  from index_loop_numbers [OF this, of "[]" "sp_memory parser" "[]"]
  obtain r where r: "index_loop (sp_memory parser) (child_results env child us) [] [] = Some r"
      and num: "case r of Inl e \<Rightarrow> True | Inr (us, fs) \<Rightarrow> numeric us" by auto
  show ?thesis
  proof (cases r)
    case (Inr w)
    obtain vs fs where w: "w = (vs, fs)" by (cases w)
    then have "numeric vs" using num Inr by simp
    then obtain ys where ys: "dedup_and_sort_sitemap_urls (se_lib env) vs = Some ys" using dedup_and_sort_total by blast
    have "numeric ys" using dedup_and_sort_set [OF ys] \<open>numeric vs\<close> by blast
    then show ?thesis using r Inr w ys
      by (simp add: parse_sitemap_index_outcome index_verdict_def returns_numbers_def Let_def split: option.split)
  qed (use r in \<open>simp add: parse_sitemap_index_outcome returns_numbers_def\<close>)
qed

lemma parse_decompressed_body_numbers:
  assumes "\<And>b. reads_numbers (se_reader env b)" "\<And>i u. returns_numbers (fst (child i u))"
  shows "returns_numbers (fst (parse_decompressed_body parser env child body url1 b st ct))"
proof (rule parse_xml_sitemap_numbers [OF assms(1) [of body], of "se_lib env" b])
  fix us idx assume "parse_xml_sitemap (se_lib env) (se_reader env body) b = Some (Inr (us, idx))" and num: "numeric us"
  moreover obtain ys where "apply_crawl_budget (se_lib env) (se_normalize env) (sp_batch parser) (sp_config parser) us = Some ys" "numeric ys"
    using num by (rule apply_crawl_budget_numbers)
  moreover have "returns_numbers (fst (parse_sitemap_index parser env child us))"
    by (rule parse_sitemap_index_numbers) (rule assms(2))
  ultimately show ?thesis by (auto simp: parse_decompressed_body_def split: option.split sum.split)
qed (auto simp: parse_decompressed_body_def split: option.split)

lemma parse_with_depth_numbers:
  assumes "\<And>b. reads_numbers (se_reader env b)"
  shows "returns_numbers (fst (parse_with_depth parser env d path ancestors url1))"
proof (induction d arbitrary: path ancestors url1)
  case (Suc d)
  then show ?case
  proof (cases rule: parse_with_depth_cases [of parser env d path ancestors url1])
    case (read t b body st ct outcome reqs)
    have "returns_numbers outcome"
      using parse_decompressed_body_numbers [OF assms, of "\<lambda>i u. parse_with_depth parser env d (path @ [i]) (t # ancestors) u"
          parser body url1 b st ct] Suc.IH by (simp add: read(4))
    with read(5) show ?thesis by simp
  qed simp_all
qed simp

text \<open>
  A parse returns: with a finite depth, and unless a document spells a NaN as priority, the outcome is a
  list or one of the typed errors, never the unspecified sort, for every network and every interleaving.
\<close>

theorem sitemap_parse_returns:
  assumes "\<forall>body. reads_numbers (se_reader env body)"
  shows "\<exists>r. fst (parse_from_url parser env url1) = Some r"
  using parse_with_depth_numbers [of env parser "unat (sc_max_depth (sp_config parser))" "[]" "[]" url1] assms
  by (auto simp: parse_from_url_def returns_numbers_def split: option.splits)

theorem sitemap_parse_returns_witness:
  "\<exists>r. fst (parse_from_url (parser_with_config sitemap_config_default) small_env ''https://a.io/sitemap.xml'') = Some r"
  by (rule sitemap_parse_returns) (simp add: small_env_def reads_numbers_def)

section \<open>Compressed bodies\<close>

text \<open>
  Brotli sitemaps are decoded twice: the format of a body without magic bytes is taken from the
  extension, and the second look at the decoded text sees the same extension. A \<^verbatim>\<open>.br\<close> sitemap whose
  decoded text is plain XML is handed to the decoder again, and its error is the outcome.
\<close>

theorem brotli_body_is_decoded_twice:
  assumes "ends_with ''.br'' (to_lowercase url1)" "detect_compression content [] = []"
    and "decode Brotli content = (xml, None)" "length xml < max_size" "detect_compression xml [] = []"
  shows "detect_and_decompress decode max_size content url1 = decompress decode max_size Brotli xml"
proof -
  have br: "detect_compression c url1 = [Brotli]" if "detect_compression c [] = []" for c
    using that assms(1) by (auto simp: detect_compression_def Let_def split: if_splits)
  show ?thesis
    using assms(4) by (simp add: detect_and_decompress_def br assms(2,3,5) decompress_def [of _ _ _ content] linorder_not_le [symmetric])
qed

theorem brotli_body_is_decoded_twice_witness:
  "detect_and_decompress (\<lambda>f c. if c = ''B'' then (''<urlset>'', None) else ([], Some ''bad'')) 100 ''B'' ''https://a.io/sitemap.xml.br''
     = Inl (DecompressionFailed ''bad'')"
proof -
  let ?decode = "\<lambda>f c. if c = ''B'' then (''<urlset>'', None) else ([], Some ''bad'')"
  have "ends_with ''.br'' (to_lowercase ''https://a.io/sitemap.xml.br'')"
    by (simp add: to_lowercase_def to_lower_def ends_with_def strip_suffix_def)
  moreover have "detect_compression ''B'' [] = []" "detect_compression ''<urlset>'' [] = []"
    by (simp_all add: detect_compression_def has_magic_def starts_with_def ends_with_def strip_suffix_def to_lowercase_def)
  ultimately have "detect_and_decompress ?decode 100 ''B'' ''https://a.io/sitemap.xml.br'' = decompress ?decode 100 Brotli ''<urlset>''"
    by (intro brotli_body_is_decoded_twice) simp_all
  also have "\<dots> = Inl (DecompressionFailed ''bad'')" by (simp add: decompress_def)
  finally show ?thesis .
qed

text \<open>
  Sizes: a body handed to the document reader is at most the response limit when it was not compressed
  and below the decompression limit when it was, whatever the server sends; at most two layers are removed.
\<close>

theorem sitemap_body_is_capped:
  "case read_body_chunks max_response chunks [] of
     Inl e \<Rightarrow> True
   | Inr raw \<Rightarrow> length raw \<le> max_response \<and>
       (case detect_and_decompress decode max_size raw url1 of
          Inl e \<Rightarrow> True
        | Inr body \<Rightarrow> body = raw \<and> detect_compression raw url1 = [] \<or> length body < max_size)"
proof -
  have read: "length raw \<le> max_response \<Longrightarrow> read_body_chunks max_response chunks raw = Inr out \<Longrightarrow> length out \<le> max_response"
    for raw out
    by (induction max_response chunks raw rule: read_body_chunks.induct) (auto split: if_splits)
  have formats: "NoCompression \<notin> set (detect_compression c u)" for c u
    by (auto simp: detect_compression_def Let_def)
  have layer: "length out < max_size"
    if "decompress_formats decode max_size c fs = Inr out" "fs \<noteq> []" "NoCompression \<notin> set fs" for c fs out
    using that by (cases fs) (auto simp: decompress_def split: prod.splits if_splits option.splits)
  show ?thesis
    using read [of "[]"] layer formats
    by (auto simp: detect_and_decompress_def Let_def split: sum.split sum.splits if_splits)
qed

end
