(* ===== verification/Url_Queue.thy ===== *)
theory Url_Queue
  imports Prelude "HOL-Library.List_Lexorder" "HOL-Library.Multiset"
begin

text \<open>
  The deduplicating priority queue of \<^verbatim>\<open>infrastructure/crawler/url_queue.rs\<close>. The canonical form of a URL
  (the scheduler passes \<^verbatim>\<open>normalize_url\<close>) and the \<^verbatim>\<open>ahash\<close> digest are the arguments \<open>canon\<close> and \<open>hash\<close>. The
  standard library's \<^verbatim>\<open>BinaryHeap\<close> is a list in popping order; the locale states what the queue relies
  on, a maximum on \<^verbatim>\<open>pop\<close> and the multiset of its elements, and is interpreted on that list. A page's URL
  is its string. The operations hold the heap's lock for their whole body, so each is one step; a push
  inserts into the seen set just before it takes the lock, and no other operation decides on that set.
\<close>

section \<open>Types\<close>

datatype content_type = Html | Xml | Text | OtherContent

datatype url_source = Seed | Sitemap | Link

record discovered_url =
  du_url :: string
  du_depth :: u8
  du_parent :: string
  du_content_type :: content_type

definition discovered_html :: "string \<Rightarrow> u8 \<Rightarrow> string \<Rightarrow> discovered_url" where
  "discovered_html u d p = \<lparr>du_url = u, du_depth = d, du_parent = p, du_content_type = Html\<rparr>"

record prioritized_url =
  pu_url :: discovered_url
  pu_priority :: u32

definition saturating_sub :: "'a::len word \<Rightarrow> 'a word \<Rightarrow> 'a word" where
  "saturating_sub a b = (if b \<le> a then a - b else 0)"

definition base_priority :: "url_source \<Rightarrow> u32" where
  "base_priority source = (case source of Seed \<Rightarrow> 1000 | Sitemap \<Rightarrow> 500 | Link \<Rightarrow> 200)"

definition from_source :: "discovered_url \<Rightarrow> url_source \<Rightarrow> prioritized_url" where
  "from_source u source =
     (let depth_penalty = (ucast (du_depth u) :: u32) * 10 in
      \<lparr>pu_url = u, pu_priority = max (saturating_sub (base_priority source) depth_penalty) 1\<rparr>)"

text \<open>\<^verbatim>\<open>Ord::cmp\<close>: by priority, ties by the reversed order of the URLs.\<close>

definition pu_le :: "prioritized_url \<Rightarrow> prioritized_url \<Rightarrow> bool" where
  "pu_le a b =
     (pu_priority a < pu_priority b
      \<or> pu_priority a = pu_priority b \<and> du_url (pu_url b) \<le> du_url (pu_url a))"

section \<open>The heap\<close>

type_synonym heap = "prioritized_url list"

fun heap_push :: "prioritized_url \<Rightarrow> heap \<Rightarrow> heap" where
  "heap_push x [] = [x]"
| "heap_push x (y # ys) = (if pu_le y x then x # y # ys else y # heap_push x ys)"

definition heap_pop :: "heap \<Rightarrow> (prioritized_url \<times> heap) option" where
  "heap_pop h = (case h of [] \<Rightarrow> None | x # xs \<Rightarrow> Some (x, xs))"

definition heap_ok :: "heap \<Rightarrow> bool" where
  "heap_ok h = sorted_wrt (\<lambda>x y. pu_le y x) h"

text \<open>The loop \<^verbatim>\<open>while urls.len() < n { match heap.pop() { .. } }\<close>.\<close>

fun pop_n :: "('q \<Rightarrow> ('a \<times> 'q) option) \<Rightarrow> nat \<Rightarrow> 'q \<Rightarrow> 'a list \<times> 'q" where
  "pop_n pop 0 q = ([], q)"
| "pop_n pop (Suc n) q =
     (case pop q of
        None \<Rightarrow> ([], q)
      | Some (x, q1) \<Rightarrow> (let (xs, q2) = pop_n pop n q1 in (x # xs, q2)))"

section \<open>The queue\<close>

record url_queue =
  q_heap :: heap
  q_seen :: "u64 set"

definition queue_new :: url_queue where
  "queue_new = \<lparr>q_heap = [], q_seen = {}\<rparr>"

definition push_prioritized ::
  "(string \<Rightarrow> string) \<Rightarrow> (string \<Rightarrow> u64) \<Rightarrow> discovered_url \<Rightarrow> url_source \<Rightarrow> url_queue \<Rightarrow> url_queue \<times> bool" where
  "push_prioritized canon hash u source q =
     (let k = hash (canon (du_url u)) in
      if k \<in> q_seen q then (q, False)
      else (q\<lparr>q_seen := insert k (q_seen q), q_heap := heap_push (from_source u source) (q_heap q)\<rparr>, True))"

definition push :: "(string \<Rightarrow> string) \<Rightarrow> (string \<Rightarrow> u64) \<Rightarrow> discovered_url \<Rightarrow> url_queue \<Rightarrow> url_queue \<times> bool" where
  "push canon hash u q = push_prioritized canon hash u Link q"

definition pop :: "url_queue \<Rightarrow> discovered_url option \<times> url_queue" where
  "pop q = (case heap_pop (q_heap q) of
              None \<Rightarrow> (None, q) | Some (x, h) \<Rightarrow> (Some (pu_url x), q\<lparr>q_heap := h\<rparr>))"

definition drain_all :: "url_queue \<Rightarrow> discovered_url list \<times> url_queue" where
  "drain_all q =
     (let (xs, h) = pop_n heap_pop (length (q_heap q)) (q_heap q) in (map pu_url xs, q\<lparr>q_heap := []\<rparr>))"

text \<open>\<^verbatim>\<open>BinaryHeap::iter\<close> yields the elements in no specified order: the snapshot is a multiset.\<close>

definition snapshot_urls :: "url_queue \<Rightarrow> string multiset" where
  "snapshot_urls q = image_mset (\<lambda>x. du_url (pu_url x)) (mset (q_heap q))"

definition snapshot_urls_bounded :: "nat \<Rightarrow> url_queue \<Rightarrow> string list \<times> url_queue" where
  "snapshot_urls_bounded n q =
     (let (popped, h) = pop_n heap_pop n (q_heap q)
      in (map (\<lambda>x. du_url (pu_url x)) popped, q\<lparr>q_heap := fold heap_push popped h\<rparr>))"

definition queue_len :: "url_queue \<Rightarrow> nat" where
  "queue_len q = length (q_heap q)"

definition peek :: "url_queue \<Rightarrow> discovered_url option" where
  "peek q = (case q_heap q of [] \<Rightarrow> None | x # _ \<Rightarrow> Some (pu_url x))"

definition queue_is_empty :: "url_queue \<Rightarrow> bool" where
  "queue_is_empty q = (q_heap q = [])"

definition seen_count :: "url_queue \<Rightarrow> nat" where
  "seen_count q = card (q_seen q)"

definition queue_clear :: "url_queue \<Rightarrow> url_queue" where
  "queue_clear q = q\<lparr>q_heap := []\<rparr>"

text \<open>Every queued page's digest is in the seen set, once.\<close>

definition queue_wf :: "(string \<Rightarrow> string) \<Rightarrow> (string \<Rightarrow> u64) \<Rightarrow> url_queue \<Rightarrow> bool" where
  "queue_wf canon hash q =
     (heap_ok (q_heap q)
      \<and> distinct (map (\<lambda>x. hash (canon (du_url (pu_url x)))) (q_heap q))
      \<and> set (map (\<lambda>x. hash (canon (du_url (pu_url x)))) (q_heap q)) \<subseteq> q_seen q)"

text \<open>Producers pushing pages in some order.\<close>

fun push_all ::
  "(string \<Rightarrow> string) \<Rightarrow> (string \<Rightarrow> u64) \<Rightarrow> (discovered_url \<times> url_source) list \<Rightarrow> url_queue \<Rightarrow> url_queue" where
  "push_all canon hash [] q = q"
| "push_all canon hash ((u, s) # us) q = push_all canon hash us (fst (push_prioritized canon hash u s q))"

section \<open>What the queue relies on\<close>

locale max_queue =
  fixes le :: "'a \<Rightarrow> 'a \<Rightarrow> bool"
    and elems :: "'q \<Rightarrow> 'a multiset"
    and ok :: "'q \<Rightarrow> bool"
    and put :: "'a \<Rightarrow> 'q \<Rightarrow> 'q"
    and take_max :: "'q \<Rightarrow> ('a \<times> 'q) option"
  assumes le_refl: "le x x"
    and ok_put: "ok q \<Longrightarrow> ok (put x q)"
    and elems_put: "elems (put x q) = add_mset x (elems q)"
    and take_None: "take_max q = None \<longleftrightarrow> elems q = {#}"
    and take_Some: "ok q \<Longrightarrow> take_max q = Some (x, q') \<Longrightarrow>
      ok q' \<and> elems q = add_mset x (elems q') \<and> (\<forall>y. y \<in># elems q' \<longrightarrow> le y x)"
begin

lemma pop_n_spec:
  assumes "ok q" and "pop_n take_max n q = (xs, q')"
  shows "ok q' \<and> elems q = mset xs + elems q' \<and> length xs = min n (size (elems q))
    \<and> sorted_wrt (\<lambda>x y. le y x) xs \<and> (\<forall>x \<in> set xs. \<forall>y. y \<in># elems q' \<longrightarrow> le y x)"
  using assms
proof (induction n arbitrary: q xs q')
  case (Suc n)
  show ?case
  proof (cases "take_max q")
    case None
    with Suc.prems show ?thesis using take_None [of q] by simp
  next
    case (Some r)
    obtain x q1 where r: "r = (x, q1)" by (cases r)
    obtain ys q2 where p: "pop_n take_max n q1 = (ys, q2)" by (metis surj_pair)
    have eq: "xs = x # ys" "q' = q2" using Suc.prems(2) Some r p by auto
    from Some r take_Some [OF Suc.prems(1)]
    have one: "ok q1" "elems q = add_mset x (elems q1)" "\<forall>y. y \<in># elems q1 \<longrightarrow> le y x" by auto
    note ih = Suc.IH [OF one(1) p]
    have e1: "elems q1 = mset ys + elems q2" using ih by blast
    have below: "le y x" if "y \<in> set ys \<or> y \<in># elems q2" for y
      using one(3) that unfolding e1 by (metis set_mset_mset union_iff)
    have "elems q = mset (x # ys) + elems q2" using one(2) e1 by simp
    moreover have "length (x # ys) = min (Suc n) (size (elems q))"
    proof -
      have "length ys = min n (size (elems q1))" using ih by blast
      then show ?thesis by (simp add: one(2))
    qed
    moreover have "sorted_wrt (\<lambda>x y. le y x) (x # ys)"
    proof -
      have "sorted_wrt (\<lambda>x y. le y x) ys" using ih by blast
      then show ?thesis using below by simp
    qed
    ultimately show ?thesis unfolding eq using ih below by (metis set_ConsD)
  qed
qed simp

end

lemma pu_le_refl [simp]: "pu_le x x"
  by (simp add: pu_le_def)

lemma pu_le_total: "pu_le x y \<or> pu_le y x"
  by (auto simp: pu_le_def)

lemma pu_le_trans: "pu_le x y \<Longrightarrow> pu_le y z \<Longrightarrow> pu_le x z"
  by (auto simp: pu_le_def)

lemma heap_push_mset [simp]: "mset (heap_push x h) = add_mset x (mset h)"
  by (induction h) auto

lemma heap_push_set [simp]: "set (heap_push x h) = insert x (set h)"
  by (induction h) auto

lemma heap_push_ok: "heap_ok h \<Longrightarrow> heap_ok (heap_push x h)"
  unfolding heap_ok_def by (induction h) (use pu_le_total in \<open>auto intro: pu_le_trans\<close>)

interpretation bh: max_queue pu_le mset heap_ok heap_push heap_pop
proof
  fix q x
  show "heap_ok q \<Longrightarrow> heap_ok (heap_push x q)" by (rule heap_push_ok)
next
  fix q x q'
  show "heap_ok q \<Longrightarrow> heap_pop q = Some (x, q') \<Longrightarrow>
    heap_ok q' \<and> mset q = add_mset x (mset q') \<and> (\<forall>y. y \<in># mset q' \<longrightarrow> pu_le y x)"
    by (cases q) (auto simp: heap_pop_def heap_ok_def)
qed (auto simp: heap_pop_def split: list.splits)

section \<open>Popping order\<close>

text \<open>Pages with distinct URLs are totally ordered, so a heap's popping order is determined by its elements.\<close>

lemma pu_le_antisym:
  "pu_le x y \<Longrightarrow> pu_le y x \<Longrightarrow> du_url (pu_url x) = du_url (pu_url y)"
  by (auto simp: pu_le_def)

lemma sorted_unique:
  assumes "heap_ok xs" and "heap_ok ys" and "mset xs = mset ys"
    and "distinct (map (\<lambda>x. f (du_url (pu_url x))) xs)"
  shows "xs = ys"
  using assms
proof (induction xs arbitrary: ys)
  case (Cons x xs)
  then obtain y ys' where ys: "ys = y # ys'" by (cases ys) auto
  have set_eq: "set (x # xs) = set (y # ys')" using Cons.prems(3) ys by (metis set_mset_mset)
  have "pu_le y x" if "y \<noteq> x" using Cons.prems(1) set_eq that by (auto simp: heap_ok_def)
  moreover have "pu_le x y" if "y \<noteq> x" using Cons.prems(2) ys set_eq that by (auto simp: heap_ok_def)
  moreover have "f (du_url (pu_url y)) \<noteq> f (du_url (pu_url x))" if "y \<noteq> x"
  proof -
    have "y \<in> set xs" using set_eq that by auto
    with Cons.prems(4) show ?thesis by (auto simp: image_iff)
  qed
  ultimately have "y = x" using pu_le_antisym [of x y] by metis
  with Cons ys show ?case by (auto simp: heap_ok_def)
qed simp

text \<open>Popping a heap gives its elements in the one order, and pushing them back restores it.\<close>

lemma pop_n_prefix:
  assumes "heap_ok h" and "distinct (map (\<lambda>x. f (du_url (pu_url x))) h)" and "pop_n heap_pop n h = (xs, h')"
  shows "xs = take n h \<and> h' = drop n h"
proof -
  from bh.pop_n_spec [OF assms(1,3)]
  have spec: "heap_ok h'" "mset h = mset xs + mset h'" "length xs = min n (length h)"
    "sorted_wrt (\<lambda>x y. pu_le y x) xs" "\<forall>x \<in> set xs. \<forall>y \<in> set h'. pu_le y x"
    by auto
  then have "heap_ok (xs @ h')" by (auto simp: heap_ok_def sorted_wrt_append)
  then have "h = xs @ h'"
    using sorted_unique [of h "xs @ h'" f] assms(1,2) spec(2) by simp
  with spec(3) show ?thesis by (cases "n \<le> length h") (auto simp: min_def)
qed

lemma drain_all_eq:
  assumes "queue_wf canon hash q"
  shows "drain_all q = (map pu_url (q_heap q), q\<lparr>q_heap := []\<rparr>)"
proof -
  obtain xs h' where p: "pop_n heap_pop (length (q_heap q)) (q_heap q) = (xs, h')" by (metis surj_pair)
  from pop_n_prefix [OF _ _ p, of "\<lambda>u. hash (canon u)"] assms have "xs = q_heap q"
    by (simp add: queue_wf_def)
  with p show ?thesis by (simp add: drain_all_def)
qed

lemma fold_push:
  "heap_ok h \<Longrightarrow> heap_ok (fold heap_push xs h) \<and> mset (fold heap_push xs h) = mset xs + mset h"
  by (induction xs arbitrary: h) (auto simp: heap_push_ok)

section \<open>Deduplication\<close>

lemma queue_new_wf: "queue_wf canon hash queue_new"
  by (simp add: queue_wf_def queue_new_def heap_ok_def)

lemma digest_mset:
  "mset xs = add_mset y (mset ys) \<Longrightarrow>
   distinct (map f xs) \<longleftrightarrow> f y \<notin> f ` set ys \<and> distinct (map f ys)"
proof -
  assume "mset xs = add_mset y (mset ys)"
  then have "mset (map f xs) = mset (map f (y # ys))" by simp
  then show ?thesis using mset_eq_imp_distinct_iff by fastforce
qed

lemma pu_url_from_source [simp]: "pu_url (from_source u s) = u"
  by (simp add: from_source_def Let_def)

lemma push_wf:
  "queue_wf canon hash q \<Longrightarrow> queue_wf canon hash (fst (push_prioritized canon hash u s q))"
  by (auto simp: queue_wf_def push_prioritized_def Let_def heap_push_ok
      digest_mset [OF heap_push_mset])

lemma push_all_wf: "queue_wf canon hash q \<Longrightarrow> queue_wf canon hash (push_all canon hash us q)"
  by (induction canon hash us q rule: push_all.induct) (auto intro: push_wf)

lemma push_all_fresh:
  assumes "distinct (map (\<lambda>(u, s). hash (canon (du_url u))) us)"
    and "(\<lambda>(u, s). hash (canon (du_url u))) ` set us \<inter> q_seen q = {}"
  shows "mset (q_heap (push_all canon hash us q)) = mset (map (\<lambda>(u, s). from_source u s) us) + mset (q_heap q)"
  using assms
proof (induction canon hash us q rule: push_all.induct)
  case (2 canon hash u s us q)
  let ?q = "fst (push_prioritized canon hash u s q)"
  have "q_seen ?q = insert (hash (canon (du_url u))) (q_seen q)"
    "mset (q_heap ?q) = add_mset (from_source u s) (mset (q_heap q))"
    using "2.prems" by (auto simp: push_prioritized_def Let_def)
  with 2 show ?case by auto
qed simp

lemma snapshot_urls_bounded_eq:
  assumes "queue_wf canon hash q"
  shows "snapshot_urls_bounded n q = (take n (map (\<lambda>x. du_url (pu_url x)) (q_heap q)), q)"
proof -
  have h: "heap_ok (q_heap q)" "distinct (map (\<lambda>x. hash (canon (du_url (pu_url x)))) (q_heap q))"
    using assms by (simp_all add: queue_wf_def)
  obtain xs h' where p: "pop_n heap_pop n (q_heap q) = (xs, h')" by (metis surj_pair)
  from pop_n_prefix [OF h(1) _ p, of "\<lambda>u. hash (canon u)"] h(2)
  have x: "xs = take n (q_heap q)" "h' = drop n (q_heap q)" by auto
  then have "heap_ok h'" using h(1) by (simp add: heap_ok_def sorted_wrt_drop)
  from fold_push [OF this, of xs]
  have "heap_ok (fold heap_push xs h')" "mset (q_heap q) = mset (fold heap_push xs h')"
    using x by (simp_all flip: mset_append)
  then have "q_heap q = fold heap_push xs h'"
    using sorted_unique [of _ _ "\<lambda>u. hash (canon u)"] h by blast
  then show ?thesis
    using p x by (simp add: snapshot_urls_bounded_def take_map)
qed

text \<open>
  Crawl order is deterministic: pages with pairwise distinct digests drain in one order, whatever order
  they were pushed in; each of them exactly once; by descending priority, and among equal priorities by
  ascending URL.
\<close>

theorem drain_order_is_deterministic:
  assumes "distinct (map (\<lambda>(u, s). hash (canon (du_url u))) us)" and "mset us = mset us'"
    and "q = push_all canon hash us queue_new" and "q' = push_all canon hash us' queue_new"
  shows "fst (drain_all q) = fst (drain_all q')
    \<and> mset (fst (drain_all q)) = mset (map fst us)
    \<and> (\<exists>xs. fst (drain_all q) = map pu_url xs \<and> sorted_wrt (\<lambda>x y. pu_le y x) xs
          \<and> mset xs = mset (map (\<lambda>(u, s). from_source u s) us))"
proof -
  have d': "distinct (map (\<lambda>(u, s). hash (canon (du_url u))) us')"
    using assms(1,2) mset_eq_imp_distinct_iff mset_map by metis
  have wf: "queue_wf canon hash q" "queue_wf canon hash q'"
    using assms(3,4) push_all_wf [OF queue_new_wf] by auto
  have m: "mset (q_heap q) = mset (map (\<lambda>(u, s). from_source u s) us)"
    "mset (q_heap q') = mset (map (\<lambda>(u, s). from_source u s) us')"
    using assms(1,3,4) d' push_all_fresh [where q = queue_new and hash = hash and canon = canon]
    by (simp_all add: queue_new_def)
  have "mset (q_heap q) = mset (q_heap q')" using m assms(2) by (simp only: mset_map)
  with wf have "q_heap q = q_heap q'"
    by (intro sorted_unique [where f = "\<lambda>u. hash (canon u)"]) (auto simp: queue_wf_def)
  moreover have "mset (map pu_url (q_heap q)) = mset (map fst us)"
    by (simp only: mset_map m) (simp add: case_prod_unfold multiset.map_comp comp_def)
  ultimately show ?thesis
    using wf m(1) by (auto simp: drain_all_eq queue_wf_def heap_ok_def intro!: exI [of _ "q_heap q"])
qed

text \<open>
  The bounded frontier snapshot is the head of the crawl order and costs nothing: it lists the first
  \<open>n\<close> URLs the queue would hand out, in that order, and leaves the queue as it was.
\<close>

theorem bounded_snapshot_is_crawl_order:
  assumes "queue_wf canon hash q"
  shows "snapshot_urls_bounded n q = (take n (map du_url (fst (drain_all q))), q)"
  by (simp add: snapshot_urls_bounded_eq [OF assms] drain_all_eq [OF assms] comp_def)

theorem drain_order_is_deterministic_witness:
  "fst (drain_all (push_all id (\<lambda>u. of_nat (length u))
      [(discovered_html ''a'' 0 ''p'', Link), (discovered_html ''bb'' 0 ''p'', Seed)] queue_new))
   = fst (drain_all (push_all id (\<lambda>u. of_nat (length u))
      [(discovered_html ''bb'' 0 ''p'', Seed), (discovered_html ''a'' 0 ''p'', Link)] queue_new))"
  by (rule drain_order_is_deterministic [OF _ _ refl refl, THEN conjunct1])
    (simp_all add: discovered_html_def add_mset_commute)

theorem bounded_snapshot_is_crawl_order_witness:
  "snd (snapshot_urls_bounded 1 (fst (push id (\<lambda>u. of_nat (length u)) (discovered_html ''a'' 0 ''p'') queue_new)))
     = fst (push id (\<lambda>u. of_nat (length u)) (discovered_html ''a'' 0 ''p'') queue_new)"
  using bounded_snapshot_is_crawl_order [OF push_wf [OF queue_new_wf], of 1] by (simp add: push_def)

end
