(* ===== verification/Exit_Codes.thy ===== *)
theory Exit_Codes
  imports Http_Client Error_Taxonomy "HOL-Library.Multiset"
begin

text \<open>
  From failures to the status the process exits with: \<^verbatim>\<open>cli/error.rs\<close>, \<^verbatim>\<open>cli/exit_codes.rs\<close> and the two
  conversions of HTTP client errors, \<^verbatim>\<open>application/error_mapping.rs\<close> and \<^verbatim>\<open>domain/error/crawl_error.rs\<close>. What is
  printed on the error stream is not modelled, the messages that travel with an exit are.
\<close>

section \<open>Messages\<close>

fun semantic_to_string :: "semantic_error \<Rightarrow> string" where
  "semantic_to_string (Tokenize m) = ''Error tokenizando texto: '' @ m"
| "semantic_to_string (Inference m) = ''Error del pipeline de embeddings: '' @ m"
| "semantic_to_string (ChunkTooLarge c n m) =
     ''Chunk '' @ c @ '' excede l'' @ [CHR 0xED] @ ''mite de caracteres: '' @ dec n @ '' > '' @ dec m"

fun scraper_to_string :: "scraper_error \<Rightarrow> string" where
  "scraper_to_string (scraper_error.InvalidUrl m) = ''URL inv'' @ [CHR 0xE1] @ ''lida: '' @ m"
| "scraper_to_string (scraper_error.Http s u) = ''http error '' @ dec (unat s) @ '' al acceder a '' @ u"
| "scraper_to_string (scraper_error.Readability m) = ''Error de legibilidad: '' @ m"
| "scraper_to_string (scraper_error.Io e) = ''Error de I/O: '' @ io_to_string e"
| "scraper_to_string (scraper_error.Network e) = ''error de red: '' @ dyn_to_string e"
| "scraper_to_string (scraper_error.Middleware m) = ''error de middleware: '' @ m"
| "scraper_to_string (scraper_error.Serialization m) = ''Error de serializaci'' @ [CHR 0xF3] @ ''n: '' @ m"
| "scraper_to_string (scraper_error.UrlParse m) = ''Error de parseo de URL: '' @ m"
| "scraper_to_string (scraper_error.Extraction m) = ''Error de extracci'' @ [CHR 0xF3] @ ''n: '' @ m"
| "scraper_to_string (scraper_error.Download e) = ''Error de descarga: '' @ dyn_to_string e"
| "scraper_to_string (scraper_error.Config m) = ''Error de configuraci'' @ [CHR 0xF3] @ ''n: '' @ m"
| "scraper_to_string (scraper_error.FeatureGated m) = ''funcionalidad no disponible: '' @ m"
| "scraper_to_string (scraper_error.WafBlocked u p) = ''WAF/CAPTCHA detectado en '' @ u @ '': '' @ p"
| "scraper_to_string (scraper_error.Validation m) = ''Validaci'' @ [CHR 0xF3] @ ''n de URL fall'' @ [CHR 0xF3] @ '': '' @ m"
| "scraper_to_string (scraper_error.Conversion m) = ''Error de conversi'' @ [CHR 0xF3] @ ''n: '' @ m"
| "scraper_to_string (scraper_error.Export m) = ''Error de exportaci'' @ [CHR 0xF3] @ ''n: '' @ m"
| "scraper_to_string (scraper_error.ExtractionFailed u r) =
     ''extracci'' @ [CHR 0xF3] @ ''n fall'' @ [CHR 0xF3] @ '' para '' @ u @ '': '' @ r"
| "scraper_to_string (scraper_error.ExportBatch m) = ''Error de exportaci'' @ [CHR 0xF3] @ ''n en batch: '' @ m"
| "scraper_to_string scraper_error.GlobalTimeout = ''descarga super'' @ [CHR 0xF3] @ '' tiempo global de 30 segundos''"
| "scraper_to_string scraper_error.SlowlorisTimeout =
     ''descarga super'' @ [CHR 0xF3] @ '' timeout de inactividad de 5 segundos por chunk''"
| "scraper_to_string scraper_error.PayloadTooLarge = ''recurso super'' @ [CHR 0xF3] @ '' l'' @ [CHR 0xED] @ ''mite de 25 MB''"
| "scraper_to_string scraper_error.SemaphoreInanition = semaphore_text"
| "scraper_to_string (scraper_error.Persistence m) = ''Error de persistencia: '' @ m"
| "scraper_to_string (scraper_error.Ingestion m) = ''Error de ingesti'' @ [CHR 0xF3] @ ''n: '' @ m"
| "scraper_to_string (scraper_error.Semantic e) =
     ''Error de limpieza sem'' @ [CHR 0xE1] @ ''ntica: '' @ semantic_to_string e"
| "scraper_to_string (scraper_error.H2Config m) = ''Error de configuraci'' @ [CHR 0xF3] @ ''n HTTP/2: '' @ m"
| "scraper_to_string (scraper_error.Internal m) = ''error interno: '' @ m"
| "scraper_to_string (scraper_error.RateLimited n) = ''rate limited, retry after '' @ dec (unat n) @ ''s''"
| "scraper_to_string (scraper_error.CrawlLimit m) = m"
| "scraper_to_string (scraper_error.ResourceExhausted r l a) = resource_exhausted_text r l a"
| "scraper_to_string scraper_error.SitemapEmpty = ''no URLs found in sitemap''"
| "scraper_to_string (scraper_error.SitemapNotFound u) = ''sitemap not found for '' @ u"

section \<open>Exits\<close>

definition EXIT_SUCCESS :: u8 where "EXIT_SUCCESS = 0"

definition EXIT_EMPTY_DISCOVERY :: u8 where "EXIT_EMPTY_DISCOVERY = 2"

definition EXIT_SCRAPER_FAILURE :: u8 where "EXIT_SCRAPER_FAILURE = 3"

definition EXIT_USAGE_ERROR :: u8 where "EXIT_USAGE_ERROR = 64"

definition EXIT_DATA_ERROR :: u8 where "EXIT_DATA_ERROR = 65"

definition EXIT_UNAVAILABLE :: u8 where "EXIT_UNAVAILABLE = 69"

definition EXIT_IO_ERROR :: u8 where "EXIT_IO_ERROR = 74"

definition EXIT_PROTOCOL :: u8 where "EXIT_PROTOCOL = 76"

definition EXIT_FORBIDDEN :: u8 where "EXIT_FORBIDDEN = 77"

definition EXIT_CONFIG :: u8 where "EXIT_CONFIG = 78"

lemmas exit_codes =
  EXIT_SUCCESS_def EXIT_EMPTY_DISCOVERY_def EXIT_SCRAPER_FAILURE_def EXIT_USAGE_ERROR_def EXIT_DATA_ERROR_def
  EXIT_UNAVAILABLE_def EXIT_IO_ERROR_def EXIT_PROTOCOL_def EXIT_FORBIDDEN_def EXIT_CONFIG_def

datatype cli_exit =
    Success | UsageError string | DataFormatError string | NetworkError string | IoError string
  | ProtocolError string | Forbidden string | ConfigError string | EmptyDiscovery string
  | ScraperFailure string | PartialSuccess nat nat

text \<open>\<^verbatim>\<open>Termination::report\<close>\<close>

fun report :: "cli_exit \<Rightarrow> u8" where
  "report cli_exit.Success = EXIT_SUCCESS"
| "report (cli_exit.UsageError m) = EXIT_USAGE_ERROR"
| "report (cli_exit.DataFormatError m) = EXIT_DATA_ERROR"
| "report (cli_exit.NetworkError m) = EXIT_UNAVAILABLE"
| "report (cli_exit.IoError m) = EXIT_IO_ERROR"
| "report (cli_exit.ProtocolError m) = EXIT_PROTOCOL"
| "report (cli_exit.Forbidden m) = EXIT_FORBIDDEN"
| "report (cli_exit.ConfigError m) = EXIT_CONFIG"
| "report (cli_exit.EmptyDiscovery m) = EXIT_EMPTY_DISCOVERY"
| "report (cli_exit.ScraperFailure m) = EXIT_SCRAPER_FAILURE"
| "report (cli_exit.PartialSuccess s f) = EXIT_UNAVAILABLE"

definition default_exit_code_for_class :: "error_class \<Rightarrow> u8 option" where
  "default_exit_code_for_class c =
     (case c of
        TransientRetriable \<Rightarrow> Some EXIT_UNAVAILABLE | TransientBackoff \<Rightarrow> Some EXIT_UNAVAILABLE
      | InternalFatal \<Rightarrow> Some EXIT_SCRAPER_FAILURE
      | PermanentFatal \<Rightarrow> None | DomainRecoverable \<Rightarrow> None)"

definition cli_exit_for_class :: "error_class \<Rightarrow> string \<Rightarrow> cli_exit option" where
  "cli_exit_for_class c message =
     (case c of
        TransientRetriable \<Rightarrow> Some (cli_exit.NetworkError message)
      | TransientBackoff \<Rightarrow> Some (cli_exit.NetworkError message)
      | InternalFatal \<Rightarrow> Some (cli_exit.ScraperFailure message)
      | PermanentFatal \<Rightarrow> None | DomainRecoverable \<Rightarrow> None)"

definition forbidden_exit_when_all_blocked :: "nat \<Rightarrow> nat \<Rightarrow> nat \<Rightarrow> cli_exit option" where
  "forbidden_exit_when_all_blocked results_len failures_len blocked =
     (if results_len = 0 \<and> failures_len = 0 \<and> blocked > 0
      then Some (cli_exit.Forbidden (dec blocked @ '' URL(s) bloqueadas por robots.txt. Usa --ignore-robots para omitir esta verificaci'' @ [CHR 0xF3] @ ''n.''))
      else None)"

type_synonym failures = "(string \<times> scraper_error) list"

fun is_extraction_failed :: "scraper_error \<Rightarrow> bool" where
  "is_extraction_failed (scraper_error.ExtractionFailed u r) = True"
| "is_extraction_failed _ = False"

definition data_format_error_exit_when_extraction_failed :: "failures \<Rightarrow> cli_exit option" where
  "data_format_error_exit_when_extraction_failed fs =
     (let extraction_failed = length (filter (\<lambda>(_, e). is_extraction_failed e) fs) in
      if extraction_failed > 0
      then Some (cli_exit.DataFormatError (''extracci'' @ [CHR 0xF3] @ ''n sin contenido '' @ [CHR 0xFA] @ ''til: '' @ dec extraction_failed
             @ '' URL(s) devolvieron contenido insuficiente o requieren renderizado de JavaScript''))
      else None)"

definition scraper_failure_exit_when_internal_fatal :: "failures \<Rightarrow> cli_exit option" where
  "scraper_failure_exit_when_internal_fatal fs =
     (let internal_fatal = length (filter (\<lambda>(_, e). scraper_classify e = InternalFatal) fs) in
      if internal_fatal > 0
      then Some (cli_exit.ScraperFailure (''Scraper failure: '' @ dec internal_fatal @ '' internal error(s) out of ''
             @ dec (length fs) @ '' URLs''))
      else None)"

definition empty_discovery_exit_for :: "scraper_error \<Rightarrow> cli_exit option" where
  "empty_discovery_exit_for e =
     (case e of
        scraper_error.SitemapEmpty \<Rightarrow> Some (cli_exit.EmptyDiscovery (''no URLs discovered: '' @ scraper_to_string e))
      | scraper_error.SitemapNotFound _ \<Rightarrow> Some (cli_exit.EmptyDiscovery (''no URLs discovered: '' @ scraper_to_string e))
      | _ \<Rightarrow> None)"

definition config_error_exit_for :: "scraper_error \<Rightarrow> cli_exit option" where
  "config_error_exit_for e =
     (case e of
        scraper_error.Config _ \<Rightarrow> Some (cli_exit.ConfigError (scraper_to_string e))
      | scraper_error.H2Config _ \<Rightarrow> Some (cli_exit.ConfigError (scraper_to_string e))
      | _ \<Rightarrow> None)"

definition permanent_io_error_exit_for :: "io_error \<Rightarrow> cli_exit option" where
  "permanent_io_error_exit_for e =
     (if io_kind_of e \<in> {Interrupted, WouldBlock, TimedOut} then None else Some (cli_exit.IoError (io_to_string e)))"

definition io_exit :: "scraper_error \<Rightarrow> cli_exit option" where
  "io_exit e = (case e of scraper_error.Io io_err \<Rightarrow> permanent_io_error_exit_for io_err | _ \<Rightarrow> None)"

definition ingestion_exit_for :: "scraper_error \<Rightarrow> cli_exit" where
  "ingestion_exit_for e =
     (let message = ''Fall'' @ [CHR 0xF3] @ '' la ingesta de vectores: '' @ scraper_to_string e in
      case config_error_exit_for e of Some x \<Rightarrow> x
      | None \<Rightarrow>
          (case io_exit e of Some x \<Rightarrow> x
           | None \<Rightarrow>
               (case cli_exit_for_class (scraper_classify e) message of Some x \<Rightarrow> x
                | None \<Rightarrow> cli_exit.DataFormatError message)))"

definition cancelled_exit :: "bool \<Rightarrow> cli_exit option" where
  "cancelled_exit cancelled = (if cancelled then Some cli_exit.Success else None)"

section \<open>The two flows\<close>

definition permanent_io_error_for_failures :: "failures \<Rightarrow> cli_exit option" where
  "permanent_io_error_for_failures fs =
     find_map (\<lambda>(_, e). io_exit e) fs"

text \<open>The single-page flow; \<open>None\<close> lets the caller go on to the export.\<close>

definition report_phase :: "'r list \<Rightarrow> failures \<Rightarrow> nat \<Rightarrow> cli_exit option" where
  "report_phase results fs blocked =
     (if fs \<noteq> [] \<and> results \<noteq> [] then Some (cli_exit.PartialSuccess (length results) (length fs))
      else (case forbidden_exit_when_all_blocked (length results) (length fs) blocked of Some x \<Rightarrow> Some x
            | None \<Rightarrow>
                if results = [] then
                  (case scraper_failure_exit_when_internal_fatal fs of Some x \<Rightarrow> Some x
                   | None \<Rightarrow>
                       (case permanent_io_error_for_failures fs of Some x \<Rightarrow> Some x
                        | None \<Rightarrow>
                            (case data_format_error_exit_when_extraction_failed fs of Some x \<Rightarrow> Some x
                             | None \<Rightarrow> Some (cli_exit.NetworkError ''No pages were successfully scraped''))))
                else None))"

definition batch_exit_code :: "nat \<Rightarrow> nat \<Rightarrow> failures \<Rightarrow> cli_exit" where
  "batch_exit_code succeeded failed errors =
     (if failed > 0 \<and> succeeded = 0 then
        (case scraper_failure_exit_when_internal_fatal errors of Some x \<Rightarrow> x
         | None \<Rightarrow>
             (case permanent_io_error_for_failures errors of Some x \<Rightarrow> x
              | None \<Rightarrow>
                  (case data_format_error_exit_when_extraction_failed errors of Some x \<Rightarrow> x
                   | None \<Rightarrow> cli_exit.NetworkError ''All batch URLs failed'')))
      else if failed > 0 then cli_exit.PartialSuccess succeeded failed
      else cli_exit.Success)"

section \<open>HTTP client errors\<close>

text \<open>\<^verbatim>\<open>From<HttpError> for CrawlError\<close>, which knows no URL, and its counterpart in the application layer.\<close>

fun crawl_from_http :: "http_error \<Rightarrow> crawl_error" where
  "crawl_from_http http_error.Forbidden = crawl_error.Http 403 []"
| "crawl_from_http (http_error.RateLimited n) = crawl_error.RateLimited n"
| "crawl_from_http (http_error.ClientError code) = crawl_error.Http code []"
| "crawl_from_http (http_error.ServerError code) = crawl_error.Http code []"
| "crawl_from_http http_error.Timeout = crawl_error.Timeout"
| "crawl_from_http (http_error.Connection m) = crawl_error.Connection m"
| "crawl_from_http (http_error.Request m) = crawl_error.RequestFailed m"
| "crawl_from_http (http_error.WafChallenge p) = crawl_error.WafChallenge p BodySignature []"
| "crawl_from_http (http_error.DomainBanned d) = crawl_error.SessionPool (''domain banned: '' @ d)"
| "crawl_from_http (http_error.BodyTooLarge l) =
     crawl_error.RequestFailed (''response body exceeded the limit of '' @ dec (unat l) @ '' bytes'')"

fun crawl_error_from_http :: "http_error \<Rightarrow> string \<Rightarrow> crawl_error" where
  "crawl_error_from_http (http_error.ClientError code) u = crawl_error.Http code u"
| "crawl_error_from_http (http_error.ServerError code) u = crawl_error.Http code u"
| "crawl_error_from_http http_error.Forbidden u = crawl_error.Http 403 u"
| "crawl_error_from_http (http_error.RateLimited n) u = crawl_error.RateLimited n"
| "crawl_error_from_http http_error.Timeout u = crawl_error.Timeout"
| "crawl_error_from_http (http_error.Connection m) u = crawl_error.Connection m"
| "crawl_error_from_http (http_error.Request m) u = crawl_error.RequestFailed m"
| "crawl_error_from_http (http_error.WafChallenge p) u = crawl_error.WafChallenge p BodySignature u"
| "crawl_error_from_http (http_error.DomainBanned d) u = crawl_error.SessionPool (''domain banned: '' @ d)"
| "crawl_error_from_http (http_error.BodyTooLarge l) u =
     crawl_error.RequestFailed (''response body exceeded the limit of '' @ dec (unat l) @ '' bytes'')"

definition scraper_error_from_http :: "http_error \<Rightarrow> string \<Rightarrow> scraper_error" where
  "scraper_error_from_http err u = scraper_from_crawl (crawl_error_from_http err u)"

section \<open>The status of a run in which every page failed\<close>

text \<open>The documented precedence, on the set of the errors.\<close>

definition permanent_io :: "scraper_error \<Rightarrow> bool" where
  "permanent_io e = (case e of scraper_error.Io io_err \<Rightarrow> \<not> transient_io_kind (io_kind_of io_err) | _ \<Rightarrow> False)"

definition all_failed_status :: "scraper_error set \<Rightarrow> u8" where
  "all_failed_status es =
     (if \<exists>e\<in>es. scraper_classify e = InternalFatal then 3
      else if \<exists>e\<in>es. permanent_io e then 74
      else if \<exists>e\<in>es. is_extraction_failed e then 65
      else 69)"

lemma internal_exit_status:
  "map_option report (scraper_failure_exit_when_internal_fatal fs)
     = (if \<exists>e\<in>snd ` set fs. scraper_classify e = InternalFatal then Some 3 else None)"
  by (force simp: scraper_failure_exit_when_internal_fatal_def Let_def filter_empty_conv exit_codes)

lemma io_exit_none: "permanent_io e \<longleftrightarrow> io_exit e \<noteq> None"
  by (cases e) (simp_all add: io_exit_def permanent_io_def permanent_io_error_exit_for_def transient_io_kind_def)

lemma io_exit_report: "io_exit e = Some x \<Longrightarrow> report x = 74"
  by (cases e) (auto simp: io_exit_def permanent_io_error_exit_for_def exit_codes split: if_splits)

lemma io_exit_status:
  "map_option report (permanent_io_error_for_failures fs)
     = (if \<exists>e\<in>snd ` set fs. permanent_io e then Some 74 else None)"
  unfolding permanent_io_error_for_failures_def
  by (induction fs) (auto simp: io_exit_none io_exit_report split: option.splits if_splits)

lemma extraction_exit_status:
  "map_option report (data_format_error_exit_when_extraction_failed fs)
     = (if \<exists>e\<in>snd ` set fs. is_extraction_failed e then Some 65 else None)"
  by (force simp: data_format_error_exit_when_extraction_failed_def Let_def filter_empty_conv exit_codes)

lemmas exit_statuses = internal_exit_status io_exit_status extraction_exit_status

lemma batch_all_failed:
  assumes "0 < n"
  shows "report (batch_exit_code 0 n fs) = all_failed_status (snd ` set fs)"
  using exit_statuses [of fs] assms
  by (auto simp: batch_exit_code_def all_failed_status_def exit_codes split: option.splits if_splits)

lemma report_all_failed:
  assumes "fs \<noteq> []"
  shows "map_option report (report_phase [] fs blocked) = Some (all_failed_status (snd ` set fs))"
  using exit_statuses [of fs] assms
  by (auto simp: report_phase_def forbidden_exit_when_all_blocked_def all_failed_status_def exit_codes
      split: option.splits if_splits)

lemma report_some_scraped:
  "rs \<noteq> [] \<Longrightarrow> map_option report (report_phase rs fs blocked) = (if fs = [] then None else Some 69)"
  by (simp add: report_phase_def forbidden_exit_when_all_blocked_def exit_codes)

lemma batch_some_succeeded:
  "0 < n \<Longrightarrow> report (batch_exit_code n m fs) = (if m = 0 then 0 else 69)"
  by (simp add: batch_exit_code_def exit_codes)

text \<open>
  C25. The exit status of a run does not depend on the order in which its pages failed, neither in the
  single-page nor in the batch flow, and when something failed the two flows exit with the same status.
\<close>

theorem exit_status_ignores_completion_order:
  assumes "mset fs = mset gs" and "fs \<noteq> []"
  shows "map_option report (report_phase rs fs blocked) = map_option report (report_phase rs gs blocked)
    \<and> map_option report (report_phase rs fs blocked) = Some (report (batch_exit_code (length rs) (length gs) gs))"
proof -
  have same: "set fs = set gs" "gs \<noteq> []" "0 < length gs"
    using assms mset_eq_setD by auto
  show ?thesis
  proof (cases "rs = []")
    case True
    with same assms(2) show ?thesis
      by (simp add: report_all_failed batch_all_failed del: map_option_eq_Some)
  next
    case False
    with same assms(2) show ?thesis
      by (simp add: report_some_scraped batch_some_succeeded)
  qed
qed

theorem exit_status_ignores_completion_order_witness:
  "map_option report (report_phase ([] :: nat list) [(''a'', scraper_error.GlobalTimeout), (''b'', scraper_error.Internal ''x'')] 0)
     = Some (report (batch_exit_code 0 2 [(''b'', scraper_error.Internal ''x''), (''a'', scraper_error.GlobalTimeout)]))
   \<and> report (batch_exit_code 0 2 [(''b'', scraper_error.Internal ''x''), (''a'', scraper_error.GlobalTimeout)]) = 3"
proof -
  let ?fs = "[(''a'', scraper_error.GlobalTimeout), (''b'', scraper_error.Internal ''x'')]"
  let ?gs = "[(''b'', scraper_error.Internal ''x''), (''a'', scraper_error.GlobalTimeout)]"
  have "map_option report (report_phase ([] :: nat list) ?fs 0) = Some (report (batch_exit_code (length ([] :: nat list)) (length ?gs) ?gs))"
    by (rule conjunct2 [OF exit_status_ignores_completion_order]) simp_all
  moreover have "report (batch_exit_code 0 2 ?gs) = 3" by (simp add: batch_all_failed all_failed_status_def)
  ultimately show ?thesis by (simp add: numeral_2_eq_2 del: map_option_eq_Some)
qed

text \<open>
  When every page failed and the class of every failure has the same default status, the run exits with
  that status: the precedence of the overrides never hides a transient or an internal failure.
\<close>

theorem failed_run_exits_with_the_class_default:
  assumes "fs \<noteq> []" and "\<forall>(u, e)\<in>set fs. default_exit_code_for_class (scraper_classify e) = Some k"
  shows "map_option report (report_phase [] fs blocked) = Some k"
proof -
  have each: "default_exit_code_for_class (scraper_classify e) = Some k" if "e \<in> snd ` set fs" for e
    using assms(2) that by auto
  obtain e0 where e0: "e0 \<in> snd ` set fs" using assms(1) by (cases fs) auto
  have "k = (if scraper_classify e = InternalFatal then 3 else 69) \<and> \<not> permanent_io e \<and> \<not> is_extraction_failed e"
    if "e \<in> snd ` set fs" for e
    using each [OF that]
    by (cases e) (auto simp: default_exit_code_for_class_def exit_codes permanent_io_def split: error_class.splits if_splits)
  with e0 have "all_failed_status (snd ` set fs) = k"
    unfolding all_failed_status_def by fastforce
  with report_all_failed [OF assms(1)] show ?thesis by simp
qed

theorem failed_run_exits_with_the_class_default_witness:
  "map_option report (report_phase ([] :: nat list) [(''a'', scraper_error.GlobalTimeout), (''b'', scraper_error.Http 503 ''b'')] 0) = Some 69"
  using failed_run_exits_with_the_class_default
      [of "[(''a'', scraper_error.GlobalTimeout), (''b'', scraper_error.Http 503 ''b'')]" 69 0]
  by (simp add: default_exit_code_for_class_def exit_codes)

section \<open>HTTP client errors and their status\<close>

text \<open>
  The two conversions of an HTTP client error agree: on the empty URL they are the same function, and for
  no URL do the class of the crawl error, the class of the scraper error, or the exit status of a run that
  failed with it differ.
\<close>

theorem http_error_sites_agree:
  "crawl_error_from_http err [] = crawl_from_http err
   \<and> crawl_classify (crawl_error_from_http err u) = crawl_classify (crawl_from_http err)
   \<and> scraper_classify (scraper_error_from_http err u) = scraper_classify (scraper_from_crawl (crawl_from_http err))
   \<and> report (batch_exit_code 0 1 [(v, scraper_error_from_http err u)])
       = report (batch_exit_code 0 1 [(v, scraper_from_crawl (crawl_from_http err))])"
  by (cases err) (simp_all add: scraper_error_from_http_def batch_all_failed all_failed_status_def permanent_io_def)

text \<open>
  The status of a run whose only page failed in the HTTP client: 3 when the body was over the cap, the
  request could not be built or read, or the domain was banned, and 69 for every other failure, a challenge of
  a firewall, a forbidden page and a page that does not exist included.
\<close>

theorem http_failure_exit_status:
  "report (batch_exit_code 0 1 [(v, scraper_error_from_http err u)]) =
     (case err of
        http_error.Request _ \<Rightarrow> 3
      | http_error.DomainBanned _ \<Rightarrow> 3
      | http_error.BodyTooLarge _ \<Rightarrow> 3
      | _ \<Rightarrow> 69)"
  by (cases err) (simp_all add: scraper_error_from_http_def batch_all_failed all_failed_status_def permanent_io_def)

text \<open>
  The typed overrides for configuration errors, refused URLs and missing sitemaps are not consulted when every
  page failed: the run exits as if the network had been down.
\<close>

lemma page_failures_skip_the_overrides:
  "map_option report (report_phase [] [(v, scraper_error.Config m)] b) = Some 69"
  "map_option report (report_phase [] [(v, scraper_error.H2Config m)] b) = Some 3"
  "map_option report (report_phase [] [(v, scraper_error.InvalidUrl m)] b) = Some 69"
  "map_option report (report_phase [] [(v, scraper_error.WafBlocked u m)] b) = Some 69"
  "map_option report (report_phase [] [(v, scraper_error.SitemapEmpty)] b) = Some 69"
  by (simp_all add: report_all_failed all_failed_status_def permanent_io_def del: map_option_eq_Some)

text \<open>What an ingestion failure exits with.\<close>

lemma config_exit_report: "config_error_exit_for e = Some x \<Longrightarrow> report x = 78"
  by (cases e) (auto simp: config_error_exit_for_def exit_codes)

lemma class_exit_report:
  "report (case cli_exit_for_class c m of Some x \<Rightarrow> x | None \<Rightarrow> cli_exit.DataFormatError m')
     = (case default_exit_code_for_class c of Some k \<Rightarrow> k | None \<Rightarrow> 65)"
  by (cases c) (simp_all add: cli_exit_for_class_def default_exit_code_for_class_def exit_codes)

lemma ingestion_status:
  "report (ingestion_exit_for e) =
     (if config_error_exit_for e \<noteq> None then 78
      else if permanent_io e then 74
      else (case default_exit_code_for_class (scraper_classify e) of Some k \<Rightarrow> k | None \<Rightarrow> 65))"
  by (cases "config_error_exit_for e"; cases "io_exit e")
    (simp_all add: ingestion_exit_for_def io_exit_none Let_def config_exit_report io_exit_report class_exit_report)

end
