(* ===== verification/Site_Discovery.thy ===== *)
theory Site_Discovery
  imports Sitemap_Parser Pattern_Matching Url_Queue Exit_Codes
begin

text \<open>
  Finding the pages of a site before they are scraped: \<^verbatim>\<open>application/crawler/sitemap_discovery.rs\<close>,
  \<^verbatim>\<open>application/crawler/discovery.rs\<close> (\<open>discover_urls_single_fetch\<close>), the sitemap mode of
  \<^verbatim>\<open>domain/site/crawler_config.rs\<close>, \<^verbatim>\<open>ValidUrl\<close> of \<^verbatim>\<open>domain/value_objects.rs\<close>, and the planning steps of
  \<^verbatim>\<open>cli/url_discovery.rs\<close> and \<^verbatim>\<open>cli/discovery_phase.rs\<close>. Every operation threads the requests sent so far; the
  network answers from that history. A panic is \<open>None\<close>, as is the unspecified sort of the parser.
\<close>

section \<open>Requests and surroundings\<close>

datatype probe = Head string | Get string | Fetched "nat list" string

record discovery_response =
  dr_status :: u16
  dr_content_type :: string
  dr_text :: "dyn_error + string"

record 'u discovery_env =
  de_sitemap :: "'u sitemap_env"
  de_fetch :: "probe list \<Rightarrow> nat list \<Rightarrow> string \<Rightarrow> nat \<Rightarrow> string + sitemap_response"
  de_seen :: "probe list \<Rightarrow> nat list \<Rightarrow> string \<Rightarrow> bool"
  de_net :: "probe list \<Rightarrow> probe \<Rightarrow> dyn_error + discovery_response"
  de_glob :: globber
  de_info_enabled :: bool
  de_strip_credentials :: "'u \<Rightarrow> 'u"
  de_debug :: "string \<Rightarrow> string"
  de_client :: "scraper_error option"
  de_extract_links :: "string \<Rightarrow> string \<Rightarrow> crawl_error + string list"
  de_normalize :: normalizer

abbreviation de_lib :: "'u discovery_env \<Rightarrow> 'u sitemap_lib" where
  "de_lib env \<equiv> se_lib (de_sitemap env)"

abbreviation de_api :: "'u discovery_env \<Rightarrow> 'u url_api" where
  "de_api env \<equiv> sl_api (se_lib (de_sitemap env))"

abbreviation de_parse_url :: "'u discovery_env \<Rightarrow> string \<Rightarrow> 'u option" where
  "de_parse_url env s \<equiv> api_parse (de_api env) s"

definition send :: "'u discovery_env \<Rightarrow> probe \<Rightarrow> probe list \<Rightarrow> (dyn_error + discovery_response) \<times> probe list" where
  "send env p sent = (de_net env sent p, sent @ [p])"

section \<open>The mode\<close>

definition valid_try_from_url :: "'u url_api \<Rightarrow> ('u \<Rightarrow> 'u) \<Rightarrow> 'u \<Rightarrow> scraper_error + 'u" where
  "valid_try_from_url api strip u =
     (let scheme = api_scheme api u in
      if scheme \<noteq> ''http'' \<and> scheme \<noteq> ''https''
      then Inl (scraper_error.InvalidUrl
             (''Scheme '' @ [CHR 0x27] @ scheme @ [CHR 0x27] @ '' no soportado. Solo http:// y https://''))
      else Inr (strip u))"

definition valid_url_parse :: "'u discovery_env \<Rightarrow> string \<Rightarrow> scraper_error + 'u" where
  "valid_url_parse env s =
     (case de_parse_url env s of
        None \<Rightarrow> Inl (scraper_error.InvalidUrl (se_url_error (de_sitemap env) s))
      | Some u \<Rightarrow> valid_try_from_url (de_api env) (de_strip_credentials env) u)"

datatype 'u sitemap_mode = Disabled | Enabled "'u option"

definition resolve_mode :: "'u discovery_env \<Rightarrow> bool \<Rightarrow> string option \<Rightarrow> scraper_error + 'u sitemap_mode" where
  "resolve_mode env use_sitemap sitemap_url1 =
     (case (use_sitemap, sitemap_url1) of
        (False, None) \<Rightarrow> Inr Disabled
      | (_, Some raw) \<Rightarrow>
          (case valid_url_parse env raw of
             Inl e \<Rightarrow> Inl (scraper_error.InvalidUrl
                       (''URL de sitemap inv'' @ [CHR 0xE1] @ ''lida '' @ de_debug env raw @ '': '' @ scraper_to_string e))
           | Inr u \<Rightarrow> Inr (Enabled (Some u)))
      | (True, None) \<Rightarrow> Inr (Enabled None))"

definition mode_is_enabled :: "'u sitemap_mode \<Rightarrow> bool" where
  "mode_is_enabled m = (case m of Enabled _ \<Rightarrow> True | Disabled \<Rightarrow> False)"

record 'u discovery_config =
  dc_patterns :: crawler_patterns
  dc_max_depth :: u8
  dc_sitemap :: "'u sitemap_mode"

section \<open>Entry guard and probes\<close>

definition reject_sitemap_entry_target :: "'u discovery_env \<Rightarrow> string \<Rightarrow> crawl_error + unit" where
  "reject_sitemap_entry_target env raw_url =
     (case de_parse_url env raw_url of
        None \<Rightarrow> Inl (crawl_error.InvalidUrl (''URL inv'' @ [CHR 0xE1] @ ''lida: '' @ se_url_error (de_sitemap env) raw_url))
      | Some parsed \<Rightarrow>
          (case reject_forbidden_literal_url (se_entry_guard (de_sitemap env)) (api_host_str (de_api env) parsed) of
             Inl rejection \<Rightarrow> Inl (crawl_error.InvalidUrl (forbidden_literal_display (se_show_ip (de_sitemap env)) rejection))
           | Inr _ \<Rightarrow> Inr ()))"

definition probe_head_success :: "'u discovery_env \<Rightarrow> string \<Rightarrow> probe list \<Rightarrow> string option \<times> probe list" where
  "probe_head_success env sitemap_str sent =
     (case send env (Head sitemap_str) sent of
        (Inl _, sent1) \<Rightarrow> (None, sent1)
      | (Inr response, sent1) \<Rightarrow>
          if is_success (dr_status response) then (Some sitemap_str, sent1)
          else (case send env (Get sitemap_str) sent1 of
                  (Inl _, sent2) \<Rightarrow> (None, sent2)
                | (Inr get_response, sent2) \<Rightarrow>
                    (if is_success (dr_status get_response) then Some sitemap_str else None, sent2)))"

definition probe_single_path :: "'u discovery_env \<Rightarrow> 'u \<Rightarrow> string \<Rightarrow> probe list \<Rightarrow> string option \<times> probe list" where
  "probe_single_path env base path sent =
     (case sl_join (de_lib env) base path of
        None \<Rightarrow> (None, sent)
      | Some u \<Rightarrow> probe_head_success env (url_text (de_lib env) u) sent)"

fun probe_sitemap_paths :: "'u discovery_env \<Rightarrow> 'u \<Rightarrow> string list \<Rightarrow> probe list \<Rightarrow> string option \<times> probe list" where
  "probe_sitemap_paths env base [] sent = (None, sent)"
| "probe_sitemap_paths env base (path # paths) sent =
     (case probe_single_path env base path sent of
        (Some found, sent1) \<Rightarrow> (Some found, sent1)
      | (None, sent1) \<Rightarrow> probe_sitemap_paths env base paths sent1)"

definition subpath_candidates :: "string \<Rightarrow> string list" where
  "subpath_candidates path =
     (let segments = filter (\<lambda>s. s \<noteq> []) (split_on (CHR ''/'') path) in
      concat (map (\<lambda>i. (let sub_path = join_with (CHR ''/'') (take i segments) in
                         [''/'' @ sub_path @ ''/sitemap.xml'', ''/'' @ sub_path @ ''/sitemap_index.xml'']))
                [1..<Suc (min (length segments) 3)]))"

definition probe_subpath_sitemaps :: "'u discovery_env \<Rightarrow> 'u \<Rightarrow> probe list \<Rightarrow> string option \<times> probe list" where
  "probe_subpath_sitemaps env base sent =
     probe_sitemap_paths env base (subpath_candidates (api_path (de_api env) base)) sent"

definition FALLBACK_PATHS :: "string list" where
  "FALLBACK_PATHS = [''/sitemap.xml'', ''/sitemap_index.xml'', ''/sitemap.xml.gz'', ''/sitemap/sitemap.xml'']"

section \<open>robots.txt\<close>

text \<open>\<^verbatim>\<open>str::lines\<close>, and the slice \<^verbatim>\<open>&s[..n]\<close>, which panics inside a character.\<close>

definition str_lines :: "string \<Rightarrow> string list" where
  "str_lines s =
     (let ps = split_on (CHR 0x0A) s; ls = (if last ps = [] then butlast ps else ps)
      in map (\<lambda>l. unwrap_or (strip_suffix [CHR 0x0D] l) l) ls)"

fun slice_to :: "nat \<Rightarrow> string \<Rightarrow> string option" where
  "slice_to n s =
     (if n = 0 then Some []
      else (case s of
              [] \<Rightarrow> None
            | c # cs \<Rightarrow> if n < len_utf8 c then None else map_option ((#) c) (slice_to (n - len_utf8 c) cs)))"

declare slice_to.simps [simp del]

definition log_robots_content :: "'u discovery_env \<Rightarrow> string \<Rightarrow> unit option" where
  "log_robots_content env content =
     (if de_info_enabled env then map_option (\<lambda>_. ()) (slice_to (min (byte_len content) 500) content) else Some ())"

fun extract_loop :: "'u discovery_env \<Rightarrow> 'u \<Rightarrow> string list \<Rightarrow> string option" where
  "extract_loop env base [] = None"
| "extract_loop env base (line # lines) =
     (if \<not> starts_with ''sitemap:'' (to_lowercase line) then extract_loop env base lines
      else (case or_else (strip_prefix ''Sitemap:'' line) (strip_prefix ''sitemap:'' line) of
              None \<Rightarrow> extract_loop env base lines
            | Some directive \<Rightarrow>
                (let sitemap = trim directive;
                     resolved = (if starts_with ''http://'' sitemap \<or> starts_with ''https://'' sitemap
                                 then de_parse_url env sitemap else sl_join (de_lib env) base sitemap)
                 in case resolved of
                      Some u \<Rightarrow> Some (url_text (de_lib env) u)
                    | None \<Rightarrow> extract_loop env base lines)))"

definition extract_robots_sitemap_directive :: "'u discovery_env \<Rightarrow> string \<Rightarrow> 'u \<Rightarrow> string option" where
  "extract_robots_sitemap_directive env content base = extract_loop env base (str_lines content)"

definition fetch_robots_sitemap ::
  "'u discovery_env \<Rightarrow> 'u \<Rightarrow> probe list \<Rightarrow> (crawl_error + string option) option \<times> probe list" where
  "fetch_robots_sitemap env base sent =
     (case sl_join (de_lib env) base ''/robots.txt'' of
        None \<Rightarrow> (Some (Inr None), sent)
      | Some robots_url \<Rightarrow>
          (case send env (Get (url_text (de_lib env) robots_url)) sent of
             (Inl _, sent1) \<Rightarrow> (Some (Inr None), sent1)
           | (Inr response, sent1) \<Rightarrow>
               if \<not> is_success (dr_status response) then (Some (Inr None), sent1)
               else (case dr_text response of
                       Inl _ \<Rightarrow> (Some (Inr None), sent1)
                     | Inr content \<Rightarrow>
                         (let ct = dr_content_type response;
                              ctx = \<lparr>ctx_status = Some (dr_status response),
                                     content_type = (if ct = [] then None else Some ct), headers = [], ignore_waf = False\<rparr>;
                              verdict = inspect (se_find_iter (de_sitemap env)) (se_high_entropy (de_sitemap env)) content ctx
                          in if is_blocked verdict
                             then (Some (Inl (crawl_error.WafChallenge (evidence_chain verdict) BodySignature
                                     (url_text (de_lib env) robots_url))), sent1)
                             else (map_option (\<lambda>_. Inr (extract_robots_sitemap_directive env content base))
                                     (log_robots_content env content), sent1)))))"

definition discover_sitemap_url ::
  "'u discovery_env \<Rightarrow> string \<Rightarrow> probe list \<Rightarrow> (crawl_error + string) option \<times> probe list" where
  "discover_sitemap_url env base_url sent =
     (case de_parse_url env base_url of
        None \<Rightarrow> (Some (Inl (crawl_error.InvalidUrl (se_url_error (de_sitemap env) base_url))), sent)
      | Some base \<Rightarrow>
          (case fetch_robots_sitemap env base sent of
             (None, sent1) \<Rightarrow> (None, sent1)
           | (Some (Inl e), sent1) \<Rightarrow> (Some (Inl e), sent1)
           | (Some (Inr (Some u)), sent1) \<Rightarrow> (Some (Inr u), sent1)
           | (Some (Inr None), sent1) \<Rightarrow>
               (case probe_sitemap_paths env base FALLBACK_PATHS sent1 of
                  (Some u, sent2) \<Rightarrow> (Some (Inr u), sent2)
                | (None, sent2) \<Rightarrow>
                    (case probe_subpath_sitemaps env base sent2 of
                       (Some u, sent3) \<Rightarrow> (Some (Inr u), sent3)
                     | (None, sent3) \<Rightarrow> (Some (Inl (crawl_error.SitemapNotFound base_url)), sent3)))))"

definition resolve_sitemap_url ::
  "'u discovery_env \<Rightarrow> string \<Rightarrow> 'u option \<Rightarrow> probe list \<Rightarrow> (crawl_error + string) option \<times> probe list" where
  "resolve_sitemap_url env base_url sitemap sent =
     (case (case sitemap of
              Some u \<Rightarrow> (Some (Inr (url_text (de_lib env) u)), sent)
            | None \<Rightarrow> discover_sitemap_url env base_url sent) of
        (Some (Inr resolved), sent1) \<Rightarrow>
          (case reject_sitemap_entry_target env resolved of
             Inl e \<Rightarrow> (Some (Inl e), sent1) | Inr _ \<Rightarrow> (Some (Inr resolved), sent1))
      | r \<Rightarrow> r)"

section \<open>Parsing a sitemap\<close>

fun crawl_from_sitemap :: "sitemap_error \<Rightarrow> crawl_error" where
  "crawl_from_sitemap (sitemap_error.HttpError st message) = crawl_error.Http st message"
| "crawl_from_sitemap (sitemap_error.XmlError e) = crawl_error.Parse (''XML parsing failed: '' @ e)"
| "crawl_from_sitemap (sitemap_error.InvalidContentType ct) = crawl_error.InvalidContentType ct"
| "crawl_from_sitemap (sitemap_error.SitemapNotFound u) = crawl_error.SitemapNotFound u"
| "crawl_from_sitemap sitemap_error.MaxDepthExceeded = crawl_error.SitemapDepthExceeded"
| "crawl_from_sitemap sitemap_error.NoUrlsFound = crawl_error.SitemapEmpty"
| "crawl_from_sitemap (sitemap_error.DecompressionError e) = crawl_error.Parse (''decompression failed: '' @ e)"
| "crawl_from_sitemap (sitemap_error.MemoryLimitExceeded mb) =
     crawl_error.Parse (''sitemap memory limit exceeded: '' @ show_dec mb @ '' MB'')"
| "crawl_from_sitemap (sitemap_error.AllChildrenFailed n details) =
     crawl_error.Parse (''all '' @ show_dec n @ '' child sitemaps failed: '' @ details)"
| "crawl_from_sitemap (sitemap_error.WafChallenge u p) = crawl_error.WafChallenge p BodySignature u"
| "crawl_from_sitemap (sitemap_error.SsrfLiteralRejected m) = crawl_error.InvalidUrl m"
| "crawl_from_sitemap other = crawl_error.Parse (sitemap_display other)"

definition discovery_parser :: sitemap_parser where
  "discovery_parser =
     parser_with_config (config_build (config_builder
       \<lparr>sc_gzip_enabled := True, sc_max_depth := 3, sc_concurrency := 5, sc_batch_size := 10000,
        sc_pagination_enabled := True\<rparr>))"

definition run_parser ::
  "'u discovery_env \<Rightarrow> string \<Rightarrow> probe list \<Rightarrow> 'u sitemap_url list outcome \<times> probe list" where
  "run_parser env sitemap_url1 sent =
     (let (outcome, reqs) = parse_from_url discovery_parser
            ((de_sitemap env)\<lparr>se_fetch := de_fetch env sent, se_seen := de_seen env sent\<rparr>) sitemap_url1
      in (outcome, sent @ map (\<lambda>(p, u). Fetched p u) reqs))"

definition parse_sitemap ::
  "'u discovery_env \<Rightarrow> string \<Rightarrow> probe list \<Rightarrow> (crawl_error + 'u sitemap_url list) option \<times> probe list" where
  "parse_sitemap env sitemap_url1 sent =
     (case run_parser env sitemap_url1 sent of
        (outcome, sent1) \<Rightarrow>
          (map_option (\<lambda>r. case r of Inl e \<Rightarrow> Inl (crawl_from_sitemap e) | Inr us \<Rightarrow> Inr us) outcome, sent1))"

definition filter_relevant_urls :: "'u discovery_env \<Rightarrow> 'u sitemap_url list \<Rightarrow> string \<Rightarrow> 'u sitemap_url list" where
  "filter_relevant_urls env urls target_path =
     (let tgt = canonical_path target_path in
      filter (\<lambda>u. starts_with tgt (canonical_path (api_path (de_api env) (sm_url u)))) urls)"

definition build_discovered_urls ::
  "'u discovery_env \<Rightarrow> 'u sitemap_url list \<Rightarrow> 'u \<Rightarrow> 'u discovery_config \<Rightarrow> discovered_url list" where
  "build_discovered_urls env relevant_urls base config =
     List.map_filter
       (\<lambda>u. (let depth = (if entry_key (de_lib env) u = url_text (de_lib env) base then 0 else 1) in
              if depth \<le> dc_max_depth config
              then Some (discovered_html (entry_key (de_lib env) u) depth (url_text (de_lib env) base)) else None))
       (filter (\<lambda>u. is_allowed (de_api env) (de_glob env) (entry_key (de_lib env) u) (dc_patterns config)) relevant_urls)"

definition build_discovered_urls_or_limit_error ::
  "'u discovery_env \<Rightarrow> 'u sitemap_url list \<Rightarrow> 'u \<Rightarrow> 'u discovery_config \<Rightarrow> crawl_error + discovered_url list" where
  "build_discovered_urls_or_limit_error env relevant_urls base config =
     (let discovered = build_discovered_urls env relevant_urls base config in
      if discovered = [] \<and> dc_max_depth config = 0 then Inl (crawl_error.MaxDepthExceeded 1 0) else Inr discovered)"

section \<open>Sub-path sitemaps\<close>

definition try_subpath_sitemap ::
  "'u discovery_env \<Rightarrow> 'u \<Rightarrow> string \<Rightarrow> probe list \<Rightarrow> 'u sitemap_url list option option \<times> probe list" where
  "try_subpath_sitemap env base candidate sent =
     (case sl_join (de_lib env) base candidate of
        None \<Rightarrow> (Some None, sent)
      | Some u \<Rightarrow>
          (case send env (Head (url_text (de_lib env) u)) sent of
             (Inl _, sent1) \<Rightarrow> (Some None, sent1)
           | (Inr response, sent1) \<Rightarrow>
               if \<not> is_success (dr_status response) then (Some None, sent1)
               else (case run_parser env (url_text (de_lib env) u) sent1 of
                       (outcome, sent2) \<Rightarrow>
                         (map_option (\<lambda>r. case r of Inr us \<Rightarrow> Some us | Inl _ \<Rightarrow> None) outcome, sent2))))"

fun subpath_loop ::
  "'u discovery_env \<Rightarrow> 'u \<Rightarrow> string list \<Rightarrow> 'u sitemap_url list \<Rightarrow> probe list \<Rightarrow> 'u sitemap_url list option \<times> probe list" where
  "subpath_loop env base [] all_urls sent = (Some all_urls, sent)"
| "subpath_loop env base (c # cs) all_urls sent =
     (case try_subpath_sitemap env base c sent of
        (None, sent1) \<Rightarrow> (None, sent1)
      | (Some None, sent1) \<Rightarrow> subpath_loop env base cs all_urls sent1
      | (Some (Some us), sent1) \<Rightarrow> subpath_loop env base cs (all_urls @ us) sent1)"

definition crawl_with_subpath_sitemaps ::
  "'u discovery_env \<Rightarrow> 'u \<Rightarrow> nat \<Rightarrow> nat \<Rightarrow> u8 \<Rightarrow> probe list \<Rightarrow> (crawl_error + discovered_url list) option \<times> probe list" where
  "crawl_with_subpath_sitemaps env base sitemap_max_depth sitemap_current_depth crawl_max_depth sent =
     (if sitemap_max_depth \<le> sitemap_current_depth then (Some (Inr []), sent)
      else if crawl_max_depth = 0 then (Some (Inr []), sent)
      else (case subpath_loop env base (subpath_candidates (api_path (de_api env) base)) [] sent of
              (None, sent1) \<Rightarrow> (None, sent1)
            | (Some all_urls, sent1) \<Rightarrow>
                (Some (Inr (map (\<lambda>u. discovered_html (entry_key (de_lib env) u) 1 (url_text (de_lib env) base)) all_urls)), sent1)))"

section \<open>Crawling with a sitemap\<close>

definition crawl_with_sitemap_internal ::
  "'u discovery_env \<Rightarrow> string \<Rightarrow> 'u option \<Rightarrow> 'u discovery_config \<Rightarrow> probe list
    \<Rightarrow> (crawl_error + discovered_url list) option \<times> probe list" where
  "crawl_with_sitemap_internal env base_url sitemap config sent =
     (case reject_sitemap_entry_target env base_url of
        Inl e \<Rightarrow> (Some (Inl e), sent)
      | Inr _ \<Rightarrow>
          (case de_client env of
             Some e \<Rightarrow> (Some (Inl (crawl_error.Internal (''failed to build discovery client: '' @ scraper_to_string e))), sent)
           | None \<Rightarrow>
               (case resolve_sitemap_url env base_url sitemap sent of
                  (None, sent1) \<Rightarrow> (None, sent1)
                | (Some (Inl e), sent1) \<Rightarrow> (Some (Inl e), sent1)
                | (Some (Inr sitemap_url1), sent1) \<Rightarrow>
                    (case parse_sitemap env sitemap_url1 sent1 of
                       (None, sent2) \<Rightarrow> (None, sent2)
                     | (Some (Inl e), sent2) \<Rightarrow> (Some (Inl e), sent2)
                     | (Some (Inr urls), sent2) \<Rightarrow>
                         (case de_parse_url env base_url of
                            None \<Rightarrow> (Some (Inl (crawl_error.InvalidUrl (se_url_error (de_sitemap env) base_url))), sent2)
                          | Some base \<Rightarrow>
                              (let relevant = filter_relevant_urls env urls (api_path (de_api env) base) in
                               if relevant = []
                               then crawl_with_subpath_sitemaps env base 3 0 (dc_max_depth config) sent2
                               else (Some (build_discovered_urls_or_limit_error env relevant base config), sent2)))))))"

definition crawl_with_sitemap ::
  "'u discovery_env \<Rightarrow> string \<Rightarrow> string option \<Rightarrow> 'u discovery_config \<Rightarrow> probe list
    \<Rightarrow> (crawl_error + discovered_url list) option \<times> probe list" where
  "crawl_with_sitemap env base_url sitemap_url1 config sent =
     (case sitemap_url1 of
        None \<Rightarrow> crawl_with_sitemap_internal env base_url None config sent
      | Some raw \<Rightarrow>
          (case resolve_mode env True (Some raw) of
             Inl (scraper_error.InvalidUrl m) \<Rightarrow> (Some (Inl (crawl_error.InvalidUrl m)), sent)
           | Inl other \<Rightarrow> (Some (Inl (crawl_error.Parse (scraper_to_string other))), sent)
           | Inr (Enabled u) \<Rightarrow> crawl_with_sitemap_internal env base_url u config sent
           | Inr Disabled \<Rightarrow> crawl_with_sitemap_internal env base_url None config sent))"

section \<open>Discovery of the command line\<close>

text \<open>The links of one page: only internal ones that the patterns allow, as written in the page.\<close>

definition keep_link :: "'u discovery_env \<Rightarrow> 'u discovery_config \<Rightarrow> 'u \<Rightarrow> string \<Rightarrow> string option" where
  "keep_link env config base link =
     (let canonical = normalize_url (de_api env) (de_normalize env) dedup_config link in
      case de_parse_url env link of
        None \<Rightarrow> None
      | Some parsed \<Rightarrow>
          (case api_host_str (de_api env) base of
             None \<Rightarrow> None
           | Some seed_domain \<Rightarrow>
               if is_internal_link (de_api env) canonical seed_domain \<and>
                  is_allowed (de_api env) (de_glob env) canonical (dc_patterns config)
               then Some (url_text (de_lib env) parsed) else None))"

definition discover_links ::
  "'u discovery_env \<Rightarrow> string \<Rightarrow> 'u discovery_config \<Rightarrow> probe list \<Rightarrow> (scraper_error + string list) \<times> probe list" where
  "discover_links env base_url config sent =
     (case de_client env of
        Some e \<Rightarrow> (Inl e, sent)
      | None \<Rightarrow>
          (case de_parse_url env base_url of
             None \<Rightarrow> (Inl (scraper_error.UrlParse (se_url_error (de_sitemap env) base_url)), sent)
           | Some seed \<Rightarrow>
               (case reject_forbidden_literal_url (se_entry_guard (de_sitemap env)) (api_host_str (de_api env) seed) of
                  Inl rejection \<Rightarrow>
                    (Inl (scraper_error.InvalidUrl (forbidden_literal_display (se_show_ip (de_sitemap env)) rejection)), sent)
                | Inr _ \<Rightarrow>
                    (case send env (Get base_url) sent of
                       (Inl e, sent1) \<Rightarrow> (Inl (scraper_from_wreq e), sent1)
                     | (Inr response, sent1) \<Rightarrow>
                         (case dr_text response of
                            Inl e \<Rightarrow> (Inl (scraper_from_wreq e), sent1)
                          | Inr html \<Rightarrow>
                              (case de_extract_links env html base_url of
                                 Inl e \<Rightarrow> (Inl (scraper_from_crawl e), sent1)
                               | Inr links \<Rightarrow> (Inr (List.map_filter (keep_link env config seed) links), sent1)))))))"

definition discover_urls_single_fetch ::
  "'u discovery_env \<Rightarrow> string \<Rightarrow> 'u discovery_config \<Rightarrow> probe list \<Rightarrow> (scraper_error + string list) option \<times> probe list" where
  "discover_urls_single_fetch env base_url config sent =
     (case dc_sitemap config of
        Enabled u \<Rightarrow>
          (case crawl_with_sitemap_internal env base_url u config sent of
             (outcome, sent1) \<Rightarrow>
               (map_option (\<lambda>r. case r of Inl e \<Rightarrow> Inl (scraper_from_crawl e) | Inr ds \<Rightarrow> Inr (map du_url ds)) outcome, sent1))
      | Disabled \<Rightarrow>
          if dc_max_depth config = 0 then (Some (Inr []), sent)
          else (case discover_links env base_url config sent of (r, sent1) \<Rightarrow> (Some r, sent1)))"

definition discover_urls :: "scraper_error + string list \<Rightarrow> scraper_error + string list" where
  "discover_urls result =
     (case result of
        Inr urls \<Rightarrow> Inr urls
      | Inl e \<Rightarrow> if e = scraper_error.SitemapEmpty then Inr [] else Inl e)"

definition discover_sitemap_urls :: "scraper_error + string list \<Rightarrow> cli_exit + string list" where
  "discover_sitemap_urls result =
     (case discover_urls result of
        Inl (scraper_error.SitemapNotFound _) \<Rightarrow> Inl (cli_exit.EmptyDiscovery ''No URLs discovered: sitemap not found'')
      | Inl scraper_error.SitemapEmpty \<Rightarrow> Inl (cli_exit.EmptyDiscovery ''No URLs discovered: sitemap is empty'')
      | Inl e \<Rightarrow> Inl (cli_exit.NetworkError (''URL discovery failed: '' @ scraper_to_string e))
      | Inr urls \<Rightarrow>
          if urls = [] then Inl (cli_exit.EmptyDiscovery ''No URLs discovered from sitemaps'') else Inr urls)"

definition plan_urls ::
  "'u discovery_env \<Rightarrow> bool \<Rightarrow> bool \<Rightarrow> string \<Rightarrow> string list \<Rightarrow> crawler_patterns \<Rightarrow> string list" where
  "plan_urls env single_page use_sitemap seed_url discovered_urls patterns =
     (let seed_allowed = is_allowed (de_api env) (de_glob env) seed_url patterns in
      if single_page then (if seed_allowed then [seed_url] else [])
      else if use_sitemap then discovered_urls
      else if seed_allowed then (if seed_url \<in> set discovered_urls then discovered_urls else seed_url # discovered_urls)
      else filter (\<lambda>u. u \<noteq> seed_url) discovered_urls)"

text \<open>The sitemap branch of \<^verbatim>\<open>prepare_phase\<close>: from the seed to the pages to scrape.\<close>

definition prepare_sitemap_urls ::
  "'u discovery_env \<Rightarrow> string \<Rightarrow> 'u discovery_config \<Rightarrow> probe list \<Rightarrow> (cli_exit + string list) option \<times> probe list" where
  "prepare_sitemap_urls env seed_url config sent =
     (case discover_urls_single_fetch env seed_url config sent of
        (outcome, sent1) \<Rightarrow>
          (map_option (\<lambda>r. case discover_sitemap_urls r of
               Inl e \<Rightarrow> Inl e
             | Inr urls \<Rightarrow> Inr (plan_urls env False True seed_url urls (dc_patterns config))) outcome, sent1))"

section \<open>Where the requests go\<close>

fun guarded :: "'u discovery_env \<Rightarrow> probe \<Rightarrow> bool" where
  "guarded env (Head u) = permitted (de_sitemap env) u"
| "guarded env (Get u) = permitted (de_sitemap env) u"
| "guarded env (Fetched p u) = permitted (de_sitemap env) u"

fun is_dial :: "probe \<Rightarrow> bool" where
  "is_dial (Fetched p u) = False"
| "is_dial _ = True"

text \<open>
  What the crate \<^verbatim>\<open>url\<close> documents of \<open>join\<close>: an absolute path keeps the host, and a URL parses back from
  its text.
\<close>

definition absolute_path :: "string \<Rightarrow> bool" where
  "absolute_path p \<longleftrightarrow> starts_with ''/'' p \<and> \<not> starts_with ''//'' p"

definition url_laws :: "'u discovery_env \<Rightarrow> bool" where
  "url_laws env \<longleftrightarrow> (\<forall>b p v. sl_join (de_lib env) b p = Some v \<longrightarrow>
     (absolute_path p \<longrightarrow> api_host_str (de_api env) v = api_host_str (de_api env) b) \<and>
     de_parse_url env (url_text (de_lib env) v) = Some v)"

definition host_permitted :: "'u discovery_env \<Rightarrow> 'u \<Rightarrow> bool" where
  "host_permitted env b \<longleftrightarrow>
     reject_forbidden_literal_url (se_entry_guard (de_sitemap env)) (api_host_str (de_api env) b) = Inr ()"

text \<open>\<open>sent1\<close> is \<open>sent\<close> and at most \<open>n\<close> probes after it, besides what the parser fetched, all guarded.\<close>

definition extends :: "'u discovery_env \<Rightarrow> nat \<Rightarrow> probe list \<Rightarrow> probe list \<Rightarrow> bool" where
  "extends env n sent sent1 \<longleftrightarrow>
     (\<exists>new. sent1 = sent @ new \<and> list_all (guarded env) new \<and> length (filter is_dial new) \<le> n)"

lemma extends_refl [simp]: "extends env n sent sent"
  by (simp add: extends_def)

lemma extends_mono: "extends env n sent sent1 \<Longrightarrow> n \<le> m \<Longrightarrow> extends env m sent sent1"
  by (auto simp: extends_def)

lemma extends_trans: "extends env n sent sent1 \<Longrightarrow> extends env m sent1 sent2 \<Longrightarrow> extends env (n + m) sent sent2"
  by (fastforce simp: extends_def)

lemma extends_send: "guarded env p \<Longrightarrow> extends env 1 sent (snd (send env p sent))"
  by (cases p) (auto simp: extends_def send_def)

lemma reject_entry_Inr:
  "reject_sitemap_entry_target env raw = Inr () \<longleftrightarrow> permitted (de_sitemap env) raw"
  by (auto simp: reject_sitemap_entry_target_def permitted_def split: option.split sum.split)

lemma permitted_iff: "permitted (de_sitemap env) raw \<longleftrightarrow> (\<exists>b. de_parse_url env raw = Some b \<and> host_permitted env b)"
  by (auto simp: permitted_def host_permitted_def split: option.split)

lemma join_permitted:
  assumes "url_laws env" "host_permitted env b" "absolute_path p" "sl_join (de_lib env) b p = Some v"
  shows "permitted (de_sitemap env) (url_text (de_lib env) v)"
  using assms unfolding permitted_iff host_permitted_def url_laws_def by metis

lemma probe_head_success_extends:
  assumes "permitted (de_sitemap env) u"
  shows "extends env 2 sent (snd (probe_head_success env u sent))"
proof -
  obtain r sent1 where s1: "send env (Head u) sent = (r, sent1)" by (cases "send env (Head u) sent")
  have e1: "extends env 1 sent sent1" using extends_send [of env "Head u" sent] assms s1 by simp
  obtain r2 sent2 where s2: "send env (Get u) sent1 = (r2, sent2)" by (cases "send env (Get u) sent1")
  have "extends env 1 sent1 sent2" using extends_send [of env "Get u" sent1] assms s2 by simp
  from extends_trans [OF e1 this] have "extends env 2 sent sent2" by (simp add: numeral_2_eq_2)
  then show ?thesis using extends_mono [OF e1, of 2] by (auto simp: probe_head_success_def s1 s2 split: sum.split)
qed

lemma probe_sitemap_paths_extends:
  assumes "url_laws env" "host_permitted env b" "list_all absolute_path ps"
  shows "extends env (2 * length ps) sent (snd (probe_sitemap_paths env b ps sent))"
  using assms(3)
proof (induction ps arbitrary: sent)
  case (Cons p ps)
  obtain f sent1 where s1: "probe_single_path env b p sent = (f, sent1)" by (cases "probe_single_path env b p sent")
  have e1: "extends env 2 sent sent1"
  proof (cases "sl_join (de_lib env) b p")
    case None
    then show ?thesis using s1 by (simp add: probe_single_path_def)
  next
    case (Some v)
    have "permitted (de_sitemap env) (url_text (de_lib env) v)"
      using join_permitted [OF assms(1,2) _ Some] Cons.prems by simp
    from probe_head_success_extends [OF this, of sent] show ?thesis using s1 Some by (simp add: probe_single_path_def)
  qed
  have "extends env (2 * length ps) sent1 (snd (probe_sitemap_paths env b ps sent1))" using Cons by simp
  from extends_trans [OF e1 this] show ?case using extends_mono [OF e1] by (auto simp: s1 split: option.split)
qed simp

lemma split_on_parts: "p \<in> set (split_on c xs) \<Longrightarrow> c \<notin> set p"
  by (induction xs arbitrary: p) (auto split: list.splits if_splits)

lemma join_with_Cons: "\<exists>r. join_with c (p # ps) = p @ r"
  by (cases ps) auto

lemma subpath_candidates_absolute: "list_all absolute_path (subpath_candidates path)"
proof -
  let ?segs = "filter (\<lambda>s. s \<noteq> []) (split_on (CHR ''/'') path)"
  have "absolute_path (CHR ''/'' # join_with (CHR ''/'') (take i ?segs) @ rest)" if bounds: "1 \<le> i" "i \<le> length ?segs" for i rest
  proof -
    obtain s ss where seg: "?segs = s # ss" using bounds by (cases ?segs) auto
    have "s \<in> set ?segs" by (subst seg) simp
    then have mem: "s \<in> set (split_on (CHR ''/'') path)" and ne: "s \<noteq> []" by simp_all
    obtain d ds where d: "s = d # ds" "d \<noteq> CHR ''/''"
      using ne split_on_parts [OF mem] by (cases s) auto
    obtain j where "take i ?segs = s # take j ss" using bounds seg by (cases i) auto
    then obtain r where "join_with (CHR ''/'') (take i ?segs) = s @ r" using join_with_Cons by metis
    then show ?thesis using d by (simp add: absolute_path_def starts_with_def)
  qed
  then show ?thesis
    by (auto simp: subpath_candidates_def Let_def list_all_iff simp del: split_on.simps)
qed

lemma subpath_candidates_length: "length (subpath_candidates path) \<le> 6"
proof -
  have "length (concat (map (\<lambda>i. [f i, g i]) xs)) = 2 * length xs" for f g :: "nat \<Rightarrow> string" and xs
    by (induction xs) auto
  then show ?thesis by (simp add: subpath_candidates_def Let_def min_def)
qed

lemma run_parser_extends: "extends env 0 sent (snd (run_parser env u sent))"
proof -
  let ?e = "(de_sitemap env)\<lparr>se_fetch := de_fetch env sent, se_seen := de_seen env sent\<rparr>"
  have same: "permitted ?e v = permitted (de_sitemap env) v" for v
    by (cases "de_parse_url env v") (simp_all add: permitted_def)
  have "permitted ?e v" if "(p, v) \<in> set (snd (parse_from_url discovery_parser ?e u))" for p v
    using that tree.call_permitted unfolding discovery_parser_def parse_from_url_def by blast
  then show ?thesis
    by (auto simp: extends_def run_parser_def same list_all_iff split: prod.split)
qed

lemma fetch_robots_sitemap_extends:
  assumes "url_laws env" "host_permitted env b"
  shows "extends env 1 sent (snd (fetch_robots_sitemap env b sent))"
proof (cases "sl_join (de_lib env) b ''/robots.txt''")
  case None
  then show ?thesis by (simp add: fetch_robots_sitemap_def)
next
  case (Some v)
  obtain r sent1 where s1: "send env (Get (url_text (de_lib env) v)) sent = (r, sent1)"
    by (cases "send env (Get (url_text (de_lib env) v)) sent")
  have "absolute_path ''/robots.txt''" by (simp add: absolute_path_def starts_with_def)
  from join_permitted [OF assms this Some] have "extends env 1 sent sent1"
    using extends_send [of env "Get (url_text (de_lib env) v)" sent] s1 by simp
  then show ?thesis using s1 Some by (auto simp: fetch_robots_sitemap_def Let_def split: sum.split)
qed

lemma discover_sitemap_url_extends:
  assumes "url_laws env" "permitted (de_sitemap env) base_url"
  shows "extends env 21 sent (snd (discover_sitemap_url env base_url sent))"
proof -
  obtain b where b: "de_parse_url env base_url = Some b" "host_permitted env b" using assms(2) by (auto simp: permitted_iff)
  obtain r sent1 where s1: "fetch_robots_sitemap env b sent = (r, sent1)" by (cases "fetch_robots_sitemap env b sent")
  obtain f sent2 where s2: "probe_sitemap_paths env b FALLBACK_PATHS sent1 = (f, sent2)"
    by (cases "probe_sitemap_paths env b FALLBACK_PATHS sent1")
  obtain g sent3 where s3: "probe_subpath_sitemaps env b sent2 = (g, sent3)" by (cases "probe_subpath_sitemaps env b sent2")
  have e1: "extends env 1 sent sent1" using fetch_robots_sitemap_extends [OF assms(1) b(2), of sent] s1 by simp
  have "list_all absolute_path FALLBACK_PATHS" by (simp add: FALLBACK_PATHS_def absolute_path_def starts_with_def)
  from probe_sitemap_paths_extends [OF assms(1) b(2) this, of sent1]
  have e2: "extends env 8 sent1 sent2" using s2 by (simp add: FALLBACK_PATHS_def)
  have e3: "extends env 12 sent2 sent3"
    using probe_sitemap_paths_extends [OF assms(1) b(2) subpath_candidates_absolute, of "api_path (de_api env) b" sent2]
      subpath_candidates_length [of "api_path (de_api env) b"] s3
    by (auto simp: probe_subpath_sitemaps_def elim: extends_mono)
  have e12: "extends env 9 sent sent2" using extends_trans [OF e1 e2] by simp
  have e13: "extends env 21 sent sent3" using extends_trans [OF e12 e3] by simp
  show ?thesis
    using extends_mono [OF e1, of 21] extends_mono [OF e12, of 21] e13 b(1) s1 s2 s3
    by (auto simp: discover_sitemap_url_def split: option.split sum.split)
qed

lemma resolve_sitemap_url_extends:
  assumes "url_laws env" "permitted (de_sitemap env) base_url"
  shows "extends env 21 sent (snd (resolve_sitemap_url env base_url sitemap sent))"
proof (cases sitemap)
  case None
  obtain r sent1 where "discover_sitemap_url env base_url sent = (r, sent1)" by (cases "discover_sitemap_url env base_url sent")
  then show ?thesis using discover_sitemap_url_extends [OF assms, of sent] None
    by (auto simp: resolve_sitemap_url_def split: option.split sum.split)
qed (auto simp: resolve_sitemap_url_def split: sum.split)

lemma parse_sitemap_extends: "extends env 0 sent (snd (parse_sitemap env u sent))"
  using run_parser_extends [of env sent u] by (auto simp: parse_sitemap_def split: prod.split)

lemma try_subpath_sitemap_extends:
  assumes "url_laws env" "host_permitted env b" "absolute_path c"
  shows "extends env 1 sent (snd (try_subpath_sitemap env b c sent))"
proof (cases "sl_join (de_lib env) b c")
  case None
  then show ?thesis by (simp add: try_subpath_sitemap_def)
next
  case (Some v)
  obtain r sent1 where s1: "send env (Head (url_text (de_lib env) v)) sent = (r, sent1)"
    by (cases "send env (Head (url_text (de_lib env) v)) sent")
  have e1: "extends env 1 sent sent1"
    using extends_send [of env "Head (url_text (de_lib env) v)" sent] join_permitted [OF assms Some] s1 by simp
  obtain q sent2 where s2: "run_parser env (url_text (de_lib env) v) sent1 = (q, sent2)"
    by (cases "run_parser env (url_text (de_lib env) v) sent1")
  have "extends env 0 sent1 sent2" using run_parser_extends [of env sent1 "url_text (de_lib env) v"] s2 by simp
  from extends_trans [OF e1 this] show ?thesis using e1 s1 s2 Some
    by (auto simp: try_subpath_sitemap_def split: sum.split)
qed

lemma subpath_loop_extends:
  assumes "url_laws env" "host_permitted env b" "list_all absolute_path cs"
  shows "extends env (length cs) sent (snd (subpath_loop env b cs us sent))"
  using assms(3)
proof (induction cs arbitrary: us sent)
  case (Cons c cs)
  obtain r sent1 where s1: "try_subpath_sitemap env b c sent = (r, sent1)" by (cases "try_subpath_sitemap env b c sent")
  have e1: "extends env 1 sent sent1"
    using try_subpath_sitemap_extends [OF assms(1,2), of c sent] Cons.prems s1 by simp
  have "extends env (length cs) sent1 (snd (subpath_loop env b cs vs sent1))" for vs using Cons by simp
  from extends_trans [OF e1 this] show ?case using extends_mono [OF e1] by (auto simp: s1 split: option.split)
qed simp

lemma crawl_with_subpath_sitemaps_extends:
  assumes "url_laws env" "host_permitted env b"
  shows "extends env 6 sent (snd (crawl_with_subpath_sitemaps env b m d k sent))"
proof -
  let ?cs = "subpath_candidates (api_path (de_api env) b)"
  obtain r sent1 where s1: "subpath_loop env b ?cs [] sent = (r, sent1)" by (cases "subpath_loop env b ?cs [] sent")
  have "extends env (length ?cs) sent sent1"
    using subpath_loop_extends [OF assms subpath_candidates_absolute, of "api_path (de_api env) b" sent "[]"] s1 by simp
  from extends_mono [OF this subpath_candidates_length]
  show ?thesis by (auto simp: crawl_with_subpath_sitemaps_def s1 split: option.split)
qed

lemma crawl_with_sitemap_internal_extends:
  assumes "url_laws env"
  shows "extends env 27 sent (snd (crawl_with_sitemap_internal env base_url sitemap config sent))"
proof (cases "permitted (de_sitemap env) base_url \<and> de_client env = None")
  case False
  then show ?thesis
    using reject_entry_Inr [of env base_url]
    by (auto simp: crawl_with_sitemap_internal_def split: sum.split option.split)
next
  case True
  then have entry: "reject_sitemap_entry_target env base_url = Inr ()" by (simp add: reject_entry_Inr)
  obtain b where b: "de_parse_url env base_url = Some b" "host_permitted env b" using True by (auto simp: permitted_iff)
  obtain r sent1 where s1: "resolve_sitemap_url env base_url sitemap sent = (r, sent1)"
    by (cases "resolve_sitemap_url env base_url sitemap sent")
  have e1: "extends env 21 sent sent1" using resolve_sitemap_url_extends [OF assms, of base_url sent sitemap] True s1 by simp
  have e2: "extends env 27 sent (snd (crawl_with_subpath_sitemaps env b 3 0 (dc_max_depth config) (snd (parse_sitemap env u sent1))))"
    for u
    using extends_trans [OF extends_trans [OF e1 parse_sitemap_extends [of env sent1 u]]
        crawl_with_subpath_sitemaps_extends [OF assms b(2), of _ 3 0 "dc_max_depth config"]] by simp
  have e3: "extends env 27 sent (snd (parse_sitemap env u sent1))" for u
    using extends_mono [OF extends_trans [OF e1 parse_sitemap_extends [of env sent1 u]], of 27] by simp
  show ?thesis
  proof (cases "\<exists>u. r = Some (Inr u)")
    case False
    then show ?thesis using True entry s1 extends_mono [OF e1, of 27]
      by (auto simp: crawl_with_sitemap_internal_def split: sum.split option.split)
  next
    case found: True
    then obtain u where u: "r = Some (Inr u)" by blast
    obtain q sent2 where s2: "parse_sitemap env u sent1 = (q, sent2)" by (cases "parse_sitemap env u sent1")
    show ?thesis using True entry s1 u s2 e2 [of u] e3 [of u] b(1)
      by (auto simp: crawl_with_sitemap_internal_def Let_def split: sum.split option.split)
  qed
qed


text \<open>A site whose URLs are the paths of one host, and a network that never answers.\<close>

definition silent_env :: "string discovery_env" where
  "silent_env =
     \<lparr>de_sitemap =
        \<lparr>se_lib =
           \<lparr>sl_api =
              \<lparr>api_parse = strip_prefix ''https://a.io'', api_scheme = \<lambda>_. ''https'', api_host_str = \<lambda>_. Some ''a.io'',
               api_path = \<lambda>p. p, api_set_path = \<lambda>p _. p, api_to_string = \<lambda>p. ''https://a.io'' @ p\<rparr>,
            sl_join = \<lambda>_ p. Some p, sl_query_pairs = \<lambda>_. 0\<rparr>,
         se_normalize = \<lambda>_ u. Some u, se_entry_guard = None, se_url_error = \<lambda>u. u, se_show_ip = \<lambda>_. [],
         se_status_text = \<lambda>_. [], se_decode = \<lambda>_ c. (c, None), se_write = \<lambda>_ _ _. None, se_utf8_lossy = \<lambda>b. b,
         se_find_iter = \<lambda>_. [], se_high_entropy = \<lambda>_. False, se_reader = \<lambda>_. [], se_fetch = \<lambda>_ _ _. Inl [],
         se_seen = \<lambda>_ _. False\<rparr>,
      de_fetch = \<lambda>_ _ _ _. Inl [], de_seen = \<lambda>_ _ _. False, de_net = \<lambda>_ _. Inl (DynOther ''timeout'' None),
      de_glob = \<lambda>_. None, de_info_enabled = True, de_strip_credentials = \<lambda>u. u, de_debug = \<lambda>s. s,
      de_client = None, de_extract_links = \<lambda>_ _. Inr [], de_normalize = \<lambda>_ u. Some u\<rparr>"


section \<open>Which pages are found\<close>

lemma build_discovered_urls_in_scope:
  "list_all (\<lambda>d. is_allowed (de_api env) (de_glob env) (du_url d) (dc_patterns config) \<and> du_depth d \<le> dc_max_depth config)
     (build_discovered_urls env us base config)"
  by (auto simp: build_discovered_urls_def list_all_iff List.map_filter_def Let_def discovered_html_def)

text \<open>
  Scope of a sitemap: whatever the servers answer, no page found through a sitemap is deeper than
  the configured depth, and either all of them pass the include and exclude patterns or the patterns had
  no say at all: with any other patterns the run finds the same pages. The second is the fallback to the
  sitemaps of the sub-paths, whose pages no one matches against the patterns.
\<close>

theorem sitemap_pages_in_scope_or_unfiltered:
  "case fst (crawl_with_sitemap_internal env base_url sitemap config sent) of
     Some (Inr ds) \<Rightarrow>
       list_all (\<lambda>d. du_depth d \<le> dc_max_depth config) ds \<and>
       (list_all (\<lambda>d. is_allowed (de_api env) (de_glob env) (du_url d) (dc_patterns config)) ds \<or>
        (\<forall>p. crawl_with_sitemap_internal env base_url sitemap (config\<lparr>dc_patterns := p\<rparr>) sent =
             crawl_with_sitemap_internal env base_url sitemap config sent))
   | _ \<Rightarrow> True"
proof -
  have nonzero_byte: "1 \<le> (n :: u8)" if "n \<noteq> 0" for n
    using that by (simp add: word_le_nat_alt Suc_le_eq unat_gt_0)
  have fallback: "list_all (\<lambda>d. du_depth d \<le> k) ds"
    if "fst (crawl_with_subpath_sitemaps env b m c k s) = Some (Inr ds)" for b m c k s ds
    using that nonzero_byte
    by (auto simp: crawl_with_subpath_sitemaps_def list_all_iff discovered_html_def split: if_splits prod.splits option.splits)
  have direct: "list_all (\<lambda>d. du_depth d \<le> dc_max_depth config) ds \<and>
      list_all (\<lambda>d. is_allowed (de_api env) (de_glob env) (du_url d) (dc_patterns config)) ds"
    if "build_discovered_urls_or_limit_error env us b config = Inr ds" for us b ds
    using that build_discovered_urls_in_scope [of env config us b]
    by (auto simp: build_discovered_urls_or_limit_error_def Let_def list_all_iff split: if_splits)
  show ?thesis
    by (auto simp: crawl_with_sitemap_internal_def Let_def dest: fallback direct split: option.split sum.split prod.split)
qed

section \<open>How failures end\<close>

text \<open>
  The status of a run whose sitemap could not be parsed: an empty sitemap and a missing one are an
  empty discovery, status 2, and every other failure of the parser is status 69, a challenge of a firewall
  and a refused internal address included, so neither is reported as forbidden (77) or as a protocol error.
\<close>

theorem sitemap_failure_exit_status:
  "\<exists>x. discover_sitemap_urls (Inl (scraper_from_crawl (crawl_from_sitemap e))) = Inl x \<and>
     report x = (case e of
        sitemap_error.NoUrlsFound \<Rightarrow> 2
      | sitemap_error.SitemapNotFound _ \<Rightarrow> 2
      | _ \<Rightarrow> 69)"
  by (cases e) (simp_all add: discover_sitemap_urls_def discover_urls_def exit_codes)

lemma slice_to_zero [simp]: "slice_to 0 s = Some []"
  by (simp add: slice_to.simps)

lemma slice_to_Nil: "slice_to n [] = (if n = 0 then Some [] else None)"
  by (simp add: slice_to.simps)

lemma slice_to_Cons:
  "slice_to n (c # cs) =
     (if n = 0 then Some [] else if n < len_utf8 c then None else map_option ((#) c) (slice_to (n - len_utf8 c) cs))"
  by (subst slice_to.simps) simp

lemma slice_to_Some: "slice_to n s = Some p \<longleftrightarrow> (\<exists>k\<le>length s. p = take k s \<and> byte_len p = n)"
proof (induction s arbitrary: n p)
  case Nil
  then show ?case by (auto simp: slice_to_Nil byte_len_def)
next
  case (Cons c cs)
  have pos: "0 < len_utf8 c" by (simp add: len_utf8_def)
  show ?case
  proof (cases "n < len_utf8 c")
    case True
    have "p = take k (c # cs) \<and> byte_len p = n \<longleftrightarrow> k = 0 \<and> n = 0 \<and> p = []" for k
      using True by (cases k) (auto simp: byte_len_def)
    then show ?thesis using True by (simp add: slice_to_Cons) blast
  next
    case False
    have "(\<exists>k\<le>length (c # cs). p = take k (c # cs) \<and> byte_len p = n) \<longleftrightarrow>
        (\<exists>k\<le>length cs. p = c # take k cs \<and> byte_len (take k cs) = n - len_utf8 c)"
    proof (intro iffI; elim exE conjE)
      fix k assume k: "k \<le> length (c # cs)" "p = take k (c # cs)" "byte_len p = n"
      then obtain j where "k = Suc j" using False pos by (cases k) (auto simp: byte_len_def)
      then show "\<exists>k\<le>length cs. p = c # take k cs \<and> byte_len (take k cs) = n - len_utf8 c"
        using k by (intro exI [of _ j]) (simp add: byte_len_def)
    next
      fix k assume k: "k \<le> length cs" "p = c # take k cs" "byte_len (take k cs) = n - len_utf8 c"
      then show "\<exists>k\<le>length (c # cs). p = take k (c # cs) \<and> byte_len p = n"
        using False by (intro exI [of _ "Suc k"]) (simp add: byte_len_def)
    qed
    also have "\<dots> \<longleftrightarrow> (\<exists>q. slice_to (n - len_utf8 c) cs = Some q \<and> p = c # q)"
      unfolding Cons.IH by blast
    also have "\<dots> \<longleftrightarrow> slice_to n (c # cs) = Some p"
      using False pos by (auto simp: slice_to_Cons)
    finally show ?thesis by (rule sym)
  qed
qed

text \<open>
  The trace line of robots.txt panics exactly when it is enabled and byte 500 of a longer document is
  not the first of a character.
\<close>

lemma robots_trace_panics:
  "log_robots_content env content = None \<longleftrightarrow>
     de_info_enabled env \<and> 500 < byte_len content \<and>
     list_all (\<lambda>k. byte_len (take k content) \<noteq> 500) [0..<Suc (length content)]"
proof -
  have none: "slice_to n content = None \<longleftrightarrow> (\<forall>k\<le>length content. byte_len (take k content) \<noteq> n)" for n
    using slice_to_Some [of n content] by (cases "slice_to n content") auto
  show ?thesis
    by (auto simp: log_robots_content_def none list_all_iff min_def less_Suc_eq_le simp del: upt_Suc)
qed

text \<open>
  A directive is looked up without regard to case and read with it: a line \<^verbatim>\<open>SITEMAP: ...\<close> or
  \<^verbatim>\<open>SiteMap: ...\<close> is skipped.
\<close>

lemma other_spellings_are_skipped:
  assumes "\<not> starts_with ''Sitemap:'' line" "\<not> starts_with ''sitemap:'' line"
  shows "extract_loop env base (line # lines) = extract_loop env base lines"
proof -
  have "strip_prefix ''Sitemap:'' line = None" "strip_prefix ''sitemap:'' line = None"
    using assms unfolding starts_with_def by blast+
  then show ?thesis by (simp add: or_else_def)
qed

end
