(* ===== verification/Robots.thy ===== *)
theory Robots
  imports Site_Discovery
begin

text \<open>
  The robots.txt seam: \<^verbatim>\<open>infrastructure/crawler/robots_utils.rs\<close> and \<^verbatim>\<open>RobotsDecision\<close> of
  \<^verbatim>\<open>domain/crawler_port.rs\<close>. A check guards the page URL, then takes the decision of the domain, which the
  first check fetches and every later one reads. The matcher of the crate \<^verbatim>\<open>robotstxt\<close>, the origin of a URL and the
  network are arguments. Concurrent checks are the step relation \<open>robots_step\<close>: the map and its once cells make
  each step atomic, and a check whose task is dropped while it fetches leaves the cell unset.
\<close>

section \<open>Rules of one site\<close>

definition ROBOTS_MAX_BODY_BYTES :: u64 where "ROBOTS_MAX_BODY_BYTES = 1024 * 1024"

text \<open>\<^verbatim>\<open>f64::from_str\<close>; a finite value counts units of the least positive one, \<open>2 ^ - 1074\<close>.\<close>

datatype f64 = Nan64 | Num64 int

definition f64_infinity :: nat where "f64_infinity = 2 ^ 2098"

definition f64_nearest :: "nat \<Rightarrow> nat \<Rightarrow> nat" where
  "f64_nearest num den =
     (let scaled = num * 2 ^ 1074; e = floorlog 2 (scaled div den) - 53; step = den * 2 ^ e;
          q = scaled div step; r = scaled mod step;
          m = (if 2 * r > step \<or> 2 * r = step \<and> odd q then q + 1 else q)
      in min (m * 2 ^ e) f64_infinity)"

definition parse_f64 :: "string \<Rightarrow> f64 option" where
  "parse_f64 s =
     (let (neg, body) = (case s of CHR ''-'' # r \<Rightarrow> (True, r) | CHR ''+'' # r \<Rightarrow> (False, r) | _ \<Rightarrow> (False, s));
          l = to_ascii_lowercase body; signed = (\<lambda>n :: nat. if neg then - int n else int n)
      in if l = ''nan'' then Some Nan64
         else if l = ''inf'' \<or> l = ''infinity'' then Some (Num64 (signed f64_infinity))
         else map_option (\<lambda>(num, den). Num64 (signed (f64_nearest num den))) (parse_decimal l))"

fun crawl_delay_loop :: "string list \<Rightarrow> f64 option" where
  "crawl_delay_loop [] = None"
| "crawl_delay_loop (line # lines) =
     (let trimmed = trim line in
      if starts_with ''crawl-delay:'' (to_lowercase trimmed)
      then (case split_on (CHR '':'') trimmed of
              _ # val_str # _ \<Rightarrow> (case parse_f64 (trim val_str) of Some v \<Rightarrow> Some v | None \<Rightarrow> crawl_delay_loop lines)
            | _ \<Rightarrow> crawl_delay_loop lines)
      else crawl_delay_loop lines)"

definition parse_crawl_delay :: "string \<Rightarrow> f64 option" where
  "parse_crawl_delay content = crawl_delay_loop (str_lines content)"

record robots_rules =
  rr_content :: string
  rr_crawl_delay_secs :: "f64 option"

datatype robots_cache_entry = Rules robots_rules | AllowAll

datatype robots_decision = Allowed | RulesDenied | PolicyRefused forbidden_literal

definition allows :: "robots_decision \<Rightarrow> bool" where
  "allows d = (case d of Allowed \<Rightarrow> True | _ \<Rightarrow> False)"

record 'u robots_env =
  rb_api :: "'u url_api"
  rb_origin :: "'u \<Rightarrow> string"
  rb_entry_guard :: "string option"
  rb_http :: http_env
  rb_matcher :: "string \<Rightarrow> string \<Rightarrow> string \<Rightarrow> bool"

definition robots_txt_url :: "'u robots_env \<Rightarrow> string \<Rightarrow> string \<Rightarrow> string" where
  "robots_txt_url env page domain =
     (case api_parse (rb_api env) page of
        Some parsed \<Rightarrow> rb_origin env parsed @ ''/robots.txt''
      | None \<Rightarrow> ''https://'' @ domain @ ''/robots.txt'')"

definition read_robots_body :: "'u robots_env \<Rightarrow> response \<Rightarrow> string + string" where
  "read_robots_body env resp =
     (case read_body_capped (rb_http env) resp ROBOTS_MAX_BODY_BYTES of
        Inr t \<Rightarrow> Inr t
      | Inl _ \<Rightarrow> Inl ''body_read_error'')"

definition fetch_robots_content :: "'u robots_env \<Rightarrow> send_error + response \<Rightarrow> string + string" where
  "fetch_robots_content env answer =
     (case answer of
        Inl _ \<Rightarrow> Inl ''network_error''
      | Inr resp \<Rightarrow>
          if \<not> is_success (rs_status resp) then Inl (''http_status:'' @ dec (unat (rs_status resp)))
          else read_robots_body env resp)"

definition fetch_or_allow_all :: "'u robots_env \<Rightarrow> send_error + response \<Rightarrow> robots_cache_entry" where
  "fetch_or_allow_all env answer =
     (case fetch_robots_content env answer of
        Inr content \<Rightarrow> Rules \<lparr>rr_content = content, rr_crawl_delay_secs = parse_crawl_delay content\<rparr>
      | Inl _ \<Rightarrow> AllowAll)"

definition match_entry :: "'u robots_env \<Rightarrow> robots_cache_entry \<Rightarrow> string \<Rightarrow> robots_decision" where
  "match_entry env entry page =
     (case entry of
        Rules rules \<Rightarrow> if rb_matcher env (rr_content rules) ''*'' page then Allowed else RulesDenied
      | AllowAll \<Rightarrow> Allowed)"

definition page_refusal :: "'u robots_env \<Rightarrow> string \<Rightarrow> forbidden_literal option" where
  "page_refusal env page =
     (case api_parse (rb_api env) page of
        None \<Rightarrow> None
      | Some parsed \<Rightarrow>
          (case reject_forbidden_literal_url (rb_entry_guard env) (api_host_str (rb_api env) parsed) of
             Inl rejection \<Rightarrow> Some rejection
           | Inr _ \<Rightarrow> None))"

section \<open>The fetcher\<close>

text \<open>The cell of a domain: no entry or an unset once cell, one whose initialiser runs, or a decision.\<close>

datatype robots_cell = Unset | Running | Decided robots_cache_entry

record robots_fetcher =
  rf_cache :: "string \<Rightarrow> robots_cell"
  rf_sent :: "(string \<times> string) list"

definition robots_fetcher_new :: robots_fetcher where
  "robots_fetcher_new = \<lparr>rf_cache = \<lambda>_. Unset, rf_sent = []\<rparr>"

definition start_fetch_robots :: "'u robots_env \<Rightarrow> string \<Rightarrow> string \<Rightarrow> robots_fetcher \<Rightarrow> robots_fetcher" where
  "start_fetch_robots env domain page f =
     f\<lparr>rf_cache := (rf_cache f)(domain := Running), rf_sent := rf_sent f @ [(domain, robots_txt_url env page domain)]\<rparr>"

definition set_cell :: "string \<Rightarrow> robots_cell \<Rightarrow> robots_fetcher \<Rightarrow> robots_fetcher" where
  "set_cell domain c f = f\<lparr>rf_cache := (rf_cache f)(domain := c)\<rparr>"

text \<open>A single check: the answer is that of the network to the request it makes, if it makes one.\<close>

definition resolve_entry ::
  "'u robots_env \<Rightarrow> (send_error + response) \<Rightarrow> string \<Rightarrow> string \<Rightarrow> robots_fetcher \<Rightarrow> robots_cache_entry \<times> robots_fetcher" where
  "resolve_entry env answer domain page f =
     (case rf_cache f domain of
        Decided entry \<Rightarrow> (entry, f)
      | _ \<Rightarrow> (let entry = fetch_or_allow_all env answer in
              (entry, set_cell domain (Decided entry) (start_fetch_robots env domain page f))))"

definition is_robots_allowed ::
  "'u robots_env \<Rightarrow> (send_error + response) \<Rightarrow> string \<Rightarrow> string \<Rightarrow> robots_fetcher \<Rightarrow> robots_decision \<times> robots_fetcher" where
  "is_robots_allowed env answer page domain f =
     (case page_refusal env page of
        Some rejection \<Rightarrow> (PolicyRefused rejection, f)
      | None \<Rightarrow>
          (let (entry, f1) = resolve_entry env answer domain page f in (match_entry env entry page, f1)))"

definition get_crawl_delay :: "string \<Rightarrow> robots_fetcher \<Rightarrow> f64 option" where
  "get_crawl_delay domain f =
     (case rf_cache f domain of
        Decided (Rules rules) \<Rightarrow> rr_crawl_delay_secs rules
      | _ \<Rightarrow> None)"

section \<open>Concurrent checks\<close>

datatype robots_event =
    Verdict string string robots_decision
  | Begin string string
  | Finish string "send_error + response"
  | Dropped string

inductive robots_step :: "'u robots_env \<Rightarrow> robots_fetcher \<Rightarrow> robots_event \<Rightarrow> robots_fetcher \<Rightarrow> bool" for env where
  refuse: "page_refusal env page = Some rejection \<Longrightarrow>
     robots_step env f (Verdict page domain (PolicyRefused rejection)) f"
| begin_fetch: "page_refusal env page = None \<Longrightarrow> rf_cache f domain = Unset \<Longrightarrow>
     robots_step env f (Begin page domain) (start_fetch_robots env domain page f)"
| finish_fetch: "rf_cache f domain = Running \<Longrightarrow>
     robots_step env f (Finish domain answer) (set_cell domain (Decided (fetch_or_allow_all env answer)) f)"
| drop_fetch: "rf_cache f domain = Running \<Longrightarrow> robots_step env f (Dropped domain) (set_cell domain Unset f)"
| decide_page: "page_refusal env page = None \<Longrightarrow> rf_cache f domain = Decided entry \<Longrightarrow>
     robots_step env f (Verdict page domain (match_entry env entry page)) f"

inductive robots_run :: "'u robots_env \<Rightarrow> robots_event list \<Rightarrow> robots_fetcher \<Rightarrow> bool" for env where
  start: "robots_run env [] robots_fetcher_new"
| step: "robots_run env evs f \<Longrightarrow> robots_step env f ev f1 \<Longrightarrow> robots_run env (evs @ [ev]) f1"

inductive_cases robots_step_cases: "robots_step env f ev f1"

section \<open>One decision for each domain\<close>

definition requests_for :: "string \<Rightarrow> robots_fetcher \<Rightarrow> nat" where
  "requests_for domain f = length (filter (\<lambda>(d, _). d = domain) (rf_sent f))"

fun is_drop :: "string \<Rightarrow> robots_event \<Rightarrow> bool" where
  "is_drop domain (Dropped d) \<longleftrightarrow> d = domain"
| "is_drop domain _ \<longleftrightarrow> False"

text \<open>A verdict on the domain is the refusal of the page, or what the entry says of it.\<close>

fun agrees :: "'u robots_env \<Rightarrow> string \<Rightarrow> robots_cache_entry option \<Rightarrow> robots_event \<Rightarrow> bool" where
  "agrees env domain entry (Verdict page d v) \<longleftrightarrow>
     d \<noteq> domain \<or>
     (case page_refusal env page of
        Some rejection \<Rightarrow> v = PolicyRefused rejection
      | None \<Rightarrow> (case entry of None \<Rightarrow> False | Some e \<Rightarrow> v = match_entry env e page))"
| "agrees env domain entry _ \<longleftrightarrow> True"

definition decided :: "robots_cell \<Rightarrow> robots_cache_entry option" where
  "decided c = (case c of Decided e \<Rightarrow> Some e | _ \<Rightarrow> None)"

lemma agrees_Some: "agrees env domain None ev \<Longrightarrow> agrees env domain (Some entry) ev"
  by (cases ev) (auto split: option.splits)

lemma set_cell_sel [simp]:
  "rf_sent (set_cell d c f) = rf_sent f" "rf_cache (set_cell d c f) = (rf_cache f)(d := c)"
  by (simp_all add: set_cell_def)

lemma start_fetch_sel [simp]:
  "rf_sent (start_fetch_robots env d page f) = rf_sent f @ [(d, robots_txt_url env page d)]"
  "rf_cache (start_fetch_robots env d page f) = (rf_cache f)(d := Running)"
  by (simp_all add: start_fetch_robots_def)

lemma robots_step_agrees:
  assumes "robots_step env f ev f1" "list_all (agrees env domain (decided (rf_cache f domain))) evs"
  shows "list_all (agrees env domain (decided (rf_cache f1 domain))) (evs @ [ev])"
  using assms by cases (auto simp: decided_def list_all_iff intro: agrees_Some)

lemma robots_run_agrees:
  assumes "robots_run env evs f"
  shows "list_all (agrees env domain (decided (rf_cache f domain))) evs"
  using assms by induction (simp, rule robots_step_agrees)

lemma robots_run_requests:
  assumes "robots_run env evs f"
  shows "requests_for domain f = length (filter (is_drop domain) evs) + (if rf_cache f domain = Unset then 0 else 1)"
  using assms
proof induction
  case start
  then show ?case by (simp add: robots_fetcher_new_def requests_for_def)
next
  case (step evs f ev f1)
  from step(2,3) show ?case by cases (auto simp: requests_for_def)
qed

text \<open>
  C34. robots.txt is fetched once: in every interleaving of concurrent checks the domain is asked for its
  robots.txt exactly once, as soon as one check passed the address guard, and once more for every check
  that was dropped while it was fetching; and every verdict given on the domain comes from one and
  the same decision, whichever page it was about.
\<close>

theorem robots_decision_is_made_once:
  assumes "robots_run env evs f"
  shows "requests_for domain f = length (filter (is_drop domain) evs) + (if rf_cache f domain = Unset then 0 else 1) \<and>
    (\<exists>entry. list_all (agrees env domain entry) evs)"
  using robots_run_requests [OF assms] robots_run_agrees [OF assms] by blast

text \<open>
  The robots check opens no socket for a refused page: every robots.txt that was requested is that of a
  page which the literal-address guard let through, at the origin of that page.
\<close>

theorem robots_requests_are_guarded:
  assumes "robots_run env evs f"
  shows "list_all (\<lambda>(domain, robots_url). \<exists>page. page_refusal env page = None \<and>
    robots_url = robots_txt_url env page domain) (rf_sent f)"
  using assms
proof induction
  case start
  then show ?case by (simp add: robots_fetcher_new_def)
next
  case (step evs f ev f1)
  from step(2,3) show ?case by cases auto
qed

section \<open>Single checks are runs\<close>

lemma run_snoc2:
  assumes "robots_run env evs f" "robots_step env f a f1" "robots_step env f1 b f2"
  shows "robots_run env (evs @ [a, b]) f2"
  using robots_run.step [OF robots_run.step [OF assms(1,2)] assms(3)] by simp

lemma single_check_is_a_run:
  assumes "robots_run env evs f" "rf_cache f domain \<noteq> Running"
    and "is_robots_allowed env answer page domain f = (v, f1)"
  shows "\<exists>more. robots_run env (evs @ more @ [Verdict page domain v]) f1"
proof (cases "page_refusal env page")
  case (Some rejection)
  then show ?thesis
    using robots_run.step [OF assms(1) robots_step.refuse [OF Some, of f domain]] assms(3)
    by (intro exI [of _ "[]"]) (simp add: is_robots_allowed_def)
next
  case None
  show ?thesis
  proof (cases "rf_cache f domain")
    case Unset
    let ?s = "start_fetch_robots env domain page f" and ?e = "fetch_or_allow_all env answer"
    have "robots_step env f (Begin page domain) ?s" by (rule robots_step.begin_fetch [OF None Unset])
    moreover have "robots_step env ?s (Finish domain answer) (set_cell domain (Decided ?e) ?s)"
      by (rule robots_step.finish_fetch) simp
    ultimately have run: "robots_run env (evs @ [Begin page domain, Finish domain answer]) (set_cell domain (Decided ?e) ?s)"
      by (rule run_snoc2 [OF assms(1)])
    have "robots_step env (set_cell domain (Decided ?e) ?s) (Verdict page domain (match_entry env ?e page))
        (set_cell domain (Decided ?e) ?s)"
      by (rule robots_step.decide_page [OF None]) simp
    from robots_run.step [OF run this] show ?thesis
      using assms(3) None Unset
      by (intro exI [of _ "[Begin page domain, Finish domain answer]"]) (simp add: is_robots_allowed_def resolve_entry_def Let_def)
  next
    case (Decided e)
    then show ?thesis
      using robots_run.step [OF assms(1) robots_step.decide_page [OF None Decided]] assms(3) None
      by (intro exI [of _ "[]"]) (simp add: is_robots_allowed_def resolve_entry_def)
  qed (use assms(2) in simp)
qed

section \<open>The port\<close>

text \<open>
  What the clients of \<^verbatim>\<open>RobotsPort\<close> rely on: a decision that is known stays known and costs no request, and a
  check makes one request at most, after which the domain is known.
\<close>

fun check_all :: "(string \<Rightarrow> string \<Rightarrow> 's \<Rightarrow> robots_decision \<times> 's) \<Rightarrow> (string \<times> string) list \<Rightarrow> 's \<Rightarrow> robots_decision list \<times> 's" where
  "check_all check [] s = ([], s)"
| "check_all check ((page, domain) # pages) s =
     (let (v, s1) = check page domain s; (vs, s2) = check_all check pages s1 in (v # vs, s2))"

locale robots_port =
  fixes check :: "string \<Rightarrow> string \<Rightarrow> 's \<Rightarrow> robots_decision \<times> 's"
    and requests :: "'s \<Rightarrow> (string \<times> string) list"
    and known :: "'s \<Rightarrow> string \<Rightarrow> bool"
  assumes known_stays: "known s d \<Longrightarrow> known (snd (check page e s)) d"
    and known_is_free: "known s d \<Longrightarrow> requests (snd (check page d s)) = requests s"
    and asks_once: "requests (snd (check page d s)) = requests s \<or>
      (\<exists>r. requests (snd (check page d s)) = requests s @ [(d, r)] \<and> known (snd (check page d s)) d)"
begin

definition settled :: "'s \<Rightarrow> bool" where
  "settled s \<longleftrightarrow> distinct (map fst (requests s)) \<and> list_all (\<lambda>(d, _). known s d) (requests s)"

lemma check_settled: "settled s \<Longrightarrow> settled (snd (check page d s))"
  using asks_once [of page d s] known_is_free [of s d page] known_stays [of s _ page d]
  by (fastforce simp: settled_def list_all_iff)

lemma check_all_settled: "settled s \<Longrightarrow> settled (snd (check_all check pages s))"
proof (induction pages arbitrary: s)
  case (Cons p pages)
  obtain page d where "p = (page, d)" by (cases p)
  then show ?case using Cons.IH [OF check_settled [OF Cons.prems, of page d]] by (simp add: Let_def split_beta)
qed simp

lemma each_domain_is_asked_once:
  assumes "requests s = []"
  shows "distinct (map fst (requests (snd (check_all check pages s))))"
  using check_all_settled [of s pages] assms by (simp add: settled_def)

end

definition knows :: "robots_fetcher \<Rightarrow> string \<Rightarrow> bool" where
  "knows f domain \<longleftrightarrow> decided (rf_cache f domain) \<noteq> None"

interpretation fetcher: robots_port
  "\<lambda>page domain f. is_robots_allowed env (net f page) page domain f" rf_sent knows for env net
  by unfold_locales
    (auto simp: is_robots_allowed_def resolve_entry_def knows_def decided_def Let_def split: option.split robots_cell.split)

text \<open>
  A sequence of checks asks each domain once: whatever the network answers and however often a domain
  fails, checking any list of pages requests no robots.txt twice.
\<close>

theorem checks_ask_each_domain_once:
  "distinct (map fst (rf_sent (snd (check_all (\<lambda>page domain f. is_robots_allowed env (net f page) page domain f)
     pages robots_fetcher_new))))"
  by (rule fetcher.each_domain_is_asked_once) (simp add: robots_fetcher_new_def)

text \<open>
  The decision belongs to the host, the file to the origin: when the first check of a host is for one
  origin, a page of another scheme or port of that host is judged by the first origin's rules.
\<close>

lemma rules_of_the_first_origin:
  assumes "page_refusal env first = None" "page_refusal env other = None"
    and "is_robots_allowed env answer first domain robots_fetcher_new = (v, f)"
  shows "is_robots_allowed env answer2 other domain f = (match_entry env (fetch_or_allow_all env answer) other, f) \<and>
    rf_sent f = [(domain, robots_txt_url env first domain)]"
  using assms by (auto simp: is_robots_allowed_def resolve_entry_def robots_fetcher_new_def Let_def set_cell_def start_fetch_robots_def)

section \<open>A run with a dropped check\<close>

definition sample_robots :: "string robots_env" where
  "sample_robots =
     \<lparr>rb_api = de_api silent_env, rb_origin = \<lambda>_. ''https://a.io'', rb_entry_guard = None, rb_http = Http_Client.silent_env,
      rb_matcher = \<lambda>_ _ _. False\<rparr>"

definition sample_events :: "robots_event list" where
  "sample_events =
     [Begin ''https://a.io/x'' ''a.io'', Dropped ''a.io'', Begin ''https://a.io/y'' ''a.io'', Finish ''a.io'' (Inl send_error.TimedOut),
      Verdict ''https://a.io/y'' ''a.io'' Allowed]"

lemma sample_not_refused: "page_refusal sample_robots p = None"
proof -
  have "parse_ip_literal ''a.io'' = None"
    by (simp add: parse_ip_literal_def parse_ipv4_all_forms_def parse_ipv4_number_def policy_eval)
  then show ?thesis
    by (simp add: page_refusal_def sample_robots_def silent_env_def reject_forbidden_literal_url_def seed_guard_refusal_def
        split: option.split)
qed

definition sample_end :: robots_fetcher where
  "sample_end =
     \<lparr>rf_cache = (\<lambda>_. Unset)(''a.io'' := Decided AllowAll),
      rf_sent = [(''a.io'', ''https://a.io/robots.txt''), (''a.io'', ''https://a.io/robots.txt'')]\<rparr>"

lemma sample_run: "robots_run sample_robots sample_events sample_end"
proof -
  let ?d = "''a.io''" and ?r = "robots_txt_url sample_robots"
  let ?f1 = "start_fetch_robots sample_robots ?d ''https://a.io/x'' robots_fetcher_new"
  let ?f2 = "set_cell ?d Unset ?f1"
  let ?f3 = "start_fetch_robots sample_robots ?d ''https://a.io/y'' ?f2"
  let ?e = "fetch_or_allow_all sample_robots (Inl send_error.TimedOut)"
  let ?f4 = "set_cell ?d (Decided ?e) ?f3"
  have e: "?e = AllowAll" by (simp add: fetch_or_allow_all_def fetch_robots_content_def)
  have "robots_step sample_robots robots_fetcher_new (Begin ''https://a.io/x'' ?d) ?f1"
    by (rule robots_step.begin_fetch [OF sample_not_refused]) (simp add: robots_fetcher_new_def)
  moreover have "robots_step sample_robots ?f1 (Dropped ?d) ?f2" by (rule robots_step.drop_fetch) simp
  moreover have "robots_step sample_robots ?f2 (Begin ''https://a.io/y'' ?d) ?f3"
    by (rule robots_step.begin_fetch [OF sample_not_refused]) simp
  moreover have "robots_step sample_robots ?f3 (Finish ?d (Inl send_error.TimedOut)) ?f4"
    by (rule robots_step.finish_fetch) simp
  moreover have "robots_step sample_robots ?f4 (Verdict ''https://a.io/y'' ?d (match_entry sample_robots ?e ''https://a.io/y'')) ?f4"
    by (rule robots_step.decide_page [OF sample_not_refused]) simp
  ultimately have "robots_run sample_robots ((((([] @ [Begin ''https://a.io/x'' ?d]) @ [Dropped ?d]) @ [Begin ''https://a.io/y'' ?d])
      @ [Finish ?d (Inl send_error.TimedOut)]) @ [Verdict ''https://a.io/y'' ?d (match_entry sample_robots ?e ''https://a.io/y'')]) ?f4"
    by (intro robots_run.step [OF robots_run.step [OF robots_run.step [OF robots_run.step [OF robots_run.step [OF robots_run.start]]]]])
  moreover have "?f4 = sample_end"
    by (simp add: sample_end_def set_cell_def start_fetch_robots_def robots_fetcher_new_def robots_txt_url_def e fun_eq_iff)
      (simp add: sample_robots_def silent_env_def)
  ultimately show ?thesis by (simp add: sample_events_def e match_entry_def)
qed

theorem robots_decision_is_made_once_witness:
  "requests_for ''a.io'' sample_end = 2 \<and> (\<exists>entry. list_all (agrees sample_robots ''a.io'' entry) sample_events)"
  using robots_decision_is_made_once [OF sample_run, of "''a.io''"] by (simp add: sample_events_def sample_end_def)

theorem robots_requests_are_guarded_witness:
  "list_all (\<lambda>(domain, robots_url). \<exists>page. page_refusal sample_robots page = None \<and>
    robots_url = robots_txt_url sample_robots page domain) (rf_sent sample_end)"
  by (rule robots_requests_are_guarded [OF sample_run])

end
