(* ===== verification/Content_Extraction.thy ===== *)
theory Content_Extraction
  imports Site_Discovery
begin

text \<open>
  From the HTML of a page to its content: \<^verbatim>\<open>application/extraction.rs\<close>, \<^verbatim>\<open>application/spa_detection.rs\<close>,
  \<^verbatim>\<open>application/asset_download.rs\<close>, \<^verbatim>\<open>application/title_resolver.rs\<close>, \<^verbatim>\<open>domain/excerpt_repair.rs\<close> and the second
  half of \<^verbatim>\<open>scrape_page\<close> in \<^verbatim>\<open>application/scraper_service.rs\<close>. There are two funnels, \<open>extract_content\<close> for the
  command line and \<open>page_content\<close> for the MCP server. The HTML cleaner and pruner, the CSS engine, Readability,
  the text renderer, the byline pattern and the adaptive engine are third-party code around which these
  functions decide; they are arguments.
\<close>

section \<open>Surroundings\<close>

record article =
  ar_title :: string
  ar_text :: string
  ar_byline :: "string option"
  ar_excerpt :: "string option"
  ar_published :: "string option"
  ar_content :: string

datatype selector_error_kind = EmptyDocument | InvalidSelector string | ZeroMatches

datatype 'd extract_result = Matched string | Fallback string "'d option"

definition as_html :: "'d extract_result \<Rightarrow> string" where
  "as_html r = (case r of Matched h \<Rightarrow> h | Fallback h _ \<Rightarrow> h)"

definition is_matched :: "'d extract_result \<Rightarrow> bool" where
  "is_matched r = (case r of Matched _ \<Rightarrow> True | Fallback _ _ \<Rightarrow> False)"

record scraper_config =
  xc_selector :: string
  xc_dom_preprune :: bool
  xc_download_images :: bool
  xc_download_documents :: bool
  xc_ignore_waf :: bool
  xc_output_dir :: string
  xc_max_pages :: "nat option"

definition has_downloads :: "scraper_config \<Rightarrow> bool" where
  "has_downloads config \<longleftrightarrow> xc_download_images config \<or> xc_download_documents config"

type_synonym ('u, 'a) asset_downloader = "'u list \<Rightarrow> scraper_error + 'a list"

record ('u, 'a, 't, 'h) extraction_env =
  ex_api :: "'u url_api"
  ex_strip :: "'u \<Rightarrow> 'u"
  ex_prune :: "string \<Rightarrow> string"
  ex_clean :: "string \<Rightarrow> string"
  ex_selector_error :: "string \<Rightarrow> string option"
  ex_select :: "string \<Rightarrow> string \<Rightarrow> string list"
  ex_engine :: "(string \<Rightarrow> string \<Rightarrow> string option \<Rightarrow> unit + (string \<times> 't option)) option"
  ex_hint :: "'t \<Rightarrow> string \<Rightarrow> 'h option"
  ex_readability :: "string \<Rightarrow> string \<Rightarrow> string + article"
  ex_author :: "string \<Rightarrow> string option \<Rightarrow> string option"
  ex_text :: "string \<Rightarrow> string"
  ex_document_title :: "string \<Rightarrow> string"
  ex_replace_byline :: "string \<Rightarrow> string \<Rightarrow> string"
  ex_images :: "string \<Rightarrow> 'u \<Rightarrow> 'u list"
  ex_documents :: "string \<Rightarrow> 'u \<Rightarrow> 'u list"
  ex_entry_guard :: "string option"
  ex_downloader :: "('u, 'a) asset_downloader option"
  ex_factory :: "scraper_error + ('u, 'a) asset_downloader"

record ('u, 'a, 'h) scraped_content =
  ct_title :: string
  ct_content :: string
  ct_url :: 'u
  ct_excerpt :: "string option"
  ct_author :: "string option"
  ct_date :: "string option"
  ct_html :: "string option"
  ct_assets :: "'a list"
  ct_quality_hint :: "'h option"

section \<open>Selector\<close>

type_synonym 'd dom_inspector = "string \<Rightarrow> selector_error_kind \<Rightarrow> string \<Rightarrow> 'd"

definition selector_fallback :: "string \<Rightarrow> 'd dom_inspector option \<Rightarrow> selector_error_kind \<Rightarrow> string \<Rightarrow> 'd extract_result" where
  "selector_fallback html inspector kind selector =
     Fallback html (map_option (\<lambda>inspect. inspect html kind selector) inspector)"

definition extract_with_selector ::
  "('u, 'a, 't, 'h) extraction_env \<Rightarrow> string \<Rightarrow> string \<Rightarrow> 'd dom_inspector option \<Rightarrow> 'd extract_result" where
  "extract_with_selector env html selector inspector =
     (if selector = ''body'' then Matched html
      else if trim html = [] then selector_fallback html inspector EmptyDocument selector
      else (case ex_selector_error env selector of
              Some e \<Rightarrow> selector_fallback html inspector (InvalidSelector e) selector
            | None \<Rightarrow>
                (let matched = ex_select env html selector in
                 if matched = [] then selector_fallback html inspector ZeroMatches selector
                 else Matched (''<div id='' @ [CHR 0x22] @ ''selector-extracted'' @ [CHR 0x22] @ ''>''
                        @ join_with (CHR 0x0A) matched @ ''</div>''))))"

definition adaptive_selector_repair ::
  "('u, 'a, 't, 'h) extraction_env \<Rightarrow> 'd extract_result \<Rightarrow> string \<Rightarrow> string option \<Rightarrow> 'd dom_inspector option
    \<Rightarrow> 'd extract_result \<times> 't option" where
  "adaptive_selector_repair env result selector host inspector =
     (case result of
        Matched h \<Rightarrow> (result, None)
      | Fallback html diagnostic \<Rightarrow>
          (case ex_engine env of
             None \<Rightarrow> (result, None)
           | Some engine \<Rightarrow>
               (case engine html selector host of
                  Inl _ \<Rightarrow> (result, None)
                | Inr (suggestion, trace) \<Rightarrow>
                    (let repaired = extract_with_selector env html suggestion inspector in
                     (if is_matched repaired then repaired else result, trace)))))"

definition prune_dom_if_enabled :: "('u, 'a, 't, 'h) extraction_env \<Rightarrow> string \<Rightarrow> scraper_config \<Rightarrow> string" where
  "prune_dom_if_enabled env html config = (if xc_dom_preprune config then ex_prune env html else html)"

section \<open>Titles and excerpts\<close>

definition resolve_title :: "'u url_api \<Rightarrow> string \<Rightarrow> 'u \<Rightarrow> string" where
  "resolve_title api extracted_title u =
     (if trim extracted_title = []
      then ''Document: ['' @ unwrap_or (api_host_str api u) ''unknown_host'' @ '']''
      else extracted_title)"

fun split_whitespace_from :: "string \<Rightarrow> string \<Rightarrow> string list" where
  "split_whitespace_from w [] = (if w = [] then [] else [w])"
| "split_whitespace_from w (c # cs) =
     (if is_whitespace c then (if w = [] then [] else [w]) @ split_whitespace_from [] cs
      else split_whitespace_from (w @ [c]) cs)"

definition split_whitespace :: "string \<Rightarrow> string list" where
  "split_whitespace s = split_whitespace_from [] s"

definition normalize_whitespace :: "string \<Rightarrow> string" where
  "normalize_whitespace s =
     (if list_ex (\<lambda>c. is_whitespace c \<and> c \<noteq> CHR '' '') s \<or> contains_str ''  '' s
      then join_with (CHR '' '') (split_whitespace s) else s)"

definition repair_empty_byline :: "('u, 'a, 't, 'h) extraction_env \<Rightarrow> string \<Rightarrow> string option \<Rightarrow> string" where
  "repair_empty_byline env excerpt author =
     normalize_whitespace (trim (ex_replace_byline env
       (case author of Some name \<Rightarrow> ''by '' @ name | None \<Rightarrow> []) excerpt))"

section \<open>Minimum content\<close>

definition MIN_CONTENT_CHARS :: nat where "MIN_CONTENT_CHARS = 50"

definition MIN_FALLBACK_CONTENT :: nat where "MIN_FALLBACK_CONTENT = 100"

record spa_detection_result =
  sd_url :: string
  sd_char_count :: nat
  sd_has_spa_markers :: bool

definition detect_spa_content :: "string \<Rightarrow> string \<Rightarrow> string \<Rightarrow> spa_detection_result option" where
  "detect_spa_content page text_content raw_html =
     (let char_count = length text_content in
      if MIN_CONTENT_CHARS \<le> char_count then None
      else Some \<lparr>sd_url = page, sd_char_count = char_count,
             sd_has_spa_markers =
               contains_str (''<div id='' @ [CHR 0x22] @ ''root'' @ [CHR 0x22] @ ''>'') raw_html \<or>
               contains_str (''<div id='' @ [CHR 0x22] @ ''app'' @ [CHR 0x22] @ ''>'') raw_html \<or>
               contains_str ''__NEXT_DATA__'' raw_html \<or> contains_str ''window.__INITIAL_STATE__'' raw_html\<rparr>)"

text \<open>The em dash of the two messages is outside the character range; it is written as a hyphen.\<close>

definition validate_min_content :: "string \<Rightarrow> string \<Rightarrow> string \<Rightarrow> scraper_error + unit" where
  "validate_min_content page text_content raw_html =
     (case detect_spa_content page text_content raw_html of
        None \<Rightarrow> Inr ()
      | Some spa_info \<Rightarrow>
          Inl (scraper_error.ExtractionFailed page
            (''contenido insuficiente ('' @ dec (sd_char_count spa_info) @ '' caracteres) '' @
             (if sd_has_spa_markers spa_info
              then ''con marcadores SPA detectados - la p'' @ [CHR 0xE1] @ ''gina requiere renderizado de JavaScript''
              else ''- la p'' @ [CHR 0xE1] @ ''gina devolvi'' @ [CHR 0xF3] @ '' muy poco contenido extra'' @ [CHR 0xED] @ ''ble''))))"

definition predict_spa_status :: "('u, 'a, 't, 'h) extraction_env \<Rightarrow> string \<Rightarrow> string \<Rightarrow> spa_detection_result option" where
  "predict_spa_status env page raw_html =
     (let cleaned_html = ex_clean env raw_html;
          extracted_text = (case ex_readability env cleaned_html page of
                              Inr a \<Rightarrow> ar_text a
                            | Inl _ \<Rightarrow> ex_clean env (ex_text env cleaned_html))
      in detect_spa_content page extracted_text raw_html)"

section \<open>Assets\<close>

fun retain_unseen :: "'u set \<Rightarrow> 'u list \<Rightarrow> 'u list" where
  "retain_unseen seen [] = []"
| "retain_unseen seen (u # us) = (if u \<in> seen then retain_unseen seen us else u # retain_unseen (insert u seen) us)"

definition extract_asset_urls :: "('u, 'a, 't, 'h) extraction_env \<Rightarrow> string \<Rightarrow> 'u \<Rightarrow> scraper_config \<Rightarrow> 'u list" where
  "extract_asset_urls env html base config =
     retain_unseen {}
       ((if xc_download_images config then ex_images env html base else []) @
        (if xc_download_documents config then ex_documents env html base else []))"

definition extract_asset_urls_from_html :: "('u, 'a, 't, 'h) extraction_env \<Rightarrow> string \<Rightarrow> 'u \<Rightarrow> scraper_config \<Rightarrow> 'u list" where
  "extract_asset_urls_from_html env html base config =
     (if \<not> has_downloads config then [] else extract_asset_urls env html base config)"

text \<open>The targets that the guard on literal addresses lets through.\<close>

definition admitted_assets :: "('u, 'a, 't, 'h) extraction_env \<Rightarrow> 'u list \<Rightarrow> 'u list" where
  "admitted_assets env urls =
     filter (\<lambda>u. seed_guard_refusal (ex_entry_guard env) (api_host_str (ex_api env) u) = None) urls"

text \<open>The result, and the batch handed to a downloader.\<close>

definition download_asset_urls ::
  "('u, 'a, 't, 'h) extraction_env \<Rightarrow> 'u list \<Rightarrow> (scraper_error + 'a list) \<times> 'u list option" where
  "download_asset_urls env urls =
     (if urls = [] then (Inr [], None)
      else (let allowed = admitted_assets env urls in
            if allowed = [] then (Inr [], None)
            else (case (case ex_downloader env of Some d \<Rightarrow> Inr d | None \<Rightarrow> ex_factory env) of
                    Inl e \<Rightarrow> (Inl e, None)
                  | Inr downloader \<Rightarrow> (downloader allowed, Some allowed))))"

definition download_assets_if_enabled ::
  "('u, 'a, 't, 'h) extraction_env \<Rightarrow> string \<Rightarrow> 'u \<Rightarrow> scraper_config \<Rightarrow> (scraper_error + 'a list) \<times> 'u list option" where
  "download_assets_if_enabled env html base config =
     download_asset_urls env (extract_asset_urls_from_html env html base config)"

section \<open>The two funnels\<close>

definition repaired_excerpt :: "('u, 'a, 't, 'h) extraction_env \<Rightarrow> article \<Rightarrow> string option \<Rightarrow> string option" where
  "repaired_excerpt env a author = map_option (\<lambda>e. repair_empty_byline env e author) (ar_excerpt a)"

text \<open>The command line: the article, or the rendered text when it has a hundred bytes.\<close>

definition extract_article ::
  "('u, 'a, 't, 'h) extraction_env \<Rightarrow> scraper_config \<Rightarrow> string \<Rightarrow> 'u \<Rightarrow> 'h option \<Rightarrow> article
    \<Rightarrow> scraper_error + ('u, 'a, 'h) scraped_content" where
  "extract_article env config html u hint a =
     (case fst (download_assets_if_enabled env html u config) of
        Inl e \<Rightarrow> Inl e
      | Inr assets \<Rightarrow>
          (case validate_min_content (api_to_string (ex_api env) u) (ar_text a) html of
             Inl e \<Rightarrow> Inl e
           | Inr _ \<Rightarrow>
               (let author = ex_author env html (ar_byline a) in
                case valid_try_from_url (ex_api env) (ex_strip env) u of
                  Inl e \<Rightarrow> Inl e
                | Inr v \<Rightarrow>
                    Inr \<lparr>ct_title = resolve_title (ex_api env) (ar_title a) u, ct_content = ar_text a, ct_url = v,
                      ct_excerpt = repaired_excerpt env a author, ct_author = author, ct_date = ar_published a,
                      ct_html = Some (ar_content a), ct_assets = assets, ct_quality_hint = hint\<rparr>)))"

definition extract_fallback ::
  "('u, 'a, 't, 'h) extraction_env \<Rightarrow> scraper_config \<Rightarrow> string \<Rightarrow> 'u \<Rightarrow> 'h option \<Rightarrow> string \<Rightarrow> string
    \<Rightarrow> scraper_error + ('u, 'a, 'h) scraped_content" where
  "extract_fallback env config html u hint readability_error fallback_content =
     (if byte_len fallback_content < MIN_FALLBACK_CONTENT
      then Inl (scraper_error.ExtractionFailed (api_to_string (ex_api env) u)
             (''contenido pobre del fallback: '' @ dec (byte_len fallback_content) @ '' bytes (m'' @ [CHR 0xED] @ ''n ''
              @ dec MIN_FALLBACK_CONTENT @ '' bytes). Readability: '' @ readability_error))
      else (case fst (download_assets_if_enabled env html u config) of
              Inl e \<Rightarrow> Inl e
            | Inr assets \<Rightarrow>
                (case api_host_str (ex_api env) u of
                   None \<Rightarrow> Inl (scraper_error.InvalidUrl (''URL missing host: '' @ api_to_string (ex_api env) u))
                 | Some host \<Rightarrow>
                     (case valid_try_from_url (ex_api env) (ex_strip env) u of
                        Inl e \<Rightarrow> Inl e
                      | Inr v \<Rightarrow>
                          Inr \<lparr>ct_title = host, ct_content = fallback_content, ct_url = v, ct_excerpt = None,
                            ct_author = None, ct_date = None, ct_html = Some html, ct_assets = assets,
                            ct_quality_hint = hint\<rparr>))))"

text \<open>Selector, repair and hint, shared by both: the HTML to read, and the hint.\<close>

definition select_html ::
  "('u, 'a, 't, 'h) extraction_env \<Rightarrow> scraper_config \<Rightarrow> string \<Rightarrow> 'u \<Rightarrow> 'd dom_inspector option
    \<Rightarrow> 'd extract_result \<times> 'h option" where
  "select_html env config html u inspector =
     (let cleaned_html = ex_clean env (prune_dom_if_enabled env html config);
          (result, trace) = adaptive_selector_repair env
             (extract_with_selector env cleaned_html (xc_selector config) inspector)
             (xc_selector config) (api_host_str (ex_api env) u) inspector
      in (result, Option.bind trace (\<lambda>t. ex_hint env t (as_html result))))"

definition extract_content ::
  "('u, 'a, 't, 'h) extraction_env \<Rightarrow> scraper_config \<Rightarrow> string \<Rightarrow> 'u \<Rightarrow> scraper_error + ('u, 'a, 'h) scraped_content" where
  "extract_content env config html u =
     (let (result, hint) = select_html env config html u (None :: unit dom_inspector option);
          extraction_html = as_html result
      in case ex_readability env extraction_html (api_to_string (ex_api env) u) of
           Inr a \<Rightarrow> extract_article env config html u hint a
         | Inl e \<Rightarrow> extract_fallback env config html u hint e (ex_text env extraction_html))"

text \<open>The MCP server: every stage over the parsed page first, then assets and the common threshold.\<close>

definition build_scraped_content ::
  "('u, 'a, 't, 'h) extraction_env \<Rightarrow> string + article \<Rightarrow> string option \<Rightarrow> string \<Rightarrow> string \<Rightarrow> 'u list \<Rightarrow> 'u \<Rightarrow> string
    \<Rightarrow> 'h option \<Rightarrow> scraper_error + ('u, 'a, 'h) scraped_content" where
  "build_scraped_content env art author html extraction_html asset_urls u original_title hint =
     (let page = api_to_string (ex_api env) u in
      case art of
        Inr a \<Rightarrow>
          (case fst (download_asset_urls env asset_urls) of
             Inl e \<Rightarrow> Inl e
           | Inr assets \<Rightarrow>
               (case validate_min_content page (ar_text a) html of
                  Inl e \<Rightarrow> Inl e
                | Inr _ \<Rightarrow>
                    (case valid_try_from_url (ex_api env) (ex_strip env) u of
                       Inl e \<Rightarrow> Inl e
                     | Inr v \<Rightarrow>
                         Inr \<lparr>ct_title = resolve_title (ex_api env) (if original_title = [] then ar_title a else original_title) u,
                           ct_content = ar_text a, ct_url = v, ct_excerpt = repaired_excerpt env a author,
                           ct_author = author, ct_date = ar_published a, ct_html = Some (ar_content a),
                           ct_assets = assets, ct_quality_hint = hint\<rparr>)))
      | Inl _ \<Rightarrow>
          (let fallback_content = ex_clean env (ex_text env extraction_html) in
           case fst (download_asset_urls env asset_urls) of
             Inl e \<Rightarrow> Inl e
           | Inr assets \<Rightarrow>
               (case validate_min_content page fallback_content html of
                  Inl e \<Rightarrow> Inl e
                | Inr _ \<Rightarrow>
                    (let fallback_title = unwrap_or (api_host_str (ex_api env) u) ''unknown_host'' in
                     case valid_try_from_url (ex_api env) (ex_strip env) u of
                       Inl e \<Rightarrow> Inl e
                     | Inr v \<Rightarrow>
                         Inr \<lparr>ct_title = resolve_title (ex_api env) (if original_title = [] then fallback_title else original_title) u,
                           ct_content = fallback_content, ct_url = v, ct_excerpt = None, ct_author = None, ct_date = None,
                           ct_html = Some html, ct_assets = assets, ct_quality_hint = hint\<rparr>))))"

definition page_content ::
  "('u, 'a, 't, 'h) extraction_env \<Rightarrow> scraper_config \<Rightarrow> string \<Rightarrow> 'u \<Rightarrow> 'd dom_inspector option
    \<Rightarrow> scraper_error + ('u, 'a, 'h) scraped_content \<times> 'd extract_result" where
  "page_content env config html u inspector =
     (let (result, hint) = select_html env config html u inspector;
          extraction_html = as_html result;
          art = ex_readability env extraction_html (api_to_string (ex_api env) u);
          author = (case art of Inr a \<Rightarrow> ex_author env html (ar_byline a) | Inl _ \<Rightarrow> None)
      in case build_scraped_content env art author html extraction_html (extract_asset_urls env html u config) u
                (ex_document_title env html) hint of
           Inl e \<Rightarrow> Inl e
         | Inr content \<Rightarrow> Inr (content, result))"

section \<open>What is kept\<close>

lemma validate_min_content_iff:
  "validate_min_content page t html = Inr () \<longleftrightarrow> MIN_CONTENT_CHARS \<le> length t"
  by (simp add: validate_min_content_def detect_spa_content_def Let_def)

lemma validate_min_content_Inl:
  "validate_min_content page t html = Inl e \<Longrightarrow> \<exists>reason. e = scraper_error.ExtractionFailed page reason"
  by (auto simp: validate_min_content_def split: option.splits)

lemma resolve_title_nonblank: "trim (resolve_title api t u) \<noteq> []"
proof -
  have "trim (''Document: ['' @ s @ '']'') \<noteq> []" for s
    by (auto simp: trim_def trim_start_def is_whitespace_def dropWhile_eq_Nil_conv)
  then show ?thesis by (simp add: resolve_title_def)
qed

text \<open>
  A kept page is substantial: content that the command line accepts has fifty characters, or a hundred
  bytes when it is rendered text, and an article has a title that is not blank; content that the MCP server
  accepts has fifty characters and such a title on both branches. Its URL passed the scheme test.
\<close>

theorem kept_page_is_substantial:
  "(case extract_content env config html u of
      Inl e \<Rightarrow> True
    | Inr c \<Rightarrow> (50 \<le> length (ct_content c) \<and> trim (ct_title c) \<noteq> [] \<or> 100 \<le> byte_len (ct_content c)) \<and>
        api_scheme (ex_api env) u \<in> {''http'', ''https''}) \<and>
   (case page_content env config html u inspector of
      Inl e \<Rightarrow> True
    | Inr (c, result) \<Rightarrow> 50 \<le> length (ct_content c) \<and> trim (ct_title c) \<noteq> [] \<and>
        api_scheme (ex_api env) u \<in> {''http'', ''https''})"
proof -
  have scheme: "api_scheme (ex_api env) u \<in> {''http'', ''https''}"
    if "valid_try_from_url (ex_api env) (ex_strip env) u = Inr v" for v
    using that by (auto simp: valid_try_from_url_def Let_def split: if_splits)
  have chars: "50 \<le> length t" if "validate_min_content page t html = Inr r" for page t r
    using that validate_min_content_iff [of page t html] by (simp add: MIN_CONTENT_CHARS_def)
  have cli: "case extract_content env config html u of
      Inl e \<Rightarrow> True
    | Inr c \<Rightarrow> (50 \<le> length (ct_content c) \<and> trim (ct_title c) \<noteq> [] \<or> 100 \<le> byte_len (ct_content c)) \<and>
        api_scheme (ex_api env) u \<in> {''http'', ''https''}"
    by (simp add: extract_content_def extract_article_def extract_fallback_def MIN_FALLBACK_CONTENT_def Let_def
        resolve_title_nonblank chars scheme del: insert_iff split: sum.split prod.split option.split)
  have mcp: "case page_content env config html u inspector of
      Inl e \<Rightarrow> True
    | Inr (c, result) \<Rightarrow> 50 \<le> length (ct_content c) \<and> trim (ct_title c) \<noteq> [] \<and>
        api_scheme (ex_api env) u \<in> {''http'', ''https''}"
    by (simp add: page_content_def build_scraped_content_def Let_def resolve_title_nonblank chars scheme
        del: insert_iff split: sum.split prod.split)
  from cli mcp show ?thesis by (rule conjI)
qed


text \<open>
  On the command line the prediction can be wrong: rendered text of fifty to ninety-nine bytes is enough for
  it and too little for \<open>extract_content\<close>.
\<close>

lemma short_fallback_is_refused_on_the_command_line:
  assumes "xc_selector config = ''body''" "\<not> xc_dom_preprune config"
    and "ex_readability env (ex_clean env html) (api_to_string (ex_api env) u) = Inl e"
    and "byte_len (ex_text env (ex_clean env html)) < 100"
  shows "\<exists>reason. extract_content env config html u = Inl (scraper_error.ExtractionFailed (api_to_string (ex_api env) u) reason)"
proof -
  have "select_html env config html u (None :: unit dom_inspector option) = (Matched (ex_clean env html), None)"
    using assms(1,2) by (simp add: select_html_def extract_with_selector_def adaptive_selector_repair_def prune_dom_if_enabled_def)
  with assms(3,4) show ?thesis
    by (simp add: extract_content_def extract_fallback_def as_html_def MIN_FALLBACK_CONTENT_def)
qed

section \<open>Assets of a page\<close>

lemma retain_unseen_set: "set (retain_unseen seen us) = set us - seen"
  by (induction us arbitrary: seen) auto

lemma retain_unseen_distinct: "distinct (retain_unseen seen us)"
  by (induction us arbitrary: seen) (auto simp: retain_unseen_set)


section \<open>A page that is kept\<close>

definition sample_extraction :: "(string, unit, unit, unit) extraction_env" where
  "sample_extraction =
     \<lparr>ex_api = de_api silent_env, ex_strip = \<lambda>u. u, ex_prune = \<lambda>h. h, ex_clean = \<lambda>h. h, ex_selector_error = \<lambda>_. None,
      ex_select = \<lambda>_ _. [], ex_engine = None, ex_hint = \<lambda>_ _. None, ex_readability = \<lambda>_ _. Inl ''no article'',
      ex_author = \<lambda>_ _. None, ex_text = \<lambda>h. h, ex_document_title = \<lambda>_. [], ex_replace_byline = \<lambda>_ s. s,
      ex_images = \<lambda>_ _. [], ex_documents = \<lambda>_ _. [], ex_entry_guard = None, ex_downloader = None,
      ex_factory = Inl (scraper_error.Config ''none'')\<rparr>"

definition body_config :: scraper_config where
  "body_config =
     \<lparr>xc_selector = ''body'', xc_dom_preprune = False, xc_download_images = False, xc_download_documents = False,
      xc_ignore_waf = False, xc_output_dir = ''out'', xc_max_pages = None\<rparr>"


end
