(* ===== verification/Cookie_Bridge.thy ===== *)
theory Cookie_Bridge
  imports Url_Validation
begin

text \<open>
  The cookie jar of \<^verbatim>\<open>domain/cookie_bridge.rs\<close>: cookies are kept once per name, domain and path, the newest
  value in the oldest place, and selected for a request by domain and path.
\<close>

record cookie =
  ckie_name :: string
  ckie_value :: string
  ckie_domain :: string
  ckie_path :: string
  ckie_http_only :: bool
  ckie_secure :: bool

type_synonym cookie_bridge = "cookie list"

definition same_cookie :: "cookie \<Rightarrow> cookie \<Rightarrow> bool" where
  "same_cookie a b =
     (ckie_name a = ckie_name b \<and> ckie_domain a = ckie_domain b \<and> ckie_path a = ckie_path b)"

text \<open>\<^verbatim>\<open>iter_mut().find\<close>: the first match is replaced in place.\<close>

fun upsert :: "cookie \<Rightarrow> cookie_bridge \<Rightarrow> cookie_bridge" where
  "upsert c [] = [c]"
| "upsert c (existing # rest) = (if same_cookie existing c then c # rest else existing # upsert c rest)"

definition cookie_add :: "cookie \<Rightarrow> cookie_bridge \<Rightarrow> cookie_bridge" where
  "cookie_add c jar = upsert c jar"

definition cookie_ingest :: "cookie list \<Rightarrow> cookie_bridge \<Rightarrow> cookie_bridge" where
  "cookie_ingest cs jar = fold upsert cs jar"

definition cookie_seed :: "string \<Rightarrow> string \<Rightarrow> string \<Rightarrow> cookie_bridge \<Rightarrow> cookie_bridge" where
  "cookie_seed name v domain jar =
     cookie_add \<lparr>ckie_name = name, ckie_value = v, ckie_domain = domain, ckie_path = ''/'',
       ckie_http_only = True, ckie_secure = True\<rparr> jar"

definition domain_matches :: "string \<Rightarrow> string \<Rightarrow> bool" where
  "domain_matches request_domain cookie_domain =
     (if starts_with ''.'' cookie_domain
      then request_domain = tl cookie_domain \<or> ends_with cookie_domain request_domain
      else request_domain = cookie_domain)"

definition path_matches :: "string \<Rightarrow> string \<Rightarrow> bool" where
  "path_matches request_path cookie_path =
     (if cookie_path = ''/'' then True else starts_with cookie_path request_path)"

definition cookies_for_url :: "'u url_api \<Rightarrow> 'u \<Rightarrow> cookie_bridge \<Rightarrow> cookie list" where
  "cookies_for_url api url jar =
     (let domain = unwrap_or (api_host_str api url) [] in
      filter (\<lambda>c. domain_matches domain (ckie_domain c) \<and> path_matches (api_path api url) (ckie_path c)) jar)"

section \<open>The jar\<close>

abbreviation cookie_key :: "cookie \<Rightarrow> string \<times> string \<times> string" where
  "cookie_key c \<equiv> (ckie_name c, ckie_domain c, ckie_path c)"

lemma same_cookie_key: "same_cookie a b \<longleftrightarrow> cookie_key a = cookie_key b"
  by (auto simp: same_cookie_def)

lemma upsert_keys: "cookie_key ` set (upsert c jar) = insert (cookie_key c) (cookie_key ` set jar)"
  by (induction jar) (auto simp: same_cookie_def)

lemma upsert_distinct: "distinct (map cookie_key jar) \<Longrightarrow> distinct (map cookie_key (upsert c jar))"
proof (induction jar)
  case (Cons a jar)
  then have "cookie_key a \<notin> cookie_key ` set (upsert c jar)" if "\<not> same_cookie a c"
    using that by (auto simp: upsert_keys same_cookie_key simp del: prod.inject)
  with Cons show ?case by (auto simp: same_cookie_def)
qed simp

lemma map_of_upsert:
  "map_of (map (\<lambda>c. (cookie_key c, c)) (upsert c jar)) k =
     (if k = cookie_key c then Some c else map_of (map (\<lambda>c. (cookie_key c, c)) jar) k)"
  by (induction jar) (auto simp: same_cookie_def)

lemma ingest_distinct: "distinct (map cookie_key jar) \<Longrightarrow> distinct (map cookie_key (cookie_ingest cs jar))"
  unfolding cookie_ingest_def by (induction cs arbitrary: jar) (simp_all add: upsert_distinct)

text \<open>
  The jar holds a cookie at most once per name, domain and path, and after any sequence of ingested
  cookies the one under a key is the last that was ingested with it.
\<close>

theorem last_cookie_wins:
  assumes "distinct (map cookie_key jar)"
  shows "distinct (map cookie_key (cookie_ingest cs jar))
    \<and> map_of (map (\<lambda>c. (cookie_key c, c)) (cookie_ingest cs jar)) =
        map_of (map (\<lambda>c. (cookie_key c, c)) (rev cs @ jar))"
proof -
  have "map_of (map (\<lambda>c. (cookie_key c, c)) (cookie_ingest cs jar)) =
        map_of (map (\<lambda>c. (cookie_key c, c)) (rev cs @ jar))"
    unfolding cookie_ingest_def
  proof (induction cs rule: rev_induct)
    case (snoc c cs)
    then show ?case by (auto simp: fun_eq_iff map_of_upsert)
  qed simp
  with ingest_distinct [OF assms] show ?thesis by blast
qed

text \<open>
  A cookie is offered only to the host it names, or, with a leading dot, to that host and the hosts
  below it: the labels of the cookie's domain are the last labels of the request's host.
\<close>

theorem cookie_stays_in_its_domain:
  assumes "c \<in> set (cookies_for_url api url jar)" and "api_host_str api url = Some host"
  shows "\<exists>below. split_on (CHR ''.'') host =
     below @ split_on (CHR ''.'') (if starts_with ''.'' (ckie_domain c) then tl (ckie_domain c) else ckie_domain c)"
proof -
  from assms have m: "domain_matches host (ckie_domain c)"
    by (simp add: cookies_for_url_def Let_def unwrap_or_def)
  show ?thesis
  proof (cases "starts_with ''.'' (ckie_domain c)")
    case False
    with m show ?thesis by (simp add: domain_matches_def)
  next
    case True
    then obtain d where d: "ckie_domain c = CHR ''.'' # d" by (auto simp: starts_with_def)
    with m True consider "host = d" | "ends_with (CHR ''.'' # d) host" by (auto simp: domain_matches_def)
    then show ?thesis
    proof cases
      case 2
      then obtain r where "host = r @ CHR ''.'' # d" by (auto simp: ends_with_def strip_suffix_Some)
      then show ?thesis using True d by (simp add: split_on_append)
    qed (use True d in simp)
  qed
qed

end
