(* ===== verification/Budget.thy ===== *)
theory Budget
  imports Url_Validation "HOL-Library.Log_Nat"
begin

text \<open>
  The concurrency budget: \<^verbatim>\<open>domain/budget\<close> (\<^verbatim>\<open>tiers.rs\<close>, \<^verbatim>\<open>clamp.rs\<close>, \<^verbatim>\<open>derivation.rs\<close>, \<^verbatim>\<open>detector.rs\<close>,
  \<^verbatim>\<open>mod.rs\<close>), the concurrency setting of \<^verbatim>\<open>domain/config.rs\<close> and the memory thresholds of
  \<^verbatim>\<open>infrastructure/downloader/resource_governor.rs\<close>. \<^verbatim>\<open>NonZeroUsize\<close> and \<^verbatim>\<open>NonZeroU32\<close> are types whose
  values are not zero, \<^verbatim>\<open>usize\<close> has 64 bits, a panic is \<open>None\<close>, and the binary floating-point product of the
  memory formula is computed exactly, rounding included.
\<close>

section \<open>Numbers that are not zero\<close>

typedef nonzero_usize = "{n :: u64. n \<noteq> 0}" morphisms nz_get nz_abs
  by (rule exI [of _ 1]) simp

typedef nonzero_u32 = "{n :: u32. n \<noteq> 0}" morphisms nz32_get nz32_abs
  by (rule exI [of _ 1]) simp

setup_lifting type_definition_nonzero_usize

lift_definition NZ_MIN :: nonzero_usize is 1
  by simp

definition nz_new :: "u64 \<Rightarrow> nonzero_usize option" where
  "nz_new v = (if v = 0 then None else Some (nz_abs v))"

definition nz32_new :: "u32 \<Rightarrow> nonzero_u32 option" where
  "nz32_new v = (if v = 0 then None else Some (nz32_abs v))"

instantiation nonzero_usize :: linorder
begin

lift_definition less_eq_nonzero_usize :: "nonzero_usize \<Rightarrow> nonzero_usize \<Rightarrow> bool" is "(\<le>)" .

lift_definition less_nonzero_usize :: "nonzero_usize \<Rightarrow> nonzero_usize \<Rightarrow> bool" is "(<)" .

instance
  by standard (transfer, auto)+

end

lemma nz_get_pos [simp]: "nz_get n \<noteq> 0"
  using nz_get [of n] by simp

lemma nz32_get_pos [simp]: "nz32_get n \<noteq> 0"
  using nz32_get [of n] by simp

lemma nz_new_eq_Some [simp]: "nz_new v = Some n \<longleftrightarrow> nz_get n = v"
  by (auto simp: nz_new_def nz_abs_inverse nz_get_inverse)

lemma nz32_new_eq_Some [simp]: "nz32_new v = Some n \<longleftrightarrow> nz32_get n = v"
  by (auto simp: nz32_new_def nz32_abs_inverse nz32_get_inverse)

lemma nz_new_eq_None [simp]: "nz_new v = None \<longleftrightarrow> v = 0"
  by (simp add: nz_new_def)

lemma nz_get_MIN [simp]: "nz_get NZ_MIN = 1"
  by transfer simp

section \<open>Tiers\<close>

datatype budget_validation_error = Zero

datatype global_concurrency = GlobalConcurrency nonzero_usize

datatype domain_slots = DomainSlots nonzero_usize

datatype crawl_concurrency = CrawlConcurrency nonzero_usize

datatype batch_concurrency = BatchConcurrency nonzero_usize

datatype inference_workers = InferenceWorkers nonzero_usize

datatype elastic_permits = ElasticPermits nonzero_usize

datatype download_concurrency = DownloadConcurrency nonzero_usize

datatype max_chrome_instances = MaxChromeInstances nonzero_usize

datatype burst_permits = BurstPermits nonzero_u32

text \<open>The constructor that the macro \<^verbatim>\<open>nonzero_usize_tier\<close> gives to each tier.\<close>

definition tier_new :: "(nonzero_usize \<Rightarrow> 't) \<Rightarrow> u64 \<Rightarrow> budget_validation_error + 't" where
  "tier_new tier v = (case nz_new v of Some n \<Rightarrow> Inr (tier n) | None \<Rightarrow> Inl Zero)"

definition burst_new :: "u32 \<Rightarrow> budget_validation_error + burst_permits" where
  "burst_new v = (case nz32_new v of Some n \<Rightarrow> Inr (BurstPermits n) | None \<Rightarrow> Inl Zero)"

record operation_tier =
  op_crawl :: crawl_concurrency
  op_batch :: batch_concurrency
  op_inference :: inference_workers
  op_elastic :: elastic_permits

record budget_tiers =
  bt_global :: global_concurrency
  bt_domain :: domain_slots
  bt_operation :: operation_tier
  bt_asset :: download_concurrency
  bt_burst :: burst_permits
  bt_max_chrome_instances :: "max_chrome_instances option"

section \<open>The clamp\<close>

definition MAX_CONCURRENCY_CEILING :: u64 where
  "MAX_CONCURRENCY_CEILING = 16"

definition clamp_budget :: "u64 \<Rightarrow> nonzero_usize \<Rightarrow> u64 \<Rightarrow> nonzero_usize" where
  "clamp_budget v mn mx =
     (let floored = max v (nz_get mn);
          capped = min floored (max mx (nz_get mn))
      in case nz_new capped of Some n \<Rightarrow> n | None \<Rightarrow> mn)"

section \<open>Hardware\<close>

record detected_hw =
  hw_parallelism :: nonzero_usize
  hw_total_ram_bytes :: "u64 option"

text \<open>The system detector: what the host answers, with the fallback for a host that cannot say.\<close>

definition system_parallelism :: "nonzero_usize option \<Rightarrow> nonzero_usize" where
  "system_parallelism available = (case available of Some n \<Rightarrow> n | None \<Rightarrow> NZ_MIN)"

definition detect :: "nonzero_usize option \<Rightarrow> u64 option \<Rightarrow> detected_hw" where
  "detect available ram = \<lparr>hw_parallelism = system_parallelism available, hw_total_ram_bytes = ram\<rparr>"

section \<open>Derivation\<close>

definition auto_crawl_table :: "nonzero_usize \<Rightarrow> u64" where
  "auto_crawl_table cores =
     (let n = nz_get cores;
          optimal =
            (if n = 1 \<or> n = 2 then 1
             else if n = 3 \<or> n = 4 then 3
             else if 5 \<le> n \<and> n \<le> 7 then 5
             else min (n - 1) 8)
      in nz_get (clamp_budget optimal NZ_MIN MAX_CONCURRENCY_CEILING))"

definition derive_auto_crawl :: "detected_hw \<Rightarrow> crawl_concurrency option" where
  "derive_auto_crawl detected = map_option CrawlConcurrency (nz_new (auto_crawl_table (hw_parallelism detected)))"

definition derive_crawl :: "crawl_concurrency option \<Rightarrow> detected_hw \<Rightarrow> crawl_concurrency option" where
  "derive_crawl explicit detected = (case explicit of Some c \<Rightarrow> Some c | None \<Rightarrow> derive_auto_crawl detected)"

definition u32_try_from :: "u64 \<Rightarrow> u32 option" where
  "u32_try_from v = (if v < 2 ^ 32 then Some (ucast v) else None)"

definition derive_burst :: "burst_permits option \<Rightarrow> detected_hw \<Rightarrow> burst_permits option" where
  "derive_burst explicit detected =
     (case explicit of
        Some b \<Rightarrow> Some b
      | None \<Rightarrow>
          (case u32_try_from (auto_crawl_table (hw_parallelism detected)) of
             None \<Rightarrow> None
           | Some permits \<Rightarrow> map_option BurstPermits (nz32_new permits)))"

subsection \<open>The memory formula\<close>

definition CHROME_INSTANCE_COST_BYTES :: u64 where
  "CHROME_INSTANCE_COST_BYTES = 200000000"

text \<open>
  Rounding of a natural number to a binary significand of 53 digits, ties to even. The literal 0.6 is the
  fraction of \<open>RAM_BUDGET_FRACTION\<close> over \<open>2 ^ 53\<close>; a product with it is rounded as the integer product is,
  because the power of two only moves the exponent.
\<close>

definition f64_round :: "nat \<Rightarrow> nat" where
  "f64_round n =
     (if n < 2 ^ 53 then n
      else (let e = floorlog 2 n - 53; q = n div 2 ^ e; r = n mod 2 ^ e; half = 2 ^ (e - 1)
            in (if r > half \<or> r = half \<and> odd q then q + 1 else q) * 2 ^ e))"

definition RAM_BUDGET_FRACTION :: nat where
  "RAM_BUDGET_FRACTION = 5404319552844595"

definition ram_budget :: "u64 \<Rightarrow> nat" where
  "ram_budget total_ram_bytes =
     min (f64_round (f64_round (unat total_ram_bytes) * RAM_BUDGET_FRACTION) div 2 ^ 53) (2 ^ 64 - 1)"

record ram_thresholds =
  warning_percent :: u8
  critical_percent :: u8

definition default_thresholds :: ram_thresholds where
  "default_thresholds = \<lparr>warning_percent = 80, critical_percent = 90\<rparr>"

datatype max_chrome_decision = Allow max_chrome_instances | Deny

definition saturating_mul :: "u64 \<Rightarrow> u64 \<Rightarrow> u64" where
  "saturating_mul a b = (if unat a * unat b < 2 ^ 64 then a * b else - 1)"

definition usage_percent :: "u64 \<Rightarrow> u64 \<Rightarrow> u8" where
  "usage_percent total_ram_bytes used_ram_bytes =
     (let used = min used_ram_bytes total_ram_bytes in
      ucast (if total_ram_bytes = 0 then 0 else saturating_mul used 100 div total_ram_bytes))"

text \<open>\<open>None\<close> is the panic of \<^verbatim>\<open>unreachable!\<close>.\<close>

definition derive_max_instances :: "u64 \<Rightarrow> u64 \<Rightarrow> ram_thresholds \<Rightarrow> max_chrome_decision option" where
  "derive_max_instances total_ram_bytes used_ram_bytes th =
     (let pct = usage_percent total_ram_bytes used_ram_bytes in
      if critical_percent th \<le> pct then Some Deny
      else (let full = max ((of_nat (ram_budget total_ram_bytes) :: u64) div CHROME_INSTANCE_COST_BYTES) 1;
                effective = (if warning_percent th \<le> pct then max (full div 2) 1 else full)
            in case tier_new MaxChromeInstances effective of Inr m \<Rightarrow> Some (Allow m) | Inl _ \<Rightarrow> None))"

section \<open>The model\<close>

definition DOMAIN_SLOTS_DEFAULT :: u64 where "DOMAIN_SLOTS_DEFAULT = 8"

definition DOWNLOAD_CONCURRENCY_DEFAULT :: u64 where "DOWNLOAD_CONCURRENCY_DEFAULT = 3"

definition BATCH_CONCURRENCY_DEFAULT :: u64 where "BATCH_CONCURRENCY_DEFAULT = 5"

definition INFERENCE_WORKERS_DEFAULT :: u64 where "INFERENCE_WORKERS_DEFAULT = 4"

record budget_overrides =
  ov_rate_burst :: "burst_permits option"
  ov_crawl :: "crawl_concurrency option"
  ov_batch :: "batch_concurrency option"
  ov_asset :: "download_concurrency option"

text \<open>\<^verbatim>\<open>Result::unwrap_or_else(|_| unreachable!(..))\<close>\<close>

definition expect :: "'e + 'a \<Rightarrow> 'a option" where
  "expect r = (case r of Inr x \<Rightarrow> Some x | Inl _ \<Rightarrow> None)"

definition chrome_tier :: "u64 option \<Rightarrow> max_chrome_instances option option" where
  "chrome_tier total_ram_bytes =
     (case total_ram_bytes of
        None \<Rightarrow> Some None
      | Some ram \<Rightarrow>
          (case derive_max_instances ram 0 default_thresholds of
             None \<Rightarrow> None
           | Some (Allow instances) \<Rightarrow> Some (Some instances)
           | Some Deny \<Rightarrow> Some None))"

definition build :: "budget_overrides \<Rightarrow> detected_hw \<Rightarrow> budget_tiers option" where
  "build overrides detected =
     Option.bind (derive_crawl (ov_crawl overrides) detected) (\<lambda>crawl.
     Option.bind (derive_burst (ov_rate_burst overrides) detected) (\<lambda>burst.
     Option.bind (map_option GlobalConcurrency (nz_new MAX_CONCURRENCY_CEILING)) (\<lambda>global.
     Option.bind (expect (tier_new DomainSlots DOMAIN_SLOTS_DEFAULT)) (\<lambda>slots.
     Option.bind (case ov_batch overrides of Some b \<Rightarrow> Some b
                  | None \<Rightarrow> expect (tier_new BatchConcurrency BATCH_CONCURRENCY_DEFAULT)) (\<lambda>batch.
     Option.bind (expect (tier_new InferenceWorkers INFERENCE_WORKERS_DEFAULT)) (\<lambda>inference.
     Option.bind (case ov_asset overrides of Some a \<Rightarrow> Some a
                  | None \<Rightarrow> expect (tier_new DownloadConcurrency DOWNLOAD_CONCURRENCY_DEFAULT)) (\<lambda>asset.
     Option.bind (map_option ElasticPermits (nz_new (max (nz_get (hw_parallelism detected)) 4))) (\<lambda>elastic.
     Option.bind (chrome_tier (hw_total_ram_bytes detected)) (\<lambda>chrome.
     Some \<lparr>bt_global = global, bt_domain = slots,
           bt_operation = \<lparr>op_crawl = crawl, op_batch = batch, op_inference = inference, op_elastic = elastic\<rparr>,
           bt_asset = asset, bt_burst = burst, bt_max_chrome_instances = chrome\<rparr>)))))))))"

section \<open>The concurrency setting\<close>

record concurrency_config =
  cc_value :: "u64 option"
  cc_auto_detect :: bool

definition cc_default :: concurrency_config where
  "cc_default = \<lparr>cc_value = None, cc_auto_detect = True\<rparr>"

definition cc_new :: "u64 \<Rightarrow> concurrency_config" where
  "cc_new v = \<lparr>cc_value = Some (nz_get (clamp_budget v NZ_MIN MAX_CONCURRENCY_CEILING)), cc_auto_detect = False\<rparr>"

definition cc_is_auto :: "concurrency_config \<Rightarrow> bool" where
  "cc_is_auto c = (cc_auto_detect c \<and> cc_value c = None)"

definition cc_to_string :: "concurrency_config \<Rightarrow> string" where
  "cc_to_string c =
     (if cc_is_auto c then ''auto''
      else (case cc_value c of Some v \<Rightarrow> show_radix 10 (unat v) | None \<Rightarrow> ''auto''))"

definition cc_resolve :: "nonzero_usize option \<Rightarrow> concurrency_config \<Rightarrow> u64" where
  "cc_resolve available c =
     (case cc_value c of
        Some v \<Rightarrow> v
      | None \<Rightarrow>
          (let cores = nz_get (system_parallelism available);
               optimal =
                 (if cores = 1 \<or> cores = 2 then 1
                  else if cores = 3 \<or> cores = 4 then 3
                  else if 5 \<le> cores \<and> cores \<le> 7 then 5
                  else min (cores - 1) 8)
           in nz_get (clamp_budget optimal NZ_MIN MAX_CONCURRENCY_CEILING)))"

definition cc_from_str :: "string \<Rightarrow> concurrency_config option" where
  "cc_from_str s =
     (let t = to_lowercase (trim s) in
      if t = ''auto'' \<or> t = [] then Some cc_default
      else map_option (\<lambda>n. cc_new (of_nat n)) (from_str_radix 64 10 t))"

definition cc_from :: "string \<Rightarrow> concurrency_config" where
  "cc_from s =
     (let t = to_lowercase (trim s) in
      if t = ''auto'' \<or> t = [] then cc_default
      else (case from_str_radix 64 10 t of Some n \<Rightarrow> cc_new (of_nat n) | None \<Rightarrow> cc_default))"

section \<open>The memory governor\<close>

record resource_governor =
  rg_available :: nat
  rg_max_permits :: nat

datatype resource_error = RamTooHigh u8 | Insufficient string

definition with_max_instances :: "nat \<Rightarrow> resource_governor" where
  "with_max_instances max_permits = (let m = max max_permits 1 in \<lparr>rg_available = m, rg_max_permits = m\<rparr>)"

definition compute_max_instances :: "u64 \<Rightarrow> nat option" where
  "compute_max_instances ram =
     map_option (\<lambda>d. case d of Allow (MaxChromeInstances n) \<Rightarrow> unat (nz_get n) | Deny \<Rightarrow> 1)
       (derive_max_instances ram 0 default_thresholds)"

text \<open>The percentage the governor reads; the product wraps as in a release build.\<close>

definition ram_usage_percent :: "u64 \<Rightarrow> u64 \<Rightarrow> u8" where
  "ram_usage_percent ram used = (if ram = 0 then 0 else ucast (used * 100 div ram))"

definition check_resources :: "u8 \<Rightarrow> resource_governor \<Rightarrow> resource_error + nat" where
  "check_resources usage g =
     (if critical_percent default_thresholds \<le> usage then Inl (RamTooHigh usage)
      else if warning_percent default_thresholds \<le> usage then Inr (rg_available g div 2)
      else Inr (rg_available g))"

section \<open>Bounds of the clamp and the table\<close>

lemma nz_get_clamp: "nz_get (clamp_budget v mn mx) = min (max v (nz_get mn)) (max mx (nz_get mn))"
proof -
  let ?c = "min (max v (nz_get mn)) (max mx (nz_get mn))"
  have "nz_get mn \<le> ?c" by simp
  then have "?c \<noteq> 0" using nz_get_pos [of mn] by (metis word_le_0_iff)
  then show ?thesis by (simp add: clamp_budget_def Let_def split: option.split)
qed

lemma clamp_bounds:
  "nz_get mn \<le> nz_get (clamp_budget v mn mx) \<and> nz_get (clamp_budget v mn mx) \<le> max mx (nz_get mn)"
  by (simp add: nz_get_clamp)

lemma auto_crawl_table_bounds: "1 \<le> auto_crawl_table p \<and> auto_crawl_table p \<le> 8"
proof -
  have "1 \<le> n - 1" if "n \<noteq> 0" "n \<noteq> 1" for n :: u64
    using that by unat_arith
  moreover have "n \<le> 8 \<Longrightarrow> n \<le> 16" for n :: u64 by (erule order_trans) simp
  ultimately show ?thesis
    using nz_get_pos [of p]
    by (auto simp: auto_crawl_table_def nz_get_clamp Let_def MAX_CONCURRENCY_CEILING_def min_def max_def)
qed

lemma auto_resolves_to_the_table: "cc_resolve available cc_default = auto_crawl_table (system_parallelism available)"
  by (simp add: cc_resolve_def cc_default_def auto_crawl_table_def)

section \<open>The memory formula is exact\<close>

lemma f64_round_error:
  assumes "2 ^ 53 \<le> n" and "e = floorlog 2 n - 53"
  shows "1 \<le> e" and "n < 2 ^ (e + 53)" and "2 ^ e dvd f64_round n"
    and "f64_round n \<le> n + 2 ^ (e - 1)" and "n \<le> f64_round n + 2 ^ (e - 1)"
proof -
  have b: "n < 2 ^ floorlog 2 n" using floorlog_bounds [of n 2] assms(1) by simp
  with assms(1) have "(2::nat) ^ 53 < 2 ^ floorlog 2 n" by simp
  then have "53 < floorlog 2 n" by (rule power_less_imp_less_exp [rotated]) simp
  with assms(2) have e: "1 \<le> e" "e + 53 = floorlog 2 n" by auto
  show "1 \<le> e" by (rule e(1))
  show "n < 2 ^ (e + 53)" using b e by simp
  define q where "q = n div 2 ^ e"
  define r where "r = n mod 2 ^ e"
  define h :: nat where "h = 2 ^ (e - 1)"
  have h: "2 ^ e = 2 * h" using e(1) by (cases e) (simp_all add: h_def)
  have n: "n = q * (2 * h) + r" and "r < 2 * h"
    unfolding q_def r_def h [symmetric] by (simp_all only: div_mult_mod_eq) simp
  have "f64_round n = (if r > h \<or> r = h \<and> odd q then q + 1 else q) * 2 ^ e"
    using assms(1) by (simp add: f64_round_def Let_def assms(2) [symmetric] q_def r_def h_def)
  then have round: "f64_round n = (if r > h \<or> r = h \<and> odd q then q + 1 else q) * (2 * h)"
    by (simp only: h)
  then show "2 ^ e dvd f64_round n" unfolding h by simp
  show "f64_round n \<le> n + 2 ^ (e - 1)" "n \<le> f64_round n + 2 ^ (e - 1)"
    unfolding round h_def [symmetric] using n \<open>r < 2 * h\<close> by (auto simp: add_mult_distrib)
qed

lemma nearest_multiple:
  fixes P R E T s :: nat
  assumes "2 * E dvd R" and "2 * E dvd T" and "P + s = T" and "s < E" and "P \<le> R + E"
  shows "T \<le> R"
proof -
  obtain k j where k: "R = 2 * E * k" and j: "T = 2 * E * j" using assms(1,2) unfolding dvd_def by blast
  have "2 * E * j < 2 * E * (k + 1)" using assms(3-5) unfolding k j by simp
  then have "j < k + 1" by (rule mult_less_cancel1 [THEN iffD1, THEN conjunct2])
  then show ?thesis unfolding k j by (intro mult_le_mono2) simp
qed

lemma ram_product:
  assumes "a < 2 ^ 50"
  shows "f64_round (a * RAM_BUDGET_FRACTION) div 2 ^ 53 = 3 * a div 5"
proof (cases "a * RAM_BUDGET_FRACTION < 2 ^ 53")
  case True
  then have "a \<le> 1" by (simp add: RAM_BUDGET_FRACTION_def)
  with True show ?thesis by (auto simp: f64_round_def RAM_BUDGET_FRACTION_def le_Suc_eq)
next
  case False
  define P where "P = a * RAM_BUDGET_FRACTION"
  define R where "R = f64_round P"
  define e where "e = floorlog 2 P - 53"
  define E :: nat where "E = 2 ^ (e - 1)"
  define q where "q = 3 * a div 5"
  define r where "r = 3 * a mod 5"
  have big: "2 ^ 53 \<le> P" using False by (simp add: P_def)
  have P5: "5 * P + a = 3 * a * 2 ^ 53" by (simp add: P_def RAM_BUDGET_FRACTION_def)
  note err = f64_round_error [OF big e_def, folded R_def E_def]
  have twoE: "2 ^ e = 2 * E" using err(1) by (cases e) (simp_all add: E_def)
  have "P < 2 ^ 103" using assms by (simp add: P_def RAM_BUDGET_FRACTION_def)
  then have "floorlog 2 P \<le> 103" by (intro floorlog_leI) auto
  then have e50: "e \<le> 50" by (simp add: e_def)
  then have E49: "E \<le> 2 ^ 49" unfolding E_def by (intro power_increasing) auto
  have qr: "3 * a = 5 * q + r" "r < 5" by (simp_all add: q_def r_def)
  have "R < (q + 1) * 2 ^ 53" using err(4) P5 E49 qr by simp
  moreover have "q * 2 ^ 53 \<le> R"
  proof (cases "r = 0")
    case False
    then have "1 \<le> r" by simp
    then show ?thesis using err(5) P5 E49 qr assms by simp
  next
    case True
    define s where "s = 2 * q - a"
    have s: "a = 5 * s" "q = 3 * s" using qr True by (simp_all add: s_def)
    have Ps: "P + s = 3 * s * 2 ^ 53" using P5 s by simp
    have "P < E * 2 ^ 54" using err(2) twoE by (simp add: power_add)
    then have "s < E" using Ps by simp
    have "(2::nat) ^ e dvd 2 ^ 53" using e50 by (intro le_imp_power_dvd) simp
    then have "2 * E dvd 3 * s * 2 ^ 53" unfolding twoE by (rule dvd_mult)
    with nearest_multiple [OF _ _ Ps \<open>s < E\<close> err(5)] err(3) show ?thesis unfolding twoE s by blast
  qed
  ultimately show ?thesis using div_nat_eqI [of q "2 ^ 53" R] by (simp add: R_def q_def P_def algebra_simps)
qed

lemma ram_budget_small: "unat ram < 2 ^ 50 \<Longrightarrow> ram_budget ram = 3 * unat ram div 5"
  using ram_product [of "unat ram"] by (simp add: ram_budget_def f64_round_def)

lemma unat_of_ram_budget: "unat (of_nat (ram_budget ram) :: u64) = ram_budget ram"
proof -
  have "ram_budget ram < 2 ^ 64" by (simp add: ram_budget_def min_def)
  then show ?thesis by (simp add: unat_of_nat take_bit_nat_eq_self)
qed

lemma tier_new_ok: "v \<noteq> 0 \<Longrightarrow> \<exists>n. tier_new tier v = Inr (tier n) \<and> nz_get n = v"
  by (auto simp: tier_new_def split: option.split)

definition full_instances :: "u64 \<Rightarrow> nat" where
  "full_instances ram = max (ram_budget ram div 200000000) 1"

lemma derive_max_instances_value:
  assumes "usage_percent ram used < critical_percent th"
  shows "\<exists>n. derive_max_instances ram used th = Some (Allow (MaxChromeInstances n))
    \<and> unat (nz_get n) = (if warning_percent th \<le> usage_percent ram used then max (full_instances ram div 2) 1 else full_instances ram)"
proof -
  let ?full = "max ((of_nat (ram_budget ram) :: u64) div CHROME_INSTANCE_COST_BYTES) 1"
  let ?eff = "if warning_percent th \<le> usage_percent ram used then max (?full div 2) 1 else ?full"
  have um: "unat (max a b) = max (unat a) (unat b)" for a b :: u64
    by (simp add: max_def word_le_nat_alt)
  have full: "unat ?full = full_instances ram"
    by (simp add: um full_instances_def unat_div unat_of_ram_budget CHROME_INSTANCE_COST_BYTES_def)
  have half: "unat (max (?full div 2) 1) = max (full_instances ram div 2) 1"
    using full by (simp add: um [of _ 1] um [of "_ div 2"] unat_div)
  have "1 \<le> unat ?eff" using full half by (auto simp: full_instances_def)
  then have "?eff \<noteq> 0" by auto
  from tier_new_ok [OF this, of MaxChromeInstances] obtain n
    where n: "tier_new MaxChromeInstances ?eff = Inr (MaxChromeInstances n)" "nz_get n = ?eff" by blast
  have "derive_max_instances ram used th = Some (Allow (MaxChromeInstances n))"
    using assms n(1) by (simp add: derive_max_instances_def Let_def linorder_not_le)
  moreover have "unat (nz_get n) = (if warning_percent th \<le> usage_percent ram used then max (full_instances ram div 2) 1 else full_instances ram)"
    using n(2) full half by simp
  ultimately show ?thesis by blast
qed

section \<open>Properties\<close>

text \<open>
  The Chrome budget of a machine with less than a pebibyte of memory. Although the source multiplies in
  floating point, the number of instances is computed from exactly three fifths of the memory: one instance
  per 200 MB of it and at least one, halved from the warning threshold on, none from the critical one on, and
  the constructor that refuses zero never fails.
\<close>

theorem chrome_budget_is_three_fifths_of_memory:
  assumes "unat ram < 2 ^ 50"
  shows "derive_max_instances ram used th =
    (if critical_percent th \<le> usage_percent ram used then Some Deny
     else (let full = max (3 * unat ram div 5 div 200000000) 1;
               n = (if warning_percent th \<le> usage_percent ram used then max (full div 2) 1 else full)
           in Some (Allow (MaxChromeInstances (nz_abs (of_nat n))))))"
proof (cases "critical_percent th \<le> usage_percent ram used")
  case True
  then show ?thesis by (simp add: derive_max_instances_def Let_def)
next
  case False
  then obtain n where n: "derive_max_instances ram used th = Some (Allow (MaxChromeInstances n))"
    "unat (nz_get n) = (if warning_percent th \<le> usage_percent ram used then max (full_instances ram div 2) 1 else full_instances ram)"
    using derive_max_instances_value [of ram used th] by (meson linorder_not_le)
  have "n = nz_abs (of_nat (unat (nz_get n)))" by (simp add: nz_get_inverse)
  with n False assms show ?thesis by (simp add: full_instances_def ram_budget_small Let_def)
qed

theorem chrome_budget_is_three_fifths_of_memory_witness:
  "derive_max_instances 16000000000 13000000000 default_thresholds = Some (Allow (MaxChromeInstances (nz_abs 24)))"
  using chrome_budget_is_three_fifths_of_memory [of 16000000000 13000000000 default_thresholds]
  by (simp add: usage_percent_def saturating_mul_def default_thresholds_def Let_def)

lemma derive_auto_crawl_ok:
  "\<exists>n. derive_auto_crawl hw = Some (CrawlConcurrency n) \<and> nz_get n = auto_crawl_table (hw_parallelism hw)"
  using auto_crawl_table_bounds [of "hw_parallelism hw"]
  by (cases "nz_new (auto_crawl_table (hw_parallelism hw))") (auto simp: derive_auto_crawl_def)

lemma derive_burst_ok:
  "\<exists>n. derive_burst None hw = Some (BurstPermits n) \<and> unat (nz32_get n) = unat (auto_crawl_table (hw_parallelism hw))"
proof -
  let ?t = "auto_crawl_table (hw_parallelism hw)"
  have t: "1 \<le> unat ?t" "unat ?t \<le> 8" using auto_crawl_table_bounds [of "hw_parallelism hw"] by (simp_all add: word_le_nat_alt)
  then have "?t < 2 ^ 32" by (simp add: word_less_nat_alt)
  then have c: "u32_try_from ?t = Some (ucast ?t)" by (simp add: u32_try_from_def)
  have u: "unat (ucast ?t :: u32) = unat ?t" using t by (simp add: unsigned_ucast_eq take_bit_nat_eq_self)
  with t have "(ucast ?t :: u32) \<noteq> 0" by (metis not_one_le_zero unsigned_0)
  then obtain n where "nz32_new (ucast ?t) = Some n" by (cases "nz32_new (ucast ?t)") (auto simp: nz32_new_def)
  with c u show ?thesis by (auto simp: derive_burst_def)
qed

lemma chrome_tier_ok:
  "\<exists>chrome. chrome_tier ram = Some chrome
     \<and> (case ram of None \<Rightarrow> chrome = None
        | Some r \<Rightarrow> \<exists>n. chrome = Some (MaxChromeInstances n) \<and> unat (nz_get n) = full_instances r)"
proof (cases ram)
  case (Some r)
  have "usage_percent r 0 = 0" by (simp add: usage_percent_def saturating_mul_def Let_def)
  with derive_max_instances_value [of r 0 default_thresholds] Some show ?thesis
    by (auto simp: chrome_tier_def default_thresholds_def)
qed (simp add: chrome_tier_def)

lemma expect_tier_new: "v \<noteq> 0 \<Longrightarrow> \<exists>n. expect (tier_new tier v) = Some (tier n) \<and> nz_get n = v"
  using tier_new_ok [of v tier] by (auto simp: expect_def)


lemma one_below_ceiling [simp]: "\<not> (16 :: u64) \<le> 1"
  by (simp add: word_le_nat_alt)

lemma clamp_ceiling:
  "nz_get (clamp_budget v NZ_MIN MAX_CONCURRENCY_CEILING) = min (max v 1) 16"
  by (simp add: nz_get_clamp MAX_CONCURRENCY_CEILING_def max_def)

lemma cc_new_idem: "cc_new (min (max v 1) 16) = cc_new v"
  by (simp add: cc_new_def clamp_ceiling min_def max_def)

lemma show_small_decimals:
  "show_radix 10 (Suc 0) = ''1''"
  "show_radix 10 2 = ''2''"
  "show_radix 10 3 = ''3''"
  "show_radix 10 4 = ''4''"
  "show_radix 10 5 = ''5''"
  "show_radix 10 6 = ''6''"
  "show_radix 10 7 = ''7''"
  "show_radix 10 8 = ''8''"
  "show_radix 10 9 = ''9''"
  "show_radix 10 10 = ''10''"
  "show_radix 10 11 = ''11''"
  "show_radix 10 12 = ''12''"
  "show_radix 10 13 = ''13''"
  "show_radix 10 14 = ''14''"
  "show_radix 10 15 = ''15''"
  "show_radix 10 16 = ''16''"
  by (simp_all add: show_radix.simps digit_char_def char_of_def bit_0)

lemma small_decimal:
  assumes "1 \<le> n" and "n \<le> 16"
  shows "to_lowercase (trim (show_radix 10 n)) = show_radix 10 n \<and> show_radix 10 n \<noteq> ''auto'' \<and> show_radix 10 n \<noteq> []
    \<and> from_str_radix 64 10 (show_radix 10 n) = Some n"
proof -
  have "n \<in> set [1, 2, 3, 4, 5, 6, 7, 8, 9, 10, 11, 12, 13, 14, 15, 16]" using assms by (simp, presburger)
  moreover have "\<forall>n\<in>set [1, 2, 3, 4, 5, 6, 7, 8, 9, 10, 11, 12, 13, 14, 15, 16].
      to_lowercase (trim (show_radix 10 n)) = show_radix 10 n \<and> show_radix 10 n \<noteq> ''auto'' \<and> show_radix 10 n \<noteq> []
      \<and> from_str_radix 64 10 (show_radix 10 n) = Some n"
    by (simp add: show_small_decimals to_lowercase_def to_lower_def trim_def trim_start_def is_whitespace_def
        from_str_radix_def to_digit_def)
  ultimately show ?thesis by blast
qed

text \<open>
  What a concurrency setting prints, it reads back: every setting that the constructors produce survives
  the round trip through its text, and both readers agree on it.
\<close>

theorem concurrency_setting_round_trip:
  "cc_from_str (cc_to_string (cc_new v)) = Some (cc_new v) \<and> cc_from (cc_to_string (cc_new v)) = cc_new v
   \<and> cc_from_str (cc_to_string cc_default) = Some cc_default \<and> cc_from (cc_to_string cc_default) = cc_default"
proof -
  have "1 \<le> unat (min (max v 1) 16)" "unat (min (max v 1) 16) \<le> 16"
    by (simp_all add: min_def max_def word_le_nat_alt)
  note d = small_decimal [OF this]
  have s: "cc_to_string (cc_new v) = show_radix 10 (unat (min (max v 1) 16))"
    by (simp add: cc_to_string_def cc_is_auto_def cc_new_def clamp_ceiling)
  have a: "cc_to_string cc_default = ''auto''" "to_lowercase (trim ''auto'') = ''auto''"
    by (simp_all add: cc_to_string_def cc_is_auto_def cc_default_def to_lowercase_def to_lower_def trim_def trim_start_def is_whitespace_def)
  from d s show ?thesis
    by (simp add: cc_from_str_def cc_from_def a cc_new_idem Let_def)
qed

end
