(* ===== verification/Page_Downloader.thy ===== *)
theory Page_Downloader
  imports Http_Client Cookie_Bridge Budget Error_Taxonomy
begin

text \<open>
  The page downloaders: \<^verbatim>\<open>infrastructure/downloader/wreq_downloader.rs\<close> with its retry loop, bounded body
  reader and cookie parser, \<^verbatim>\<open>spa_detector.rs\<close> and the three-layer \<^verbatim>\<open>hybrid_router.rs\<close>. The network answers a
  request from the history of what was sent and waited; the decoder of \<^verbatim>\<open>encoding_rs\<close>, the installed
  inspector, the text nodes of \<^verbatim>\<open>scraper\<close>'s document and the answers of the two rendering layers are
  arguments.
\<close>

section \<open>Data\<close>

record fetched_page =
  fp_url :: string
  fp_html :: string
  fp_status :: u16
  fp_headers :: "(string \<times> string) list"
  fp_cookies :: "cookie list"

datatype bounded_read = Abort | Truncate

record wreq_downloader =
  wd_timeout_secs :: u64
  wd_pinned_ua :: "string option"
  wd_max_retries :: u32
  wd_backoff_base_ms :: u64
  wd_backoff_max_ms :: u64
  wd_max_page_bytes :: u64
  wd_ignore_waf :: bool

definition WAF_SNIFF_MAX_BYTES :: u64 where
  "WAF_SNIFF_MAX_BYTES = 8 * 1024"

definition with_ignore_waf :: "bool \<Rightarrow> wreq_downloader \<Rightarrow> wreq_downloader" where
  "with_ignore_waf b d = d\<lparr>wd_ignore_waf := b\<rparr>"

text \<open>A failed request of the client, and an answer whose body arrives in chunks.\<close>

record wreq_failure =
  wf_is_timeout :: bool
  wf_is_builder :: bool
  wf_error :: dyn_error

record page_response =
  pr_status :: u16
  pr_headers :: "(string \<times> string) list"
  pr_chunks :: "(wreq_failure + string) list"
  pr_uri :: string
  pr_cookies :: "cookie list"

datatype page_event = Asked "string option" | Waited u64

record page_env =
  pe_net :: "page_event list \<Rightarrow> string option \<Rightarrow> wreq_failure + page_response"
  pe_parse_url :: "string \<Rightarrow> string + string"
  pe_decode :: "string \<Rightarrow> string \<Rightarrow> string"
  pe_inspect :: "string \<Rightarrow> inspection_context \<Rightarrow> waf_verdict"
  pe_host :: "string option"

text \<open>The header view that the shared header functions read.\<close>

definition as_response :: "page_response \<Rightarrow> response" where
  "as_response r = \<lparr>rs_status = pr_status r, rs_headers = pr_headers r, rs_chunks = []\<rparr>"

section \<open>Cookies\<close>

definition apply_attribute :: "string \<Rightarrow> cookie \<Rightarrow> cookie" where
  "apply_attribute raw c =
     (let part = to_lowercase (trim raw) in
      case strip_prefix ''domain='' part of
        Some v \<Rightarrow> c\<lparr>ckie_domain := trim v\<rparr>
      | None \<Rightarrow>
          (case strip_prefix ''path='' part of
             Some v \<Rightarrow> c\<lparr>ckie_path := trim v\<rparr>
           | None \<Rightarrow>
               if part = ''httponly'' then c\<lparr>ckie_http_only := True\<rparr>
               else if part = ''secure'' then c\<lparr>ckie_secure := True\<rparr>
               else c))"

definition parse_set_cookie :: "string option \<Rightarrow> string \<Rightarrow> cookie option" where
  "parse_set_cookie host header =
     (case split_on (CHR '';'') header of
        [] \<Rightarrow> None
      | first # attrs \<Rightarrow>
          (case split_once (CHR ''='') (trim first) of
             None \<Rightarrow> None
           | Some (n, v) \<Rightarrow>
               (if trim n = [] then None
                else Some (fold apply_attribute attrs
                       \<lparr>ckie_name = trim n, ckie_value = trim v, ckie_domain = unwrap_or host [],
                        ckie_path = ''/'', ckie_http_only = False, ckie_secure = False\<rparr>))))"

definition extract_cookies :: "page_env \<Rightarrow> page_response \<Rightarrow> cookie list" where
  "extract_cookies env r =
     (let existing = map ckie_name (pr_cookies r) in
      pr_cookies r @
      concat (map (\<lambda>(name, v).
                if name = ''set-cookie'' then
                  (case Option.bind (header_str v) (parse_set_cookie (pe_host env)) of
                     Some c \<Rightarrow> if ckie_name c \<in> set existing then [] else [c]
                   | None \<Rightarrow> [])
                else [])
        (pr_headers r)))"

section \<open>Bodies\<close>

definition from_wreq :: "wreq_failure \<Rightarrow> download_error" where
  "from_wreq e = download_from_wreq (wf_is_builder e) (wf_error e)"

fun read_bounded :: "nat \<Rightarrow> bounded_read \<Rightarrow> u64 \<Rightarrow> string \<Rightarrow> (wreq_failure + string) list \<Rightarrow> download_error + string" where
  "read_bounded limit_len on_overflow limit buf [] = Inr buf"
| "read_bounded limit_len on_overflow limit buf (Inl e # cs) = Inl (from_wreq e)"
| "read_bounded limit_len on_overflow limit buf (Inr chunk # cs) =
     (if min (length buf + length chunk) (2 ^ 64 - 1) > limit_len then
        (case on_overflow of
           Abort \<Rightarrow> Inl (download_error.BodyTooLarge limit)
         | Truncate \<Rightarrow> Inr (buf @ take (limit_len - length buf) chunk))
      else read_bounded limit_len on_overflow limit (buf @ chunk) cs)"

definition read_body_bounded :: "page_env \<Rightarrow> page_response \<Rightarrow> u64 \<Rightarrow> bounded_read \<Rightarrow> download_error + string" where
  "read_body_bounded env r limit on_overflow =
     (case read_bounded (unat limit) on_overflow limit [] (pr_chunks r) of
        Inl e \<Rightarrow> Inl e
      | Inr buf \<Rightarrow> Inr (pe_decode env (charset_label (as_response r)) buf))"

definition read_page_body :: "page_env \<Rightarrow> wreq_downloader \<Rightarrow> page_response \<Rightarrow> download_error + string" where
  "read_page_body env d r = read_body_bounded env r (wd_max_page_bytes d) Abort"

definition read_body_snippet :: "page_env \<Rightarrow> page_response \<Rightarrow> download_error + string" where
  "read_body_snippet env r = read_body_bounded env r WAF_SNIFF_MAX_BYTES Truncate"

definition page_headers :: "page_response \<Rightarrow> (string \<times> string) list" where
  "page_headers r =
     fold (\<lambda>(name, v) m. (to_ascii_lowercase name, unwrap_or (header_str v) []) # m) (pr_headers r) []"

definition build_page :: "page_env \<Rightarrow> wreq_downloader \<Rightarrow> page_response \<Rightarrow> download_error + fetched_page" where
  "build_page env d r =
     (case pe_parse_url env (pr_uri r) of
        Inl e \<Rightarrow> Inl (download_error.InvalidUrl e)
      | Inr final_url \<Rightarrow>
          (case read_page_body env d r of
             Inl e \<Rightarrow> Inl e
           | Inr html \<Rightarrow> Inr \<lparr>fp_url = final_url, fp_html = html, fp_status = pr_status r,
                              fp_headers = page_headers r, fp_cookies = extract_cookies env r\<rparr>))"

section \<open>Requests and delays\<close>

definition send_request ::
  "page_env \<Rightarrow> wreq_downloader \<Rightarrow> string option \<Rightarrow> page_event list \<Rightarrow> (download_error + page_response) \<times> page_event list" where
  "send_request env d ua tr =
     (case pe_net env tr ua of
        Inr r \<Rightarrow> Inr r
      | Inl e \<Rightarrow> Inl (if wf_is_timeout e then download_error.Timeout (wd_timeout_secs d) else from_wreq e),
      tr @ [Asked ua])"

definition saturating_pow2 :: "nat \<Rightarrow> u64" where
  "saturating_pow2 n = (if n < 64 then 2 ^ n else - 1)"

definition backoff_delay_ms :: "wreq_downloader \<Rightarrow> nat \<Rightarrow> u64" where
  "backoff_delay_ms d attempt =
     min (saturating_mul (wd_backoff_base_ms d) (saturating_pow2 attempt)) (wd_backoff_max_ms d)"

definition sleep_before_retry :: "wreq_downloader \<Rightarrow> nat \<Rightarrow> u64 \<Rightarrow> page_event list \<Rightarrow> page_event list" where
  "sleep_before_retry d attempt delay tr = (if attempt < unat (wd_max_retries d) then tr @ [Waited delay] else tr)"

definition parse_retry_after_ms :: "page_response \<Rightarrow> u64 \<Rightarrow> u64" where
  "parse_retry_after_ms r max_ms =
     min (saturating_mul (unwrap_or (map_option (of_nat :: nat \<Rightarrow> u64)
            (Option.bind (header_get (as_response r) ''retry-after'') (\<lambda>s. from_str_radix 64 10 (trim s)))) 1) 1000) max_ms"

definition retry_after_of :: "wreq_downloader \<Rightarrow> page_response \<Rightarrow> u64 option" where
  "retry_after_of d r = (if pr_status r = 429 then Some (parse_retry_after_ms r (wd_backoff_max_ms d)) else None)"

section \<open>One attempt\<close>

text \<open>The inspection of an answer that is not a success: \<open>Inl\<close> ends the fetch.\<close>

definition inspect_failure :: "page_env \<Rightarrow> wreq_downloader \<Rightarrow> page_response \<Rightarrow> download_error + unit" where
  "inspect_failure env d r =
     (if wd_ignore_waf d then Inr ()
      else
        (let ctx = inspection_context_of (pr_status r) (as_response r) False;
             first = pe_inspect env [] ctx
         in case (if is_blocked first \<or> \<not> is_t2_blocking_status (ctx_status ctx) then Inr first
                  else (case read_body_snippet env r of
                          Inl e \<Rightarrow> Inl e
                        | Inr snippet \<Rightarrow> Inr (pe_inspect env snippet ctx))) of
              Inl e \<Rightarrow> Inl e
            | Inr verdict \<Rightarrow>
                if is_blocked verdict then Inl (download_error.WafChallenge (evidence_chain verdict)) else Inr ()))"

definition rotated_ua :: string where
  "rotated_ua = fallback_agents ! 1"

datatype attempt_result = Return "download_error + fetched_page" | Again u16 "download_error option"

definition settle_status ::
  "wreq_downloader \<Rightarrow> nat \<Rightarrow> u16 \<Rightarrow> u64 option \<Rightarrow> page_event list \<Rightarrow> attempt_result \<times> page_event list" where
  "settle_status d attempt st retry_after tr =
     (if st = 429 \<or> 500 \<le> st \<and> st \<le> 599 then
        (let delay = (if st = 429 then max (unwrap_or retry_after 0) (backoff_delay_ms d attempt)
                      else backoff_delay_ms d attempt)
         in (Again st None, sleep_before_retry d attempt delay tr))
      else (Return (Inl (download_error.Http st (''HTTP '' @ dec (unat st)))), tr))"

definition handle_response ::
  "page_env \<Rightarrow> wreq_downloader \<Rightarrow> nat \<Rightarrow> page_response \<Rightarrow> page_event list \<Rightarrow> attempt_result \<times> page_event list" where
  "handle_response env d attempt r tr =
     (if is_success (pr_status r) then (Return (build_page env d r), tr)
      else
        (case inspect_failure env d r of
           Inl e \<Rightarrow> (Return (Inl e), tr)
         | Inr _ \<Rightarrow>
             if pr_status r = 403 \<and> attempt = 0 \<and> wd_pinned_ua d = None then
               (let (outcome, tr1) = send_request env d (Some rotated_ua) tr in
                case outcome of
                  Inl e \<Rightarrow> (Return (Inl e), tr1)
                | Inr res \<Rightarrow>
                    if is_success (pr_status res) then (Return (build_page env d res), tr1)
                    else settle_status d attempt (pr_status res) (retry_after_of d res) tr1)
             else settle_status d attempt (pr_status r) (retry_after_of d r) tr))"

definition fetch_attempt ::
  "page_env \<Rightarrow> wreq_downloader \<Rightarrow> nat \<Rightarrow> u16 \<Rightarrow> page_event list \<Rightarrow> attempt_result \<times> page_event list" where
  "fetch_attempt env d attempt last_status tr =
     (let (outcome, tr1) = send_request env d None tr in
      case outcome of
        Inl dl_err \<Rightarrow>
          if download_classify dl_err = PermanentFatal then (Return (Inl dl_err), tr1)
          else (Again last_status (Some dl_err), sleep_before_retry d attempt (backoff_delay_ms d attempt) tr1)
      | Inr r \<Rightarrow> handle_response env d attempt r tr1)"

section \<open>The fetch\<close>

function fetch_loop ::
  "page_env \<Rightarrow> wreq_downloader \<Rightarrow> nat \<Rightarrow> u16 \<Rightarrow> download_error option \<Rightarrow> page_event list
    \<Rightarrow> (download_error + fetched_page) \<times> page_event list" where
  "fetch_loop env d attempt last_status last_err tr =
     (if unat (wd_max_retries d) < attempt then
        (Inl (case last_err of
                Some e \<Rightarrow> e
              | None \<Rightarrow> download_error.Http last_status (''retries exhausted at status '' @ dec (unat last_status))), tr)
      else
        (case fetch_attempt env d attempt last_status tr of
           (Return result, tr1) \<Rightarrow> (result, tr1)
         | (Again st err, tr1) \<Rightarrow> fetch_loop env d (attempt + 1) st err tr1))"
  by pat_completeness auto

termination
  by (relation "measure (\<lambda>(_, d, attempt, _, _, _). Suc (unat (wd_max_retries d)) - attempt)") auto

declare fetch_loop.simps [simp del]

definition fetch_inner :: "page_env \<Rightarrow> wreq_downloader \<Rightarrow> (download_error + fetched_page) \<times> page_event list" where
  "fetch_inner env d = fetch_loop env d 0 0 None []"

section \<open>What a fetch costs\<close>

fun asked :: "page_event list \<Rightarrow> nat" where
  "asked [] = 0"
| "asked (Asked u # es) = Suc (asked es)"
| "asked (Waited w # es) = asked es"

fun waits :: "page_event list \<Rightarrow> u64 list" where
  "waits [] = []"
| "waits (Asked u # es) = waits es"
| "waits (Waited w # es) = w # waits es"

lemma asked_append [simp]: "asked (xs @ ys) = asked xs + asked ys"
  by (induction xs rule: asked.induct) simp_all

lemma waits_append [simp]: "waits (xs @ ys) = waits xs @ waits ys"
  by (induction xs rule: waits.induct) simp_all

definition extends_by :: "wreq_downloader \<Rightarrow> nat \<Rightarrow> nat \<Rightarrow> nat \<Rightarrow> page_event list \<Rightarrow> page_event list \<Rightarrow> bool" where
  "extends_by d lo hi w tr tr' =
     (\<exists>es. tr' = tr @ es \<and> lo \<le> asked es \<and> asked es \<le> hi \<and> length (waits es) \<le> w
        \<and> list_all (\<lambda>v. v \<le> wd_backoff_max_ms d) (waits es))"

definition may_wait :: "wreq_downloader \<Rightarrow> nat \<Rightarrow> nat" where
  "may_wait d attempt = (if attempt < unat (wd_max_retries d) then 1 else 0)"

lemma extends_by_refl: "extends_by d 0 h w tr tr"
  unfolding extends_by_def by (rule exI [of _ "[]"]) simp

lemma extends_by_trans:
  assumes "extends_by d lo hi w tr tr'" and "extends_by d lo' hi' w' tr' tr''"
  shows "extends_by d (lo + lo') (hi + hi') (w + w') tr tr''"
  using assms unfolding extends_by_def by (auto simp: add_mono)

lemma extends_by_mono:
  assumes "extends_by d lo hi w tr tr'" and "lo' \<le> lo" and "hi \<le> hi'" and "w \<le> w'"
  shows "extends_by d lo' hi' w' tr tr'"
proof -
  obtain es where "tr' = tr @ es" "lo \<le> asked es" "asked es \<le> hi" "length (waits es) \<le> w"
    "list_all (\<lambda>v. v \<le> wd_backoff_max_ms d) (waits es)"
    using assms(1) unfolding extends_by_def by blast
  then show ?thesis using assms(2-4) unfolding extends_by_def by (intro exI [of _ es]) simp
qed

lemma sleep_extends:
  "delay \<le> wd_backoff_max_ms d \<Longrightarrow>
     extends_by d 0 0 (may_wait d attempt) tr (sleep_before_retry d attempt delay tr)"
  unfolding extends_by_def sleep_before_retry_def may_wait_def by auto

lemma send_extends: "extends_by d 1 1 0 tr (snd (send_request env d ua tr))"
  unfolding extends_by_def send_request_def by auto

lemma backoff_bound: "backoff_delay_ms d attempt \<le> wd_backoff_max_ms d"
  by (simp add: backoff_delay_ms_def)

lemma retry_after_bound: "unwrap_or (retry_after_of d r) 0 \<le> wd_backoff_max_ms d"
  by (simp add: retry_after_of_def parse_retry_after_ms_def unwrap_or_def)

lemma settle_extends:
  assumes "unwrap_or ra 0 \<le> wd_backoff_max_ms d"
  shows "extends_by d 0 0 (may_wait d attempt) tr (snd (settle_status d attempt st ra tr))"
proof (cases "st = 429 \<or> 500 \<le> st \<and> st \<le> 599")
  case True
  let ?delay = "if st = 429 then max (unwrap_or ra 0) (backoff_delay_ms d attempt) else backoff_delay_ms d attempt"
  have "?delay \<le> wd_backoff_max_ms d" using assms backoff_bound by simp
  from sleep_extends [OF this] True show ?thesis by (simp only: settle_status_def Let_def if_True snd_conv)
next
  case False
  then have "snd (settle_status d attempt st ra tr) = tr" by (auto simp: settle_status_def)
  then show ?thesis by (simp add: extends_by_refl)
qed

definition rotation :: "wreq_downloader \<Rightarrow> nat \<Rightarrow> nat" where
  "rotation d attempt = (if attempt = 0 \<and> wd_pinned_ua d = None then 1 else 0)"

lemma handle_extends:
  "extends_by d 0 (rotation d attempt) (may_wait d attempt) tr
     (snd (handle_response env d attempt r tr))"
proof (cases "is_success (pr_status r) \<or> (\<exists>e. inspect_failure env d r = Inl e)")
  case True
  then show ?thesis by (auto simp: handle_response_def extends_by_refl)
next
  case False
  then have ok: "\<not> is_success (pr_status r)" "inspect_failure env d r = Inr ()"
    by (auto, cases "inspect_failure env d r") auto
  show ?thesis
  proof (cases "pr_status r = 403 \<and> attempt = 0 \<and> wd_pinned_ua d = None")
    case True
    obtain out tr1 where s: "send_request env d (Some rotated_ua) tr = (out, tr1)" by fastforce
    have e: "extends_by d 1 1 0 tr tr1" using send_extends [of d tr env "Some rotated_ua"] unfolding s by simp
    have fin: "extends_by d 0 1 w tr tr1" for w using extends_by_mono [OF e] by simp
    have more: "extends_by d 0 1 (may_wait d 0) tr
        (snd (settle_status d 0 st (retry_after_of d res) tr1))" for st res
      using extends_by_mono [OF extends_by_trans [OF e settle_extends [OF retry_after_bound]]] by simp
    have a: "attempt = 0" "rotation d attempt = 1" using True by (simp_all add: rotation_def)
    have "snd (handle_response env d attempt r tr) =
        (case out of Inl e \<Rightarrow> tr1
         | Inr res \<Rightarrow> if is_success (pr_status res) then tr1 else snd (settle_status d 0 (pr_status res) (retry_after_of d res) tr1))"
      using True ok by (simp add: handle_response_def s split: sum.split)
    with a show ?thesis by (cases out) (simp_all add: fin more del: One_nat_def)
  next
    case False
    have "extends_by d 0 (rotation d attempt) (may_wait d attempt) tr
        (snd (settle_status d attempt (pr_status r) (retry_after_of d r) tr))"
      using extends_by_mono [OF settle_extends [OF retry_after_bound]] by simp
    moreover have "handle_response env d attempt r tr = settle_status d attempt (pr_status r) (retry_after_of d r) tr"
      using False ok by (auto simp: handle_response_def)
    ultimately show ?thesis by simp
  qed
qed

lemma attempt_extends:
  "extends_by d 1 (1 + rotation d attempt) (may_wait d attempt) tr
     (snd (fetch_attempt env d attempt ls tr))"
proof -
  obtain out tr1 where s: "send_request env d None tr = (out, tr1)" by fastforce
  have e: "extends_by d 1 1 0 tr tr1" using send_extends [of d tr env None] unfolding s by simp
  have fin: "extends_by d 1 (1 + rotation d attempt) w tr tr1" for w using extends_by_mono [OF e] by simp
  have sleep: "extends_by d 1 (1 + rotation d attempt) (may_wait d attempt) tr
      (sleep_before_retry d attempt (backoff_delay_ms d attempt) tr1)"
    using extends_by_mono [OF extends_by_trans [OF e sleep_extends [OF backoff_bound]]] by simp
  have handle: "extends_by d 1 (1 + rotation d attempt) (may_wait d attempt) tr
      (snd (handle_response env d attempt r tr1))" for r
    using extends_by_trans [OF e handle_extends] by simp
  show ?thesis
    using fin sleep handle by (cases out) (simp_all add: fetch_attempt_def s)
qed

lemma fetch_loop_extends:
  "a \<le> unat (wd_max_retries d) \<Longrightarrow>
     extends_by d 1 (Suc (unat (wd_max_retries d)) - a + rotation d a) (unat (wd_max_retries d) - a) tr
       (snd (fetch_loop env d a ls le tr))"
proof (induction "unat (wd_max_retries d) - a" arbitrary: a ls le tr)
  case 0
  then have a: "a = unat (wd_max_retries d)" "\<not> unat (wd_max_retries d) < a" "unat (wd_max_retries d) < Suc a" by simp_all
  obtain res tr1 where r: "fetch_attempt env d a ls tr = (res, tr1)" by fastforce
  have "snd (fetch_loop env d a ls le tr) = tr1"
    using a(2,3) by (cases res) (simp_all add: fetch_loop.simps [of env d a] fetch_loop.simps [of env d "Suc a"] r)
  moreover have "extends_by d 1 (1 + rotation d a) (may_wait d a) tr tr1" using attempt_extends [of d a tr env ls] unfolding r by simp
  ultimately show ?case by (simp add: may_wait_def a(1) [symmetric])
next
  case (Suc k)
  let ?n = "unat (wd_max_retries d)"
  obtain res tr1 where r: "fetch_attempt env d a ls tr = (res, tr1)" by fastforce
  have e: "extends_by d 1 (1 + rotation d a) 1 tr tr1"
    using attempt_extends [of d a tr env ls] Suc.hyps(2) unfolding r may_wait_def by (simp split: if_splits)
  show ?case
  proof (cases res)
    case (Return x)
    then have "snd (fetch_loop env d a ls le tr) = tr1" using Suc by (simp add: fetch_loop.simps [of env d a] r)
    with extends_by_mono [OF e] Suc show ?thesis by simp
  next
    case (Again st err)
    then have step: "fetch_loop env d a ls le tr = fetch_loop env d (Suc a) st err tr1"
      using Suc by (simp add: fetch_loop.simps [of env d a] r)
    have "extends_by d 1 (Suc ?n - Suc a + rotation d (Suc a)) (?n - Suc a) tr1 (snd (fetch_loop env d (Suc a) st err tr1))"
      using Suc.hyps(1) [of "Suc a"] Suc.hyps(2) by simp
    from extends_by_mono [OF extends_by_trans [OF e this], of 1 "Suc ?n - a + rotation d a" "?n - a"] Suc.hyps(2)
    show ?thesis by (simp add: step rotation_def)
  qed
qed

lemma sum_list_bound: "list_all (\<lambda>v. v \<le> m) xs \<Longrightarrow> sum_list (map unat xs) \<le> length xs * unat (m :: u64)"
  by (induction xs) (auto simp: word_le_nat_alt)

text \<open>
  C27. What one page fetch can cost, whatever the server answers: at least one request and at most one per
  attempt, that is the configured retries and one more, plus a single extra request with a rotated user agent
  unless the operator pinned one; at most one wait per retry, none of them longer than the configured
  maximum, not even when the server asks for more, so that the whole fetch sleeps at most retries times the
  maximum.
\<close>

theorem page_fetch_is_bounded:
  "1 \<le> asked (snd (fetch_inner env d))
   \<and> asked (snd (fetch_inner env d)) \<le> unat (wd_max_retries d) + 1 + (if wd_pinned_ua d = None then 1 else 0)
   \<and> list_all (\<lambda>w. w \<le> wd_backoff_max_ms d) (waits (snd (fetch_inner env d)))
   \<and> sum_list (map unat (waits (snd (fetch_inner env d)))) \<le> unat (wd_max_retries d) * unat (wd_backoff_max_ms d)"
proof -
  obtain es where es: "snd (fetch_inner env d) = es" "1 \<le> asked es"
    "asked es \<le> Suc (unat (wd_max_retries d)) + rotation d 0" "length (waits es) \<le> unat (wd_max_retries d)"
    "list_all (\<lambda>v. v \<le> wd_backoff_max_ms d) (waits es)"
    using fetch_loop_extends [of 0 d "[]" env 0 None] unfolding extends_by_def fetch_inner_def by auto
  have "sum_list (map unat (waits es)) \<le> length (waits es) * unat (wd_backoff_max_ms d)"
    by (rule sum_list_bound [OF es(5)])
  also have "\<dots> \<le> unat (wd_max_retries d) * unat (wd_backoff_max_ms d)"
    using es(4) by (rule mult_le_mono1)
  finally show ?thesis using es by (auto simp: rotation_def)
qed

section \<open>What a fetched page holds\<close>

lemma read_abort_whole:
  assumes "read_bounded L Abort limit buf cs = Inr out" and "length buf \<le> L" and "L < 2 ^ 64 - 1"
  shows "\<exists>bs. cs = map Inr bs \<and> out = buf @ concat bs \<and> length out \<le> L"
  using assms
proof (induction L Abort limit buf cs rule: read_bounded.induct)
  case (3 L limit buf chunk cs)
  then have le: "length buf + length chunk \<le> L" and "read_bounded L Abort limit (buf @ chunk) cs = Inr out"
    by (auto simp: min_def split: if_splits)
  with 3 obtain bs where "cs = map Inr bs" "out = (buf @ chunk) @ concat bs" "length out \<le> L" by fastforce
  then show ?case by (intro exI [of _ "chunk # bs"]) simp
qed auto

lemma read_truncate_prefix:
  assumes "length buf \<le> L" and "L < 2 ^ 64 - 1"
  shows "read_bounded L Truncate limit buf (map Inr bs) = Inr (take L (buf @ concat bs))"
  using assms
proof (induction bs arbitrary: buf)
  case (Cons b bs)
  show ?case
  proof (cases "L < length buf + length b")
    case True
    with Cons show ?thesis by (auto simp: min_def)
  next
    case False
    with Cons.prems have "\<not> L < min (length (buf @ b)) (2 ^ 64 - 1)" by simp
    with Cons.IH [of "buf @ b"] Cons.prems False show ?thesis by simp
  qed
qed simp

lemma read_stops_at_error:
  assumes "length (concat pre) + length buf \<le> L"
  shows "read_bounded L how limit buf (map Inr pre @ Inl e # post) = Inl (from_wreq e)"
  using assms by (induction pre arbitrary: buf) (auto simp: min_def)

definition answered :: "page_env \<Rightarrow> wreq_downloader \<Rightarrow> page_event list \<Rightarrow> fetched_page \<Rightarrow> bool" where
  "answered env d tr page =
     (\<exists>tr0 ua r. tr = tr0 @ [Asked ua] \<and> pe_net env tr0 ua = Inr r \<and> is_success (pr_status r)
        \<and> build_page env d r = Inr page)"

lemma send_request_Inr: "send_request env d ua tr = (Inr r, tr1) \<Longrightarrow> pe_net env tr ua = Inr r \<and> tr1 = tr @ [Asked ua]"
  by (auto simp: send_request_def split: sum.splits)

lemma settle_not_a_page: "settle_status d a st ra tr \<noteq> (Return (Inr page), tr1)"
  by (simp add: settle_status_def Let_def)

lemma attempt_page:
  assumes "fetch_attempt env d a ls tr = (Return (Inr page), tr1)"
  shows "answered env d tr1 page"
proof -
  obtain r tr0 where r: "send_request env d None tr = (Inr r, tr0)" "handle_response env d a r tr0 = (Return (Inr page), tr1)"
    using assms by (auto simp: fetch_attempt_def split: prod.splits sum.splits if_splits)
  have n: "pe_net env tr None = Inr r" "tr0 = tr @ [Asked None]" using send_request_Inr [OF r(1)] by simp_all
  show ?thesis
  proof (cases "is_success (pr_status r)")
    case True
    with r n have "tr1 = tr @ [Asked None]" "build_page env d r = Inr page" by (auto simp: handle_response_def)
    with n True show ?thesis unfolding answered_def by blast
  next
    case False
    with r(2) obtain res where "send_request env d (Some rotated_ua) tr0 = (Inr res, tr1)" "is_success (pr_status res)"
      "build_page env d res = Inr page"
      by (auto simp: handle_response_def settle_not_a_page split: sum.splits if_splits prod.splits)
    with send_request_Inr show ?thesis unfolding answered_def by blast
  qed
qed

lemma fetch_loop_page:
  "fetch_loop env d a ls le tr = (Inr page, tr1) \<Longrightarrow> answered env d tr1 page"
proof (induction env d a ls le tr rule: fetch_loop.induct)
  case (1 env d a ls le tr)
  from 1(2) have a: "\<not> unat (wd_max_retries d) < a" by (auto simp: fetch_loop.simps [of env d a] split: if_splits)
  obtain res tr2 where r: "fetch_attempt env d a ls tr = (res, tr2)" by fastforce
  show ?case
  proof (cases res)
    case (Return x)
    with 1(2) a r have "x = Inr page" "tr2 = tr1" by (simp_all add: fetch_loop.simps [of env d a])
    with attempt_page r Return show ?thesis by simp
  next
    case (Again st err)
    with 1(2) a r have "fetch_loop env d (a + 1) st err tr2 = (Inr page, tr1)" by (simp add: fetch_loop.simps [of env d a])
    with 1(1) [OF a r [symmetric] Again] show ?thesis by simp
  qed
qed

text \<open>
  C28. A fetched page is whole, within the cap and the answer to the last request: it comes from a response
  with a success status, its chunks all arrived, their total is at most the configured number of bytes, and
  the text is the decoding of all of them. Nothing is truncated, and no request follows the one that was
  answered.
\<close>

theorem fetched_page_is_whole_and_capped:
  assumes "fetch_inner env d = (Inr page, tr)" and "unat (wd_max_page_bytes d) < 2 ^ 64 - 1"
  shows "\<exists>tr0 ua r bs. tr = tr0 @ [Asked ua] \<and> pe_net env tr0 ua = Inr r \<and> is_success (pr_status r)
    \<and> pr_chunks r = map Inr bs \<and> length (concat bs) \<le> unat (wd_max_page_bytes d)
    \<and> fp_status page = pr_status r \<and> fp_html page = pe_decode env (charset_label (as_response r)) (concat bs)"
proof -
  obtain tr0 ua r where r: "tr = tr0 @ [Asked ua]" "pe_net env tr0 ua = Inr r" "is_success (pr_status r)"
    "build_page env d r = Inr page"
    using fetch_loop_page assms(1) unfolding fetch_inner_def answered_def by blast
  let ?L = "unat (wd_max_page_bytes d)"
  obtain buf where b: "read_bounded ?L Abort (wd_max_page_bytes d) [] (pr_chunks r) = Inr buf"
    "fp_html page = pe_decode env (charset_label (as_response r)) buf" "fp_status page = pr_status r"
    using r(4) by (auto simp: build_page_def read_page_body_def read_body_bounded_def split: sum.splits)
  from read_abort_whole [OF b(1) _ assms(2)] obtain bs where "pr_chunks r = map Inr bs" "buf = concat bs" "length buf \<le> ?L"
    by auto
  with r b show ?thesis by blast
qed

text \<open>
  A body that breaks off is not retried. When the first answer is a success and its stream fails after
  some chunks that fit the cap, the fetch ends at once with that failure, after a single request, even when
  the failure is of a class that the loop retries before the headers have arrived.
\<close>

theorem broken_body_is_not_retried:
  assumes "pe_net env [] None = Inr r" and "is_success (pr_status r)" and "pe_parse_url env (pr_uri r) = Inr u"
    and "pr_chunks r = map Inr pre @ Inl e # post" and "length (concat pre) \<le> unat (wd_max_page_bytes d)"
  shows "fetch_inner env d = (Inl (from_wreq e), [Asked None])"
proof -
  have "build_page env d r = Inl (from_wreq e)"
    using assms(3-5) read_stops_at_error [of pre "[]"] by (simp add: build_page_def read_page_body_def read_body_bounded_def)
  with assms(1,2) show ?thesis
    by (simp add: fetch_inner_def fetch_loop.simps [of env d 0] fetch_attempt_def send_request_def handle_response_def)
qed

definition sample_page_env :: "page_response \<Rightarrow> page_env" where
  "sample_page_env r =
     \<lparr>pe_net = \<lambda>tr ua. Inr r, pe_parse_url = Inr, pe_decode = \<lambda>label bytes. bytes, pe_inspect = \<lambda>body ctx. clean,
      pe_host = Some ''example.com''\<rparr>"

definition sample_response :: "(wreq_failure + string) list \<Rightarrow> page_response" where
  "sample_response cs =
     \<lparr>pr_status = 200, pr_headers = [], pr_chunks = cs, pr_uri = ''https://example.com/'', pr_cookies = []\<rparr>"

definition sample_downloader :: wreq_downloader where
  "sample_downloader =
     \<lparr>wd_timeout_secs = 30, wd_pinned_ua = None, wd_max_retries = 3, wd_backoff_base_ms = 1000, wd_backoff_max_ms = 10000,
      wd_max_page_bytes = 8, wd_ignore_waf = False\<rparr>"

definition reset_failure :: wreq_failure where
  "reset_failure =
     \<lparr>wf_is_timeout = False, wf_is_builder = False,
      wf_error = DynOther ''error reading body'' (Some (DynIo (IoError ConnectionReset ''reset'' None)))\<rparr>"

lemma sample_fetch:
  "fetch_inner (sample_page_env (sample_response [Inr ''<p>'', Inr ''hi''])) sample_downloader
     = (Inr \<lparr>fp_url = ''https://example.com/'', fp_html = ''<p>hi'', fp_status = 200, fp_headers = [], fp_cookies = []\<rparr>, [Asked None])"
  by (simp add: fetch_inner_def fetch_loop.simps fetch_attempt_def send_request_def handle_response_def is_success_def
      build_page_def read_page_body_def read_body_bounded_def sample_page_env_def sample_response_def sample_downloader_def
      page_headers_def extract_cookies_def)

theorem fetched_page_is_whole_and_capped_witness:
  "\<exists>tr0 ua r bs. [Asked None] = tr0 @ [Asked ua]
    \<and> pe_net (sample_page_env (sample_response [Inr ''<p>'', Inr ''hi''])) tr0 ua = Inr r \<and> is_success (pr_status r)
    \<and> pr_chunks r = map Inr bs \<and> length (concat bs) \<le> 8 \<and> ''<p>hi'' = concat bs"
  using fetched_page_is_whole_and_capped [OF sample_fetch]
  by (simp add: sample_downloader_def sample_page_env_def) blast

theorem broken_body_is_not_retried_witness:
  "fetch_inner (sample_page_env (sample_response [Inr ''<p>'', Inl reset_failure])) sample_downloader
     = (Inl (from_wreq reset_failure), [Asked None])
   \<and> download_classify (from_wreq reset_failure) = TransientRetriable"
proof
  show "fetch_inner (sample_page_env (sample_response [Inr ''<p>'', Inl reset_failure])) sample_downloader
     = (Inl (from_wreq reset_failure), [Asked None])"
    by (rule broken_body_is_not_retried [where r = "sample_response [Inr ''<p>'', Inl reset_failure]" and pre = "[''<p>'']"])
      (simp_all add: sample_page_env_def sample_response_def is_success_def sample_downloader_def)
  show "download_classify (from_wreq reset_failure) = TransientRetriable"
    by (simp add: from_wreq_def reset_failure_def download_from_wreq_def typed_cause.simps is_transient_io_def)
qed

text \<open>A 403 that persists costs two requests, one when the user agent is pinned.\<close>

lemma persistent_403_costs_two_requests:
  assumes "\<And>tr ua. pe_net env tr ua = Inr r" and "pr_status r = 403" and "inspect_failure env d r = Inr ()"
  shows "fetch_inner env d =
    (Inl (download_error.Http 403 (''HTTP '' @ dec 403)),
     if wd_pinned_ua d = None then [Asked None, Asked (Some rotated_ua)] else [Asked None])"
  using assms
  by (simp add: fetch_inner_def fetch_loop.simps [of env d 0] fetch_attempt_def send_request_def handle_response_def
      is_success_def settle_status_def)

text \<open>The path of a parsed cookie loses its capitals, so it no longer covers the URLs it was set for.\<close>

lemma cookie_path_is_lowercased:
  "map_option ckie_path (parse_set_cookie host ''sid=A; Path=/Admin'') = Some ''/admin''"
  by (simp add: parse_set_cookie_def apply_attribute_def trim_def trim_start_def is_whitespace_def to_lowercase_def
      to_lower_def Let_def char_of_def bit_0)

section \<open>Pages that need a browser\<close>

text \<open>
  \<^verbatim>\<open>spa_detector.rs\<close>. The parsed document is given by its text nodes, each with the names of the elements
  around it.
\<close>

datatype spa_reason = MountPoint string | InsufficientText nat | BoilerplateOnlyText nat nat

datatype spa_signal = StaticContent | SpaDetected spa_reason | WafBlocked

definition MIN_VISIBLE_CHARS :: nat where
  "MIN_VISIBLE_CHARS = 50"

definition SPA_MARKERS :: "(string \<times> string) list" where
  "SPA_MARKERS =
     [(''id='' @ [CHR 0x22] @ ''root'' @ [CHR 0x22], ''React #root''), (''id='' @ [CHR 0x22] @ ''app'' @ [CHR 0x22], ''Vue/React #app''),
      (''__NEXT_DATA__'', ''Next.js''), (''__NUXT__'', ''Nuxt.js''), (''id='' @ [CHR 0x22] @ ''app'' @ [CHR 0x22], ''Vue #app''),
      (''<app-root>'', ''Angular app-root''), (''__REMIX_DATA__'', ''Remix'')]"

definition INVISIBLE_TEXT_TAGS :: "string list" where
  "INVISIBLE_TEXT_TAGS = [''script'', ''style'', ''noscript'', ''template'']"

definition BOILERPLATE_TAGS :: "string list" where
  "BOILERPLATE_TAGS = [''nav'', ''header'', ''footer'', ''aside'']"

definition ANCHOR_TAG :: string where
  "ANCHOR_TAG = ''a''"

record visible_text_count =
  chars_total :: nat
  chars_content :: nat

definition is_boilerplate :: "string \<Rightarrow> bool" where
  "is_boilerplate name = (name \<notin> set INVISIBLE_TEXT_TAGS \<and> (name \<in> set BOILERPLATE_TAGS \<or> name = ANCHOR_TAG))"

definition count_node :: "string list \<times> string \<Rightarrow> visible_text_count \<Rightarrow> visible_text_count" where
  "count_node node c =
     (case node of (ancestors, t) \<Rightarrow>
        if list_ex (\<lambda>n. n \<in> set INVISIBLE_TEXT_TAGS) ancestors then c
        else (let n = length (filter (\<lambda>ch. \<not> is_whitespace ch) t) in
              \<lparr>chars_total = chars_total c + n,
               chars_content = (if list_ex is_boilerplate ancestors then chars_content c else chars_content c + n)\<rparr>))"

definition count_visible_text :: "(string list \<times> string) list \<Rightarrow> visible_text_count" where
  "count_visible_text nodes = fold count_node nodes \<lparr>chars_total = 0, chars_content = 0\<rparr>"

definition detect_spa ::
  "(string \<Rightarrow> inspection_context \<Rightarrow> waf_verdict) \<Rightarrow> (string \<Rightarrow> (string list \<times> string) list) \<Rightarrow> string \<Rightarrow> bool \<Rightarrow> spa_signal" where
  "detect_spa inspector text_nodes html ignore =
     (if is_blocked (inspector html \<lparr>ctx_status = None, content_type = None, headers = [], ignore_waf = ignore\<rparr>)
      then WafBlocked
      else
        (let t = count_visible_text (text_nodes html) in
         if MIN_VISIBLE_CHARS \<le> chars_content t then StaticContent
         else (case List.find (\<lambda>(mk, _). contains_str mk html) SPA_MARKERS of
                 Some (_, description) \<Rightarrow> SpaDetected (MountPoint description)
               | None \<Rightarrow>
                   if MIN_VISIBLE_CHARS \<le> chars_total t
                   then SpaDetected (BoilerplateOnlyText (chars_total t) (chars_content t))
                   else SpaDetected (InsufficientText (chars_content t)))))"

section \<open>The three layers\<close>

text \<open>
  \<^verbatim>\<open>hybrid_router.rs\<close>. A layer is its answer; \<open>u2\<close> and \<open>u3\<close> are the memory usage that the governor reads before
  the second and the third layer. The result carries the layers that were asked.
\<close>

record hybrid_router =
  hy_inspect :: "string \<Rightarrow> inspection_context \<Rightarrow> waf_verdict"
  hy_text_nodes :: "string \<Rightarrow> (string list \<times> string) list"
  hy_governor :: resource_governor
  hy_ignore_waf :: bool

definition evaluate_fetch :: "hybrid_router \<Rightarrow> fetched_page \<Rightarrow> download_error + fetched_page option" where
  "evaluate_fetch h page =
     (case detect_spa (hy_inspect h) (hy_text_nodes h) (fp_html page) (hy_ignore_waf h) of
        StaticContent \<Rightarrow> Inr (Some page)
      | WafBlocked \<Rightarrow> Inl (download_error.WafChallenge ''WAF challenge detected in response'')
      | SpaDetected _ \<Rightarrow> Inr None)"

definition resource_error_text :: "resource_error \<Rightarrow> string" where
  "resource_error_text e =
     (case e of
        RamTooHigh p \<Rightarrow> ''RAM usage too high ('' @ dec (unat p) @ ''%): new Chrome instances denied''
      | Insufficient m \<Rightarrow> ''insufficient resources: '' @ m)"

definition download_from_resource :: "resource_error \<Rightarrow> download_error" where
  "download_from_resource e = download_error.ResourceExhausted (resource_error_text e)"

definition fetch_layer3 ::
  "hybrid_router \<Rightarrow> u8 \<Rightarrow> download_error + fetched_page \<Rightarrow> (download_error + fetched_page) \<times> nat list" where
  "fetch_layer3 h u3 l3 =
     (case check_resources u3 (hy_governor h) of
        Inl e \<Rightarrow> (Inl (download_from_resource e), [])
      | Inr _ \<Rightarrow> (l3, [3]))"

definition fetch_layer2 ::
  "hybrid_router \<Rightarrow> u8 \<Rightarrow> u8 \<Rightarrow> download_error + fetched_page \<Rightarrow> download_error + fetched_page
    \<Rightarrow> (download_error + fetched_page) \<times> nat list" where
  "fetch_layer2 h u2 u3 l2 l3 =
     (case check_resources u2 (hy_governor h) of
        Inl e \<Rightarrow> (Inl (download_from_resource e), [])
      | Inr _ \<Rightarrow>
          (let (res, ls) =
             (case l2 of
                Inr page \<Rightarrow> if fp_html page \<noteq> [] then (Inr page, []) else fetch_layer3 h u3 l3
              | Inl (download_error.WafChallenge m) \<Rightarrow> (Inl (download_error.WafChallenge m), [])
              | Inl e \<Rightarrow> fetch_layer3 h u3 l3)
           in (res, 2 # ls)))"

definition hybrid_fetch ::
  "hybrid_router \<Rightarrow> u8 \<Rightarrow> u8 \<Rightarrow> download_error + fetched_page \<Rightarrow> download_error + fetched_page \<Rightarrow> download_error + fetched_page
    \<Rightarrow> (download_error + fetched_page) \<times> nat list" where
  "hybrid_fetch h u2 u3 l1 l2 l3 =
     (case l1 of
        Inl e \<Rightarrow> (Inl e, [1])
      | Inr page \<Rightarrow>
          (case evaluate_fetch h page of
             Inl e \<Rightarrow> (Inl e, [1])
           | Inr (Some p) \<Rightarrow> (Inr p, [1])
           | Inr None \<Rightarrow> (let (res, ls) = fetch_layer2 h u2 u3 l2 l3 in (res, 1 # ls))))"

lemma count_fold:
  "chars_content c \<le> chars_total c \<Longrightarrow> chars_content (fold count_node nodes c) \<le> chars_total (fold count_node nodes c)"
  by (induction nodes arbitrary: c) (simp_all add: count_node_def Let_def split: prod.split)

lemma content_within_total: "chars_content (count_visible_text nodes) \<le> chars_total (count_visible_text nodes)"
  by (simp add: count_visible_text_def count_fold)

lemma evaluate_escalates:
  "evaluate_fetch h page = Inr None \<longleftrightarrow>
     \<not> is_blocked (hy_inspect h (fp_html page) \<lparr>ctx_status = None, content_type = None, headers = [], ignore_waf = hy_ignore_waf h\<rparr>)
     \<and> chars_content (count_visible_text (hy_text_nodes h (fp_html page))) < 50"
  by (auto simp: evaluate_fetch_def detect_spa_def MIN_VISIBLE_CHARS_def Let_def split: option.split)

text \<open>
  C29. A browser layer is asked only for a page that the static layer delivered, that is no challenge and that
  has fewer than fifty characters of content, and never when the memory is at the critical threshold: the
  layers asked are then exactly one, one and two, or all three in this order, and a failure of the static
  layer is the result.
\<close>

theorem escalation_is_guarded:
  "(case l1 of
      Inl e \<Rightarrow> hybrid_fetch h u2 u3 l1 l2 l3 = (Inl e, [1])
    | Inr page \<Rightarrow>
        snd (hybrid_fetch h u2 u3 l1 l2 l3) =
          (if is_blocked (hy_inspect h (fp_html page)
                 \<lparr>ctx_status = None, content_type = None, headers = [], ignore_waf = hy_ignore_waf h\<rparr>)
              \<or> 50 \<le> chars_content (count_visible_text (hy_text_nodes h (fp_html page))) \<or> 90 \<le> u2
           then [1]
           else if (\<exists>p. l2 = Inr p \<and> fp_html p \<noteq> []) \<or> (\<exists>m. l2 = Inl (download_error.WafChallenge m)) \<or> 90 \<le> u3
           then [1, 2] else [1, 2, 3]))"
proof (cases l1)
  case (Inr page)
  have l3: "snd (fetch_layer3 h u3 l3) = (if 90 \<le> u3 then [] else [3])"
    by (simp add: fetch_layer3_def check_resources_def default_thresholds_def)
  have l2: "snd (fetch_layer2 h u2 u3 l2 l3) =
      (if 90 \<le> u2 then []
       else if (\<exists>p. l2 = Inr p \<and> fp_html p \<noteq> []) \<or> (\<exists>m. l2 = Inl (download_error.WafChallenge m)) then [2]
       else 2 # snd (fetch_layer3 h u3 l3))"
    by (cases l2) (auto simp: fetch_layer2_def check_resources_def default_thresholds_def Let_def case_prod_unfold split: download_error.split)
  show ?thesis
  proof (cases "evaluate_fetch h page = Inr None")
    case True
    with evaluate_escalates [of h page] Inr l2 l3 show ?thesis
      by (auto simp: hybrid_fetch_def case_prod_unfold Let_def)
  next
    case False
    then have "snd (hybrid_fetch h u2 u3 l1 l2 l3) = [1]"
      using Inr by (auto simp: hybrid_fetch_def split: sum.split option.split)
    with False evaluate_escalates [of h page] Inr show ?thesis by auto
  qed
qed (simp add: hybrid_fetch_def)

text \<open>
  What a browser layer delivers is not inspected: once the static page asks for escalation and memory
  allows it, any page of the second layer that is not empty is the result, even one that the inspector
  of the router would call a challenge.
\<close>

theorem second_layer_is_not_inspected:
  assumes "evaluate_fetch h page = Inr None" and "u2 < 90" and "fp_html p \<noteq> []"
  shows "hybrid_fetch h u2 u3 (Inr page) (Inr p) l3 = (Inr p, [1, 2])"
  using assms by (simp add: hybrid_fetch_def fetch_layer2_def check_resources_def default_thresholds_def linorder_not_le [symmetric])

definition sample_router :: hybrid_router where
  "sample_router =
     \<lparr>hy_inspect = \<lambda>body ctx. \<lparr>is_blocked = contains_str ''cf-challenge'' body, evidences = []\<rparr>, hy_text_nodes = \<lambda>html. [],
      hy_governor = with_max_instances 4, hy_ignore_waf = False\<rparr>"

definition sampled_page :: "string \<Rightarrow> fetched_page" where
  "sampled_page html = \<lparr>fp_url = ''https://example.com/'', fp_html = html, fp_status = 200, fp_headers = [], fp_cookies = []\<rparr>"

theorem second_layer_is_not_inspected_witness:
  "hybrid_fetch sample_router 10 10 (Inr (sampled_page ''<div>'')) (Inr (sampled_page ''cf-challenge'')) (Inl download_error.Cancelled)
     = (Inr (sampled_page ''cf-challenge''), [1, 2])
   \<and> evaluate_fetch sample_router (sampled_page ''cf-challenge'') = Inl (download_error.WafChallenge ''WAF challenge detected in response'')"
proof
  have "evaluate_fetch sample_router (sampled_page ''<div>'') = Inr None"
    by (simp add: evaluate_escalates sample_router_def sampled_page_def count_visible_text_def starts_with_def)
  then show "hybrid_fetch sample_router 10 10 (Inr (sampled_page ''<div>'')) (Inr (sampled_page ''cf-challenge'')) (Inl download_error.Cancelled)
     = (Inr (sampled_page ''cf-challenge''), [1, 2])"
    by (rule second_layer_is_not_inspected) (simp_all add: sampled_page_def)
  show "evaluate_fetch sample_router (sampled_page ''cf-challenge'') = Inl (download_error.WafChallenge ''WAF challenge detected in response'')"
    by (simp add: evaluate_fetch_def detect_spa_def sample_router_def sampled_page_def starts_with_def)
qed

end
