(* ===== verification/Scrape_Flow.thy ===== *)
theory Scrape_Flow
  imports Robots Content_Extraction Page_Downloader Filename Std_Path Exit_Codes "HOL-Library.Sublist"
begin

text \<open>
  Scraping a list of pages: \<^verbatim>\<open>cli/scrape_flow.rs\<close>, \<^verbatim>\<open>scrape_single_url\<close> of \<^verbatim>\<open>application/crawler/discovery.rs\<close> and the
  use case of the MCP server in \<^verbatim>\<open>application/scraper_service.rs\<close>. Pages are scraped concurrently; a run is given
  by the order in which its pages finish, each page a step over the robots decisions and the log of what was
  asked, dialled and saved. Two checks of one host at the same time are the subject of \<^verbatim>\<open>Robots\<close>. The
  downloader answers from that log. A panic is \<open>None\<close>; rate limiting only delays and is not part of a run.
\<close>

section \<open>State of a run\<close>

datatype scrape_event = AskedRobots string string | Dialled string | Saved string string

record 's scrape_state =
  st_robots :: 's
  st_log :: "scrape_event list"

record http_response =
  hp_status :: u16
  hp_body :: string
  hp_headers :: "(string \<times> string) list"

record ('s, 'u, 'a, 't, 'h) scrape_env =
  sf_ex :: "('u, 'a, 't, 'h) extraction_env"
  sf_check :: "string \<Rightarrow> string \<Rightarrow> 's \<Rightarrow> robots_decision \<times> 's"
  sf_fetch :: "scrape_event list \<Rightarrow> string \<Rightarrow> download_error + fetched_page"
  sf_get :: "scrape_event list \<Rightarrow> string \<Rightarrow> http_error + http_response"
  sf_find_iter :: "string \<Rightarrow> ac_match list"
  sf_high_entropy :: "string \<Rightarrow> bool"
  sf_hash :: "string \<Rightarrow> u64"
  sf_show_ip :: "ip_addr \<Rightarrow> string"
  sf_repo :: "('u \<Rightarrow> string \<Rightarrow> 'h \<Rightarrow> 'h) option"

type_synonym ('u, 'a, 'h) page_outcome = "(scraper_error + ('u, 'a, 'h) scraped_content option) option"

definition log_event :: "scrape_event \<Rightarrow> 's scrape_state \<Rightarrow> 's scrape_state" where
  "log_event ev st = st\<lparr>st_log := st_log st @ [ev]\<rparr>"

abbreviation page_text :: "('s, 'u, 'a, 't, 'h) scrape_env \<Rightarrow> 'u \<Rightarrow> string" where
  "page_text env u \<equiv> api_to_string (ex_api (sf_ex env)) u"

abbreviation page_host :: "('s, 'u, 'a, 't, 'h) scrape_env \<Rightarrow> 'u \<Rightarrow> string option" where
  "page_host env u \<equiv> api_host_str (ex_api (sf_ex env)) u"

section \<open>One page\<close>

definition single_fetch_error :: "string \<Rightarrow> download_error \<Rightarrow> scraper_error" where
  "single_fetch_error page e =
     (case e of
        download_error.WafChallenge vendor \<Rightarrow> scraper_error.WafBlocked page vendor
      | download_error.Http s _ \<Rightarrow> scraper_error.Http s page
      | other \<Rightarrow> scraper_error.Network (DynDownload other))"

definition is_binary_type :: "string \<Rightarrow> bool" where
  "is_binary_type ct =
     list_ex (\<lambda>p. contains_str p ct)
       [''application/pdf'', ''application/octet-stream'', ''application/zip'', ''application/x-'', ''image/'',
        ''audio/'', ''video/'']"

text \<open>
  A document: what is written is the text of the page, whatever the write answers, and the content
  names the file.
\<close>

definition save_binary ::
  "('s, 'u, 'a, 't, 'h) scrape_env \<Rightarrow> scraper_config \<Rightarrow> 'u \<Rightarrow> fetched_page \<Rightarrow> string \<Rightarrow> 's scrape_state
    \<Rightarrow> (scraper_error + ('u, 'a, 'h) scraped_content) option \<times> 's scrape_state" where
  "save_binary env config u page ct st =
     (case (if xc_download_documents config
            then map_option Some (derive_filename_from_content_disposition (ex_api (sf_ex env)) (sf_hash env)
                    (map_of (fp_headers page) ''content-disposition'') u ct)
            else Some None) of
        None \<Rightarrow> (None, st)
      | Some filename \<Rightarrow>
          (let saved_path = map_option (path_join (xc_output_dir config)) filename;
               st1 = (case saved_path of Some p \<Rightarrow> log_event (Saved p (fp_html page)) st | None \<Rightarrow> st);
               content = (case saved_path of
                            Some p \<Rightarrow> ''[Binary file saved: '' @ p @ ''] '' @ page_text env u
                          | None \<Rightarrow> ''[Binary content: '' @ ct @ ''] '' @ page_text env u)
           in (Some (case fst (download_assets_if_enabled (sf_ex env) [] u config) of
                       Inl e \<Rightarrow> Inl e
                     | Inr assets \<Rightarrow>
                         (case page_host env u of
                            None \<Rightarrow> Inl (scraper_error.InvalidUrl (''URL missing host: '' @ page_text env u))
                          | Some host \<Rightarrow>
                              (case valid_try_from_url (ex_api (sf_ex env)) (ex_strip (sf_ex env)) u of
                                 Inl e \<Rightarrow> Inl e
                               | Inr v \<Rightarrow>
                                   Inr \<lparr>ct_title = host, ct_content = content, ct_url = v, ct_excerpt = None,
                                     ct_author = None, ct_date = None, ct_html = None, ct_assets = assets,
                                     ct_quality_hint = None\<rparr>))), st1)))"

definition scrape_single_url ::
  "('s, 'u, 'a, 't, 'h) scrape_env \<Rightarrow> scraper_config \<Rightarrow> 'u \<Rightarrow> 's scrape_state
    \<Rightarrow> (scraper_error + ('u, 'a, 'h) scraped_content) option \<times> 's scrape_state" where
  "scrape_single_url env config u st =
     (let st1 = log_event (Dialled (page_text env u)) st in
      case sf_fetch env (st_log st) (page_text env u) of
        Inl e \<Rightarrow> (Some (Inl (single_fetch_error (page_text env u) e)), st1)
      | Inr page \<Rightarrow>
          if \<not> is_success (fp_status page) then (Some (Inl (scraper_error.Http (fp_status page) (page_text env u))), st1)
          else (let ct = unwrap_or (map_of (fp_headers page) ''content-type'') [] in
                if is_binary_type ct then save_binary env config u page ct st1
                else (let verdict = inspect (sf_find_iter env) (sf_high_entropy env) (fp_html page)
                            (from_lowercase_headers (fp_status page) (fp_headers page) (xc_ignore_waf config))
                      in if is_blocked verdict
                         then (Some (Inl (scraper_error.WafBlocked (page_text env u) (evidence_chain verdict))), st1)
                         else (Some (extract_content (sf_ex env) config (fp_html page) u), st1))))"

definition record_extraction_fingerprint ::
  "('s, 'u, 'a, 't, 'h) scrape_env \<Rightarrow> scraper_config \<Rightarrow> 'u \<Rightarrow> ('u, 'a, 'h) scraped_content \<Rightarrow> ('u, 'a, 'h) scraped_content" where
  "record_extraction_fingerprint env config u content =
     (case sf_repo env of
        None \<Rightarrow> content
      | Some record_failure \<Rightarrow>
          content\<lparr>ct_quality_hint := map_option (record_failure u (xc_selector config)) (ct_quality_hint content)\<rparr>)"

definition ask_robots ::
  "('s, 'u, 'a, 't, 'h) scrape_env \<Rightarrow> 'u \<Rightarrow> 's scrape_state \<Rightarrow> robots_decision \<times> 's scrape_state" where
  "ask_robots env u st =
     (let domain = unwrap_or (page_host env u) ''unknown'';
          (verdict, robots) = sf_check env (page_text env u) domain (st_robots st)
      in (verdict, log_event (AskedRobots (page_text env u) domain) (st\<lparr>st_robots := robots\<rparr>)))"

definition finish_page ::
  "('s, 'u, 'a, 't, 'h) scrape_env \<Rightarrow> scraper_config \<Rightarrow> 'u \<Rightarrow> (scraper_error + ('u, 'a, 'h) scraped_content) option
    \<Rightarrow> ('u, 'a, 'h) page_outcome" where
  "finish_page env config u outcome =
     map_option (map_sum id (\<lambda>content. Some (record_extraction_fingerprint env config u content))) outcome"

definition scrape_one_url ::
  "('s, 'u, 'a, 't, 'h) scrape_env \<Rightarrow> scraper_config \<Rightarrow> bool \<Rightarrow> (string \<rightharpoonup> string) \<Rightarrow> 'u \<Rightarrow> 's scrape_state
    \<Rightarrow> ('u, 'a, 'h) page_outcome \<times> 's scrape_state" where
  "scrape_one_url env config ignore_robots captured u st =
     (case reject_forbidden_literal_url (ex_entry_guard (sf_ex env)) (page_host env u) of
        Inl rejection \<Rightarrow>
          (Some (Inl (scraper_error.InvalidUrl (forbidden_literal_display (sf_show_ip env) rejection))), st)
      | Inr _ \<Rightarrow>
          (case (if ignore_robots then (Allowed, st) else ask_robots env u st) of
             (RulesDenied, st1) \<Rightarrow> (Some (Inr None), st1)
           | (PolicyRefused f, st1) \<Rightarrow>
               (Some (Inl (scraper_error.Network (DynOther (forbidden_literal_display (sf_show_ip env) f) None))), st1)
           | (Allowed, st1) \<Rightarrow>
               (case captured (page_text env u) of
                  Some html \<Rightarrow> (finish_page env config u (Some (extract_content (sf_ex env) config html u)), st1)
                | None \<Rightarrow>
                    (let (outcome, st2) = scrape_single_url env config u st1 in (finish_page env config u outcome, st2)))))"

section \<open>All pages\<close>

definition apply_max_pages_limit :: "'u list \<Rightarrow> scraper_config \<Rightarrow> 'u list" where
  "apply_max_pages_limit urls config =
     (case xc_max_pages config of Some max_pages \<Rightarrow> take max_pages urls | None \<Rightarrow> urls)"

text \<open>Bodies captured during discovery; the first of a URL wins.\<close>

fun index_captured :: "(string \<times> string) list \<Rightarrow> (string \<rightharpoonup> string) \<Rightarrow> (string \<rightharpoonup> string)" where
  "index_captured [] bodies = bodies"
| "index_captured ((page, html) # pages) bodies =
     index_captured pages (if bodies page = None then bodies(page \<mapsto> html) else bodies)"

type_synonym ('u, 'a, 'h) slot = "nat \<times> ('u \<times> (scraper_error + ('u, 'a, 'h) scraped_content option)) option"

text \<open>\<open>stopped i\<close>: the task of page \<open>i\<close> saw the shutdown before it started, or while it waited for its turn.\<close>

fun scrape_tasks ::
  "('s, 'u, 'a, 't, 'h) scrape_env \<Rightarrow> scraper_config \<Rightarrow> bool \<Rightarrow> (string \<rightharpoonup> string) \<Rightarrow> (nat \<Rightarrow> bool) \<Rightarrow> (nat \<times> 'u) list
    \<Rightarrow> 's scrape_state \<Rightarrow> ('u, 'a, 'h) slot list option \<times> 's scrape_state" where
  "scrape_tasks env config ignore_robots captured stopped [] st = (Some [], st)"
| "scrape_tasks env config ignore_robots captured stopped ((i, u) # tasks) st =
     (if stopped i
      then (let (slots, st1) = scrape_tasks env config ignore_robots captured stopped tasks st
            in (map_option ((#) (i, None)) slots, st1))
      else (case scrape_one_url env config ignore_robots captured u st of
              (None, st1) \<Rightarrow> (None, st1)
            | (Some outcome, st1) \<Rightarrow>
                (let (slots, st2) = scrape_tasks env config ignore_robots captured stopped tasks st1
                 in (map_option ((#) (i, Some (u, outcome))) slots, st2))))"

record ('u, 'a, 'h) scrape_tally =
  ty_results :: "('u, 'a, 'h) scraped_content list"
  ty_failures :: "(string \<times> scraper_error) list"
  ty_blocked :: nat
  ty_skipped :: nat

fun tally_slots :: "('u \<Rightarrow> string) \<Rightarrow> ('u, 'a, 'h) slot list \<Rightarrow> ('u, 'a, 'h) scrape_tally" where
  "tally_slots to_text [] = \<lparr>ty_results = [], ty_failures = [], ty_blocked = 0, ty_skipped = 0\<rparr>"
| "tally_slots to_text ((i, slot) # slots) =
     (let t = tally_slots to_text slots in
      case slot of
        None \<Rightarrow> t\<lparr>ty_skipped := Suc (ty_skipped t)\<rparr>
      | Some (u, Inr (Some content)) \<Rightarrow> t\<lparr>ty_results := content # ty_results t\<rparr>
      | Some (u, Inr None) \<Rightarrow> t\<lparr>ty_blocked := Suc (ty_blocked t)\<rparr>
      | Some (u, Inl e) \<Rightarrow> t\<lparr>ty_failures := (to_text u, e) # ty_failures t\<rparr>)"

text \<open>\<open>order\<close> is the order in which the pages finish; the slots are sorted back by index.\<close>

definition scrape_urls ::
  "('s, 'u, 'a, 't, 'h) scrape_env \<Rightarrow> scraper_config \<Rightarrow> bool \<Rightarrow> (string \<times> string) list \<Rightarrow> (nat \<Rightarrow> bool) \<Rightarrow> (nat \<times> 'u) list
    \<Rightarrow> 's scrape_state \<Rightarrow> ('u, 'a, 'h) scrape_tally option \<times> 's scrape_state" where
  "scrape_urls env config ignore_robots captured stopped order st =
     (let (slots, st1) = scrape_tasks env config ignore_robots (index_captured captured Map.empty) stopped order st
      in (map_option (\<lambda>ordered. tally_slots (api_to_string (ex_api (sf_ex env))) (sort_key fst ordered)) slots, st1))"

section \<open>The MCP server\<close>

text \<open>\<open>checks_robots\<close>: the caller has a robots fetcher. Without one nothing is enforced.\<close>

definition enforce_robots_policy ::
  "('s, 'u, 'a, 't, 'h) scrape_env \<Rightarrow> bool \<Rightarrow> bool \<Rightarrow> 'u \<Rightarrow> 's scrape_state \<Rightarrow> (scraper_error + unit) \<times> 's scrape_state" where
  "enforce_robots_policy env checks_robots ignore_robots u st =
     (if ignore_robots \<or> \<not> checks_robots then (Inr (), st)
      else (case ask_robots env u st of
              (Allowed, st1) \<Rightarrow> (Inr (), st1)
            | (RulesDenied, st1) \<Rightarrow> (Inl (scraper_error.WafBlocked (page_text env u) ''robots.txt''), st1)
            | (PolicyRefused f, st1) \<Rightarrow>
                (Inl (scraper_error.Network (DynOther (forbidden_literal_display (sf_show_ip env) f) None)), st1)))"

definition fetch_html ::
  "('s, 'u, 'a, 't, 'h) scrape_env \<Rightarrow> 'u \<Rightarrow> 's scrape_state \<Rightarrow> (scraper_error + http_response) \<times> 's scrape_state" where
  "fetch_html env u st =
     ((case sf_get env (st_log st) (page_text env u) of
         Inl e \<Rightarrow> Inl (scraper_error_from_http e (page_text env u))
       | Inr response \<Rightarrow>
           if 200 \<le> hp_status response \<and> hp_status response < 300 then Inr response
           else Inl (scraper_error.Http (hp_status response) (page_text env u))),
      log_event (Dialled (page_text env u)) st)"

definition detect_waf ::
  "('s, 'u, 'a, 't, 'h) scrape_env \<Rightarrow> string \<Rightarrow> http_response \<Rightarrow> scraper_config \<Rightarrow> 'u \<Rightarrow> scraper_error + unit" where
  "detect_waf env html response config u =
     (let verdict = inspect (sf_find_iter env) (sf_high_entropy env) html
            (from_lowercase_headers (hp_status response) (hp_headers response) (xc_ignore_waf config))
      in if is_blocked verdict then Inl (scraper_error.WafBlocked (page_text env u) (evidence_chain verdict)) else Inr ())"

definition scrape_page ::
  "('s, 'u, 'a, 't, 'h) scrape_env \<Rightarrow> 'u \<Rightarrow> scraper_config \<Rightarrow> 'd dom_inspector option \<Rightarrow> 's scrape_state
    \<Rightarrow> (scraper_error + ('u, 'a, 'h) scraped_content \<times> 'd extract_result) \<times> 's scrape_state" where
  "scrape_page env u config inspector st =
     (case fetch_html env u st of
        (Inl e, st1) \<Rightarrow> (Inl e, st1)
      | (Inr response, st1) \<Rightarrow>
          ((case detect_waf env (hp_body response) response config u of
              Inl e \<Rightarrow> Inl e
            | Inr _ \<Rightarrow> page_content (sf_ex env) config (hp_body response) u inspector), st1))"

definition scrape_with_config ::
  "('s, 'u, 'a, 't, 'h) scrape_env \<Rightarrow> 'u \<Rightarrow> scraper_config \<Rightarrow> 'd dom_inspector option \<Rightarrow> bool \<Rightarrow> bool \<Rightarrow> 's scrape_state
    \<Rightarrow> (scraper_error + ('u, 'a, 'h) scraped_content \<times> 'd extract_result) \<times> 's scrape_state" where
  "scrape_with_config env u config inspector checks_robots ignore_robots st =
     (case enforce_robots_policy env checks_robots ignore_robots u st of
        (Inl e, st1) \<Rightarrow> (Inl e, st1)
      | (Inr _, st1) \<Rightarrow> scrape_page env u config inspector st1)"

record scrape_failed =
  sd_url :: string
  sd_error :: scraper_error
  sd_category :: error_class

record ('u, 'a, 'h) scrape_batch_outcome =
  sb_results :: "('u, 'a, 'h) scraped_content list"
  sb_failed :: "scrape_failed list"

text \<open>One entry of the batch per URL, in the order of completion; the message of an error stays the error.\<close>

fun collect_batch_outcome ::
  "('u \<Rightarrow> string) \<Rightarrow> ('u \<times> (scraper_error + ('u, 'a, 'h) scraped_content \<times> 'd extract_result)) list
    \<Rightarrow> ('u, 'a, 'h) scrape_batch_outcome" where
  "collect_batch_outcome to_text [] = \<lparr>sb_results = [], sb_failed = []\<rparr>"
| "collect_batch_outcome to_text ((u, result) # results) =
     (let rest = collect_batch_outcome to_text results in
      case result of
        Inr (content, _) \<Rightarrow> rest\<lparr>sb_results := content # sb_results rest\<rparr>
      | Inl e \<Rightarrow> rest\<lparr>sb_failed := \<lparr>sd_url = to_text u, sd_error = e, sd_category = scraper_classify e\<rparr> # sb_failed rest\<rparr>)"

fun batch_results ::
  "('s, 'u, 'a, 't, 'h) scrape_env \<Rightarrow> scraper_config \<Rightarrow> bool \<Rightarrow> bool \<Rightarrow> 'u list \<Rightarrow> 's scrape_state
    \<Rightarrow> ('u \<times> (scraper_error + ('u, 'a, 'h) scraped_content \<times> unit extract_result)) list \<times> 's scrape_state" where
  "batch_results env config checks_robots ignore_robots [] st = ([], st)"
| "batch_results env config checks_robots ignore_robots (u # us) st =
     (let (result, st1) = scrape_with_config env u config (None :: unit dom_inspector option) checks_robots ignore_robots st;
          (results, st2) = batch_results env config checks_robots ignore_robots us st1
      in ((u, result) # results, st2))"

definition scrape_multiple_inner ::
  "('s, 'u, 'a, 't, 'h) scrape_env \<Rightarrow> scraper_config \<Rightarrow> bool \<Rightarrow> bool \<Rightarrow> 'u list \<Rightarrow> 's scrape_state
    \<Rightarrow> ('u, 'a, 'h) scrape_batch_outcome \<times> 's scrape_state" where
  "scrape_multiple_inner env config checks_robots ignore_robots completed st =
     (let (results, st1) = batch_results env config checks_robots ignore_robots completed st
      in (collect_batch_outcome (api_to_string (ex_api (sf_ex env))) results, st1))"

section \<open>The guards of a page\<close>

definition answers_allowed :: "('s, 'u, 'a, 't, 'h) scrape_env \<Rightarrow> 'u \<Rightarrow> bool" where
  "answers_allowed env u \<longleftrightarrow>
     (\<exists>s. fst (sf_check env (page_text env u) (unwrap_or (page_host env u) ''unknown'') s) = Allowed)"

text \<open>What may be dialled: nothing refused by the address guard, captured, or not allowed by robots.\<close>

definition may_dial ::
  "('s, 'u, 'a, 't, 'h) scrape_env \<Rightarrow> bool \<Rightarrow> (string \<rightharpoonup> string) \<Rightarrow> 'u \<Rightarrow> bool" where
  "may_dial env ignore_robots captured u \<longleftrightarrow>
     seed_guard_refusal (ex_entry_guard (sf_ex env)) (page_host env u) = None \<and>
     captured (page_text env u) = None \<and> (ignore_robots \<or> answers_allowed env u)"

fun dials :: "scrape_event list \<Rightarrow> string list" where
  "dials [] = []"
| "dials (Dialled page # evs) = page # dials evs"
| "dials (_ # evs) = dials evs"

lemma dials_append [simp]: "dials (xs @ ys) = dials xs @ dials ys"
  by (induction xs rule: dials.induct) auto

lemma single_url_dials: "dials (st_log (snd (scrape_single_url env config u st))) = dials (st_log st) @ [page_text env u]"
  by (simp add: scrape_single_url_def save_binary_def log_event_def Let_def split: sum.split option.split)

lemma ask_robots_dials: "dials (st_log (snd (ask_robots env u st))) = dials (st_log st)"
  by (simp add: ask_robots_def log_event_def Let_def split_beta)

lemma ask_robots_allowed: "fst (ask_robots env u st) = Allowed \<Longrightarrow> answers_allowed env u"
  by (auto simp: ask_robots_def answers_allowed_def Let_def split_beta)

lemma one_url_dials:
  "dials (st_log (snd (scrape_one_url env config ignore_robots captured u st))) = dials (st_log st) \<or>
   dials (st_log (snd (scrape_one_url env config ignore_robots captured u st))) = dials (st_log st) @ [page_text env u] \<and>
   may_dial env ignore_robots captured u"
  using ask_robots_dials [of env u st] ask_robots_allowed [of env u st] single_url_dials [of env config u]
  by (auto simp: scrape_one_url_def reject_forbidden_literal_url_def may_dial_def split_beta
      split: sum.split option.split robots_decision.split prod.split)

lemma tasks_dials:
  "\<exists>pages. dials (st_log (snd (scrape_tasks env config ignore_robots captured stopped order st))) =
     dials (st_log st) @ map (page_text env) pages \<and> subseq pages (map snd order) \<and>
     list_all (may_dial env ignore_robots captured) pages"
proof (induction order arbitrary: st)
  case Nil
  then show ?case by (intro exI [of _ "[]"]) simp
next
  case (Cons task order)
  obtain i u where task: "task = (i, u)" by (cases task)
  let ?run = "scrape_one_url env config ignore_robots captured u"
  show ?case
  proof (cases "stopped i")
    case True
    then show ?thesis using Cons.IH [of st] by (auto simp: task split_beta intro: list_emb_Cons)
  next
    case False
    obtain outcome st1 where run: "?run st = (outcome, st1)" by (cases "?run st")
    have "\<exists>first. dials (st_log st1) = dials (st_log st) @ map (page_text env) first \<and> subseq first [u] \<and>
        list_all (may_dial env ignore_robots captured) first"
      using one_url_dials [of env config ignore_robots captured u st] run
      by (elim disjE) (intro exI [of _ "[]"], simp, intro exI [of _ "[u]"], simp)
    then obtain first where first: "dials (st_log st1) = dials (st_log st) @ map (page_text env) first"
        "subseq first [u]" "list_all (may_dial env ignore_robots captured) first"
      by blast
    show ?thesis
    proof (cases outcome)
      case None
      have "subseq first (u # map snd order)"
        using first(2) by (metis append_Cons append_Nil subseq_order.dual_order.trans list_emb_prefix)
      with None first show ?thesis by (auto simp: task False run)
    next
      case (Some out)
      obtain pages where "dials (st_log (snd (scrape_tasks env config ignore_robots captured stopped order st1))) =
          dials (st_log st1) @ map (page_text env) pages" "subseq pages (map snd order)"
          "list_all (may_dial env ignore_robots captured) pages"
        using Cons.IH [of st1] by blast
      then show ?thesis
        using first list_emb_append_mono [OF first(2), of pages "map snd order"]
        by (intro exI [of _ "first @ pages"]) (simp add: task False run Some split_beta)
    qed
  qed
qed


lemma batch_results_dials:
  "\<exists>pages. dials (st_log (snd (batch_results env config checks_robots ignore_robots us st))) =
     dials (st_log st) @ map (page_text env) pages \<and> subseq pages us \<and>
     list_all (\<lambda>u. ignore_robots \<or> \<not> checks_robots \<or> answers_allowed env u) pages"
proof (induction us arbitrary: st)
  case Nil
  then show ?case by (intro exI [of _ "[]"]) simp
next
  case (Cons u us)
  let ?run = "scrape_with_config env u config (None :: unit dom_inspector option) checks_robots ignore_robots"
  obtain result st1 where run: "?run st = (result, st1)" by (cases "?run st")
  have dial: "dials (st_log (snd (scrape_page env u config (None :: unit dom_inspector option) s))) =
      dials (st_log s) @ [page_text env u]" for s
    by (simp add: scrape_page_def fetch_html_def log_event_def split_beta split: sum.split)
  obtain first where first: "dials (st_log st1) = dials (st_log st) @ map (page_text env) first"
      "first = [] \<or> first = [u] \<and> (ignore_robots \<or> \<not> checks_robots \<or> answers_allowed env u)"
  proof (cases "fst (enforce_robots_policy env checks_robots ignore_robots u st)")
    case (Inl e)
    then have "st1 = snd (enforce_robots_policy env checks_robots ignore_robots u st)"
      using run by (simp add: scrape_with_config_def split: prod.splits)
    then have "dials (st_log st1) = dials (st_log st)"
      using ask_robots_dials [of env u st]
      by (simp add: enforce_robots_policy_def split_beta split: robots_decision.split)
    then show ?thesis using that [of "[]"] by simp
  next
    case (Inr r)
    then have ok: "ignore_robots \<or> \<not> checks_robots \<or> answers_allowed env u"
        "dials (st_log (snd (enforce_robots_policy env checks_robots ignore_robots u st))) = dials (st_log st)"
      using ask_robots_dials [of env u st] ask_robots_allowed [of env u st]
      by (auto simp: enforce_robots_policy_def split_beta split: robots_decision.splits if_splits)
    have "dials (st_log st1) = dials (st_log st) @ [page_text env u]"
      using run dial [of "snd (enforce_robots_policy env checks_robots ignore_robots u st)"] Inr ok(2)
      by (auto simp: scrape_with_config_def split: prod.splits)
    then show ?thesis using that [of "[u]"] ok(1) by simp
  qed
  obtain pages where "dials (st_log (snd (batch_results env config checks_robots ignore_robots us st1))) =
      dials (st_log st1) @ map (page_text env) pages" "subseq pages us"
      "list_all (\<lambda>u. ignore_robots \<or> \<not> checks_robots \<or> answers_allowed env u) pages"
    using Cons.IH [of st1] by blast
  then show ?case using first
    by (intro exI [of _ "first @ pages"]) (auto simp: run split_beta)
qed

section \<open>Accounting\<close>

definition slot_of ::
  "('s, 'u, 'a, 't, 'h) scrape_env \<Rightarrow> nat \<times> 'u \<Rightarrow> ('u, 'a, 'h) slot \<Rightarrow> bool" where
  "slot_of env task s \<longleftrightarrow> fst s = fst task \<and>
     (case snd s of
        None \<Rightarrow> True
      | Some (u, outcome) \<Rightarrow> u = snd task \<and>
          (case outcome of Inr (Some c) \<Rightarrow> ct_url c = ex_strip (sf_ex env) u | _ \<Rightarrow> True))"

lemma slot_of_iff [simp]:
  "slot_of env (i, u) (j, None) \<longleftrightarrow> j = i"
  "slot_of env (i, u) (j, Some (v, outcome)) \<longleftrightarrow> j = i \<and> v = u \<and>
     (case outcome of Inr (Some c) \<Rightarrow> ct_url c = ex_strip (sf_ex env) u | _ \<Rightarrow> True)"
  by (auto simp: slot_of_def)

lemma valid_url_is_stripped: "valid_try_from_url api strip u = Inr v \<Longrightarrow> v = strip u"
  by (auto simp: valid_try_from_url_def Let_def split: if_splits)

lemma extracted_url: "extract_content env config html u = Inr c \<Longrightarrow> ct_url c = ex_strip env u"
  using valid_url_is_stripped [of "ex_api env" "ex_strip env" u]
  by (auto simp: extract_content_def extract_article_def extract_fallback_def Let_def split_beta
      split: sum.splits if_splits option.splits)

lemma single_url_content:
  "fst (scrape_single_url env config u st) = Some (Inr c) \<Longrightarrow> ct_url c = ex_strip (sf_ex env) u"
  using valid_url_is_stripped [of "ex_api (sf_ex env)" "ex_strip (sf_ex env)" u] extracted_url [of "sf_ex env" config _ u c]
  by (auto simp: scrape_single_url_def save_binary_def Let_def split: sum.splits if_splits option.splits)

lemma finish_page_content:
  "finish_page env config u outcome = Some (Inr (Some c)) \<Longrightarrow> \<exists>d. outcome = Some (Inr d) \<and> ct_url c = ct_url d"
proof (cases outcome)
  case (Some r)
  assume "finish_page env config u outcome = Some (Inr (Some c))"
  then show ?thesis unfolding Some
    by (cases r) (auto simp: finish_page_def record_extraction_fingerprint_def split: option.splits)
qed (simp add: finish_page_def)

lemma one_url_content:
  "fst (scrape_one_url env config ignore_robots captured u st) = Some (Inr (Some c)) \<Longrightarrow> ct_url c = ex_strip (sf_ex env) u"
  using single_url_content [of env config u] extracted_url [of "sf_ex env" config _ u]
  by (auto simp: scrape_one_url_def split_beta dest!: finish_page_content
      split: sum.splits option.splits robots_decision.splits prod.splits if_splits)

lemma tasks_slots:
  "fst (scrape_tasks env config ignore_robots captured stopped order st) = Some slots \<Longrightarrow> list_all2 (slot_of env) order slots"
proof (induction order arbitrary: st slots)
  case (Cons task order)
  obtain i u where task: "task = (i, u)" by (cases task)
  show ?case
  proof (cases "stopped i")
    case True
    then show ?thesis using Cons by (auto simp: task split_beta)
  next
    case False
    have url: "case outcome of Inr (Some c) \<Rightarrow> ct_url c = ex_strip (sf_ex env) u | _ \<Rightarrow> True"
      if "fst (scrape_one_url env config ignore_robots captured u st) = Some outcome" for outcome
      using that one_url_content [of env config ignore_robots captured u st] by (simp split: sum.split option.split)
    show ?thesis using Cons False url
      by (auto simp: task split_beta split: option.splits prod.splits)
  qed
qed simp

lemma insort_slots:
  "list_all2 (slot_of env) ts ss \<Longrightarrow> slot_of env t s \<Longrightarrow> list_all2 (slot_of env) (insort_key fst t ts) (insort_key fst s ss)"
proof (induction rule: list_all2_induct)
  case (Cons t' ts s' ss)
  then have "fst s' = fst t'" "fst s = fst t" by (simp_all add: slot_of_def)
  with Cons show ?case by simp
qed simp

lemma sorted_slots:
  "list_all2 (slot_of env) ts ss \<Longrightarrow> list_all2 (slot_of env) (sort_key fst ts) (sort_key fst ss)"
  by (induction rule: list_all2_induct) (simp_all add: insort_slots)

lemma order_sorts_back:
  assumes "mset order = mset (enumerate 0 us)"
  shows "sort_key fst order = enumerate 0 us"
proof (rule sort_key_inj_key_eq [OF assms])
  have "set order = set (enumerate 0 us)" using assms by (rule mset_eq_setD)
  then show "inj_on fst (set order)" by (auto simp: inj_on_def in_set_enumerate_eq prod_eq_iff)
  show "sorted (map fst (enumerate 0 us))" by simp
qed

lemma tally_accounts:
  assumes "list_all2 (slot_of env) (enumerate n us) slots"
  shows "let t = tally_slots (api_to_string (ex_api (sf_ex env))) slots in
    length (ty_results t) + length (ty_failures t) + ty_blocked t + ty_skipped t = length us \<and>
    subseq (map ct_url (ty_results t)) (map (ex_strip (sf_ex env)) us) \<and>
    subseq (map fst (ty_failures t)) (map (page_text env) us)"
  using assms
proof (induction us arbitrary: n slots)
  case (Cons u us)
  obtain s rest where slots: "slots = s # rest" and s: "slot_of env (n, u) s"
      and rest: "list_all2 (slot_of env) (enumerate (Suc n) us) rest"
    using Cons.prems by (auto simp: list_all2_Cons1)
  obtain i slot where "s = (i, slot)" by (cases s)
  then show ?case using s Cons.IH [OF rest]
    by (auto simp: slots Let_def split: option.split sum.split)
qed simp

lemma limited_subseq: "subseq (map f (apply_max_pages_limit us config)) (map f us)"
  by (simp add: apply_max_pages_limit_def subseq_map take_is_prefix prefix_imp_subseq split: option.split)

text \<open>
  C38. A run accounts for every page in the order of its list: in whatever order the pages finish and
  whichever of them shutdown drops, a run that returns counts each page within its limit once, as a result, a
  failure, a robots block or a skip; results and failures are reported in the order of the list, each
  under the URL that was asked for.
\<close>

theorem run_accounts_in_input_order:
  assumes "mset order = mset (enumerate 0 (apply_max_pages_limit us config))"
    and "fst (scrape_urls env config ignore_robots captured stopped order st) = Some t"
  shows "length (ty_results t) + length (ty_failures t) + ty_blocked t + ty_skipped t =
      length (apply_max_pages_limit us config) \<and>
    subseq (map ct_url (ty_results t)) (map (ex_strip (sf_ex env)) us) \<and>
    subseq (map fst (ty_failures t)) (map (page_text env) us)"
proof -
  obtain slots where slots: "fst (scrape_tasks env config ignore_robots (index_captured captured Map.empty) stopped order st) =
      Some slots" and t: "t = tally_slots (api_to_string (ex_api (sf_ex env))) (sort_key fst slots)"
    using assms(2) by (auto simp: scrape_urls_def split_beta)
  have all: "list_all2 (slot_of env) (enumerate 0 (apply_max_pages_limit us config)) (sort_key fst slots)"
    using sorted_slots [OF tasks_slots [OF slots]] by (simp add: order_sorts_back [OF assms(1)])
  note sum = tally_accounts [OF all, folded t, unfolded Let_def]
  from sum subseq_order.order_trans [OF conjunct1 [OF conjunct2 [OF sum]] limited_subseq]
    subseq_order.order_trans [OF conjunct2 [OF conjunct2 [OF sum]] limited_subseq]
  show ?thesis by blast
qed

definition sample_scrape :: "(unit, string, unit, unit, unit) scrape_env" where
  "sample_scrape =
     \<lparr>sf_ex = sample_extraction, sf_check = \<lambda>_ _ s. (RulesDenied, s), sf_fetch = \<lambda>_ _. Inl (download_error.Dns ''none''),
      sf_get = \<lambda>_ _. Inl http_error.Timeout, sf_find_iter = \<lambda>_. [], sf_high_entropy = \<lambda>_. False, sf_hash = \<lambda>_. 0,
      sf_show_ip = \<lambda>_. [], sf_repo = None\<rparr>"

lemma sample_host_is_no_address: "seed_guard_refusal None (Some ''a.io'') = None"
proof -
  have "parse_ip_literal ''a.io'' = None"
    by (simp add: parse_ip_literal_def parse_ipv4_all_forms_def parse_ipv4_number_def policy_eval)
  then show ?thesis by (simp add: seed_guard_refusal_def)
qed

definition sample_html :: string where
  "sample_html = replicate 100 CHR ''a''"

lemma sample_page: "\<exists>c. extract_content sample_extraction body_config sample_html ''/y'' = Inr c"
proof -
  have len: "byte_len sample_html = 100" by (simp add: sample_html_def byte_len_def len_utf8_def sum_list_replicate)
  show ?thesis
    by (simp add: extract_content_def extract_fallback_def select_html_def extract_with_selector_def adaptive_selector_repair_def
        prune_dom_if_enabled_def as_html_def len MIN_FALLBACK_CONTENT_def download_assets_if_enabled_def has_downloads_def
        extract_asset_urls_from_html_def extract_asset_urls_def download_asset_urls_def valid_try_from_url_def
        sample_extraction_def silent_env_def body_config_def)
qed

lemma sample_one_url:
  "\<exists>c. scrape_one_url sample_scrape body_config True (Map.empty(''https://a.io/y'' \<mapsto> sample_html)) ''/y'' st =
     (Some (Inr (Some c)), st)"
proof -
  obtain c where "extract_content sample_extraction body_config sample_html ''/y'' = Inr c" using sample_page by blast
  moreover have "api_host_str (ex_api sample_extraction) ''/y'' = Some ''a.io''" "ex_entry_guard sample_extraction = None"
    "api_to_string (ex_api sample_extraction) ''/y'' = ''https://a.io/y''"
    by (simp_all add: sample_extraction_def silent_env_def)
  ultimately show ?thesis
    by (simp add: scrape_one_url_def sample_scrape_def reject_forbidden_literal_url_def sample_host_is_no_address
        finish_page_def record_extraction_fingerprint_def)
qed

theorem run_accounts_in_input_order_witness:
  "\<exists>t. fst (scrape_urls sample_scrape body_config True [(''https://a.io/y'', sample_html)] (\<lambda>i. i = 0)
      [(1, ''/y''), (0, ''/x'')] \<lparr>st_robots = (), st_log = []\<rparr>) = Some t \<and> ty_skipped t = 1 \<and>
    length (ty_results t) + length (ty_failures t) + ty_blocked t + ty_skipped t = 2 \<and>
    subseq (map ct_url (ty_results t)) [''/x'', ''/y'']"
proof -
  let ?start = "\<lparr>st_robots = (), st_log = []\<rparr>"
  let ?run = "fst (scrape_urls sample_scrape body_config True [(''https://a.io/y'', sample_html)] (\<lambda>i. i = 0)
      [(1, ''/y''), (0, ''/x'')] ?start)"
  obtain c where "scrape_one_url sample_scrape body_config True (Map.empty(''https://a.io/y'' \<mapsto> sample_html)) ''/y'' ?start =
      (Some (Inr (Some c)), ?start)" using sample_one_url [of ?start] by blast
  then have "\<exists>t. ?run = Some t \<and> ty_skipped t = 1" by (simp add: scrape_urls_def)
  then obtain t where t: "?run = Some t" "ty_skipped t = 1" by blast
  have "mset [(1, ''/y''), (0, ''/x'')] = mset (enumerate 0 (apply_max_pages_limit [''/x'', ''/y''] body_config))"
    by (simp add: apply_max_pages_limit_def body_config_def)
  from run_accounts_in_input_order [OF this t(1)] t show ?thesis
    by (auto simp: apply_max_pages_limit_def body_config_def sample_scrape_def sample_extraction_def)
qed

section \<open>The MCP batch\<close>

lemma collected_counts:
  "length (sb_results (collect_batch_outcome f results)) + length (sb_failed (collect_batch_outcome f results)) = length results \<and>
   list_all (\<lambda>x. sd_category x = scraper_classify (sd_error x)) (sb_failed (collect_batch_outcome f results))"
  by (induction f results rule: collect_batch_outcome.induct) (auto simp: Let_def split: sum.split prod.split)

lemma batch_results_length: "length (fst (batch_results env config checks_robots ignore_robots us st)) = length us"
  by (induction us arbitrary: st) (simp_all add: split_beta)

text \<open>
  A batch of the MCP server answers for every URL: in whatever order its URLs complete, each gives one
  result or one failure, and no page is dialled that robots.txt denies while robots are enforced; a failure
  carries the class of its own error.
\<close>

theorem batch_answers_for_every_url:
  "case scrape_multiple_inner env config checks_robots ignore_robots completed st of
     (outcome, st1) \<Rightarrow> length (sb_results outcome) + length (sb_failed outcome) = length completed \<and>
       list_all (\<lambda>f. sd_category f = scraper_classify (sd_error f)) (sb_failed outcome) \<and>
       (\<exists>pages. dials (st_log st1) = dials (st_log st) @ map (page_text env) pages \<and> subseq pages completed \<and>
          list_all (\<lambda>u. ignore_robots \<or> \<not> checks_robots \<or> answers_allowed env u) pages)"
  using collected_counts [of "api_to_string (ex_api (sf_ex env))"
      "fst (batch_results env config checks_robots ignore_robots completed st)"]
    batch_results_length [of env config checks_robots ignore_robots completed st]
    batch_results_dials [of env config checks_robots ignore_robots completed st]
  by (simp add: scrape_multiple_inner_def split_beta)

text \<open>
  One refusal, two classes: a URL whose host is a forbidden address is permanently invalid on the command
  line, and a network failure that a client may retry when the robots fetcher of the server refuses it.
\<close>

lemma refused_address_is_retriable_on_the_server:
  assumes "seed_guard_refusal (ex_entry_guard (sf_ex env)) (page_host env u) = Some f"
    and "fst (sf_check env (page_text env u) (unwrap_or (page_host env u) ''unknown'') (st_robots st)) = PolicyRefused f"
  shows "\<exists>e e'. fst (scrape_one_url env config False captured u st) = Some (Inl e) \<and> scraper_classify e = PermanentFatal \<and>
    fst (scrape_with_config env u config inspector True False st) = Inl e' \<and> scraper_classify e' = TransientRetriable"
  using assms
  by (simp add: scrape_one_url_def reject_forbidden_literal_url_def scrape_with_config_def enforce_robots_policy_def
      ask_robots_def split_beta Let_def)

section \<open>Robots during a run\<close>

definition robots_checker ::
  "'r robots_env \<Rightarrow> (robots_fetcher \<Rightarrow> string \<Rightarrow> send_error + response) \<Rightarrow> string \<Rightarrow> string \<Rightarrow> robots_fetcher
    \<Rightarrow> robots_decision \<times> robots_fetcher" where
  "robots_checker renv net page domain f = is_robots_allowed renv (net f page) page domain f"

lemma tasks_keep_settled:
  assumes "fetcher.settled (st_robots st)"
  shows "fetcher.settled (st_robots (snd (scrape_tasks (env\<lparr>sf_check := robots_checker renv net\<rparr>) config ignore_robots captured
    stopped order st)))"
proof -
  let ?env = "env\<lparr>sf_check := robots_checker renv net\<rparr>"
  have one: "fetcher.settled (st_robots (snd (scrape_one_url ?env config ignore_robots captured u s)))"
    if "fetcher.settled (st_robots s)" for u s
  proof -
    have ask: "fetcher.settled (st_robots (snd (ask_robots ?env u s)))"
      using fetcher.check_settled [OF that, of renv net]
      by (simp add: ask_robots_def robots_checker_def log_event_def split_beta Let_def)
    have dial: "st_robots (snd (scrape_single_url ?env config u t)) = st_robots t" for t
      by (simp add: scrape_single_url_def save_binary_def log_event_def Let_def split: sum.split option.split)
    show ?thesis using that ask
      by (auto simp: scrape_one_url_def dial split_beta split: sum.split option.split robots_decision.split prod.split)
  qed
  show ?thesis using assms
  proof (induction order arbitrary: st)
    case (Cons task order)
    obtain i u where "task = (i, u)" by (cases task)
    then show ?case using Cons.IH [OF Cons.prems] Cons.IH [OF one [OF Cons.prems, of u]] one [OF Cons.prems, of u]
      by (simp add: split_beta split: option.split)
  qed simp
qed

text \<open>
  A run asks each host once: however many pages of a host are in the list, in whatever order they are
  checked and whatever the network answers, one robots.txt is requested per host.
\<close>

theorem run_asks_each_host_once:
  "distinct (map fst (rf_sent (st_robots (snd (scrape_urls (env\<lparr>sf_check := robots_checker renv net\<rparr>) config ignore_robots
     captured stopped order \<lparr>st_robots = robots_fetcher_new, st_log = []\<rparr>)))))"
proof -
  have "fetcher.settled (st_robots \<lparr>st_robots = robots_fetcher_new, st_log = []\<rparr>)"
    by (simp add: fetcher.settled_def robots_fetcher_new_def)
  from tasks_keep_settled [OF this, of renv net env config ignore_robots "index_captured captured Map.empty" stopped order]
  show ?thesis by (simp add: scrape_urls_def split_beta fetcher.settled_def)
qed

end
