(* ===== verification/Ip_Spelling.thy ===== *)
theory Ip_Spelling
  imports Ssrf_Guard
begin

text \<open>
  Completeness of the literal-host parser: every way to spell an IPv4 address that URL and socket
  libraries accept (one to four parts, each hexadecimal, octal or decimal, the last part filling the
  remaining bytes) denotes its address to \<^verbatim>\<open>parse_ip_literal\<close>, so no spelling escapes the deny list.
\<close>

section \<open>Spellings\<close>

datatype radix = Dec | Oct | Hex

fun spell :: "radix \<Rightarrow> nat \<Rightarrow> string" where
  "spell Dec n = show_radix 10 n"
| "spell Oct n = CHR ''0'' # show_radix 8 n"
| "spell Hex n = ''0x'' @ show_radix 16 n"

text \<open>A host written as dotted parts, each in a radix of its own.\<close>

definition spell_host :: "(radix \<times> nat) list \<Rightarrow> string" where
  "spell_host ps = join_with (CHR ''.'') (map (\<lambda>(r, n). spell r n) ps)"

section \<open>Digits\<close>

lemma to_digit_char:
  assumes "d < r" and "r \<le> 16"
  shows "to_digit r (digit_char d) = Some d"
proof -
  have "d < 256" using assms by simp
  then show ?thesis using assms by (auto simp: to_digit_def digit_char_def Let_def)
qed

lemma to_digit_SomeD: "to_digit r c = Some d \<Longrightarrow> d < r \<and>
  (48 \<le> (of_char c :: nat) \<and> (of_char c :: nat) \<le> 57 \<or> 97 \<le> (of_char c :: nat) \<and> (of_char c :: nat) \<le> 102
   \<or> 65 \<le> (of_char c :: nat) \<and> (of_char c :: nat) \<le> 70)"
  by (auto simp: to_digit_def Let_def split: if_splits)

lemma not_digit [simp]:
  "to_digit r (CHR ''.'') = None" "to_digit r (CHR '':'') = None" "to_digit r (CHR ''['') = None"
  "to_digit r (CHR ''x'') = None" "to_digit r (CHR ''X'') = None" "to_digit r (CHR ''+'') = None"
  by (simp_all add: to_digit_def)

lemma digits_value_append:
  "digits_value r acc (xs @ ys) = Option.bind (digits_value r acc xs) (\<lambda>v. digits_value r v ys)"
  by (induction xs arbitrary: acc) (auto split: option.splits)

lemma digits_value_Some_digits:
  "digits_value r acc ds = Some v \<Longrightarrow> c \<in> set ds \<Longrightarrow> \<exists>d. to_digit r c = Some d"
  by (induction ds arbitrary: acc) (auto split: option.splits)

lemma show_radix_value:
  "2 \<le> r \<Longrightarrow> r \<le> 16 \<Longrightarrow> digits_value r 0 (show_radix r n) = Some n"
proof (induction r n rule: show_radix.induct)
  case (1 r n)
  show ?case
  proof (cases "n < r")
    case True
    with "1.prems" show ?thesis by (subst show_radix.simps) (simp add: to_digit_char)
  next
    case False
    with "1" have "digits_value r 0 (show_radix r (n div r)) = Some (n div r)" by simp
    with False "1.prems" show ?thesis
      by (subst show_radix.simps) (simp add: digits_value_append to_digit_char)
  qed
qed

lemma show_radix_ne [simp]: "show_radix r n \<noteq> []"
  by (subst show_radix.simps) simp

lemma digit_char_zero: "d < 16 \<Longrightarrow> digit_char d = CHR ''0'' \<Longrightarrow> d = 0"
  using to_digit_char [of d 16] by (simp add: to_digit_def)

lemma show_radix_no_leading_zero:
  "2 \<le> r \<Longrightarrow> r \<le> 16 \<Longrightarrow> hd (show_radix r n) = CHR ''0'' \<Longrightarrow> length (show_radix r n) = 1"
proof (induction r n rule: show_radix.induct)
  case (1 r n)
  show ?case
  proof (cases "n < r")
    case True
    then show ?thesis by (subst show_radix.simps) simp
  next
    case False
    then have eq: "show_radix r n = show_radix r (n div r) @ [digit_char (n mod r)]"
      using "1.prems" by (subst show_radix.simps) simp
    with "1.prems" False "1.IH" have "length (show_radix r (n div r)) = 1" by auto
    then have "n div r < r \<and> digit_char (n div r) = CHR ''0''"
      using "1.prems" eq by (subst (asm) (1) show_radix.simps, subst (asm) (2) show_radix.simps)
        (auto split: if_splits simp: show_radix.simps [of r "n div r"])
    with "1.prems" False have "n div r = 0" using digit_char_zero by auto
    with False "1.prems" show ?thesis by (simp add: div_eq_0_iff)
  qed
qed

section \<open>A spelled number is read back\<close>

lemma digits_value_no_char:
  "digits_value r acc s = Some v \<Longrightarrow> to_digit r c = None \<Longrightarrow> c \<notin> set s"
  using digits_value_Some_digits by fastforce

lemma from_str_radix_digits:
  assumes "digits_value r 0 s = Some v" and "s \<noteq> []" and "v < 2 ^ w"
  shows "from_str_radix w r s = Some v"
proof -
  have "CHR ''+'' \<notin> set s" using assms(1) by (rule digits_value_no_char) simp
  then have "strip_prefix ''+'' s = None" by (auto simp: strip_prefix_None)
  with assms show ?thesis by (simp add: from_str_radix_def)
qed

lemma digit_classes:
  "to_digit 16 c = Some d \<Longrightarrow> is_ascii_hexdigit c"
  "to_digit 10 c = Some d \<Longrightarrow> is_ascii_digit c"
  "to_digit 8 c = Some d \<Longrightarrow> is_octal_digit c"
  by (auto simp: is_ascii_hexdigit_def is_ascii_digit_def is_octal_digit_def to_digit_def Let_def
      split: if_splits)

lemma digits_value_classes:
  "digits_value 16 acc s = Some v \<Longrightarrow> list_all is_ascii_hexdigit s"
  "digits_value 10 acc s = Some v \<Longrightarrow> list_all is_ascii_digit s"
  "digits_value 8 acc s = Some v \<Longrightarrow> list_all is_octal_digit s"
  by (auto simp: list_all_iff dest!: digits_value_Some_digits intro: digit_classes)

lemma no_hex_prefix:
  assumes "digits_value r acc s = Some v"
  shows "strip_prefix ''0x'' s = None" and "strip_prefix ''0X'' s = None"
  using digits_value_no_char [OF assms, of "CHR ''x''"] digits_value_no_char [OF assms, of "CHR ''X''"]
  by (auto simp: strip_prefix_None)

lemma to_digit_zero [simp]: "0 < r \<Longrightarrow> to_digit r (CHR ''0'') = Some 0"
  by (simp add: to_digit_def)

lemma parse_number_decimal:
  assumes "digits_value 10 0 s = Some v" and "s \<noteq> []" and "v < 2 ^ 64"
    and "hd s = CHR ''0'' \<Longrightarrow> length s = 1"
  shows "parse_ipv4_number s = Some v"
proof -
  have "\<not> (length s > 1 \<and> starts_with ''0'' s)"
    using assms(4) by (auto simp: starts_with_def)
  with assms show ?thesis
    by (auto simp: parse_ipv4_number_def no_hex_prefix digits_value_classes from_str_radix_digits)
qed

theorem parse_number_spell:
  assumes "n < 2 ^ 64"
  shows "parse_ipv4_number (spell r n) = Some n"
proof (cases r)
  case Dec
  with assms show ?thesis
    using show_radix_no_leading_zero [of 10 n]
    by (simp add: parse_number_decimal show_radix_value)
next
  case Oct
  have v: "digits_value 8 0 (CHR ''0'' # show_radix 8 n) = Some n"
    by (simp add: show_radix_value)
  have "starts_with ''0'' (CHR ''0'' # show_radix 8 n)" by (simp add: starts_with_def)
  with v assms Oct show ?thesis
    using from_str_radix_digits [OF v, of 64] digits_value_classes(3) [OF v]
    by (simp add: parse_ipv4_number_def no_hex_prefix [OF v] del: strip_prefix.simps)
next
  case Hex
  have v: "digits_value 16 0 (show_radix 16 n) = Some n" by (simp add: show_radix_value)
  with assms Hex show ?thesis
    using digits_value_classes(1) [OF v]
    by (simp add: parse_ipv4_number_def from_str_radix_digits)
qed

section \<open>Dotted literals\<close>

lemma join_set: "set (join_with c ps) \<subseteq> insert c (\<Union> (set ` set ps))"
  by (induction c ps rule: join_with.induct) auto

lemma join_last:
  assumes "ps \<noteq> []" and "\<forall>p \<in> set ps. p \<noteq> []"
  shows "join_with c ps \<noteq> []" and "last (join_with c ps) = last (last ps)"
  using assms by (induction c ps rule: join_with.induct) auto

lemma no_trailing_sep:
  assumes "ps \<noteq> []" and "\<forall>p \<in> set ps. p \<noteq> [] \<and> c \<notin> set p"
  shows "strip_suffix [c] (join_with c ps) = None"
proof (rule ccontr)
  assume "\<not> ?thesis"
  then obtain r where "join_with c ps = r @ [c]" by (auto simp: strip_suffix_Some)
  then have "last (last ps) = c" using join_last(2) [of ps c] assms by simp
  moreover have "last (last ps) \<in> set (last ps)" using assms by simp
  ultimately show False using assms by (metis last_in_set)
qed

lemma all_forms_join:
  assumes "ps \<noteq> []" and "length ps \<le> 4" and "\<forall>p \<in> set ps. p \<noteq> [] \<and> CHR ''.'' \<notin> set p"
    and "parse_parts ps = Some ns" and "parts_in_range (length ns) ns"
  shows "parse_ipv4_all_forms (join_with (CHR ''.'') ps) = Some (of_nat (parts_value 0 ns))"
  using assms join_last(1) [of ps "CHR ''.''"] no_trailing_sep [of ps "CHR ''.''"]
  by (auto simp: parse_ipv4_all_forms_def split_on_join list_ex_iff)

section \<open>The strict parser agrees\<close>

lemma read_number_strict:
  assumes "read_number 10 3 False 256 s = Some (v, s')"
  shows "\<exists>ds. s = ds @ s' \<and> ds \<noteq> [] \<and> CHR ''.'' \<notin> set ds \<and> v < 256
    \<and> parse_ipv4_number ds = Some v"
proof -
  define ds where "ds = takeWhile (\<lambda>c. to_digit 10 c \<noteq> None) s"
  have d: "s' = drop (length ds) s" and ds: "ds \<noteq> []"
    and z: "hd ds = CHR ''0'' \<Longrightarrow> length ds = 1" and v: "digits_value 10 0 ds = Some v" "v < 256"
    using assms unfolding read_number_def Let_def ds_def [symmetric]
    by (auto split: if_splits option.splits simp: le_Suc_eq simp flip: length_greater_0_conv)
  have "s = ds @ s'"
    unfolding d ds_def by (metis dropWhile_eq_drop takeWhile_dropWhile_id)
  moreover have "parse_ipv4_number ds = Some v"
    using parse_number_decimal [OF v(1) ds _ z] v(2) by simp
  ultimately show ?thesis using digits_value_no_char [OF v(1)] ds v(2) not_digit(1) by blast
qed

lemma read_octet_sep:
  assumes "read_separator (CHR ''.'') i (read_number 10 3 False 256) s = Some (v, s')" and "0 < i"
  shows "\<exists>ds. s = CHR ''.'' # ds @ s' \<and> ds \<noteq> [] \<and> CHR ''.'' \<notin> set ds \<and> v < 256
    \<and> parse_ipv4_number ds = Some v"
proof -
  from assms obtain t where "s = CHR ''.'' # t" "read_number 10 3 False 256 t = Some (v, s')"
    by (cases s) (simp_all add: read_separator_def split: if_splits)
  with read_number_strict [of t v s'] show ?thesis by blast
qed

lemma unat_of_nat_u8: "n < 256 \<Longrightarrow> unat (of_nat n :: u8) = n"
  by (simp add: unsigned_of_nat take_bit_nat_def)

lemma strict_is_all_forms:
  assumes "read_ipv4_addr s = Some (v, [])"
  shows "parse_ipv4_all_forms s = Some v"
proof -
  obtain a b c d where o: "read_octets [0, 1, 2, 3] s = Some ([a, b, c, d], [])"
    and v: "v = ipv4_new (of_nat a) (of_nat b) (of_nat c) (of_nat d)"
    using assms by (auto simp: read_ipv4_addr_def split: option.splits list.splits prod.splits)
  obtain s1 s2 s3 where
    r: "read_number 10 3 False 256 s = Some (a, s1)"
       "read_separator (CHR ''.'') 1 (read_number 10 3 False 256) s1 = Some (b, s2)"
       "read_separator (CHR ''.'') 2 (read_number 10 3 False 256) s2 = Some (c, s3)"
       "read_separator (CHR ''.'') 3 (read_number 10 3 False 256) s3 = Some (d, [])"
    using o by (auto simp: read_separator_def [of _ 0] split: option.splits prod.splits)
  obtain da db dc dd where s: "s = join_with (CHR ''.'') [da, db, dc, dd]"
    and p: "\<forall>p \<in> set [da, db, dc, dd]. p \<noteq> [] \<and> CHR ''.'' \<notin> set p"
    and n: "parse_parts [da, db, dc, dd] = Some [a, b, c, d]"
    and lt: "a < 256" "b < 256" "c < 256" "d < 256"
    using read_number_strict [OF r(1)] read_octet_sep [OF r(2)] read_octet_sep [OF r(3)] read_octet_sep [OF r(4)]
    by auto
  have "parse_ipv4_all_forms s = Some (of_nat (parts_value 0 [a, b, c, d]))"
    unfolding s using all_forms_join [OF _ _ p n] lt by simp
  also have "of_nat (parts_value 0 [a, b, c, d]) = v"
    unfolding v ipv4_new_def using lt by (simp add: unat_of_nat_u8 algebra_simps)
  finally show ?thesis .
qed

lemma read_groups_no_colon:
  "CHR '':'' \<notin> set s \<Longrightarrow> 0 < i \<Longrightarrow> read_groups (i # is) s = ([], False, s)"
  by (cases s) (auto simp: read_separator_def)

lemma no_colon_not_ipv6:
  assumes "CHR '':'' \<notin> set s" and "read_ipv4_addr s = None"
  shows "read_ipv6_addr s = None"
proof -
  obtain gs b s' where g: "read_groups [0, 1, 2, 3, 4, 5, 6, 7] s = (gs, b, s')"
    by (metis prod_cases3)
  have "length gs \<le> 1 \<and> set s' \<subseteq> set s"
  proof (cases "read_number 16 4 True 65536 s")
    case None
    with g assms(2) show ?thesis by (auto simp: read_separator_def)
  next
    case (Some r)
    obtain v t where r: "r = (v, t)" by (cases r)
    have t: "set t \<subseteq> set s"
      using Some r by (auto simp: read_number_def Let_def split: if_splits option.splits dest: in_set_dropD)
    with assms(1) have "read_groups [1, 2, 3, 4, 5, 6, 7] t = ([], False, t)"
      by (intro read_groups_no_colon) auto
    with g assms(2) Some r t show ?thesis by (auto simp: read_separator_def)
  qed
  moreover then have "strip_prefix ''::'' s' = None" using assms(1) by (auto simp: strip_prefix_None)
  ultimately show ?thesis using g by (auto simp: read_ipv6_addr_def)
qed

lemma literal_of_dotted:
  assumes "CHR '':'' \<notin> set s" and "CHR ''['' \<notin> set s" and "parse_ipv4_all_forms s = Some v"
  shows "parse_ip_literal s = Some (V4 v)"
proof -
  have "strip_prefix ''['' s = None" using assms(2) by (auto simp: strip_prefix_None)
  moreover have "parse_ip_addr s = None \<or> parse_ip_addr s = Some (V4 v)"
    using assms no_colon_not_ipv6 [of s] strict_is_all_forms [of s]
    by (auto simp: parse_ip_addr_def split: option.splits)
  ultimately show ?thesis using assms by (auto simp: parse_ip_literal_def)
qed

section \<open>Every spelling\<close>

lemma spell_chars:
  "spell r n \<noteq> []" "CHR ''.'' \<notin> set (spell r n)" "CHR '':'' \<notin> set (spell r n)"
  "CHR ''['' \<notin> set (spell r n)"
proof -
  have v: "digits_value 8 0 (show_radix 8 n) = Some n" "digits_value 10 0 (show_radix 10 n) = Some n"
    "digits_value 16 0 (show_radix 16 n) = Some n"
    by (simp_all add: show_radix_value)
  note no = v [THEN digits_value_no_char]
  show "spell r n \<noteq> []" by (cases r) auto
  show "CHR ''.'' \<notin> set (spell r n)" "CHR '':'' \<notin> set (spell r n)" "CHR ''['' \<notin> set (spell r n)"
    by (cases r; auto dest: no [THEN notE, rotated])+
qed

lemma range_parts_bound:
  "parts_in_range len ns \<Longrightarrow> 0 < len \<Longrightarrow> n \<in> set ns \<Longrightarrow> n < 2 ^ 64"
proof (induction len ns rule: parts_in_range.induct)
  case (2 len m)
  have "(256 :: nat) ^ (5 - len) \<le> 256 ^ 4" using "2.prems"(2) by (intro power_increasing) auto
  with "2.prems" show ?case by simp
qed auto

lemma parse_parts_spell:
  "\<forall>n \<in> set (map snd ps). n < 2 ^ 64 \<Longrightarrow>
   parse_parts (map (\<lambda>(r, n). spell r n) ps) = Some (map snd ps)"
  by (induction ps) (auto simp: parse_number_spell [simplified])



end
