(* ===== verification/Resolver.thy ===== *)
theory Resolver
  imports Ssrf_Guard
begin

text \<open>
  The connect-time DNS guard of \<^verbatim>\<open>infrastructure/ssrf.rs\<close>. The system resolver behind
  \<^verbatim>\<open>tokio::net::lookup_host\<close> is not code of the repository: it is the argument \<open>lookup\<close>, a function
  from a host name to an I/O error or an answer set, as the source's \<^verbatim>\<open>NameSource\<close> seam has it. The
  environment variable that disarms the guard is the argument \<open>env\<close> of the constructors.
\<close>

record socket_addr =
  sa_ip :: ip_addr
  sa_port :: u16

datatype lookup_error =
    IoError string
  | EmptyAnswer string
  | ForbiddenResolutionError string ip_addr
  | ForbiddenHostNotAllowlistedError string ip_addr

type_synonym name_source = "string \<Rightarrow> string + socket_addr list"

record validating_resolver =
  validation_enabled :: bool
  vr_allow_loopback :: bool
  vr_policy :: network_policy

definition resolver_new :: "string option \<Rightarrow> validating_resolver" where
  "resolver_new env =
     \<lparr>validation_enabled = (env \<noteq> Some ''1''), vr_allow_loopback = False, vr_policy = default_policy\<rparr>"

definition with_allow_loopback :: "string option \<Rightarrow> bool \<Rightarrow> validating_resolver" where
  "with_allow_loopback env allow_loopback =
     \<lparr>validation_enabled = (env \<noteq> Some ''1''), vr_allow_loopback = allow_loopback,
      vr_policy = default_policy\<rparr>"

definition with_policy :: "string option \<Rightarrow> bool \<Rightarrow> network_policy \<Rightarrow> validating_resolver" where
  "with_policy env allow_loopback policy =
     \<lparr>validation_enabled = (env \<noteq> Some ''1''), vr_allow_loopback = allow_loopback, vr_policy = policy\<rparr>"

definition is_missing_allow_hosts_declaration ::
  "ip_addr \<Rightarrow> string \<Rightarrow> bool \<Rightarrow> network_policy \<Rightarrow> bool" where
  "is_missing_allow_hosts_declaration ip host allow_loopback policy =
     (is_forbidden_ip_with ip allow_loopback \<and> \<not> is_always_denied_ip ip \<and> allows_ip policy ip
      \<and> parse_ip_literal host = None \<and> \<not> allows_host policy host)"

definition fail_closed_scan ::
  "string \<Rightarrow> socket_addr list \<Rightarrow> bool \<Rightarrow> network_policy \<Rightarrow> lookup_error + unit" where
  "fail_closed_scan host addrs allow_loopback policy =
     (if addrs = [] then Inl (EmptyAnswer host)
      else (case find (\<lambda>a. is_forbidden_resolved_address (sa_ip a) host allow_loopback policy) addrs of
              None \<Rightarrow> Inr ()
            | Some offending \<Rightarrow>
                (let ip = sa_ip offending in
                 if is_missing_allow_hosts_declaration ip host allow_loopback policy
                 then Inl (ForbiddenHostNotAllowlistedError host ip)
                 else Inl (ForbiddenResolutionError host ip))))"

definition gai_lookup ::
  "name_source \<Rightarrow> string \<Rightarrow> bool \<Rightarrow> bool \<Rightarrow> network_policy \<Rightarrow> lookup_error + socket_addr list" where
  "gai_lookup lookup host validate allow_loopback policy =
     (case lookup host of
        Inl e \<Rightarrow> Inl (IoError e)
      | Inr addrs \<Rightarrow>
          if validate
          then (case fail_closed_scan host addrs allow_loopback policy of
                  Inl e \<Rightarrow> Inl e | Inr _ \<Rightarrow> Inr addrs)
          else Inr addrs)"

definition resolve ::
  "name_source \<Rightarrow> validating_resolver \<Rightarrow> string \<Rightarrow> lookup_error + socket_addr list" where
  "resolve lookup r name =
     gai_lookup lookup name (validation_enabled r) (vr_allow_loopback r) (vr_policy r)"

text \<open>The policy an operator writes after reading the message: the same one, the host declared.\<close>

definition declare_host :: "network_policy \<Rightarrow> string \<Rightarrow> network_policy" where
  "declare_host p host = p\<lparr>allow_hosts := host # allow_hosts p\<rparr>"

text \<open>A provider policy that allowlists the unique-local prefix \<^verbatim>\<open>fd00::/8\<close>, and its address \<^verbatim>\<open>fd00::5efe:10.0.0.1\<close>.\<close>

definition ula_policy :: network_policy where
  "ula_policy =
     \<lparr>mode = Allowlist, allow_cidrs = [cidr (V6 (ipv6_new [0xfd00, 0, 0, 0, 0, 0, 0, 0])) 8], allow_hosts = []\<rparr>"

definition ula_raw :: network_policy_raw where
  "ula_raw = \<lparr>raw_mode = Allowlist, raw_cidrs = [''fd00::/8''], raw_hosts = []\<rparr>"

definition ula_isatap_lan :: ipv6 where
  "ula_isatap_lan = ipv6_new [0xfd00, 0, 0, 0, 0, 0x5efe, 0x0a00, 0x0001]"

text \<open>A policy literal that no config file can produce: the loopback block as an allowlist entry.\<close>

definition handbuilt_loopback :: network_policy where
  "handbuilt_loopback =
     \<lparr>mode = Allowlist, allow_cidrs = [cidr (V4 (ipv4_new 127 0 0 0)) 8], allow_hosts = []\<rparr>"

text \<open>A name source that answers every name with one fixed address, and the address \<^verbatim>\<open>fd00::5efe:808:808\<close>.\<close>

definition fixed_source :: "ip_addr \<Rightarrow> name_source" where
  "fixed_source ip host = Inr [\<lparr>sa_ip = ip, sa_port = 0\<rparr>]"

definition ula_isatap :: ipv6 where
  "ula_isatap = ipv6_new [0xfd00, 0, 0, 0, 0, 0x5efe, 0x0808, 0x0808]"

section \<open>The scan\<close>

lemma scan_ok_iff:
  "fail_closed_scan host addrs lb p = Inr () \<longleftrightarrow>
     addrs \<noteq> [] \<and> (\<forall>a \<in> set addrs. \<not> is_forbidden_resolved_address (sa_ip a) host lb p)"
  by (auto simp: fail_closed_scan_def find_None_iff find_Some_iff Let_def split: option.splits)

lemma scan_err_first:
  assumes "fail_closed_scan host addrs lb p = Inl e" and "addrs \<noteq> []"
  shows "\<exists>pre a post. addrs = pre @ a # post \<and> is_forbidden_resolved_address (sa_ip a) host lb p
    \<and> (\<forall>b \<in> set pre. \<not> is_forbidden_resolved_address (sa_ip b) host lb p)
    \<and> (e = ForbiddenHostNotAllowlistedError host (sa_ip a)
         \<and> is_missing_allow_hosts_declaration (sa_ip a) host lb p
       \<or> e = ForbiddenResolutionError host (sa_ip a)
         \<and> \<not> is_missing_allow_hosts_declaration (sa_ip a) host lb p)"
proof -
  let ?P = "\<lambda>a. is_forbidden_resolved_address (sa_ip a) host lb p"
  obtain a where f: "find ?P addrs = Some a"
    using assms by (auto simp: fail_closed_scan_def split: option.splits)
  then obtain i where i: "i < length addrs" "?P (addrs ! i)" "a = addrs ! i"
    "\<forall>j < i. \<not> ?P (addrs ! j)"
    by (auto simp: find_Some_iff)
  have "addrs = take i addrs @ a # drop (Suc i) addrs" using i id_take_nth_drop by blast
  moreover have "\<forall>b \<in> set (take i addrs). \<not> ?P b" using i by (auto simp: in_set_conv_nth)
  ultimately show ?thesis
    using assms f i by (fastforce simp: fail_closed_scan_def Let_def split: if_splits)
qed

text \<open>
  C6. The connect-time guard is fail-closed: a resolution through an armed resolver hands back an
  answer set exactly when the system resolver gave that set, the set is not empty, and no address of it
  is forbidden for the requested name. One forbidden record rejects the whole answer, and what is handed
  back is the whole answer, never a subset.
\<close>

theorem resolver_is_fail_closed:
  assumes "validation_enabled r"
  shows "resolve lookup r host = Inr addrs \<longleftrightarrow>
    lookup host = Inr addrs \<and> addrs \<noteq> []
    \<and> (\<forall>a \<in> set addrs. \<not> is_forbidden_resolved_address (sa_ip a) host (vr_allow_loopback r) (vr_policy r))"
  using assms scan_ok_iff [of host _ "vr_allow_loopback r" "vr_policy r"]
  by (auto simp: resolve_def gai_lookup_def split: sum.splits) (metis sum.distinct(1) old.unit.exhaust)+

theorem resolver_is_fail_closed_witness:
  "resolve (fixed_source (V4 0x08080808)) (resolver_new None) ''example.org''
     = Inr [\<lparr>sa_ip = V4 0x08080808, sa_port = 0\<rparr>]"
proof -
  have a: "validation_enabled (resolver_new None)" by (simp add: resolver_new_def)
  have "\<not> is_forbidden_resolved_address (V4 0x08080808) ''example.org'' False default_policy"
    by (simp add: resolved_ladder.ladder_V4 always_denied_mapped is_forbidden_ip.simps word_fields
        v4_broadcast_nat)
  then show ?thesis
    by (subst resolver_is_fail_closed [OF a]) (simp add: fixed_source_def resolver_new_def)
qed

section \<open>The two refusal classes\<close>

lemma declare_host_lookups [simp]:
  "allows_ip (declare_host p host) ip = allows_ip p ip"
  "allows_host (declare_host p host) host = (mode p = Allowlist)"
  by (auto simp: declare_host_def allows_ip_def allows_host_def)

lemma allows_ip_mode: "allows_ip p ip \<Longrightarrow> mode p = Allowlist"
  by (auto simp: allows_ip_def split: if_splits)

text \<open>
  The refusal that tells the operator to declare the host is honest: it names the requested host and
  the first offending address of the answer, and once the host is declared that address passes the guard,
  provided the address embeds no IPv4 address.
\<close>

theorem missing_declaration_is_the_fix:
  assumes "fail_closed_scan host addrs lb p = Inl (ForbiddenHostNotAllowlistedError h ip)"
    and "\<And>v. ip = V6 v \<Longrightarrow> embedded_v4 v = None"
  shows "h = host \<and> ip \<in> sa_ip ` set addrs \<and> is_forbidden_resolved_address ip host lb p
    \<and> \<not> is_forbidden_resolved_address ip host lb (declare_host p host)"
proof -
  have "addrs \<noteq> []" using assms(1) by (auto simp: fail_closed_scan_def)
  from scan_err_first [OF assms(1) this]
  have m: "h = host" "ip \<in> sa_ip ` set addrs" "is_forbidden_resolved_address ip host lb p"
    "is_missing_allow_hosts_declaration ip host lb p"
    by auto
  then have "\<not> is_always_denied_ip ip" "allows_ip p ip"
    by (auto simp: is_missing_allow_hosts_declaration_def)
  then have "\<not> is_forbidden_resolved_address ip host lb (declare_host p host)"
    using assms(2) allows_ip_mode [of p ip]
    by (cases ip) (auto simp: resolved_ladder.ladder_V4 resolved_ladder.ladder_V6)
  with m show ?thesis by blast
qed

theorem missing_declaration_is_the_fix_witness:
  "fail_closed_scan ''other.lan'' [\<lparr>sa_ip = V4 0x0A000005, sa_port = 0\<rparr>] False lan_policy
     = Inl (ForbiddenHostNotAllowlistedError ''other.lan'' (V4 0x0A000005))
   \<and> \<not> is_forbidden_resolved_address (V4 0x0A000005) ''other.lan'' False
        (declare_host lan_policy ''other.lan'')"
proof -
  have lit: "parse_ip_literal ''other.lan'' = None"
    by (simp add: parse_ip_literal_def parse_ipv4_all_forms_def parse_ipv4_number_def policy_eval
        is_ascii_digit_def starts_with_def)
  have "fail_closed_scan ''other.lan'' [\<lparr>sa_ip = V4 0x0A000005, sa_port = 0\<rparr>] False lan_policy
     = Inl (ForbiddenHostNotAllowlistedError ''other.lan'' (V4 0x0A000005))"
    by (simp add: fail_closed_scan_def resolved_ladder.ladder_V4 is_missing_allow_hosts_declaration_def
        is_forbidden_ip_with_def lit always_denied_mapped is_forbidden_ip.simps word_fields
        v4_broadcast_nat allows_ip_def allows_host_def lan_policy_def policy_eval bit_0)
  with missing_declaration_is_the_fix [OF this] show ?thesis by simp
qed

section \<open>Where the ladder departs from its documentation\<close>

lemma ula_fields:
  "is_ipv6_unique_local ula_isatap" "is_ipv6_unique_local ula_isatap_lan"
  "embedded_v4 ula_isatap = Some 0x08080808" "embedded_v4 ula_isatap_lan = Some 0x0A000001"
  "\<not> is_always_denied_ip (V6 ula_isatap)" "\<not> is_always_denied_ip (V6 ula_isatap_lan)"
proof -
  have n: "unat ula_isatap = 0xfd0000000000000000005efe08080808"
    "unat ula_isatap_lan = 0xfd0000000000000000005efe0a000001"
    by (simp_all add: ula_isatap_def ula_isatap_lan_def ipv6_new_def)
  show u: "is_ipv6_unique_local ula_isatap" "is_ipv6_unique_local ula_isatap_lan"
    by (simp_all add: word_fields n)
  show "embedded_v4 ula_isatap = Some 0x08080808" "embedded_v4 ula_isatap_lan = Some 0x0A000001"
    using u by (simp_all add: unique_local_embedded ipv6_isatap_embedded_v4_def v4_of_segments_def
        segment_def n hi_byte_def lo_byte_def ipv4_new_def)
  show "\<not> is_always_denied_ip (V6 ula_isatap)" "\<not> is_always_denied_ip (V6 ula_isatap_lan)"
    by (simp_all add: always_denied_native high_not_ipv4 n word_fields v6_is_unspecified_def
        is_ipv6_nat64_non_canonical_def word_unat_eq_iff)
qed

lemma unique_local_forbidden: "is_ipv6_unique_local v \<Longrightarrow> is_forbidden_ip (V6 v)"
  by (simp add: is_forbidden_ip.simps)

lemma ula_raw_accepted: "into_policy ula_raw = Inr ula_policy"
  by (simp add: into_policy_def ula_raw_def ula_policy_def policy_eval bit_0 to_ipv4_def)

text \<open>
  A name that resolves to \<^verbatim>\<open>fd00::5efe:8.8.8.8\<close>, a unique-local address whose interface
  identifier carries the ISATAP marker, passes the armed default resolver although the flat deny list
  forbids the address and no allowlist entry exists: the ladder hands the verdict to the embedded public
  IPv4 address.
\<close>

theorem unique_local_isatap_passes_default_resolver:
  "is_forbidden_ip (V6 ula_isatap)
   \<and> resolve (fixed_source (V6 ula_isatap)) (resolver_new None) ''attacker.example''
       = Inr [\<lparr>sa_ip = V6 ula_isatap, sa_port = 0\<rparr>]"
proof -
  have "\<not> is_forbidden_ip (V4 0x08080808)" "\<not> is_always_denied_ip (V4 0x08080808)"
    by (simp_all add: is_forbidden_ip.simps always_denied_mapped word_fields v4_broadcast_nat)
  then have "\<not> is_forbidden_resolved_address (V6 ula_isatap) ''attacker.example'' False default_policy"
    by (simp add: resolved_ladder.ladder_V6 resolved_ladder.ladder_V4 ula_fields
        is_permitted_loopback_def ipv4_new_def)
  then show ?thesis
    by (simp add: resolve_def gai_lookup_def resolver_new_def fixed_source_def fail_closed_scan_def
        unique_local_forbidden ula_fields)
qed

text \<open>
  The refusal that asks for \<^verbatim>\<open>allow_hosts\<close> can be given where declaring the host changes nothing:
  under an accepted policy that allowlists \<^verbatim>\<open>fd00::/8\<close>, the answer \<^verbatim>\<open>fd00::5efe:10.0.0.1\<close> is refused as a
  missing declaration, and is still forbidden once the host is declared.
\<close>

theorem missing_declaration_message_can_mislead:
  "into_policy ula_raw = Inr ula_policy
   \<and> fail_closed_scan ''nas.lan'' [\<lparr>sa_ip = V6 ula_isatap_lan, sa_port = 0\<rparr>] False ula_policy
       = Inl (ForbiddenHostNotAllowlistedError ''nas.lan'' (V6 ula_isatap_lan))
   \<and> is_forbidden_resolved_address (V6 ula_isatap_lan) ''nas.lan'' False
       (declare_host ula_policy ''nas.lan'')"
proof -
  have lit: "parse_ip_literal ''nas.lan'' = None"
    by (simp add: parse_ip_literal_def parse_ipv4_all_forms_def parse_ipv4_number_def policy_eval
        is_ascii_digit_def starts_with_def)
  have in_block: "allows_ip ula_policy (V6 ula_isatap_lan)"
    by (simp add: allows_ip_def ula_policy_def ula_isatap_lan_def policy_eval)
  have v4: "\<not> allows_ip ula_policy (V4 0x0A000001)" "is_forbidden_ip (V4 0x0A000001)"
    by (simp_all add: allows_ip_def ula_policy_def policy_eval is_forbidden_ip.simps v4_private_prefix)
  have forb: "is_forbidden_resolved_address (V6 ula_isatap_lan) ''nas.lan'' False q"
    if "\<not> allows_ip q (V4 0x0A000001)" for q
    using that v4 by (simp add: resolved_ladder.ladder_V6 resolved_ladder.ladder_V4 ula_fields
        unique_local_forbidden is_permitted_loopback_def)
  have "is_missing_allow_hosts_declaration (V6 ula_isatap_lan) ''nas.lan'' False ula_policy"
    using in_block lit by (simp add: is_missing_allow_hosts_declaration_def is_forbidden_ip_with_def
        unique_local_forbidden ula_fields allows_host_def ula_policy_def)
  then show ?thesis
    using forb [of ula_policy] forb [of "declare_host ula_policy ''nas.lan''"] v4 ula_raw_accepted
    by (simp add: fail_closed_scan_def)
qed

text \<open>
  The ladder does not check loopback again: a policy value built by hand with the entry
  \<^verbatim>\<open>127.0.0.0/8\<close>, which validation rejects, opens \<^verbatim>\<open>127.0.0.1\<close> with the loopback flag off.
\<close>

theorem handbuilt_policy_opens_loopback:
  "is_forbidden_ip (V4 0x7F000001)
   \<and> \<not> is_forbidden_ip_with_policy (V4 0x7F000001) False handbuilt_loopback"
  by (simp add: policy_ladder.ladder_V4 always_denied_mapped is_forbidden_ip.simps word_fields
      v4_broadcast_nat allows_ip_def handbuilt_loopback_def policy_eval)

end
