(* ===== verification/Persistence_Mode.thy ===== *)
theory Persistence_Mode
  imports Prelude
begin

text \<open>
  The persistence control-plane of \<^verbatim>\<open>domain/persistence.rs\<close>: the pure resolver from the four flags
  \<^verbatim>\<open>--resume\<close>, \<^verbatim>\<open>--state-dir\<close>, \<^verbatim>\<open>--checkpoint-interval\<close> and \<^verbatim>\<open>--no-checkpoint\<close> to a mode, with the note
  about an ignored directory. Paths are strings.
\<close>

record resume_config =
  cfg_resume :: bool
  cfg_state_dir :: "string option"
  cfg_checkpoint_interval :: u64
  cfg_no_checkpoint :: bool

record checkpoint_cfg_t =
  ck_dir :: string
  ck_interval :: u64

datatype persistence_mode =
    Disabled
  | Resume string
  | Checkpoint checkpoint_cfg_t
  | Full string checkpoint_cfg_t

record resolver_notes =
  ignored_state_dir :: "string option"

definition from_config_with_notes ::
  "resume_config \<Rightarrow> string \<Rightarrow> persistence_mode \<times> resolver_notes" where
  "from_config_with_notes cfg default_state_dir =
     (let checkpoint_enabled = (cfg_checkpoint_interval cfg \<noteq> 0 \<and> \<not> cfg_no_checkpoint cfg);
          mode =
            (case (cfg_resume cfg, checkpoint_enabled) of
               (False, False) \<Rightarrow> Disabled
             | (True, False) \<Rightarrow> Resume (unwrap_or (cfg_state_dir cfg) default_state_dir)
             | (False, True) \<Rightarrow>
                 (case cfg_state_dir cfg of
                    Some dir \<Rightarrow> Checkpoint \<lparr>ck_dir = dir, ck_interval = cfg_checkpoint_interval cfg\<rparr>
                  | None \<Rightarrow> Disabled)
             | (True, True) \<Rightarrow>
                 (let resume_dir = unwrap_or (cfg_state_dir cfg) default_state_dir in
                  Full resume_dir \<lparr>ck_dir = resume_dir, ck_interval = cfg_checkpoint_interval cfg\<rparr>));
          ignored = (case (mode, cfg_state_dir cfg) of (Disabled, Some dir) \<Rightarrow> Some dir | _ \<Rightarrow> None)
      in (mode, \<lparr>ignored_state_dir = ignored\<rparr>))"

definition from_config :: "resume_config \<Rightarrow> string \<Rightarrow> persistence_mode" where
  "from_config cfg default_state_dir = fst (from_config_with_notes cfg default_state_dir)"

definition is_resume :: "persistence_mode \<Rightarrow> bool" where
  "is_resume m = (case m of Resume _ \<Rightarrow> True | Full _ _ \<Rightarrow> True | _ \<Rightarrow> False)"

definition checkpoint_cfg :: "persistence_mode \<Rightarrow> checkpoint_cfg_t option" where
  "checkpoint_cfg m = (case m of Checkpoint c \<Rightarrow> Some c | Full _ c \<Rightarrow> Some c | _ \<Rightarrow> None)"

text \<open>
  The resolver is the documented truth table: resuming is on exactly when it was asked for;
  checkpointing is on exactly when the interval is not zero, it was not opted out of, and the operator
  opted in by resuming or by naming a directory, and then it uses that directory (or the default) and
  that interval; the note reports a directory exactly when it had no effect.
\<close>

theorem resolver_truth_table:
  "is_resume (from_config cfg d) = cfg_resume cfg
   \<and> (checkpoint_cfg (from_config cfg d) = Some c \<longleftrightarrow>
       cfg_checkpoint_interval cfg \<noteq> 0 \<and> \<not> cfg_no_checkpoint cfg
       \<and> (cfg_resume cfg \<or> cfg_state_dir cfg \<noteq> None)
       \<and> c = \<lparr>ck_dir = unwrap_or (cfg_state_dir cfg) d, ck_interval = cfg_checkpoint_interval cfg\<rparr>)
   \<and> (ignored_state_dir (snd (from_config_with_notes cfg d)) = Some p \<longleftrightarrow>
       cfg_state_dir cfg = Some p \<and> \<not> is_resume (from_config cfg d)
       \<and> checkpoint_cfg (from_config cfg d) = None)"
  by (auto simp: from_config_def from_config_with_notes_def is_resume_def checkpoint_cfg_def Let_def
      unwrap_or_def split: bool.splits option.splits persistence_mode.splits)

theorem resolver_truth_table_witness:
  "checkpoint_cfg (from_config
     \<lparr>cfg_resume = False, cfg_state_dir = Some ''s'', cfg_checkpoint_interval = 50, cfg_no_checkpoint = False\<rparr> ''d'')
     = Some \<lparr>ck_dir = ''s'', ck_interval = 50\<rparr>
   \<and> \<not> is_resume (from_config
     \<lparr>cfg_resume = False, cfg_state_dir = Some ''s'', cfg_checkpoint_interval = 50, cfg_no_checkpoint = False\<rparr> ''d'')"
  using resolver_truth_table [of "\<lparr>cfg_resume = False, cfg_state_dir = Some ''s'',
      cfg_checkpoint_interval = 50, cfg_no_checkpoint = False\<rparr>" "''d''" "\<lparr>ck_dir = ''s'', ck_interval = 50\<rparr>"]
  by simp

end
