(* ===== verification/Record_Transition.thy ===== *)
theory Record_Transition
  imports Page_State
begin

text \<open>
  The record state-transition rules of \<^verbatim>\<open>domain/record_transition.rs\<close>: the invariant table, the
  quarantine partition, the derived counter and the commit-point swap, together with the validated
  constructor of \<^verbatim>\<open>domain/persistence.rs\<close>. Worker threads reach the swap under one mutex, so an
  interleaving is the sequence in which they take it.
\<close>

type_synonym domain_records = "(string, raw_record) btree_map"

datatype record_store_error =
    Io string
  | Corrupt string
  | UnsupportedVersion string u32
  | Backup string
  | InvalidRecord string

definition is_meaningless_identity :: "string \<Rightarrow> bool" where
  "is_meaningless_identity u = (trim u = [])"

definition invariant_violation :: "raw_record \<Rightarrow> string option" where
  "invariant_violation r =
     (if is_meaningless_identity (url r) then Some ''url must not be empty''
      else (let migrated = (run_id r = MIGRATED_V1_RUN_ID) in
        if (status r = Exported \<or> status r = Committed) \<and> \<not> migrated
           \<and> (output_location r = None \<or> content_hash r = None)
        then Some ''exported/committed requires output_location and content_hash''
        else if status r = Committed
        then (if last_error r \<noteq> None then Some ''committed must not carry last_error''
              else if attempts r < 1 then Some ''committed requires attempts >= 1''
              else None)
        else None))"

record quarantined_entry =
  q_url :: string
  q_invariant :: string

fun partition_loop ::
  "domain_records \<Rightarrow> domain_records \<Rightarrow> quarantined_entry list \<Rightarrow> domain_records \<times> quarantined_entry list" where
  "partition_loop [] kept quarantined = (kept, quarantined)"
| "partition_loop ((key, r) # rest) kept quarantined =
     (case invariant_violation r of
        Some why \<Rightarrow> partition_loop rest kept (quarantined @ [\<lparr>q_url = url r, q_invariant = why\<rparr>])
      | None \<Rightarrow> partition_loop rest (bt_insert key r kept) quarantined)"

definition partition_valid :: "domain_records \<Rightarrow> domain_records \<times> quarantined_entry list" where
  "partition_valid records = partition_loop records [] []"

definition derived_total_exported :: "domain_records \<Rightarrow> nat" where
  "derived_total_exported records = length (filter (\<lambda>r. status r = Committed) (bt_values records))"

definition try_commit_exported :: "raw_record \<Rightarrow> raw_record option" where
  "try_commit_exported current =
     (if is_meaningless_identity (url current) \<or> status current \<noteq> Exported then None
      else (case reconcile Exported current of
              Inl _ \<Rightarrow> None
            | Inr exported \<Rightarrow>
                (let candidate = rec (commit exported) in
                 if invariant_violation candidate = None then Some candidate else None)))"

definition swap_to_committed :: "domain_records \<Rightarrow> string \<Rightarrow> domain_records \<times> bool" where
  "swap_to_committed records key =
     (case Option.bind (bt_get records key) try_commit_exported of
        None \<Rightarrow> (records, False)
      | Some committed \<Rightarrow> (bt_insert key committed records, True))"

definition new_discovered ::
  "string \<Rightarrow> string \<Rightarrow> string \<Rightarrow> i64 \<Rightarrow> record_store_error + raw_record" where
  "new_discovered u canonical run now =
     (if trim u = [] then Inl (InvalidRecord ''url must not be empty'')
      else if trim canonical = [] then Inl (InvalidRecord ''canonical_url must not be empty'')
      else Inr \<lparr>url = u, canonical_url = canonical, run_id = run, content_hash = None, attempts = 0,
                status = Discovered, last_error = None, output_location = None, updated_at = now\<rparr>)"

text \<open>Workers taking the mutex one after the other, each attempting the commit of its key.\<close>

fun run_swaps :: "domain_records \<Rightarrow> string list \<Rightarrow> domain_records \<times> bool list" where
  "run_swaps records [] = (records, [])"
| "run_swaps records (k # ks) =
     (let (records1, ok) = swap_to_committed records k; (records2, oks) = run_swaps records1 ks
      in (records2, ok # oks))"

text \<open>How often a key's commit was performed in such a run.\<close>

definition commits_of :: "string \<Rightarrow> string list \<Rightarrow> bool list \<Rightarrow> nat" where
  "commits_of k ks oks = length (filter (\<lambda>(k', ok). k' = k \<and> ok) (zip ks oks))"

definition exported_sample :: raw_record where
  "exported_sample = sample_record\<lparr>status := Exported, attempts := 1, content_hash := Some ''h'',
     output_location := Some ''out.md''\<rparr>"

definition committable :: "raw_record \<Rightarrow> bool" where
  "committable r =
     (\<not> is_meaningless_identity (url r) \<and> status r = Exported
      \<and> (is_migrated_v1 r \<or> output_location r \<noteq> None \<and> content_hash r \<noteq> None)
      \<and> last_error r = None \<and> 1 \<le> attempts r)"

section \<open>The two invariant tables agree\<close>

lemma invariant_none_iff:
  "invariant_violation r = None \<longleftrightarrow>
     \<not> is_meaningless_identity (url r) \<and> validate r (status r) = Inr ()"
  by (auto simp: invariant_violation_def validate_def Let_def is_migrated_v1_def has_last_error_def)

text \<open>
  The quarantine table and the typed boundary are one rule: a record passes the invariant table
  exactly when its URL is meaningful and it reconstructs into the typed state its status names.
\<close>

theorem invariant_table_is_typed_boundary:
  "invariant_violation r = None \<longleftrightarrow>
     \<not> is_meaningless_identity (url r)
     \<and> reconcile (status r) r = Inr \<lparr>marker = status r, rec = r\<rparr>"
  by (auto simp: invariant_none_iff reconcile_def split: sum.splits)

section \<open>The commit point\<close>

lemma try_commit_iff:
  "try_commit_exported r = (if committable r then Some (set_status Committed r) else None)"
proof -
  have one: "1 \<le> (x :: u32) \<longleftrightarrow> \<not> x < 1" for x by (rule linorder_not_less [symmetric])
  show ?thesis
    by (auto simp: try_commit_exported_def committable_def reconcile_def validate_def Let_def one
        invariant_violation_def commit_def is_migrated_v1_def has_last_error_def split: sum.splits)
qed

lemma committed_not_committable [simp]: "\<not> committable (set_status Committed r)"
  by (simp add: committable_def)

lemma swap_cases:
  "swap_to_committed m k =
     (case bt_get m k of
        Some r \<Rightarrow> if committable r then (bt_insert k (set_status Committed r) m, True) else (m, False)
      | None \<Rightarrow> (m, False))"
  by (auto simp: swap_to_committed_def try_commit_iff split: option.splits)

lemma swap_wf: "bt_wf m \<Longrightarrow> bt_wf (fst (swap_to_committed m k))"
  by (auto simp: swap_cases bt.wf_ins split: option.splits)

lemma swap_get:
  "bt_get (fst (swap_to_committed m k)) k' =
     (case bt_get m k' of
        Some r \<Rightarrow> Some (if k' = k \<and> committable r then set_status Committed r else r)
      | None \<Rightarrow> None)"
  by (auto simp: swap_cases bt_get_insert split: option.splits)

lemma derived_insert_commit:
  "bt_wf m \<Longrightarrow> bt_get m k = Some r \<Longrightarrow> status r \<noteq> Committed \<Longrightarrow>
   derived_total_exported (bt_insert k (set_status Committed r) m) = Suc (derived_total_exported m)"
proof (induction m)
  case (Cons a m)
  obtain k' v where a: "a = (k', v)" by (cases a)
  show ?case
  proof (cases "k = k'")
    case True
    with Cons.prems a show ?thesis
      by (auto simp: derived_total_exported_def bt_values_def bt_get_def)
  next
    case False
    with Cons.prems a have "bt_get m k = Some r" by (simp add: bt_get_def)
    moreover from this Cons.prems a have "k' < k"
      by (auto simp: bt_wf_Cons bt_get_def dest!: map_of_SomeD)
    ultimately show ?thesis
      using Cons a by (auto simp: derived_total_exported_def bt_values_def bt_wf_Cons)
  qed
qed (simp add: bt_get_def)

lemma swap_derived:
  "bt_wf m \<Longrightarrow> derived_total_exported (fst (swap_to_committed m k))
     = derived_total_exported m + (if snd (swap_to_committed m k) then 1 else 0)"
  by (auto simp: swap_cases committable_def derived_insert_commit split: option.splits)

lemma commits_of_Cons [simp]:
  "commits_of k (k' # ks) (ok # oks) = (if k' = k \<and> ok then 1 else 0) + commits_of k ks oks"
  by (simp add: commits_of_def)

lemma run_swaps_Cons:
  "run_swaps m (k # ks) =
     (fst (run_swaps (fst (swap_to_committed m k)) ks),
      snd (swap_to_committed m k) # snd (run_swaps (fst (swap_to_committed m k)) ks))"
  by (simp add: Let_def case_prod_beta)

lemma run_swaps_commits:
  "commits_of k ks (snd (run_swaps m ks)) =
     (if k \<in> set ks \<and> (\<exists>r. bt_get m k = Some r \<and> committable r) then 1 else 0)"
proof (induction ks arbitrary: m)
  case Nil
  then show ?case by (simp add: commits_of_def)
next
  case (Cons k' ks)
  show ?case
    unfolding run_swaps_Cons snd_conv commits_of_Cons Cons.IH swap_get
    by (auto simp: swap_cases split: option.splits)
qed

lemma run_swaps_derived:
  "bt_wf m \<Longrightarrow> derived_total_exported (fst (run_swaps m ks))
     = derived_total_exported m + length (filter id (snd (run_swaps m ks)))"
proof (induction ks arbitrary: m)
  case (Cons k ks)
  from Cons.IH [OF swap_wf [OF Cons.prems, of k]] swap_derived [OF Cons.prems, of k] show ?case
    unfolding run_swaps_Cons by auto
qed simp

text \<open>
  C10. The commit point is exactly-once under every interleaving: in whatever order workers take the
  lock, a key is committed once if some worker attempts it and its record may be committed, and never
  otherwise; and the derived counter grows by exactly the number of commits performed.
\<close>

theorem commit_is_exactly_once:
  assumes "bt_wf records" and "run_swaps records ks = (records', oks)"
  shows "commits_of k ks oks =
      (if k \<in> set ks \<and> (\<exists>r. bt_get records k = Some r \<and> committable r) then 1 else 0)
    \<and> derived_total_exported records' = derived_total_exported records + length (filter id oks)"
  using run_swaps_commits [of k ks records] run_swaps_derived [OF assms(1), of ks] assms(2) by simp

lemma exported_sample_committable: "committable exported_sample"
  by (simp add: committable_def exported_sample_def sample_record_def is_meaningless_identity_def
      is_migrated_v1_def MIGRATED_V1_RUN_ID_def trim_def trim_start_def is_whitespace_def)

theorem commit_is_exactly_once_witness:
  "snd (run_swaps [(''k'', exported_sample)] [''k'', ''k'']) = [True, False]
   \<and> commits_of ''k'' [''k'', ''k''] [True, False] = 1"
proof -
  have run: "run_swaps [(''k'', exported_sample)] [''k'', ''k'']
      = ([(''k'', set_status Committed exported_sample)], [True, False])"
    by (simp add: swap_cases bt_get_def exported_sample_committable)
  have "bt_wf [(''k'', exported_sample)]" by (simp add: bt_wf_def)
  from commit_is_exactly_once [OF this run, of "''k''"]
  have "commits_of ''k'' [''k'', ''k''] [True, False] = 1"
    by (simp only: bt_get_def) (auto simp: exported_sample_committable)
  with run show ?thesis by (simp only: snd_conv simp_thms)
qed

section \<open>Quarantine\<close>

lemma partition_loop_eq:
  "bt_wf (kept @ records) \<Longrightarrow>
   partition_loop records kept q =
     (kept @ filter (\<lambda>(k, r). invariant_violation r = None) records,
      q @ map (\<lambda>(k, r). \<lparr>q_url = url r, q_invariant = the (invariant_violation r)\<rparr>)
            (filter (\<lambda>(k, r). invariant_violation r \<noteq> None) records))"
proof (induction records arbitrary: kept q)
  case (Cons a records)
  obtain key r where a: "a = (key, r)" by (cases a)
  have above: "\<forall>k' \<in> fst ` set kept. k' < key"
    using Cons.prems a by (auto simp: bt_wf_def sorted_wrt_append)
  have "bt_wf (kept @ records)"
    using Cons.prems by (auto simp: bt_wf_def sorted_wrt_append)
  with Cons a bt_insert_above [OF above, of r] show ?case
    by (cases "invariant_violation r") simp_all
qed simp

lemma partition_valid_eq:
  "bt_wf records \<Longrightarrow>
   partition_valid records =
     (filter (\<lambda>(k, r). invariant_violation r = None) records,
      map (\<lambda>(k, r). \<lparr>q_url = url r, q_invariant = the (invariant_violation r)\<rparr>)
        (filter (\<lambda>(k, r). invariant_violation r \<noteq> None) records))"
  by (simp add: partition_valid_def partition_loop_eq)

lemma partition_kept_wf: "bt_wf records \<Longrightarrow> bt_wf (fst (partition_valid records))"
  by (simp add: partition_valid_eq bt_wf_filter)

lemma partition_kept_get:
  "bt_wf records \<Longrightarrow> bt_get (fst (partition_valid records)) k = Some r \<longleftrightarrow>
     bt_get records k = Some r \<and> invariant_violation r = None"
  by (auto simp: partition_valid_eq bt_get_filter split: option.splits if_splits)

lemma partition_get:
  "bt_wf records \<Longrightarrow> bt_get (fst (partition_valid records)) k =
     (case bt_get records k of
        Some r \<Rightarrow> if invariant_violation r = None then Some r else None | None \<Rightarrow> None)"
  by (simp add: partition_valid_eq bt_get_filter split: option.splits)

lemma partition_kept_id:
  "bt_wf records \<Longrightarrow> \<forall>(k, r) \<in> set records. invariant_violation r = None \<Longrightarrow>
   fst (partition_valid records) = records"
  by (auto simp: partition_valid_eq filter_id_conv)

text \<open>
  Quarantine loses nothing but impossible states: the kept map holds exactly the records that pass
  the invariant table, under their keys; every other record is reported once, so the two parts add up to
  the input; and validating the kept map again changes nothing.
\<close>

theorem quarantine_keeps_exactly_valid:
  assumes "bt_wf records" and "partition_valid records = (kept, quarantined)"
  shows "bt_wf kept
    \<and> (\<forall>k r. bt_get kept k = Some r \<longleftrightarrow> bt_get records k = Some r \<and> invariant_violation r = None)
    \<and> length kept + length quarantined = length records
    \<and> partition_valid kept = (kept, [])"
proof -
  have kept: "kept = fst (partition_valid records)" using assms(2) by simp
  have wf: "bt_wf kept" unfolding kept by (rule partition_kept_wf [OF assms(1)])
  have "length kept + length quarantined = length records"
    using assms sum_length_filter_compl [of "\<lambda>(k, r). invariant_violation r = None" records]
    by (auto simp: partition_valid_eq case_prod_unfold)
  moreover have "partition_valid kept = (kept, [])"
    using assms wf by (auto simp: partition_valid_eq filter_empty_conv)
  ultimately show ?thesis using wf partition_kept_get [OF assms(1)] kept by simp
qed

theorem quarantine_keeps_exactly_valid_witness:
  "partition_valid [(''a'', exported_sample), (''b'', sample_record\<lparr>url := '' ''\<rparr>)]
     = ([(''a'', exported_sample)], [\<lparr>q_url = '' '', q_invariant = ''url must not be empty''\<rparr>])
   \<and> partition_valid [(''a'', exported_sample)] = ([(''a'', exported_sample)], [])"
proof -
  have wf: "bt_wf [(''a'', exported_sample), (''b'', sample_record\<lparr>url := '' ''\<rparr>)]"
    by (simp add: bt_wf_def)
  have v: "invariant_violation exported_sample = None"
    "invariant_violation (sample_record\<lparr>url := '' ''\<rparr>) = Some ''url must not be empty''"
    by (simp_all add: invariant_violation_def exported_sample_def sample_record_def
        is_meaningless_identity_def trim_def trim_start_def is_whitespace_def)
  have eq: "partition_valid [(''a'', exported_sample), (''b'', sample_record\<lparr>url := '' ''\<rparr>)]
     = ([(''a'', exported_sample)], [\<lparr>q_url = '' '', q_invariant = ''url must not be empty''\<rparr>])"
    by (simp add: partition_valid_def v)
  from quarantine_keeps_exactly_valid [OF wf eq] eq show ?thesis by blast
qed

end
