(* ===== verification/Record_Store.thy ===== *)
theory Record_Store
  imports Record_Transition
begin

text \<open>
  The JSON-per-domain record store of \<^verbatim>\<open>infrastructure/export/record_store.rs\<close> and the backup policy of
  \<^verbatim>\<open>application/resume.rs\<close>. The state directory is a map from file names to contents. A file's contents
  are a list over an arbitrary byte type. What \<^verbatim>\<open>serde_json\<close> does is not code of the repository: the calls
  the store makes are the fields of \<open>codec\<close>, and \<open>serde_roundtrip\<close> is the documented round trip. Every
  system call may fail: \<open>io\<close> says which calls of one operation succeed, and what the clock reads. A
  held \<^verbatim>\<open>flock\<close> makes each operation one step for other processes; death of the process in the middle
  of a save is the relation \<open>save_dies_at\<close>.
\<close>

section \<open>Files, codec and outcomes of system calls\<close>

record store_file =
  sf_version :: u32
  sf_domain_key :: string
  sf_created_at :: i64
  sf_updated_at :: i64
  sf_records :: domain_records

record ('b, 'v) codec =
  to_vec :: "store_file \<Rightarrow> 'b list option"
  from_slice :: "'b list \<Rightarrow> 'v option"
  get_version :: "'v \<Rightarrow> u64 option"
  get_created_at :: "'v \<Rightarrow> i64 option"
  get_processed_urls :: "'v \<Rightarrow> string list option option"
  from_value :: "'v \<Rightarrow> store_file option"

datatype io_op =
    OpMkdir | OpLockCreate | OpLock | OpExists | OpReadDir | OpRead | OpReadCreated
  | OpBackupWrite | OpCopy | OpWrite | OpRename

record 'b io =
  io_ok :: "io_op \<Rightarrow> bool"
  remove_ok :: "string \<Rightarrow> bool"
  partial_write :: "nat option"
  lock_content :: "'b list"
  pid :: nat
  now_created :: i64
  now_updated :: i64
  now_stamp :: nat
  mtime :: "i64 option"

record 'b world =
  files :: "string \<Rightarrow> 'b list option"
  tmp_nonce :: u64

record record_store =
  domain_key :: string
  state_dir :: string

definition put_file :: "string \<Rightarrow> 'b list \<Rightarrow> 'b world \<Rightarrow> 'b world" where
  "put_file name bytes w = w\<lparr>files := (files w)(name := Some bytes)\<rparr>"

definition remove_file :: "string \<Rightarrow> 'b world \<Rightarrow> 'b world" where
  "remove_file name w = w\<lparr>files := (files w)(name := None)\<rparr>"

definition rename_file :: "string \<Rightarrow> string \<Rightarrow> 'b world \<Rightarrow> 'b world" where
  "rename_file src dst w = w\<lparr>files := (files w)(dst := files w src, src := None)\<rparr>"

text \<open>A write that fails may have created the file and written a part of it.\<close>

definition failed_write :: "'b io \<Rightarrow> string \<Rightarrow> 'b list \<Rightarrow> 'b world \<Rightarrow> 'b world" where
  "failed_write io name bytes w =
     (case partial_write io of None \<Rightarrow> w | Some n \<Rightarrow> put_file name (take n bytes) w)"

section \<open>Names\<close>

definition CURRENT_VERSION :: u32 where
  "CURRENT_VERSION = 2"

definition state_path :: "record_store \<Rightarrow> string" where
  "state_path st = domain_key st @ ''.json''"

definition tmp_path :: "'b io \<Rightarrow> string \<Rightarrow> 'b world \<Rightarrow> string \<times> 'b world" where
  "tmp_path io final_path w =
     (let nonce = tmp_nonce w in
      (final_path @ ''.tmp-'' @ show_radix 10 (pid io) @ ''-'' @ show_radix 10 (unat nonce),
       w\<lparr>tmp_nonce := nonce + 1\<rparr>))"

text \<open>
  \<^verbatim>\<open>Path::extension\<close> and \<^verbatim>\<open>Path::with_extension\<close> on a file name: the part after the last dot, unless the
  name has no dot or its only dot is the first character.
\<close>

definition split_last_dot :: "string \<Rightarrow> (string \<times> string) option" where
  "split_last_dot name =
     (case split_once (CHR ''.'') (rev name) of
        None \<Rightarrow> None
      | Some (e, s) \<Rightarrow> if s = [] then None else Some (rev s, rev e))"

definition backup_sibling :: "string \<Rightarrow> string" where
  "backup_sibling name =
     (case split_last_dot name of
        Some (stem, ext) \<Rightarrow> stem @ ''.'' @ (ext @ ''.bak'')
      | None \<Rightarrow> name @ ''.'' @ ''bak'')"

section \<open>Backup policy\<close>

definition preserve_abandoned_bytes :: "'b io \<Rightarrow> string \<Rightarrow> 'b list \<Rightarrow> 'b world \<Rightarrow> 'b world" where
  "preserve_abandoned_bytes io path bytes w =
     (let backup = backup_sibling path in
      if io_ok io OpExists \<and> files w backup \<noteq> None then w
      else if io_ok io OpBackupWrite then put_file backup bytes w
      else failed_write io backup bytes w)"

definition preserve_pre_migration_backup :: "'b io \<Rightarrow> string \<Rightarrow> 'b world \<Rightarrow> 'b world" where
  "preserve_pre_migration_backup io path w =
     (let backup = backup_sibling path in
      if io_ok io OpExists \<and> files w backup \<noteq> None then w
      else (case files w path of
              None \<Rightarrow> w
            | Some bytes \<Rightarrow>
                if io_ok io OpCopy then put_file backup bytes w
                else failed_write io backup bytes w))"

section \<open>Locking, garbage collection, saving\<close>

definition acquire :: "'b io \<Rightarrow> string \<Rightarrow> 'b world \<Rightarrow> (record_store_error + unit) \<times> 'b world" where
  "acquire io path w =
     (let lock_path = path @ ''.lock'' in
      if \<not> io_ok io OpLockCreate then (Inl (Io lock_path), w)
      else (let w1 = put_file lock_path (lock_content io) w in
            if \<not> io_ok io OpLock then (Inl (Io lock_path), w1) else (Inr (), w1)))"

definition gc_tmp_files :: "'b io \<Rightarrow> string \<Rightarrow> 'b world \<Rightarrow> 'b world" where
  "gc_tmp_files io path w =
     (if \<not> io_ok io OpReadDir then w
      else w\<lparr>files := (\<lambda>name. if starts_with (path @ ''.tmp-'') name \<and> remove_ok io name
                               then None else files w name)\<rparr>)"

definition existing_created_at ::
  "('b, 'v) codec \<Rightarrow> 'b io \<Rightarrow> string \<Rightarrow> 'b world \<Rightarrow> i64 option" where
  "existing_created_at c io path w =
     (if \<not> io_ok io OpReadCreated then None
      else Option.bind (files w path)
             (\<lambda>bytes. Option.bind (from_slice c bytes) (\<lambda>doc. get_created_at c doc)))"

definition envelope ::
  "('b, 'v) codec \<Rightarrow> 'b io \<Rightarrow> record_store \<Rightarrow> domain_records \<Rightarrow> i64 \<Rightarrow> 'b world \<Rightarrow> store_file" where
  "envelope c io st records upd w =
     \<lparr>sf_version = CURRENT_VERSION, sf_domain_key = domain_key st,
      sf_created_at = unwrap_or (existing_created_at c io (state_path st) w) (now_created io),
      sf_updated_at = upd, sf_records = records\<rparr>"

definition save_locked ::
  "('b, 'v) codec \<Rightarrow> 'b io \<Rightarrow> record_store \<Rightarrow> domain_records \<Rightarrow> i64 \<Rightarrow> 'b world
     \<Rightarrow> (record_store_error + unit) \<times> 'b world" where
  "save_locked c io st records upd w =
     (let path = state_path st in
      (case to_vec c (envelope c io st records upd w) of
         None \<Rightarrow> (Inl (Corrupt path), w)
       | Some bytes \<Rightarrow>
           (let (tmp, w1) = tmp_path io path w in
            if \<not> io_ok io OpWrite then (Inl (Io tmp), failed_write io tmp bytes w1)
            else (let w2 = put_file tmp bytes w1 in
                  if \<not> io_ok io OpRename
                  then (Inl (Io path), if remove_ok io tmp then remove_file tmp w2 else w2)
                  else (Inr (), rename_file tmp path w2)))))"

text \<open>
  What a process that dies during \<^verbatim>\<open>save_locked\<close> leaves behind: nothing yet, any prefix of the bytes in
  the temporary file, or the completed rename.
\<close>

inductive save_dies_at ::
  "('b, 'v) codec \<Rightarrow> 'b io \<Rightarrow> record_store \<Rightarrow> domain_records \<Rightarrow> i64 \<Rightarrow> 'b world \<Rightarrow> 'b world \<Rightarrow> bool"
  for c io st records upd w where
  before_write: "save_dies_at c io st records upd w w"
| mid_write: "to_vec c (envelope c io st records upd w) = Some bytes \<Longrightarrow>
    tmp_path io (state_path st) w = (tmp, w1) \<Longrightarrow>
    save_dies_at c io st records upd w (put_file tmp (take n bytes) w1)"
| after_rename: "to_vec c (envelope c io st records upd w) = Some bytes \<Longrightarrow>
    tmp_path io (state_path st) w = (tmp, w1) \<Longrightarrow>
    save_dies_at c io st records upd w (rename_file tmp (state_path st) (put_file tmp bytes w1))"

definition save ::
  "('b, 'v) codec \<Rightarrow> 'b io \<Rightarrow> record_store \<Rightarrow> domain_records \<Rightarrow> 'b world
     \<Rightarrow> (record_store_error + unit) \<times> 'b world" where
  "save c io st records w =
     (if \<not> io_ok io OpMkdir then (Inl (Io (state_dir st)), w)
      else (case acquire io (state_path st) w of
              (Inl e, w1) \<Rightarrow> (Inl e, w1)
            | (Inr _, w1) \<Rightarrow> save_locked c io st records (now_updated io) w1))"

section \<open>Loading\<close>

definition validate_and_quarantine :: "domain_records \<Rightarrow> domain_records" where
  "validate_and_quarantine records = fst (partition_valid records)"

definition migrated_record :: "i64 \<Rightarrow> string \<Rightarrow> raw_record" where
  "migrated_record upd u =
     \<lparr>url = u, canonical_url = u, run_id = MIGRATED_V1_RUN_ID, content_hash = None, attempts = 1,
      status = Committed, last_error = None, output_location = None, updated_at = upd\<rparr>"

fun migrate_urls :: "i64 \<Rightarrow> string list \<Rightarrow> domain_records \<Rightarrow> domain_records" where
  "migrate_urls upd [] records = records"
| "migrate_urls upd (u # us) records =
     (if is_meaningless_identity u then migrate_urls upd us records
      else migrate_urls upd us (bt_insert u (migrated_record upd u) records))"

definition migrate_v1 ::
  "('b, 'v) codec \<Rightarrow> 'b io \<Rightarrow> record_store \<Rightarrow> string \<Rightarrow> 'b list \<Rightarrow> 'b world
     \<Rightarrow> (record_store_error + domain_records) \<times> 'b world" where
  "migrate_v1 c io st path original_bytes w =
     (case from_slice c original_bytes of
        None \<Rightarrow> (Inl (Corrupt path), w)
      | Some legacy \<Rightarrow>
          (case get_processed_urls c legacy of
             None \<Rightarrow> (Inl (Corrupt path), w)
           | Some None \<Rightarrow> (Inl (Corrupt path), w)
           | Some (Some urls) \<Rightarrow>
               (let upd0 = unwrap_or (existing_created_at c io path w) (now_created io);
                    upd = unwrap_or (mtime io) upd0;
                    records = migrate_urls upd urls [];
                    backup_path = path @ ''.v1.bak.'' @ show_radix 10 (now_stamp io)
                in case files w path of
                     None \<Rightarrow> (Inl (Backup backup_path), w)
                   | Some live \<Rightarrow>
                       if \<not> io_ok io OpCopy
                       then (Inl (Backup backup_path), failed_write io backup_path live w)
                       else (let w1 = put_file backup_path live w in
                             if \<not> io_ok io OpMkdir then (Inl (Io (state_dir st)), w1)
                             else (case save_locked c io st records upd w1 of
                                     (Inl e, w2) \<Rightarrow> (Inl e, w2)
                                   | (Inr _, w2) \<Rightarrow> (Inr (validate_and_quarantine records), w2))))))"

definition load_under_lock ::
  "('b, 'v) codec \<Rightarrow> 'b io \<Rightarrow> record_store \<Rightarrow> string \<Rightarrow> 'b world
     \<Rightarrow> (record_store_error + domain_records) \<times> 'b world" where
  "load_under_lock c io st path w =
     (let w1 = gc_tmp_files io path w in
      (case (if io_ok io OpRead then files w1 path else None) of
         None \<Rightarrow> (Inl (Io path), w1)
       | Some bytes \<Rightarrow>
           (case from_slice c bytes of
              None \<Rightarrow> (Inl (Corrupt path), preserve_abandoned_bytes io path bytes w1)
            | Some doc \<Rightarrow>
                (let version = (ucast (unwrap_or (get_version c doc) 1) :: u32) in
                 if version = CURRENT_VERSION
                 then (case from_value c doc of
                         None \<Rightarrow> (Inl (Corrupt path), preserve_abandoned_bytes io path bytes w1)
                       | Some file \<Rightarrow> (Inr (validate_and_quarantine (sf_records file)), w1))
                 else if version = 1 then migrate_v1 c io st path bytes w1
                 else (Inl (UnsupportedVersion path version),
                       preserve_abandoned_bytes io path bytes w1)))))"

definition path_exists :: "'b io \<Rightarrow> string \<Rightarrow> 'b world \<Rightarrow> bool" where
  "path_exists io path w = (io_ok io OpExists \<and> files w path \<noteq> None)"

definition load ::
  "('b, 'v) codec \<Rightarrow> 'b io \<Rightarrow> record_store \<Rightarrow> 'b world
     \<Rightarrow> (record_store_error + domain_records) \<times> 'b world" where
  "load c io st w =
     (let path = state_path st in
      if \<not> path_exists io path w then (Inr [], w)
      else (case acquire io path w of
              (Inl e, w1) \<Rightarrow> (Inl e, w1)
            | (Inr _, w1) \<Rightarrow> load_under_lock c io st path w1))"

definition load_or_init ::
  "('b, 'v) codec \<Rightarrow> 'b io \<Rightarrow> record_store \<Rightarrow> 'b world \<Rightarrow> domain_records \<times> 'b world" where
  "load_or_init c io st w =
     (case load c io st w of (Inr records, w1) \<Rightarrow> (records, w1) | (Inl _, w1) \<Rightarrow> ([], w1))"

definition update ::
  "('b, 'v) codec \<Rightarrow> 'b io \<Rightarrow> record_store \<Rightarrow> (domain_records \<Rightarrow> record_store_error + domain_records)
     \<Rightarrow> 'b world \<Rightarrow> (record_store_error + unit) \<times> 'b world" where
  "update c io st mutate w =
     (let path = state_path st in
      if \<not> io_ok io OpMkdir then (Inl (Io (state_dir st)), w)
      else (case acquire io path w of
              (Inl e, w1) \<Rightarrow> (Inl e, w1)
            | (Inr _, w1) \<Rightarrow>
                (case (if path_exists io path w1 then load_under_lock c io st path w1 else (Inr [], w1)) of
                   (Inl e, w2) \<Rightarrow> (Inl e, w2)
                 | (Inr records, w2) \<Rightarrow>
                     (case mutate records of
                        Inl e \<Rightarrow> (Inl e, w2)
                      | Inr records' \<Rightarrow> save_locked c io st records' (now_updated io) w2))))"

section \<open>Assumptions on the codec and on the host\<close>

text \<open>
  The documented round trip of \<^verbatim>\<open>serde_json\<close> on the derived envelope type, with decoded maps ordered as
  every \<^verbatim>\<open>BTreeMap\<close> is, and a host on which every
  system call of an operation succeeds.
\<close>

definition serde_roundtrip :: "('b, 'v) codec \<Rightarrow> bool" where
  "serde_roundtrip c =
     ((\<forall>f. bt_wf (sf_records f) \<longrightarrow>
        (\<exists>bytes doc. to_vec c f = Some bytes \<and> from_slice c bytes = Some doc
           \<and> get_version c doc = Some (ucast (sf_version f))
           \<and> get_created_at c doc = Some (sf_created_at f) \<and> from_value c doc = Some f))
      \<and> (\<forall>doc f. from_value c doc = Some f \<longrightarrow> bt_wf (sf_records f)))"

definition healthy :: "'b io \<Rightarrow> bool" where
  "healthy io = (\<forall>op. io_ok io op)"

text \<open>A file of the first format, by the version test of the loader.\<close>

definition is_v1 :: "('b, 'v) codec \<Rightarrow> 'b list \<Rightarrow> bool" where
  "is_v1 c bytes =
     (case from_slice c bytes of
        None \<Rightarrow> False
      | Some doc \<Rightarrow> (ucast (unwrap_or (get_version c doc) 1) :: u32) = 1)"

text \<open>The records an operation under the lock starts from.\<close>

definition locked_view ::
  "('b, 'v) codec \<Rightarrow> 'b io \<Rightarrow> record_store \<Rightarrow> 'b world \<Rightarrow> (record_store_error + domain_records) \<times> 'b world" where
  "locked_view c io st w =
     (if path_exists io (state_path st) w then load_under_lock c io st (state_path st) w else (Inr [], w))"

text \<open>Processes updating one store, in the order in which they take the lock, and what they should do.\<close>

type_synonym mutator = "domain_records \<Rightarrow> record_store_error + domain_records"

fun run_updates ::
  "('b, 'v) codec \<Rightarrow> record_store \<Rightarrow> ('b io \<times> mutator) list \<Rightarrow> 'b world \<Rightarrow> 'b world" where
  "run_updates c st [] w = w"
| "run_updates c st ((io, m) # us) w = run_updates c st us (snd (update c io st m w))"

fun apply_updates :: "mutator list \<Rightarrow> domain_records \<Rightarrow> domain_records" where
  "apply_updates [] rs = rs"
| "apply_updates (m # ms) rs =
     (case m rs of
        Inl _ \<Rightarrow> apply_updates ms rs
      | Inr rs' \<Rightarrow> apply_updates ms (validate_and_quarantine rs'))"

text \<open>What every later load of a state directory returns, and mutations that keep the map ordered.\<close>

definition durable_view :: "('b, 'v) codec \<Rightarrow> record_store \<Rightarrow> 'b world \<Rightarrow> domain_records \<Rightarrow> bool" where
  "durable_view c st w rs = (\<forall>io. healthy io \<longrightarrow> fst (load c io st w) = Inr rs)"

definition keeps_order :: "mutator \<Rightarrow> bool" where
  "keeps_order m = (\<forall>rs rs'. bt_wf rs \<longrightarrow> m rs = Inr rs' \<longrightarrow> bt_wf rs')"

text \<open>A codec that satisfies the round trip: one abstract byte per document, which a legacy
  reader sees through its version and its list of URLs.\<close>

datatype document = V2 store_file | Legacy "u64 option" "string list option option"

definition demo_codec :: "(document, document) codec" where
  "demo_codec =
     \<lparr>to_vec = (\<lambda>f. Some [V2 f]),
      from_slice = (\<lambda>bs. case bs of [d] \<Rightarrow> Some d | _ \<Rightarrow> None),
      get_version = (\<lambda>d. case d of V2 f \<Rightarrow> Some (ucast (sf_version f)) | Legacy n _ \<Rightarrow> n),
      get_created_at = (\<lambda>d. case d of V2 f \<Rightarrow> Some (sf_created_at f) | _ \<Rightarrow> None),
      get_processed_urls = (\<lambda>d. case d of Legacy _ us \<Rightarrow> us | _ \<Rightarrow> None),
      from_value = (\<lambda>d. case d of V2 f \<Rightarrow> if bt_wf (sf_records f) then Some f else None | _ \<Rightarrow> None)\<rparr>"

definition demo_io :: "document io" where
  "demo_io =
     \<lparr>io_ok = (\<lambda>_. True), remove_ok = (\<lambda>_. True), partial_write = None, lock_content = [], pid = 1,
      now_created = 7, now_updated = 8, now_stamp = 9, mtime = None\<rparr>"

definition demo_store :: record_store where
  "demo_store = \<lparr>domain_key = ''x.test'', state_dir = ''state''\<rparr>"

definition demo_world :: "document list option \<Rightarrow> document world" where
  "demo_world content =
     \<lparr>files = (\<lambda>name. if name = ''x.test.json'' then content else None), tmp_nonce = 0\<rparr>"

section \<open>Names and files\<close>

lemma split_once_eq: "split_once c xs = Some (a, b) \<Longrightarrow> xs = a @ c # b"
  by (induction xs arbitrary: a) (auto split: if_splits)

lemma backup_sibling_eq [simp]: "backup_sibling name = name @ ''.bak''"
proof -
  have "name = rev s @ CHR ''.'' # rev e" if "split_once (CHR ''.'') (rev name) = Some (e, s)" for e s
    using arg_cong [OF split_once_eq [OF that], of rev] by simp
  then show ?thesis
    by (auto simp: backup_sibling_def split_last_dot_def split: option.splits)
qed

lemma files_put [simp]: "files (put_file n b w) m = (if m = n then Some b else files w m)"
  by (simp add: put_file_def)

lemma files_failed_write: "m \<noteq> n \<Longrightarrow> files (failed_write io n b w) m = files w m"
  by (simp add: failed_write_def split: option.splits)

lemma files_rename [simp]:
  "src \<noteq> dst \<Longrightarrow> files (rename_file src dst w) m =
     (if m = dst then files w src else if m = src then None else files w m)"
  by (simp add: rename_file_def)

lemma files_remove [simp]: "files (remove_file n w) m = (if m = n then None else files w m)"
  by (simp add: remove_file_def)

lemma starts_with_iff: "starts_with p s \<longleftrightarrow> (\<exists>r. s = p @ r)"
  by (auto simp: starts_with_def)

lemma gc_keeps:
  "(\<nexists>r. m = path @ ''.tmp-'' @ r) \<Longrightarrow> files (gc_tmp_files io path w) m = files w m"
  by (auto simp: gc_tmp_files_def starts_with_iff)

lemma gc_keeps_state [simp]:
  "files (gc_tmp_files io path w) path = files w path"
  "files (gc_tmp_files io path w) (path @ ''.bak'') = files w (path @ ''.bak'')"
  by (rule gc_keeps; auto)+

lemma tmp_path_props:
  assumes "tmp_path io path w = (tmp, w1)"
  shows "tmp \<noteq> path" and "tmp \<noteq> path @ ''.bak''" and "files w1 = files w"
  using assms by (auto simp: tmp_path_def Let_def)

lemma acquire_files:
  "acquire io path w = (r, w1) \<Longrightarrow> m \<noteq> path @ ''.lock'' \<Longrightarrow> files w1 m = files w m"
  by (auto simp: acquire_def Let_def split: if_splits)

lemma preserve_files:
  "m \<noteq> path @ ''.bak'' \<Longrightarrow> files (preserve_abandoned_bytes io path b w) m = files w m"
  by (auto simp: preserve_abandoned_bytes_def Let_def files_failed_write)

section \<open>Saving\<close>

lemma save_locked_cases:
  assumes "save_locked c io st records upd w = (r, w')"
  shows "(\<exists>bytes. r = Inr () \<and> to_vec c (envelope c io st records upd w) = Some bytes
            \<and> files w' (state_path st) = Some bytes)
       \<or> (\<exists>e. r = Inl e \<and> files w' (state_path st) = files w (state_path st))"
proof (cases "to_vec c (envelope c io st records upd w)")
  case None
  with assms show ?thesis by (auto simp: save_locked_def Let_def)
next
  case (Some bytes)
  obtain tmp w1 where t: "tmp_path io (state_path st) w = (tmp, w1)" by (metis surj_pair)
  with assms Some tmp_path_props [OF t] show ?thesis
    by (auto simp: save_locked_def Let_def files_failed_write split: if_splits)
qed

lemma save_locked_other:
  assumes "save_locked c io st records upd w = (r, w')"
    and "m \<noteq> state_path st" and "\<nexists>x. m = state_path st @ ''.tmp-'' @ x"
  shows "files w' m = files w m"
proof (cases "to_vec c (envelope c io st records upd w)")
  case None
  with assms show ?thesis by (auto simp: save_locked_def Let_def)
next
  case (Some bytes)
  obtain tmp w1 where t: "tmp_path io (state_path st) w = (tmp, w1)" by (metis surj_pair)
  then have "m \<noteq> tmp" using assms(3) by (auto simp: tmp_path_def Let_def)
  with assms Some t tmp_path_props [OF t] show ?thesis
    by (auto simp: save_locked_def Let_def files_failed_write split: if_splits)
qed

lemma save_locked_healthy:
  "healthy io \<Longrightarrow> fst (save_locked c io st records upd w) =
     (if to_vec c (envelope c io st records upd w) = None then Inl (Corrupt (state_path st)) else Inr ())"
  by (auto simp: save_locked_def healthy_def Let_def split: option.splits prod.splits)

lemma envelope_cong:
  "files w (state_path st) = files w' (state_path st) \<Longrightarrow>
   envelope c io st records upd w = envelope c io st records upd w'"
  by (simp add: envelope_def existing_created_at_def)

lemma validate_wf: "bt_wf records \<Longrightarrow> bt_wf (validate_and_quarantine records)"
  by (simp add: validate_and_quarantine_def partition_kept_wf)

lemma validate_idem [simp]:
  "bt_wf records \<Longrightarrow>
   validate_and_quarantine (validate_and_quarantine records) = validate_and_quarantine records"
  by (simp add: validate_and_quarantine_def partition_valid_eq bt_wf_filter)

section \<open>Loading sees the state file only\<close>

lemma fst_then_return:
  "fst (case r of (Inl e, w) \<Rightarrow> (Inl e, w) | (Inr _, w) \<Rightarrow> (Inr x, w)) =
     (case fst r of Inl e \<Rightarrow> Inl e | Inr _ \<Rightarrow> Inr x)"
  by (cases r) (simp split: sum.splits)

lemma migrate_healthy:
  assumes "healthy io" and "from_slice c b = Some legacy"
    and "get_processed_urls c legacy = Some (Some urls)" and "files w (state_path st) = Some live"
  shows "fst (migrate_v1 c io st (state_path st) b w) =
    (let upd = unwrap_or (mtime io) (unwrap_or (existing_created_at c io (state_path st) w) (now_created io));
         records = migrate_urls upd urls []
     in if to_vec c (envelope c io st records upd w) = None then Inl (Corrupt (state_path st))
        else Inr (validate_and_quarantine records))"
proof -
  let ?p = "state_path st"
  have env: "envelope c io st rs u (put_file (?p @ a # x) live w) = envelope c io st rs u w"
    for rs u a x by (rule envelope_cong) simp
  show ?thesis
    unfolding migrate_v1_def Let_def
    using assms by (simp add: fst_then_return save_locked_healthy env healthy_def)
qed

lemma migrate_result:
  assumes "healthy io" and "files w (state_path st) = files w' (state_path st)"
  shows "fst (migrate_v1 c io st (state_path st) b w) = fst (migrate_v1 c io st (state_path st) b w')"
proof (cases "\<exists>legacy urls live. from_slice c b = Some legacy
    \<and> get_processed_urls c legacy = Some (Some urls) \<and> files w (state_path st) = Some live")
  case True
  moreover have "existing_created_at c io (state_path st) w = existing_created_at c io (state_path st) w'"
    using assms(2) by (simp add: existing_created_at_def)
  ultimately show ?thesis
    using assms by (auto simp: migrate_healthy Let_def envelope_cong [OF assms(2)])
next
  case False
  with assms show ?thesis
    by (auto simp: migrate_v1_def Let_def split: option.splits)
qed

lemma load_result:
  assumes "healthy io" and "files w (state_path st) = files w' (state_path st)"
  shows "fst (load c io st w) = fst (load c io st w')"
proof -
  let ?p = "state_path st"
  let ?g = "\<lambda>w. gc_tmp_files io ?p (put_file (?p @ ''.lock'') (lock_content io) w)"
  have g: "files (?g w) ?p = files (?g w') ?p" using assms(2) by simp
  have "fst (load_under_lock c io st ?p (put_file (?p @ ''.lock'') (lock_content io) w))
      = fst (load_under_lock c io st ?p (put_file (?p @ ''.lock'') (lock_content io) w'))"
    using assms migrate_result [OF assms(1) g, of c]
    by (simp add: load_under_lock_def Let_def healthy_def split: option.splits)
  with assms show ?thesis
    by (simp add: load_def path_exists_def acquire_def healthy_def Let_def)
qed

lemma load_saved:
  assumes "serde_roundtrip c" and "bt_wf records" and "healthy io'"
    and "to_vec c (envelope c io st records upd w) = Some bytes"
    and "files w' (state_path st) = Some bytes"
  shows "fst (load c io' st w') = Inr (validate_and_quarantine records)"
proof -
  let ?f = "envelope c io st records upd w"
  have "bt_wf (sf_records ?f)" using assms(2) by (simp add: envelope_def)
  with assms(1,4) obtain v where v: "from_slice c bytes = Some v"
    "get_version c v = Some (ucast (sf_version ?f))" "from_value c v = Some ?f"
    by (metis option.inject serde_roundtrip_def)
  then have "(ucast (unwrap_or (get_version c v) 1) :: u32) = CURRENT_VERSION"
    by (simp add: envelope_def CURRENT_VERSION_def)
  with v assms(3,5) show ?thesis
    by (simp add: load_def load_under_lock_def path_exists_def acquire_def healthy_def Let_def
        envelope_def)
qed

lemma demo_serde: "serde_roundtrip demo_codec"
  by (auto simp: serde_roundtrip_def demo_codec_def split: document.splits if_splits)

lemma demo_healthy: "healthy demo_io"
  by (simp add: healthy_def demo_io_def)

lemma demo_empty_view: "durable_view demo_codec demo_store (demo_world None) []"
  by (simp add: durable_view_def load_def path_exists_def demo_world_def demo_store_def state_path_def)

section \<open>Atomicity\<close>

text \<open>
  C8. A save is atomic against process death: whenever the process dies, before the write, with any
  prefix of the bytes in the temporary file, or after the rename, the next load returns what it would
  have returned before the save, or exactly the saved records that pass the invariant table.
\<close>

theorem save_is_crash_atomic:
  assumes "serde_roundtrip c" and "bt_wf records" and "healthy io'"
    and "save_dies_at c io st records upd w w'"
  shows "fst (load c io' st w') = fst (load c io' st w)
    \<or> fst (load c io' st w') = Inr (validate_and_quarantine records)"
  using assms(4)
proof cases
  case before_write
  then show ?thesis by simp
next
  case (mid_write bytes tmp w1 n)
  from tmp_path_props [OF mid_write(3)] mid_write(1)
  have "files w' (state_path st) = files w (state_path st)" by auto
  from load_result [OF assms(3) this, of c] show ?thesis by simp
next
  case (after_rename bytes tmp w1)
  from tmp_path_props [OF after_rename(3)] after_rename(1)
  have "files w' (state_path st) = Some bytes" by auto
  from load_saved [OF assms(1-3) after_rename(2) this] show ?thesis by simp
qed

theorem save_is_crash_atomic_witness:
  "save_dies_at demo_codec demo_io demo_store [] 3 (demo_world None)
     (put_file ''x.test.json.tmp-1-0'' [] ((demo_world None)\<lparr>tmp_nonce := 1\<rparr>))
   \<and> fst (load demo_codec demo_io demo_store
       (put_file ''x.test.json.tmp-1-0'' [] ((demo_world None)\<lparr>tmp_nonce := 1\<rparr>))) = Inr []"
proof -
  have tmp: "tmp_path demo_io (state_path demo_store) (demo_world None)
      = (''x.test.json.tmp-1-0'', (demo_world None)\<lparr>tmp_nonce := 1\<rparr>)"
    by (simp add: tmp_path_def state_path_def demo_store_def demo_io_def demo_world_def show_radix.simps
        digit_char_def char_of_def bit_0)
  have "to_vec demo_codec (envelope demo_codec demo_io demo_store [] 3 (demo_world None))
      = Some [V2 (envelope demo_codec demo_io demo_store [] 3 (demo_world None))]"
    by (simp add: demo_codec_def)
  from mid_write [OF this tmp, of 0]
  have d: "save_dies_at demo_codec demo_io demo_store [] 3 (demo_world None)
     (put_file ''x.test.json.tmp-1-0'' [] ((demo_world None)\<lparr>tmp_nonce := 1\<rparr>))" by simp
  have "bt_wf ([] :: domain_records)" by (rule bt.wf_empty)
  from save_is_crash_atomic [OF demo_serde this demo_healthy d] d demo_empty_view demo_healthy
  show ?thesis by (auto simp: durable_view_def validate_and_quarantine_def partition_valid_def)
qed

lemma save_cases:
  assumes "save c io st records w = (r, w')"
  shows "(\<exists>w1 bytes. r = Inr () \<and> to_vec c (envelope c io st records (now_updated io) w1) = Some bytes
            \<and> files w' (state_path st) = Some bytes)
       \<or> (\<exists>e. r = Inl e \<and> files w' (state_path st) = files w (state_path st))"
proof (cases "io_ok io OpMkdir")
  case False
  with assms show ?thesis by (auto simp: save_def)
next
  case True
  obtain a w1 where a: "acquire io (state_path st) w = (a, w1)" by (metis surj_pair)
  have w1: "files w1 (state_path st) = files w (state_path st)"
    using acquire_files [OF a, of "state_path st"] by simp
  show ?thesis
  proof (cases a)
    case (Inl e)
    with assms True a w1 show ?thesis by (auto simp: save_def)
  next
    case (Inr u)
    with assms True a have "save_locked c io st records (now_updated io) w1 = (r, w')"
      by (simp add: save_def)
    from save_locked_cases [OF this] w1 show ?thesis by auto
  qed
qed

text \<open>
  Save and load are inverse, whatever fails: a save that reports success is followed by a load that
  returns exactly the saved records that pass the invariant table, and a save that reports an error leaves
  the state file with the contents it had.
\<close>

theorem save_then_load:
  assumes "serde_roundtrip c" and "bt_wf records" and "healthy io'"
    and "save c io st records w = (r, w')"
  shows "case r of
      Inr _ \<Rightarrow> fst (load c io' st w') = Inr (validate_and_quarantine records)
    | Inl _ \<Rightarrow> files w' (state_path st) = files w (state_path st)
        \<and> fst (load c io' st w') = fst (load c io' st w)"
  using save_cases [OF assms(4)] load_saved [OF assms(1-3)] load_result [OF assms(3)] by auto

theorem save_then_load_witness:
  "fst (save demo_codec demo_io demo_store [(''a'', exported_sample)] (demo_world None)) = Inr ()
   \<and> fst (load demo_codec demo_io demo_store
       (snd (save demo_codec demo_io demo_store [(''a'', exported_sample)] (demo_world None))))
     = Inr (validate_and_quarantine [(''a'', exported_sample)])"
proof -
  have ok: "fst (save demo_codec demo_io demo_store [(''a'', exported_sample)] (demo_world None)) = Inr ()"
    by (simp add: save_def save_locked_healthy demo_healthy acquire_def Let_def)
      (simp add: demo_io_def demo_codec_def)
  have "bt_wf [(''a'', exported_sample)]" by (simp add: bt_wf_def)
  from save_then_load [OF demo_serde this demo_healthy
      prod.collapse [symmetric, of "save demo_codec demo_io demo_store [(''a'', exported_sample)] (demo_world None)"]] ok
  show ?thesis by simp
qed

section \<open>Transactions\<close>

lemma load_under_lock_keeps:
  assumes "load_under_lock c io st (state_path st) w = (r, w')"
    and "\<And>bytes. files w (state_path st) = Some bytes \<Longrightarrow> \<not> is_v1 c bytes"
  shows "files w' (state_path st) = files w (state_path st)"
  using assms
  by (auto simp: load_under_lock_def Let_def is_v1_def preserve_files
      split: option.splits if_splits)

lemma migrate_urls_wf: "bt_wf records \<Longrightarrow> bt_wf (migrate_urls upd us records)"
  by (induction upd us records rule: migrate_urls.induct) (auto simp: bt.wf_ins)

lemma serde_decoded_wf: "serde_roundtrip c \<Longrightarrow> from_value c v = Some f \<Longrightarrow> bt_wf (sf_records f)"
  by (simp add: serde_roundtrip_def)

lemma serde_encodes:
  "serde_roundtrip c \<Longrightarrow> bt_wf records \<Longrightarrow> \<exists>bytes. to_vec c (envelope c io st records upd w) = Some bytes"
  unfolding serde_roundtrip_def by (metis envelope_def store_file.select_convs(5))

lemma encoded_not_v1:
  assumes "serde_roundtrip c" and "bt_wf records"
    and "to_vec c (envelope c io st records upd w) = Some bytes"
  shows "\<not> is_v1 c bytes"
proof -
  let ?f = "envelope c io st records upd w"
  have "bt_wf (sf_records ?f)" using assms(2) by (simp add: envelope_def)
  with assms(1,3) obtain v where "from_slice c bytes = Some v" "get_version c v = Some (ucast (sf_version ?f))"
    by (metis option.inject serde_roundtrip_def)
  then show ?thesis by (simp add: is_v1_def envelope_def CURRENT_VERSION_def)
qed

lemma migrate_ok:
  assumes "serde_roundtrip c" and "migrate_v1 c io st (state_path st) b w = (Inr rs, w')"
  shows "\<exists>records upd w1 bytes. rs = validate_and_quarantine records \<and> bt_wf records
    \<and> to_vec c (envelope c io st records upd w1) = Some bytes \<and> files w' (state_path st) = Some bytes"
proof -
  obtain legacy urls live where l: "from_slice c b = Some legacy"
    "get_processed_urls c legacy = Some (Some urls)" "files w (state_path st) = Some live"
    using assms(2) by (auto simp: migrate_v1_def Let_def split: option.splits)
  define upd where
    "upd = unwrap_or (mtime io) (unwrap_or (existing_created_at c io (state_path st) w) (now_created io))"
  define w1 where
    "w1 = put_file (state_path st @ ''.v1.bak.'' @ show_radix 10 (now_stamp io)) live w"
  let ?records = "migrate_urls upd urls []"
  obtain r w2 where s: "save_locked c io st ?records upd w1 = (r, w2)" by (metis surj_pair)
  have "r = Inr () \<and> rs = validate_and_quarantine ?records \<and> w2 = w'"
    using assms(2) l s unfolding migrate_v1_def Let_def upd_def [symmetric] w1_def
    by (auto split: if_splits sum.splits)
  with save_locked_cases [OF s] show ?thesis
    using migrate_urls_wf [OF bt.wf_empty] by blast
qed

lemma load_under_lock_ok:
  assumes "serde_roundtrip c" and "load_under_lock c io st (state_path st) w = (Inr rs, w')"
  shows "bt_wf rs \<and> validate_and_quarantine rs = rs
    \<and> (\<forall>io'. healthy io' \<longrightarrow> fst (load c io' st w') = Inr rs)"
proof -
  let ?w1 = "gc_tmp_files io (state_path st) w"
  obtain bytes v where b: "io_ok io OpRead" "files ?w1 (state_path st) = Some bytes"
    "from_slice c bytes = Some v"
    using assms(2) by (auto simp: load_under_lock_def Let_def split: option.splits if_splits)
  show ?thesis
  proof (cases "(ucast (unwrap_or (get_version c v) 1) :: u32) = CURRENT_VERSION")
    case True
    with assms(2) b obtain f where f: "from_value c v = Some f"
      "rs = validate_and_quarantine (sf_records f)" "w' = ?w1"
      by (auto simp: load_under_lock_def Let_def split: option.splits)
    have "bt_wf (sf_records f)" using serde_decoded_wf [OF assms(1) f(1)] .
    with f b True show ?thesis
      by (auto simp: validate_wf load_def load_under_lock_def path_exists_def acquire_def healthy_def Let_def)
  next
    case False
    with assms(2) b have "migrate_v1 c io st (state_path st) bytes ?w1 = (Inr rs, w')"
      by (auto simp: load_under_lock_def Let_def split: if_splits)
    from migrate_ok [OF assms(1) this] show ?thesis
      using load_saved [OF assms(1)] by (auto simp: validate_wf)
  qed
qed

lemma locked_view_load:
  assumes "healthy io"
  shows "fst (locked_view c io st (put_file (state_path st @ ''.lock'') (lock_content io) w))
    = fst (load c io st w)"
  using assms by (simp add: locked_view_def load_def path_exists_def acquire_def healthy_def Let_def)

lemma locked_view_ok:
  assumes "serde_roundtrip c" and "healthy io" and "locked_view c io st w = (Inr rs, w')"
  shows "bt_wf rs \<and> validate_and_quarantine rs = rs
    \<and> (\<forall>io'. healthy io' \<longrightarrow> fst (load c io' st w') = Inr rs)"
proof (cases "path_exists io (state_path st) w")
  case True
  with assms(3) load_under_lock_ok [OF assms(1)] show ?thesis by (simp add: locked_view_def)
next
  case False
  with assms(2,3) show ?thesis
    by (auto simp: locked_view_def path_exists_def healthy_def load_def bt_wf_def
        validate_and_quarantine_def partition_valid_def)
qed

lemma update_unfold:
  assumes "healthy io"
  shows "update c io st mutate w =
    (case locked_view c io st (put_file (state_path st @ ''.lock'') (lock_content io) w) of
       (Inl e, w2) \<Rightarrow> (Inl e, w2)
     | (Inr records, w2) \<Rightarrow>
         (case mutate records of
            Inl e \<Rightarrow> (Inl e, w2)
          | Inr records' \<Rightarrow> save_locked c io st records' (now_updated io) w2))"
  using assms by (simp add: update_def locked_view_def acquire_def healthy_def Let_def)

lemma update_view:
  assumes "serde_roundtrip c" and "healthy io" and "keeps_order m" and "durable_view c st w rs"
  shows "durable_view c st (snd (update c io st m w))
    (case m rs of Inl _ \<Rightarrow> rs | Inr rs' \<Rightarrow> validate_and_quarantine rs')"
proof -
  obtain r w2 where v: "locked_view c io st (put_file (state_path st @ ''.lock'') (lock_content io) w) = (r, w2)"
    by (metis surj_pair)
  then have r: "r = Inr rs"
    using locked_view_load [OF assms(2), of c st w] assms(2,4) by (simp add: durable_view_def)
  note ok = locked_view_ok [OF assms(1,2) v [unfolded r]]
  show ?thesis
  proof (cases "m rs")
    case (Inl e)
    with ok v r show ?thesis by (simp add: update_unfold [OF assms(2)] durable_view_def)
  next
    case (Inr rs')
    with ok assms(3) have wf: "bt_wf rs'" by (auto simp: keeps_order_def)
    obtain q w' where s: "save_locked c io st rs' (now_updated io) w2 = (q, w')" by (metis surj_pair)
    have "q = Inr ()"
      using serde_encodes [OF assms(1) wf, of io st "now_updated io" w2] s
        save_locked_healthy [OF assms(2), of c st rs' "now_updated io" w2] by auto
    with save_locked_cases [OF s] load_saved [OF assms(1) wf]
    have "durable_view c st w' (validate_and_quarantine rs')" by (auto simp: durable_view_def)
    with Inr v r s show ?thesis by (simp add: update_unfold [OF assms(2)])
  qed
qed



section \<open>What a refused load leaves behind\<close>

text \<open>
  A refused load destroys nothing: when the loader refuses the state file (not JSON, an envelope it
  cannot read, a version it does not support) and the file is not of the first format, the file keeps its
  contents, and its bytes are in the \<^verbatim>\<open>.bak\<close> sibling, unless an earlier refusal already filled it, in which
  case the earlier bytes stay.
\<close>

theorem refused_load_preserves_bytes:
  assumes "healthy io" and "load c io st w = (Inl e, w')"
    and "files w (state_path st) = Some bytes" and "\<not> is_v1 c bytes"
  shows "files w' (state_path st) = Some bytes
    \<and> files w' (state_path st @ ''.bak'') =
        Some (unwrap_or (files w (state_path st @ ''.bak'')) bytes)"
  using assms
  by (auto simp: load_def path_exists_def acquire_def healthy_def load_under_lock_def is_v1_def Let_def
      preserve_abandoned_bytes_def split: option.splits if_splits)

theorem refused_load_preserves_bytes_witness:
  "files (snd (load demo_codec demo_io demo_store (demo_world (Some [Legacy (Some 3) None])))) ''x.test.json.bak''
     = Some [Legacy (Some 3) None]"
proof -
  have l: "load demo_codec demo_io demo_store (demo_world (Some [Legacy (Some 3) None]))
      = (Inl (UnsupportedVersion ''x.test.json'' 3),
         snd (load demo_codec demo_io demo_store (demo_world (Some [Legacy (Some 3) None]))))"
    by (rule prod_eqI) (simp_all add: load_def path_exists_def acquire_def load_under_lock_def Let_def,
        simp_all add: demo_io_def demo_store_def state_path_def demo_world_def demo_codec_def CURRENT_VERSION_def)
  have f: "files (demo_world (Some [Legacy (Some 3) None])) (state_path demo_store) = Some [Legacy (Some 3) None]"
    by (simp add: demo_world_def state_path_def demo_store_def)
  have v: "\<not> is_v1 demo_codec [Legacy (Some 3) None]" by (simp add: is_v1_def demo_codec_def)
  from refused_load_preserves_bytes [OF demo_healthy l f v] show ?thesis
    by (simp add: state_path_def demo_store_def demo_world_def)
qed

section \<open>Migration of the first format\<close>

lemma migrate_urls_get:
  "bt_wf records \<Longrightarrow> bt_get (migrate_urls upd us records) u =
     (if u \<in> set us \<and> \<not> is_meaningless_identity u then Some (migrated_record upd u)
      else bt_get records u)"
  by (induction upd us records rule: migrate_urls.induct) (auto simp: bt.get_ins bt.wf_ins)

lemma migrated_valid: "\<not> is_meaningless_identity u \<Longrightarrow> invariant_violation (migrated_record upd u) = None"
  by (simp add: invariant_violation_def migrated_record_def)

lemma migrate_healthy_full:
  assumes "serde_roundtrip c" and "healthy io" and "from_slice c b = Some legacy"
    and "get_processed_urls c legacy = Some (Some urls)" and "files w (state_path st) = Some live"
  shows "\<exists>upd w'. migrate_v1 c io st (state_path st) b w =
      (Inr (validate_and_quarantine (migrate_urls upd urls [])), w')
    \<and> files w' (state_path st @ ''.v1.bak.'' @ show_radix 10 (now_stamp io)) = Some live"
proof -
  define upd where
    "upd = unwrap_or (mtime io) (unwrap_or (existing_created_at c io (state_path st) w) (now_created io))"
  define w1 where
    "w1 = put_file (state_path st @ ''.v1.bak.'' @ show_radix 10 (now_stamp io)) live w"
  let ?records = "migrate_urls upd urls []"
  obtain r w2 where s: "save_locked c io st ?records upd w1 = (r, w2)" by (metis surj_pair)
  have wf: "bt_wf ?records" by (rule migrate_urls_wf [OF bt.wf_empty])
  have "r = Inr ()"
    using s save_locked_healthy [OF assms(2), of c st ?records upd w1]
      serde_encodes [OF assms(1) wf, of io st upd w1] by auto
  moreover have "files w2 (state_path st @ ''.v1.bak.'' @ show_radix 10 (now_stamp io)) = Some live"
    by (subst save_locked_other [OF s]) (simp_all add: w1_def)
  ultimately show ?thesis
    using assms s unfolding migrate_v1_def Let_def upd_def [symmetric] w1_def
    by (auto simp: healthy_def)
qed

text \<open>
  Upgrading loses no history: loading a file of the first format yields one committed record for
  each URL it lists, blank ones apart, and nothing else; the original bytes are in the backup named by
  the clock; and every later load returns the same records.
\<close>

theorem v1_migration_keeps_history:
  assumes "serde_roundtrip c" and "healthy io" and "files w (state_path st) = Some bytes"
    and "from_slice c bytes = Some doc" and "get_version c doc = Some 1 \<or> get_version c doc = None"
    and "get_processed_urls c doc = Some (Some urls)"
  shows "\<exists>rs upd w'. load c io st w = (Inr rs, w')
    \<and> (\<forall>u. bt_get rs u = (if u \<in> set urls \<and> \<not> is_meaningless_identity u
                          then Some (migrated_record upd u) else None))
    \<and> files w' (state_path st @ ''.v1.bak.'' @ show_radix 10 (now_stamp io)) = Some bytes
    \<and> durable_view c st w' rs"
proof -
  let ?w1 = "put_file (state_path st @ ''.lock'') (lock_content io) w"
  let ?w2 = "gc_tmp_files io (state_path st) ?w1"
  have live: "files ?w2 (state_path st) = Some bytes" using assms(3) by simp
  obtain upd w' where m: "migrate_v1 c io st (state_path st) bytes ?w2 =
      (Inr (validate_and_quarantine (migrate_urls upd urls [])), w')"
    and b: "files w' (state_path st @ ''.v1.bak.'' @ show_radix 10 (now_stamp io)) = Some bytes"
    using migrate_healthy_full [OF assms(1,2,4,6) live] by blast
  let ?rs = "validate_and_quarantine (migrate_urls upd urls [])"
  have version: "(ucast (unwrap_or (get_version c doc) 1) :: u32) = 1"
    using assms(5) by auto
  have under: "load_under_lock c io st (state_path st) ?w1 = (Inr ?rs, w')"
    using m live assms(2,4) version by (simp add: load_under_lock_def Let_def healthy_def CURRENT_VERSION_def)
  then have l: "load c io st w = (Inr ?rs, w')"
    using assms(2,3) by (simp add: load_def path_exists_def acquire_def healthy_def Let_def)
  have wf: "bt_wf (migrate_urls upd urls [])" by (rule migrate_urls_wf [OF bt.wf_empty])
  have "bt_get ?rs u = (if u \<in> set urls \<and> \<not> is_meaningless_identity u
      then Some (migrated_record upd u) else None)" for u
    by (simp add: validate_and_quarantine_def partition_get [OF wf] migrate_urls_get [OF bt.wf_empty]
        migrated_valid bt.get_empty)
  moreover have "durable_view c st w' ?rs"
    using load_under_lock_ok [OF assms(1) under] by (simp add: durable_view_def)
  ultimately show ?thesis using l b by blast
qed

theorem v1_migration_keeps_history_witness:
  "\<exists>rs upd w'. load demo_codec demo_io demo_store (demo_world (Some [Legacy (Some 1) (Some (Some [''u'', '' '']))])) = (Inr rs, w')
     \<and> bt_get rs ''u'' = Some (migrated_record upd ''u'') \<and> bt_get rs '' '' = None"
proof -
  have f: "files (demo_world (Some [Legacy (Some 1) (Some (Some [''u'', '' '']))])) (state_path demo_store) = Some [Legacy (Some 1) (Some (Some [''u'', '' '']))]"
    by (simp add: demo_world_def state_path_def demo_store_def)
  have s: "from_slice demo_codec [Legacy (Some 1) (Some (Some [''u'', '' '']))] = Some (Legacy (Some 1) (Some (Some [''u'', '' ''])))"
    "get_version demo_codec (Legacy (Some 1) (Some (Some [''u'', '' '']))) = Some 1 \<or> get_version demo_codec (Legacy (Some 1) (Some (Some [''u'', '' '']))) = None"
    "get_processed_urls demo_codec (Legacy (Some 1) (Some (Some [''u'', '' '']))) = Some (Some [''u'', '' ''])"
    by (simp_all add: demo_codec_def)
  have "is_meaningless_identity '' ''" "\<not> is_meaningless_identity ''u''"
    by (simp_all add: is_meaningless_identity_def trim_def trim_start_def is_whitespace_def)
  with v1_migration_keeps_history [OF demo_serde demo_healthy f s] show ?thesis
    by (metis list.set_intros(1))
qed

section \<open>Where the store departs from its documentation\<close>

text \<open>
  The version test reads only the low 32 bits: a file whose envelope says version 4294967297 is taken
  for the first format, migrated and rewritten, although the loader documents every version but 1 and 2
  as unsupported.
\<close>

theorem version_test_truncates:
  assumes "serde_roundtrip c" and "healthy io" and "files w (state_path st) = Some bytes"
    and "from_slice c bytes = Some doc" and "get_version c doc = Some 4294967297"
    and "get_processed_urls c doc = Some (Some urls)"
  shows "\<exists>rs w' upd. load c io st w = (Inr rs, w') \<and> rs = validate_and_quarantine (migrate_urls upd urls [])"
proof -
  let ?w1 = "put_file (state_path st @ ''.lock'') (lock_content io) w"
  let ?w2 = "gc_tmp_files io (state_path st) ?w1"
  have live: "files ?w2 (state_path st) = Some bytes" using assms(3) by simp
  have version: "(ucast (unwrap_or (get_version c doc) 1) :: u32) = 1"
    using assms(5) by simp
  show ?thesis
    using migrate_healthy_full [OF assms(1,2,4,6) live] assms(2,3,4) version
    by (auto simp: load_def path_exists_def acquire_def load_under_lock_def Let_def healthy_def
        CURRENT_VERSION_def)
qed

theorem version_test_truncates_witness:
  "\<exists>rs w' upd. load demo_codec demo_io demo_store
       (demo_world (Some [Legacy (Some 4294967297) (Some (Some [''u'']))])) = (Inr rs, w')
     \<and> rs = validate_and_quarantine (migrate_urls upd [''u''] [])"
  by (rule version_test_truncates [OF demo_serde demo_healthy, where doc =
        "Legacy (Some 4294967297) (Some (Some [''u'']))" and
        bytes = "[Legacy (Some 4294967297) (Some (Some [''u'']))]"])
    (simp_all add: demo_codec_def demo_world_def demo_store_def state_path_def)

text \<open>
  One refusal is not backed up: a file that carries version 1 or no version, but no list of URLs, is
  reported corrupt and no \<^verbatim>\<open>.bak\<close> sibling is written, although a load that starts fresh is then free to
  overwrite it.
\<close>

theorem corrupt_v1_is_not_backed_up:
  assumes "healthy io" and "files w (state_path st) = Some bytes" and "is_v1 c bytes"
    and "from_slice c bytes = Some doc" and "get_processed_urls c doc = None"
  shows "fst (load c io st w) = Inl (Corrupt (state_path st))
    \<and> files (snd (load c io st w)) (state_path st @ ''.bak'') = files w (state_path st @ ''.bak'')"
  using assms
  by (auto simp: load_def path_exists_def acquire_def healthy_def load_under_lock_def is_v1_def Let_def
      migrate_v1_def CURRENT_VERSION_def)

theorem corrupt_v1_is_not_backed_up_witness:
  "fst (load demo_codec demo_io demo_store (demo_world (Some [Legacy None None])))
     = Inl (Corrupt ''x.test.json'')
   \<and> files (snd (load demo_codec demo_io demo_store (demo_world (Some [Legacy None None])))) ''x.test.json.bak''
     = None"
  using corrupt_v1_is_not_backed_up [OF demo_healthy, of "demo_world (Some [Legacy None None])"
      demo_store "[Legacy None None]" demo_codec "Legacy None None"]
  by (simp add: demo_codec_def is_v1_def demo_world_def demo_store_def state_path_def)

text \<open>
  An update whose mutation fails can still write: on a file of the first format the migration
  inside the lock rewrites the state file before the mutation runs, while the documentation says that a
  failed mutation leaves the file on disk untouched.
\<close>

theorem failed_mutation_can_write:
  assumes "serde_roundtrip c" and "healthy io" and "files w (state_path st) = Some bytes"
    and "is_v1 c bytes" and "from_slice c bytes = Some doc"
    and "get_processed_urls c doc = Some (Some urls)" and "\<And>rs. mutate rs = Inl e"
  shows "fst (update c io st mutate w) = Inl e
    \<and> files (snd (update c io st mutate w)) (state_path st) \<noteq> Some bytes"
proof -
  let ?w1 = "put_file (state_path st @ ''.lock'') (lock_content io) w"
  let ?w2 = "gc_tmp_files io (state_path st) ?w1"
  have live: "files ?w2 (state_path st) = Some bytes" using assms(3) by simp
  obtain rs w' where m: "migrate_v1 c io st (state_path st) bytes ?w2 = (Inr rs, w')"
    using migrate_healthy_full [OF assms(1,2,5,6) live] by blast
  then have "locked_view c io st ?w1 = (Inr rs, w')"
    using assms(2-5) live
    by (simp add: locked_view_def path_exists_def healthy_def load_under_lock_def Let_def is_v1_def
        CURRENT_VERSION_def)
  then have up: "update c io st mutate w = (Inl e, w')"
    using assms(7) by (simp add: update_unfold [OF assms(2)])
  obtain records upd w3 bytes' where "bt_wf records" "files w' (state_path st) = Some bytes'"
    "to_vec c (envelope c io st records upd w3) = Some bytes'"
    using migrate_ok [OF assms(1) m] by blast
  then have "\<not> is_v1 c bytes'" and "files w' (state_path st) = Some bytes'"
    using encoded_not_v1 [OF assms(1)] by blast+
  with assms(4) up show ?thesis by auto
qed

theorem failed_mutation_can_write_witness:
  "files (snd (update demo_codec demo_io demo_store (\<lambda>_. Inl (InvalidRecord ''no''))
        (demo_world (Some [Legacy (Some 1) (Some (Some [''u'']))])))) ''x.test.json''
      \<noteq> Some [Legacy (Some 1) (Some (Some [''u'']))]"
  using failed_mutation_can_write [OF demo_serde demo_healthy, of "demo_world (Some [Legacy (Some 1) (Some (Some [''u'']))])"
      demo_store "[Legacy (Some 1) (Some (Some [''u'']))]" "Legacy (Some 1) (Some (Some [''u'']))" "[''u'']"
      "\<lambda>_. Inl (InvalidRecord ''no'')" "InvalidRecord ''no''"]
  by (simp add: demo_world_def demo_store_def state_path_def is_v1_def) (simp add: demo_codec_def)

end
