(* ===== verification/Commit_Session.thy ===== *)
theory Commit_Session
  imports Record_Store
begin

text \<open>
  The resume gate of \<^verbatim>\<open>application/resume.rs\<close> and the commit protocol of
  \<^verbatim>\<open>application/export_factory.rs\<close>: decide, append to the output, checkpoint EXPORTED, commit. The
  environment holds what the session calls but the repository does not define here: the canonical URL
  form (a third-party normaliser), the content digest, chunk validation and the exporter's answer for an
  item, the store and its host, and the clock reading an operation stamps. The output file is the list of
  content hashes of its lines. Counters wrap, as they do in a release build.
\<close>

section \<open>Environment and session\<close>

record item =
  it_url :: string
  it_content :: string

record ('b, 'v) env =
  e_codec :: "('b, 'v) codec"
  e_io :: "'b io"
  e_store :: record_store
  e_canon :: "string \<Rightarrow> string"
  e_digest :: "string \<Rightarrow> string"
  e_invalid :: "item \<Rightarrow> last_error option"
  e_export_fails :: "item \<Rightarrow> last_error option"
  e_output_path :: string
  e_now :: i64

record resume_context =
  ctx_run_id :: string
  ctx_resume :: bool

record session =
  s_ctx :: "resume_context option"
  s_records :: domain_records
  s_hash_index :: "string set"
  s_driven :: "(string \<times> string) set"

record 'b disk =
  d_world :: "'b world"
  d_lines :: "string list"

datatype item_decision = AlreadyCommitted | PromoteFromFlushProof | DriveAndCommit

datatype single_item_outcome = Driven | Skipped | Cancelled

section \<open>The resume gate\<close>

definition is_committed_proven :: "(string \<Rightarrow> string) \<Rightarrow> string \<Rightarrow> domain_records \<Rightarrow> bool" where
  "is_committed_proven canon u records =
     (case bt_get records (canon u) of
        None \<Rightarrow> False
      | Some r \<Rightarrow> (case reconcile Committed r of Inr _ \<Rightarrow> True | Inl _ \<Rightarrow> False))"

definition filter_committed ::
  "('b, 'v) env \<Rightarrow> string list \<Rightarrow> 'b world \<Rightarrow> string list \<times> 'b world" where
  "filter_committed e urls w =
     (let (records, w1) = load_or_init (e_codec e) (e_io e) (e_store e) w in
      (filter (\<lambda>u. \<not> is_committed_proven (e_canon e) u records) urls, w1))"

definition normalize_domain_key :: "string \<Rightarrow> string" where
  "normalize_domain_key host =
     (let lowered = to_ascii_lowercase (trim host);
          stripped = unwrap_or (strip_suffix ''.'' lowered) lowered
      in unwrap_or (strip_prefix ''www.'' stripped) stripped)"

section \<open>Driving one record\<close>

definition fresh_discovered :: "string \<Rightarrow> string \<Rightarrow> string \<Rightarrow> i64 \<Rightarrow> stateful option" where
  "fresh_discovered u canonical run now =
     (case new_discovered u canonical run now of Inl _ \<Rightarrow> None | Inr r \<Rightarrow> Some (stateful_new r))"

definition walk_from_discovered :: "stateful \<Rightarrow> stateful" where
  "walk_from_discovered s = processed (extracted (fetched (start_fetch (queue s))))"

definition drive_to_processed :: "raw_record \<Rightarrow> string \<Rightarrow> i64 \<Rightarrow> stateful option" where
  "drive_to_processed r run now =
     (let result =
        (case status r of
           Discovered \<Rightarrow> map_sum id walk_from_discovered (reconcile Discovered r)
         | Queued \<Rightarrow> map_sum id (\<lambda>s. processed (extracted (fetched (start_fetch s)))) (reconcile Queued r)
         | Fetching \<Rightarrow> map_sum id (\<lambda>s. processed (extracted (fetched s))) (reconcile Fetching r)
         | Fetched \<Rightarrow> map_sum id (\<lambda>s. processed (extracted s)) (reconcile Fetched r)
         | Extracted \<Rightarrow> map_sum id processed (reconcile Extracted r)
         | Processed \<Rightarrow> reconcile Processed r
         | _ \<Rightarrow> Inl (StatusMismatch Processed (status r)))
      in (case result of
            Inr s \<Rightarrow> Some s
          | Inl _ \<Rightarrow> map_option walk_from_discovered (fresh_discovered (url r) (canonical_url r) run now)))"

definition drive_to_export_flushed ::
  "raw_record \<Rightarrow> string \<Rightarrow> string \<Rightarrow> string \<Rightarrow> i64 \<Rightarrow> stateful option" where
  "drive_to_export_flushed r run hash out now =
     (if status r = Exported
      then (case reconcile Exported r of
              Inr exported \<Rightarrow> Some exported
            | Inl _ \<Rightarrow>
                map_option
                  (\<lambda>s. export_flushed out
                     (s\<lparr>rec := (rec s)\<lparr>updated_at := now, content_hash := Some hash\<rparr>\<rparr>))
                  (drive_to_processed r run now))
      else map_option
             (\<lambda>s. export_flushed out
                (s\<lparr>rec := (rec s)\<lparr>attempts := attempts (rec s) + 1, last_error := None, updated_at := now,
                    content_hash := Some hash,
                    output_location := Some (unwrap_or (output_location (rec s)) out)\<rparr>\<rparr>))
             (drive_to_processed r run now))"

section \<open>Persisting the session\<close>

fun merge_records :: "domain_records \<Rightarrow> domain_records \<Rightarrow> domain_records" where
  "merge_records [] current = current"
| "merge_records ((key, r) # mine) current =
     (let newer_already_wins =
        (case bt_get current key of None \<Rightarrow> False | Some existing \<Rightarrow> updated_at r <s updated_at existing)
      in merge_records mine (if newer_already_wins then current else bt_insert key r current))"

definition merge_persist ::
  "('b, 'v) env \<Rightarrow> session \<Rightarrow> 'b world \<Rightarrow> (record_store_error + unit) \<times> 'b world" where
  "merge_persist e s w =
     update (e_codec e) (e_io e) (e_store e) (\<lambda>current. Inr (merge_records (s_records s) current)) w"

definition save_session :: "('b, 'v) env \<Rightarrow> session \<Rightarrow> 'b world \<Rightarrow> 'b world" where
  "save_session e s w = (case s_ctx s of None \<Rightarrow> w | Some _ \<Rightarrow> snd (merge_persist e s w))"

definition session_open ::
  "('b, 'v) env \<Rightarrow> resume_context option \<Rightarrow> 'b disk \<Rightarrow> session \<times> 'b disk" where
  "session_open e ctx d =
     (let (records, w) = (case ctx of
                            None \<Rightarrow> ([], d_world d)
                          | Some _ \<Rightarrow> load_or_init (e_codec e) (e_io e) (e_store e) (d_world d))
      in (\<lparr>s_ctx = ctx, s_records = records, s_hash_index = set (d_lines d), s_driven = {}\<rparr>,
          d\<lparr>d_world := w\<rparr>))"

section \<open>One item\<close>

definition claim_append :: "session \<Rightarrow> string \<Rightarrow> string \<Rightarrow> session \<times> bool" where
  "claim_append s u hash = (s\<lparr>s_driven := insert (u, hash) (s_driven s)\<rparr>, (u, hash) \<notin> s_driven s)"

definition decide :: "('b, 'v) env \<Rightarrow> session \<Rightarrow> string \<Rightarrow> string option \<Rightarrow> item_decision" where
  "decide e s u fresh_hash =
     (case s_ctx s of
        None \<Rightarrow> DriveAndCommit
      | Some ctx \<Rightarrow>
          if \<not> ctx_resume ctx then DriveAndCommit
          else (case bt_get (s_records s) (e_canon e u) of
                  Some r \<Rightarrow>
                    (case reconcile Committed r of
                       Inr _ \<Rightarrow> AlreadyCommitted
                     | Inl _ \<Rightarrow>
                         (case content_hash r of
                            Some hash \<Rightarrow> if hash \<in> s_hash_index s then PromoteFromFlushProof else DriveAndCommit
                          | None \<Rightarrow> DriveAndCommit))
                | None \<Rightarrow>
                    (case fresh_hash of
                       Some fresh \<Rightarrow> if fresh \<in> s_hash_index s then PromoteFromFlushProof else DriveAndCommit
                     | None \<Rightarrow> DriveAndCommit)))"

text \<open>The last two steps both paths share: checkpoint the EXPORTED record, then the commit point.\<close>

definition checkpoint_and_commit ::
  "('b, 'v) env \<Rightarrow> session \<Rightarrow> string \<Rightarrow> raw_record \<Rightarrow> 'b world \<Rightarrow> session \<times> 'b world" where
  "checkpoint_and_commit e s key r w =
     (let s1 = s\<lparr>s_records := bt_insert key r (s_records s)\<rparr>;
          w1 = save_session e s1 w
      in (case swap_to_committed (s_records s1) key of
            (records, True) \<Rightarrow>
              (let s2 = s1\<lparr>s_records := records\<rparr> in (s2, save_session e s2 w1))
          | (_, False) \<Rightarrow> (s1, w1)))"

definition promote_from_flush_proof ::
  "('b, 'v) env \<Rightarrow> session \<Rightarrow> string \<Rightarrow> string \<Rightarrow> string \<Rightarrow> 'b world \<Rightarrow> session \<times> 'b world" where
  "promote_from_flush_proof e s u out hash w =
     (let key = e_canon e u in
      (case s_ctx s of
         None \<Rightarrow> (s, w)
       | Some ctx \<Rightarrow>
           (let (s1, found) =
              (case bt_get (s_records s) key of
                 Some r \<Rightarrow> (s\<lparr>s_records := bt_remove key (s_records s)\<rparr>, Some r)
               | None \<Rightarrow> (s, map_option rec (fresh_discovered u key (ctx_run_id ctx) (e_now e))))
            in (case found of
                  None \<Rightarrow> (s1, w)
                | Some r \<Rightarrow>
                    (case drive_to_export_flushed r (ctx_run_id ctx) hash out (e_now e) of
                       None \<Rightarrow> (s1, w)
                     | Some exported \<Rightarrow> checkpoint_and_commit e s1 key (rec exported) w)))))"

definition fail_item ::
  "('b, 'v) env \<Rightarrow> session \<Rightarrow> string \<Rightarrow> last_error \<Rightarrow> 'b world \<Rightarrow> session \<times> 'b world" where
  "fail_item e s u err w =
     (case s_ctx s of
        None \<Rightarrow> (s, w)
      | Some ctx \<Rightarrow>
          (let key = e_canon e u in
           (case (case bt_get (s_records s) key of
                    Some r \<Rightarrow> Inr r
                  | None \<Rightarrow> new_discovered u key (ctx_run_id ctx) (e_now e)) of
              Inl _ \<Rightarrow> (s, w)
            | Inr r \<Rightarrow>
                (let r1 = r\<lparr>attempts := attempts r + 1, last_error := Some err, updated_at := e_now e\<rparr>;
                     s1 = s\<lparr>s_records := bt_insert key r1 (s_records s)\<rparr>
                 in (s1, save_session e s1 w)))))"

definition stamp_success :: "string \<Rightarrow> string \<Rightarrow> string \<Rightarrow> i64 \<Rightarrow> stateful \<Rightarrow> stateful" where
  "stamp_success run hash out now s =
     s\<lparr>rec := (rec s)\<lparr>run_id := run, content_hash := Some hash, output_location := Some out,
         attempts := attempts (rec s) + 1, last_error := None, updated_at := now\<rparr>\<rparr>"

text \<open>The part of \<^verbatim>\<open>commit_item\<close> before its first save: the session without the old record, and the EXPORTED one.\<close>

definition prepare_commit ::
  "('b, 'v) env \<Rightarrow> session \<Rightarrow> string \<Rightarrow> string \<Rightarrow> string \<Rightarrow> string \<Rightarrow> session \<times> raw_record option" where
  "prepare_commit e s u hash out run =
     (let key = e_canon e u;
          existing = (case bt_get (s_records s) key of
                        Some r \<Rightarrow> if status r = Exported \<or> status r = Committed then None else Some r
                      | None \<Rightarrow> None);
          driven = (case existing of
                      Some r \<Rightarrow> drive_to_processed r run (e_now e)
                    | None \<Rightarrow> (case new_discovered u key run (e_now e) of
                                 Inl _ \<Rightarrow> None
                               | Inr fresh \<Rightarrow> Some (walk_from_discovered (stateful_new fresh))))
      in (s\<lparr>s_records := bt_remove key (s_records s)\<rparr>,
          map_option (\<lambda>p. rec (export_flushed out (stamp_success run hash out (e_now e) p))) driven))"

definition commit_item ::
  "('b, 'v) env \<Rightarrow> session \<Rightarrow> string \<Rightarrow> string \<Rightarrow> string \<Rightarrow> string \<Rightarrow> 'b world \<Rightarrow> session \<times> 'b world" where
  "commit_item e s u hash out run w =
     (case prepare_commit e s u hash out run of
        (s1, None) \<Rightarrow> (s1, w)
      | (s1, Some r) \<Rightarrow> checkpoint_and_commit e s1 (e_canon e u) r w)"

definition process_single_item ::
  "('b, 'v) env \<Rightarrow> string \<Rightarrow> bool \<Rightarrow> item \<Rightarrow> session \<times> 'b disk
     \<Rightarrow> (session \<times> 'b disk) \<times> single_item_outcome" where
  "process_single_item e run cancelled it sd =
     (let (s, d) = sd; u = it_url it; hash = e_digest e (it_content it);
          (s1, claimed) = claim_append s u hash
      in if \<not> claimed then ((s1, d), Skipped)
         else (case decide e s1 u (Some hash) of
                 AlreadyCommitted \<Rightarrow> ((s1, d), Skipped)
               | PromoteFromFlushProof \<Rightarrow>
                   (let (s2, w) = promote_from_flush_proof e s1 u (e_output_path e) hash (d_world d)
                    in ((s2, d\<lparr>d_world := w\<rparr>), if cancelled then Cancelled else Driven))
               | DriveAndCommit \<Rightarrow>
                   (case e_invalid e it of
                      Some err \<Rightarrow>
                        (let (s2, w) = fail_item e s1 u err (d_world d) in ((s2, d\<lparr>d_world := w\<rparr>), Skipped))
                    | None \<Rightarrow>
                        (case e_export_fails e it of
                           Some err \<Rightarrow>
                             (let (s2, w) = fail_item e s1 u err (d_world d)
                              in ((s2, d\<lparr>d_world := w\<rparr>), if cancelled then Cancelled else Skipped))
                         | None \<Rightarrow>
                             (let d1 = d\<lparr>d_lines := d_lines d @ [hash]\<rparr>;
                                  (s2, w) = commit_item e s1 u hash (e_output_path e) run (d_world d1)
                              in ((s2, d1\<lparr>d_world := w\<rparr>), if cancelled then Cancelled else Driven))))))"

text \<open>The loop of \<^verbatim>\<open>process_results\<close>; the cancellation token is read once per item.\<close>

fun process_items ::
  "('b, 'v) env \<Rightarrow> string \<Rightarrow> (item \<times> bool) list \<Rightarrow> session \<times> 'b disk
     \<Rightarrow> (session \<times> 'b disk) \<times> string list" where
  "process_items e run [] sd = (sd, [])"
| "process_items e run ((it, cancelled) # its) sd =
     (case process_single_item e run cancelled it sd of
        (sd1, Driven) \<Rightarrow> (let (sd2, urls) = process_items e run its sd1 in (sd2, it_url it # urls))
      | (sd1, Skipped) \<Rightarrow> process_items e run its sd1
      | (sd1, Cancelled) \<Rightarrow> (sd1, []))"

definition process_results ::
  "('b, 'v) env \<Rightarrow> resume_context option \<Rightarrow> string \<Rightarrow> (item \<times> bool) list \<Rightarrow> 'b disk
     \<Rightarrow> string list \<times> 'b disk" where
  "process_results e ctx fallback_run its d =
     (let (s, d1) = session_open e ctx d;
          run = (case ctx of None \<Rightarrow> fallback_run | Some c \<Rightarrow> ctx_run_id c);
          ((s2, d2), urls) = process_items e run its (s, d1)
      in (urls, d2\<lparr>d_world := save_session e s2 (d_world d2)\<rparr>))"

text \<open>
  What a process that dies while exporting an item for the first time leaves behind: nothing of it, the
  flushed line, the line and the EXPORTED checkpoint, or the committed record.
\<close>

inductive item_dies_at ::
  "('b, 'v) env \<Rightarrow> string \<Rightarrow> item \<Rightarrow> session \<Rightarrow> 'b disk \<Rightarrow> 'b disk \<Rightarrow> bool"
  for e run it s d where
  before_flush: "item_dies_at e run it s d d"
| post_flush: "item_dies_at e run it s d (d\<lparr>d_lines := d_lines d @ [e_digest e (it_content it)]\<rparr>)"
| post_checkpoint:
    "prepare_commit e s (it_url it) (e_digest e (it_content it)) (e_output_path e) run = (s1, Some r) \<Longrightarrow>
     item_dies_at e run it s d
       (d\<lparr>d_lines := d_lines d @ [e_digest e (it_content it)],
          d_world := save_session e (s1\<lparr>s_records := bt_insert (e_canon e (it_url it)) r (s_records s1)\<rparr>) (d_world d)\<rparr>)"
| post_commit:
    "item_dies_at e run it s d
       (d\<lparr>d_lines := d_lines d @ [e_digest e (it_content it)],
          d_world := snd (commit_item e s (it_url it) (e_digest e (it_content it)) (e_output_path e) run (d_world d))\<rparr>)"

text \<open>A later run with \<^verbatim>\<open>--resume\<close> that meets the same item.\<close>

definition resume_item ::
  "('b, 'v) env \<Rightarrow> resume_context \<Rightarrow> item \<Rightarrow> 'b disk \<Rightarrow> (session \<times> 'b disk) \<times> single_item_outcome" where
  "resume_item e ctx it d = process_single_item e (ctx_run_id ctx) False it (session_open e (Some ctx) d)"

text \<open>Every later load finds the page committed with this content.\<close>

definition committed_as :: "('b, 'v) env \<Rightarrow> 'b world \<Rightarrow> string \<Rightarrow> string \<Rightarrow> bool" where
  "committed_as e w key hash =
     (\<exists>rs r. durable_view (e_codec e) (e_store e) w rs \<and> bt_get rs key = Some r
        \<and> status r = Committed \<and> content_hash r = Some hash)"

text \<open>A concrete environment over the demonstration codec.\<close>

definition demo_env :: "(document, document) env" where
  "demo_env =
     \<lparr>e_codec = demo_codec, e_io = demo_io, e_store = demo_store, e_canon = (\<lambda>u. u), e_digest = (\<lambda>c. c),
      e_invalid = (\<lambda>_. None), e_export_fails = (\<lambda>_. None), e_output_path = ''out.jsonl'', e_now = 5\<rparr>"

definition demo_item :: item where
  "demo_item = \<lparr>it_url = ''https://x.test/a'', it_content = ''c''\<rparr>"

definition demo_file :: "raw_record \<Rightarrow> document" where
  "demo_file r =
     V2 \<lparr>sf_version = 2, sf_domain_key = ''x.test'', sf_created_at = 0, sf_updated_at = 0,
         sf_records = [(''https://x.test/a'', r)]\<rparr>"

section \<open>The gate\<close>

lemma valid_committed: "invariant_violation r = None \<Longrightarrow> (\<exists>t. reconcile Committed r = Inr t) \<longleftrightarrow> status r = Committed"
  by (auto simp: invariant_none_iff reconcile_def split: sum.splits) (auto simp: validate_def split: if_splits)

lemma validated_member:
  assumes "bt_wf rs" and "validate_and_quarantine rs = rs" and "bt_get rs k = Some r"
  shows "invariant_violation r = None"
  using assms partition_kept_get [OF assms(1), of k r] by (simp add: validate_and_quarantine_def)

lemma load_ok_valid:
  assumes "serde_roundtrip c" and "load c io st w = (Inr rs, w')"
  shows "bt_wf rs \<and> validate_and_quarantine rs = rs"
proof (cases "path_exists io (state_path st) w")
  case False
  with assms(2) show ?thesis
    by (simp add: load_def bt_wf_def validate_and_quarantine_def partition_valid_def)
next
  case True
  then obtain w1 where "load_under_lock c io st (state_path st) w1 = (Inr rs, w')"
    using assms(2) by (auto simp: load_def Let_def split: prod.splits sum.splits)
  from load_under_lock_ok [OF assms(1) this] show ?thesis by simp
qed

text \<open>
  The resume gate is exact: it skips a URL exactly when the store, as it loads, holds a COMMITTED
  record under the URL's canonical form, keeps the others in their order, and when the store cannot be
  read it skips nothing.
\<close>

theorem resume_gate_skips_exactly_committed:
  assumes "serde_roundtrip (e_codec e)"
    and "load (e_codec e) (e_io e) (e_store e) w = (r, w')"
  shows "filter_committed e urls w =
    (filter (\<lambda>u. \<not> (\<exists>rs x. r = Inr rs \<and> bt_get rs (e_canon e u) = Some x \<and> status x = Committed)) urls, w')"
proof (cases r)
  case (Inl err)
  with assms(2) show ?thesis
    by (simp add: filter_committed_def load_or_init_def is_committed_proven_def bt_get_def)
next
  case (Inr rs)
  note valid = load_ok_valid [OF assms(1) assms(2) [unfolded Inr]]
  have "is_committed_proven (e_canon e) u rs \<longleftrightarrow>
      (\<exists>x. bt_get rs (e_canon e u) = Some x \<and> status x = Committed)" for u
  proof (cases "bt_get rs (e_canon e u)")
    case (Some x)
    with valid have "invariant_violation x = None" by (auto intro: validated_member)
    from valid_committed [OF this] Some show ?thesis
      by (auto simp: is_committed_proven_def split: sum.splits)
  qed (simp add: is_committed_proven_def)
  with Inr assms(2) show ?thesis by (simp add: filter_committed_def load_or_init_def)
qed

lemma demo_env_sel [simp]:
  "e_codec demo_env = demo_codec" "e_io demo_env = demo_io" "e_store demo_env = demo_store"
  "e_canon demo_env = (\<lambda>u. u)" "e_digest demo_env = (\<lambda>c. c)" "e_invalid demo_env = (\<lambda>_. None)"
  "e_export_fails demo_env = (\<lambda>_. None)" "e_now demo_env = 5"
  "it_url demo_item = ''https://x.test/a''" "it_content demo_item = ''c''"
  by (simp_all add: demo_env_def demo_item_def)

lemma demo_sample_valid: "committable r \<Longrightarrow> invariant_violation (set_status Committed r) = None"
  by (auto simp: committable_def invariant_violation_def Let_def is_migrated_v1_def)

lemma demo_file_load:
  assumes "invariant_violation r = None"
  shows "durable_view demo_codec demo_store (demo_world (Some [demo_file r])) [(''https://x.test/a'', r)]"
  using assms
  by (simp add: durable_view_def healthy_def load_def path_exists_def acquire_def load_under_lock_def Let_def
      state_path_def demo_store_def demo_world_def demo_codec_def demo_file_def bt_wf_def
      CURRENT_VERSION_def validate_and_quarantine_def partition_valid_def)

theorem resume_gate_skips_exactly_committed_witness:
  "fst (filter_committed demo_env [''https://x.test/a'', ''https://x.test/b'']
      (demo_world (Some [demo_file (set_status Committed exported_sample)]))) = [''https://x.test/b'']"
proof -
  let ?w = "demo_world (Some [demo_file (set_status Committed exported_sample)])"
  have l: "load (e_codec demo_env) (e_io demo_env) (e_store demo_env) ?w =
      (Inr [(''https://x.test/a'', set_status Committed exported_sample)],
       snd (load (e_codec demo_env) (e_io demo_env) (e_store demo_env) ?w))"
    using demo_file_load [OF demo_sample_valid [OF exported_sample_committable]] demo_healthy
    by (intro prod_eqI) (simp_all add: durable_view_def demo_env_def)
  have "serde_roundtrip (e_codec demo_env)" by (simp add: demo_env_def demo_serde)
  from resume_gate_skips_exactly_committed [OF this l] show ?thesis
    by (simp add: demo_env_def bt_get_def)
qed

section \<open>Merging\<close>

lemma merge_wf: "bt_wf current \<Longrightarrow> bt_wf (merge_records mine current)"
  by (induction mine current rule: merge_records.induct) (auto simp: Let_def bt.wf_ins)

lemma merge_get:
  "bt_wf mine \<Longrightarrow> bt_wf current \<Longrightarrow>
   bt_get (merge_records mine current) k =
     (case bt_get mine k of
        None \<Rightarrow> bt_get current k
      | Some r \<Rightarrow> (case bt_get current k of
                    Some x \<Rightarrow> Some (if updated_at r <s updated_at x then x else r)
                  | None \<Rightarrow> Some r))"
proof (induction mine current rule: merge_records.induct)
  case (1 current)
  then show ?case by (simp add: bt.get_empty)
next
  case (2 key r mine current)
  from 2(2) have mine: "bt_wf mine" and fresh: "bt_get mine key = None"
    by (auto simp: bt_wf_Cons bt_get_def map_of_eq_None_iff)
  show ?case
    using 2(1) [OF refl mine] 2(3) fresh
    by (auto simp: Let_def bt.wf_ins bt.get_ins bt_get_Cons split: option.splits)
qed

lemma merge_keeps_order: "keeps_order (\<lambda>current. Inr (merge_records mine current))"
  by (auto simp: keeps_order_def merge_wf)

lemma save_session_view:
  assumes "serde_roundtrip (e_codec e)" and "healthy (e_io e)"
    and "durable_view (e_codec e) (e_store e) w rs" and "s_ctx s = Some ctx"
  shows "durable_view (e_codec e) (e_store e) (save_session e s w)
    (validate_and_quarantine (merge_records (s_records s) rs))"
  using update_view [OF assms(1,2) merge_keeps_order assms(3)] assms(4)
  by (simp add: save_session_def merge_persist_def)

lemma validate_get:
  "bt_wf m \<Longrightarrow> bt_get (validate_and_quarantine m) k =
     (case bt_get m k of Some r \<Rightarrow> if invariant_violation r = None then Some r else None | None \<Rightarrow> None)"
  by (simp add: validate_and_quarantine_def partition_get)

lemma view_wf:
  fixes c :: "('b, 'v) codec" and io :: "'b io"
  assumes "serde_roundtrip c" and "healthy io" and "durable_view c st w rs"
  shows "bt_wf rs \<and> validate_and_quarantine rs = rs"
proof -
  obtain w' where "load c io st w = (Inr rs, w')"
    using assms(2,3) by (metis durable_view_def fst_conv surj_pair)
  from load_ok_valid [OF assms(1) this] show ?thesis .
qed

lemma committable_valid: "committable r \<Longrightarrow> invariant_violation r = None \<and> invariant_violation (set_status Committed r) = None"
  by (auto simp: committable_def invariant_violation_def Let_def is_migrated_v1_def)

lemma checkpoint_and_commit_durable:
  assumes "serde_roundtrip (e_codec e)" and "healthy (e_io e)"
    and "durable_view (e_codec e) (e_store e) w rs" and "s_ctx s = Some ctx"
    and "bt_wf (s_records s)" and "committable r"
    and "\<And>x. bt_get rs key = Some x \<Longrightarrow> \<not> updated_at r <s updated_at x"
    and "checkpoint_and_commit e s key r w = (s', w')"
  shows "\<exists>rs'. durable_view (e_codec e) (e_store e) w' rs' \<and> bt_get rs' key = Some (set_status Committed r)
    \<and> bt_get (s_records s') key = Some (set_status Committed r)"
proof -
  define s1 where "s1 = s\<lparr>s_records := bt_insert key r (s_records s)\<rparr>"
  define s2 where "s2 = s1\<lparr>s_records := bt_insert key (set_status Committed r) (s_records s1)\<rparr>"
  let ?rs1 = "validate_and_quarantine (merge_records (s_records s1) rs)"
  let ?rs2 = "validate_and_quarantine (merge_records (s_records s2) ?rs1)"
  have wf: "bt_wf rs" "bt_wf (s_records s1)" "bt_wf (s_records s2)"
    using view_wf [OF assms(1-3)] assms(5) by (simp_all add: s1_def s2_def bt.wf_ins)
  have get1: "bt_get (s_records s1) key = Some r" and get2: "bt_get (s_records s2) key = Some (set_status Committed r)"
    using assms(5) by (simp_all add: s1_def s2_def bt_get_insert)
  have eq: "s' = s2" "w' = save_session e s2 (save_session e s1 w)"
    using assms(6,8) get1 unfolding checkpoint_and_commit_def Let_def s1_def [symmetric] swap_cases
    by (auto simp: s2_def)
  have "s_ctx s1 = Some ctx" "s_ctx s2 = Some ctx" using assms(4) by (simp_all add: s1_def s2_def)
  then have view: "durable_view (e_codec e) (e_store e) w' ?rs2"
    unfolding eq using save_session_view [OF assms(1,2)] assms(3) by blast
  have "bt_get ?rs1 key = Some r"
    using assms(6,7) wf get1 by (auto simp: validate_get merge_wf merge_get committable_valid split: option.splits)
  then have "bt_get ?rs2 key = Some (set_status Committed r)"
    using assms(6) wf get2
    by (simp add: validate_get validate_wf merge_wf merge_get committable_valid)
  with view eq get2 show ?thesis by blast
qed

section \<open>Driving to the commit point\<close>

lemma drive_valid:
  assumes "invariant_violation r = None" and "status r \<noteq> Exported" and "status r \<noteq> Committed"
  shows "\<exists>p. drive_to_processed r run now = Some p \<and> rec p = set_status Processed r"
proof -
  have ok: "reconcile (status r) r = Inr \<lparr>marker = status r, rec = r\<rparr>"
    using assms(1) by (simp add: invariant_none_iff reconcile_def)
  from assms(2,3) ok show ?thesis
    by (cases "status r")
      (simp_all add: drive_to_processed_def walk_from_discovered_def transition_defs advance_def
        set_status_def)
qed

lemma new_discovered_ok:
  "\<not> is_meaningless_identity u \<Longrightarrow> \<not> is_meaningless_identity key \<Longrightarrow>
   \<exists>r. new_discovered u key run now = Inr r \<and> url r = u \<and> attempts r = 0 \<and> invariant_violation r = None
     \<and> status r = Discovered \<and> output_location r = None \<and> updated_at r = now \<and> run_id r = run"
  by (auto simp: new_discovered_def is_meaningless_identity_def invariant_violation_def)

lemma walk_rec: "rec (walk_from_discovered t) = set_status Processed (rec t)"
  by (simp add: walk_from_discovered_def transition_defs set_status_def)

lemma stamped_rec:
  "rec (export_flushed out (stamp_success run hash out now p)) =
     (rec p)\<lparr>run_id := run, content_hash := Some hash, output_location := Some out,
        attempts := attempts (rec p) + 1, last_error := None, updated_at := now, status := Exported\<rparr>"
  by (simp add: stamp_success_def export_flushed_def advance_def set_status_def)

lemma one_le_u32: "1 \<le> (x :: u32) \<longleftrightarrow> x \<noteq> 0"
  by (subst linorder_not_less [symmetric]) simp

lemma prepare_committable:
  assumes "\<not> is_meaningless_identity u" and "\<not> is_meaningless_identity (e_canon e u)"
    and "\<And>r. bt_get (s_records s) (e_canon e u) = Some r \<Longrightarrow>
      invariant_violation r = None \<and> attempts r \<noteq> - 1"
  shows "\<exists>r. prepare_commit e s u hash out run =
      (s\<lparr>s_records := bt_remove (e_canon e u) (s_records s)\<rparr>, Some r)
    \<and> committable r \<and> content_hash r = Some hash \<and> output_location r = Some out
    \<and> run_id r = run \<and> updated_at r = e_now e"
proof -
  obtain p where "(case (case bt_get (s_records s) (e_canon e u) of
                        Some r \<Rightarrow> if status r = Exported \<or> status r = Committed then None else Some r
                      | None \<Rightarrow> None) of
                      Some r \<Rightarrow> drive_to_processed r run (e_now e)
                    | None \<Rightarrow> (case new_discovered u (e_canon e u) run (e_now e) of
                                 Inl _ \<Rightarrow> None
                               | Inr fresh \<Rightarrow> Some (walk_from_discovered (stateful_new fresh)))) = Some p"
    and p: "\<not> is_meaningless_identity (url (rec p))" "attempts (rec p) + 1 \<noteq> 0"
  proof -
    obtain f where f: "new_discovered u (e_canon e u) run (e_now e) = Inr f" "url f = u" "attempts f = 0"
      using new_discovered_ok [OF assms(1,2)] by blast
    show thesis
    proof (cases "\<exists>r. bt_get (s_records s) (e_canon e u) = Some r \<and> status r \<noteq> Exported \<and> status r \<noteq> Committed")
      case True
      then obtain r where r: "bt_get (s_records s) (e_canon e u) = Some r" "status r \<noteq> Exported" "status r \<noteq> Committed"
        by blast
      from assms(3) [OF r(1)] have v: "invariant_violation r = None" "attempts r \<noteq> - 1" by auto
      obtain q where "drive_to_processed r run (e_now e) = Some q" "rec q = set_status Processed r"
        using drive_valid [OF v(1) r(2,3)] by blast
      with r v that [of q] show thesis by (auto simp: invariant_none_iff eq_neg_iff_add_eq_0)
    next
      case False
      with f assms(1) that [of "walk_from_discovered (stateful_new f)"] show thesis
        by (auto simp: walk_rec stateful_new_def split: option.splits)
    qed
  qed
  then show ?thesis
    unfolding prepare_commit_def Let_def
    by (simp add: stamped_rec committable_def one_le_u32)
qed

lemma checkpoint_commits_memory:
  assumes "bt_wf (s_records s)" and "committable r"
  shows "bt_get (s_records (fst (checkpoint_and_commit e s key r w))) k =
    (if k = key then Some (set_status Committed r) else bt_get (s_records s) k)"
  using assms by (simp add: checkpoint_and_commit_def Let_def swap_cases bt_get_insert)

text \<open>
  Committing a flushed item cannot stop half-way in memory: for a page with a meaningful identity whose
  record, if it has one, passed the invariant table, the item ends COMMITTED in the session with the hash,
  the location and the run of this export and no error, whatever the store's saves report, and no other
  page's record changes. The branch that leaves the item EXPORTED is unreachable, the wrap of the
  32-bit attempt counter apart.
\<close>

theorem commit_item_always_commits:
  assumes "bt_wf (s_records s)"
    and "\<not> is_meaningless_identity u" and "\<not> is_meaningless_identity (e_canon e u)"
    and "\<And>r. bt_get (s_records s) (e_canon e u) = Some r \<Longrightarrow>
      invariant_violation r = None \<and> attempts r \<noteq> - 1"
  shows "\<exists>r. bt_get (s_records (fst (commit_item e s u hash out run w))) (e_canon e u) = Some r
    \<and> status r = Committed \<and> content_hash r = Some hash \<and> output_location r = Some out
    \<and> run_id r = run \<and> invariant_violation r = None
    \<and> (\<forall>k. k \<noteq> e_canon e u \<longrightarrow>
          bt_get (s_records (fst (commit_item e s u hash out run w))) k = bt_get (s_records s) k)"
proof -
  obtain r where p: "prepare_commit e s u hash out run =
      (s\<lparr>s_records := bt_remove (e_canon e u) (s_records s)\<rparr>, Some r)"
    and r: "committable r" "content_hash r = Some hash" "output_location r = Some out" "run_id r = run"
    using prepare_committable [OF assms(2-4)] by metis
  have wf: "bt_wf (s_records (s\<lparr>s_records := bt_remove (e_canon e u) (s_records s)\<rparr>))"
    using assms(1) by (simp add: bt_wf_remove)
  show ?thesis
    using r committable_valid [OF r(1)] assms(1)
    by (simp add: commit_item_def p checkpoint_commits_memory [OF wf r(1)] bt_get_remove)
qed

lemma demo_meaningful:
  "\<not> is_meaningless_identity (it_url demo_item)" "\<not> is_meaningless_identity (e_canon demo_env (it_url demo_item))"
  by (simp_all add: demo_item_def demo_env_def is_meaningless_identity_def trim_def trim_start_def is_whitespace_def)

theorem commit_item_always_commits_witness:
  "\<exists>r. bt_get (s_records (fst (commit_item demo_env
        \<lparr>s_ctx = None, s_records = [], s_hash_index = {}, s_driven = {}\<rparr> (it_url demo_item) ''h'' ''o'' ''run''
        (demo_world None)))) (e_canon demo_env (it_url demo_item)) = Some r
    \<and> status r = Committed \<and> content_hash r = Some ''h''"
  using commit_item_always_commits [OF _ demo_meaningful,
      of "\<lparr>s_ctx = None, s_records = [], s_hash_index = {}, s_driven = {}\<rparr>" "''h''" "''o''" "''run''" "demo_world None"]
  by (auto simp: bt_wf_def bt_get_def)

section \<open>Exactly once\<close>

lemma load_view:
  assumes "serde_roundtrip c" and "healthy io" and "durable_view c st w rs"
  shows "\<exists>w'. load c io st w = (Inr rs, w') \<and> durable_view c st w' rs"
proof -
  obtain w' where l: "load c io st w = (Inr rs, w')"
    using assms(2,3) by (metis durable_view_def fst_conv surj_pair)
  have "durable_view c st w' rs"
  proof (cases "path_exists io (state_path st) w")
    case False
    with l assms(3) show ?thesis by (simp add: load_def)
  next
    case True
    then obtain w1 where "load_under_lock c io st (state_path st) w1 = (Inr rs, w')"
      using l by (auto simp: load_def Let_def split: prod.splits sum.splits)
    from load_under_lock_ok [OF assms(1) this] show ?thesis by (simp add: durable_view_def)
  qed
  with l show ?thesis by blast
qed

lemma open_view:
  assumes "serde_roundtrip (e_codec e)" and "healthy (e_io e)"
    and "durable_view (e_codec e) (e_store e) (d_world d) rs"
  shows "\<exists>w. session_open e (Some ctx) d =
      (\<lparr>s_ctx = Some ctx, s_records = rs, s_hash_index = set (d_lines d), s_driven = {}\<rparr>, d\<lparr>d_world := w\<rparr>)
    \<and> durable_view (e_codec e) (e_store e) w rs"
  using load_view [OF assms] by (auto simp: session_open_def load_or_init_def)

lemma checkpoint_committed_as:
  assumes "serde_roundtrip (e_codec e)" and "healthy (e_io e)"
    and "durable_view (e_codec e) (e_store e) w rs" and "s_ctx s = Some ctx"
    and "bt_wf (s_records s)" and "committable r" and "content_hash r = Some hash"
    and "\<And>x. bt_get rs key = Some x \<Longrightarrow> \<not> updated_at r <s updated_at x"
  shows "committed_as e (snd (checkpoint_and_commit e s key r w)) key hash"
  using checkpoint_and_commit_durable [OF assms(1-6,8) prod.collapse [symmetric]] assms(7)
  unfolding committed_as_def by fastforce

lemma resume_drives:
  assumes "serde_roundtrip (e_codec e)" and "healthy (e_io e)"
    and "durable_view (e_codec e) (e_store e) (d_world d) rs"
    and "\<not> is_meaningless_identity (it_url it)" and "\<not> is_meaningless_identity (e_canon e (it_url it))"
    and "e_invalid e it = None" and "e_export_fails e it = None"
    and "case bt_get rs (e_canon e (it_url it)) of
        None \<Rightarrow> e_digest e (it_content it) \<notin> set (d_lines d)
      | Some x \<Rightarrow> status x \<noteq> Committed \<and> content_hash x = None \<and> attempts x \<noteq> - 1
          \<and> \<not> e_now e <s updated_at x"
  shows "d_lines (snd (fst (resume_item e ctx it d))) = d_lines d @ [e_digest e (it_content it)]
    \<and> committed_as e (d_world (snd (fst (resume_item e ctx it d)))) (e_canon e (it_url it))
        (e_digest e (it_content it))"
proof -
  let ?u = "it_url it" let ?key = "e_canon e (it_url it)" let ?hash = "e_digest e (it_content it)"
  obtain w where opn: "session_open e (Some ctx) d =
      (\<lparr>s_ctx = Some ctx, s_records = rs, s_hash_index = set (d_lines d), s_driven = {}\<rparr>, d\<lparr>d_world := w\<rparr>)"
    and view: "durable_view (e_codec e) (e_store e) w rs"
    using open_view [OF assms(1-3)] by blast
  define s where "s = \<lparr>s_ctx = Some ctx, s_records = rs, s_hash_index = set (d_lines d), s_driven = {(?u, ?hash)}\<rparr>"
  have valid: "bt_wf rs" "validate_and_quarantine rs = rs" using view_wf [OF assms(1-3)] by auto
  have "\<not> (\<exists>t. reconcile Committed x = Inr t)" if "bt_get rs ?key = Some x" for x
    using valid_committed [OF validated_member [OF valid that]] assms(8) that by simp
  then have dec: "decide e s ?u (Some ?hash) = DriveAndCommit"
    using assms(8) by (auto simp: decide_def s_def split: option.splits sum.splits)
  obtain r where p: "prepare_commit e s ?u ?hash (e_output_path e) (ctx_run_id ctx) =
      (s\<lparr>s_records := bt_remove ?key (s_records s)\<rparr>, Some r)"
    and r: "committable r" "content_hash r = Some ?hash" "updated_at r = e_now e"
    using prepare_committable [OF assms(4,5), of s ?hash "e_output_path e" "ctx_run_id ctx"]
      validated_member [OF valid] assms(8) by (fastforce simp: s_def)
  have "committed_as e (snd (checkpoint_and_commit e (s\<lparr>s_records := bt_remove ?key (s_records s)\<rparr>) ?key r w)) ?key ?hash"
    using checkpoint_committed_as [OF assms(1,2) view, of "s\<lparr>s_records := bt_remove ?key (s_records s)\<rparr>" ctx r ?hash ?key]
      r assms(8) valid by (auto simp: s_def bt_wf_remove split: option.splits)
  with dec p show ?thesis
    using assms(6,7)
    by (simp add: resume_item_def opn process_single_item_def claim_append_def commit_item_def
        case_prod_beta s_def Let_def)
qed

lemma promote_fresh:
  assumes "\<not> is_meaningless_identity u" and "\<not> is_meaningless_identity key"
  shows "\<exists>f t. fresh_discovered u key run now = Some f
    \<and> drive_to_export_flushed (rec f) run hash out now = Some t
    \<and> committable (rec t) \<and> content_hash (rec t) = Some hash"
proof -
  obtain r where r: "new_discovered u key run now = Inr r" "url r = u" "attempts r = 0"
    "invariant_violation r = None" "status r = Discovered"
    using new_discovered_ok [OF assms] by blast
  obtain p where "drive_to_processed r run now = Some p" "rec p = set_status Processed r"
    using drive_valid [OF r(4)] r(5) by auto
  with r assms(1) show ?thesis
    by (simp add: fresh_discovered_def stateful_new_def drive_to_export_flushed_def export_flushed_def
        committable_def)
qed

lemma promote_exported:
  "committable r \<Longrightarrow> drive_to_export_flushed r run hash out now = Some \<lparr>marker = Exported, rec = r\<rparr>"
  by (auto simp: committable_def drive_to_export_flushed_def reconcile_def validate_def)

lemma resume_promotes:
  assumes "serde_roundtrip (e_codec e)" and "healthy (e_io e)"
    and "durable_view (e_codec e) (e_store e) (d_world d) rs"
    and "\<not> is_meaningless_identity (it_url it)" and "\<not> is_meaningless_identity (e_canon e (it_url it))"
    and "ctx_resume ctx" and "e_digest e (it_content it) \<in> set (d_lines d)"
    and "case bt_get rs (e_canon e (it_url it)) of
        None \<Rightarrow> True
      | Some x \<Rightarrow> committable x \<and> content_hash x = Some (e_digest e (it_content it))"
  shows "d_lines (snd (fst (resume_item e ctx it d))) = d_lines d
    \<and> committed_as e (d_world (snd (fst (resume_item e ctx it d)))) (e_canon e (it_url it))
        (e_digest e (it_content it))"
proof -
  let ?u = "it_url it" let ?key = "e_canon e (it_url it)" let ?hash = "e_digest e (it_content it)"
  let ?out = "e_output_path e" let ?run = "ctx_run_id ctx"
  obtain w where opn: "session_open e (Some ctx) d =
      (\<lparr>s_ctx = Some ctx, s_records = rs, s_hash_index = set (d_lines d), s_driven = {}\<rparr>, d\<lparr>d_world := w\<rparr>)"
    and view: "durable_view (e_codec e) (e_store e) w rs"
    using open_view [OF assms(1-3)] by blast
  define s where "s = \<lparr>s_ctx = Some ctx, s_records = rs, s_hash_index = set (d_lines d), s_driven = {(?u, ?hash)}\<rparr>"
  have valid: "bt_wf rs" "validate_and_quarantine rs = rs" using view_wf [OF assms(1-3)] by auto
  have "\<not> (\<exists>t. reconcile Committed x = Inr t)" if "bt_get rs ?key = Some x" for x
    using valid_committed [OF validated_member [OF valid that]] assms(8) that by (simp add: committable_def)
  then have dec: "decide e s ?u (Some ?hash) = PromoteFromFlushProof"
    using assms(6-8) by (auto simp: decide_def s_def split: option.splits sum.splits)
  note goal = checkpoint_committed_as [OF assms(1,2) view]
  have "committed_as e (snd (promote_from_flush_proof e s ?u ?out ?hash w)) ?key ?hash"
  proof (cases "bt_get rs ?key")
    case None
    obtain f t where f: "fresh_discovered ?u ?key ?run (e_now e) = Some f"
      "drive_to_export_flushed (rec f) ?run ?hash ?out (e_now e) = Some t"
      "committable (rec t)" "content_hash (rec t) = Some ?hash"
      using promote_fresh [OF assms(4,5)] by blast
    with None goal [of s ctx "rec t" ?hash ?key] valid show ?thesis
      by (simp add: promote_from_flush_proof_def s_def Let_def)
  next
    case (Some x)
    with goal [of "s\<lparr>s_records := bt_remove ?key rs\<rparr>" ctx x ?hash ?key] valid assms(8) show ?thesis
      by (simp add: promote_from_flush_proof_def s_def promote_exported bt_wf_remove Let_def)
  qed
  with dec show ?thesis
    by (simp add: resume_item_def opn process_single_item_def claim_append_def case_prod_beta s_def Let_def)
qed

lemma resume_skips:
  assumes "serde_roundtrip (e_codec e)" and "healthy (e_io e)" and "ctx_resume ctx"
    and "committed_as e (d_world d) (e_canon e (it_url it)) (e_digest e (it_content it))"
  shows "d_lines (snd (fst (resume_item e ctx it d))) = d_lines d
    \<and> committed_as e (d_world (snd (fst (resume_item e ctx it d)))) (e_canon e (it_url it))
        (e_digest e (it_content it))"
proof -
  let ?u = "it_url it" let ?key = "e_canon e (it_url it)" let ?hash = "e_digest e (it_content it)"
  obtain rs r where v: "durable_view (e_codec e) (e_store e) (d_world d) rs" "bt_get rs ?key = Some r"
    and r: "status r = Committed" "content_hash r = Some ?hash"
    using assms(4) by (auto simp: committed_as_def)
  obtain w where opn: "session_open e (Some ctx) d =
      (\<lparr>s_ctx = Some ctx, s_records = rs, s_hash_index = set (d_lines d), s_driven = {}\<rparr>, d\<lparr>d_world := w\<rparr>)"
    and view: "durable_view (e_codec e) (e_store e) w rs"
    using open_view [OF assms(1,2) v(1)] by blast
  have valid: "bt_wf rs" "validate_and_quarantine rs = rs" using view_wf [OF assms(1,2) v(1)] by auto
  obtain t where t: "reconcile Committed r = Inr t"
    using valid_committed [OF validated_member [OF valid v(2)]] r(1) by blast
  from view v(2) r have "committed_as e w ?key ?hash" by (auto simp: committed_as_def)
  with t v(2) assms(3) show ?thesis
    by (simp add: resume_item_def opn process_single_item_def claim_append_def decide_def Let_def)
qed

lemma checkpoint_view:
  assumes "serde_roundtrip (e_codec e)" and "healthy (e_io e)"
    and "durable_view (e_codec e) (e_store e) w rs" and "s_ctx s = Some ctx"
    and "bt_wf (s_records s)" and "bt_get rs key = None" and "committable r"
  shows "\<exists>rs'. durable_view (e_codec e) (e_store e)
      (save_session e (s\<lparr>s_records := bt_insert key r (s_records s)\<rparr>) w) rs' \<and> bt_get rs' key = Some r"
proof -
  let ?s = "s\<lparr>s_records := bt_insert key r (s_records s)\<rparr>"
  have "bt_wf rs" using view_wf [OF assms(1-3)] by simp
  moreover have "bt_wf (s_records ?s)" using assms(5) by (simp add: bt.wf_ins)
  ultimately have "bt_get (validate_and_quarantine (merge_records (s_records ?s) rs)) key = Some r"
    using assms(6,7) by (simp add: validate_get merge_wf merge_get bt_get_insert committable_valid)
  with save_session_view [OF assms(1-3), of ?s ctx] assms(4) show ?thesis by auto
qed


lemma demo_env_ok:
  "serde_roundtrip (e_codec demo_env)" "healthy (e_io demo_env)"
  "durable_view (e_codec demo_env) (e_store demo_env) (demo_world None) []"
  by (simp_all add: demo_env_def demo_serde demo_healthy demo_empty_view)


section \<open>Where the protocol departs from its documentation\<close>

text \<open>
  A page that failed before is not exported exactly once: when the store holds an uncommitted record
  without a content hash for it, as a recorded failure leaves, and the process dies after the flush and
  before the EXPORTED checkpoint, the resumed run appends the same content a second time.
\<close>

theorem failed_then_flushed_is_exported_twice:
  assumes "serde_roundtrip (e_codec e)" and "healthy (e_io e)"
    and "durable_view (e_codec e) (e_store e) (d_world d) rs"
    and "bt_get rs (e_canon e (it_url it)) = Some x" and "status x \<noteq> Committed" and "content_hash x = None"
    and "attempts x \<noteq> - 1" and "\<not> e_now e <s updated_at x"
    and "e_digest e (it_content it) \<notin> set (d_lines d)"
    and "\<not> is_meaningless_identity (it_url it)" and "\<not> is_meaningless_identity (e_canon e (it_url it))"
    and "e_invalid e it = None" and "e_export_fails e it = None"
    and "d' = d\<lparr>d_lines := d_lines d @ [e_digest e (it_content it)]\<rparr>"
  shows "item_dies_at e run it s d d'
    \<and> count_list (d_lines (snd (fst (resume_item e ctx it d')))) (e_digest e (it_content it)) = 2"
proof -
  have "item_dies_at e run it s d d'" unfolding assms(14) by (rule post_flush)
  moreover have "d_lines (snd (fst (resume_item e ctx it d'))) = d_lines d' @ [e_digest e (it_content it)]"
    using resume_drives [OF assms(1,2) _ assms(10-13), of d' rs ctx] assms(3-8,14) by simp
  ultimately show ?thesis using assms(9,14) by (simp add: count_list_append count_list_0_iff)
qed

theorem failed_then_flushed_is_exported_twice_witness:
  "count_list (d_lines (snd (fst (resume_item demo_env \<lparr>ctx_run_id = ''r2'', ctx_resume = True\<rparr> demo_item
      \<lparr>d_world = demo_world (Some [demo_file sample_record]), d_lines = [''c'']\<rparr>)))) ''c'' = 2"
proof -
  let ?w = "demo_world (Some [demo_file sample_record])"
  have "invariant_violation sample_record = None"
    by (simp add: invariant_violation_def sample_record_def is_meaningless_identity_def trim_def
        trim_start_def is_whitespace_def)
  from demo_file_load [OF this]
  have v: "durable_view (e_codec demo_env) (e_store demo_env) (d_world \<lparr>d_world = ?w, d_lines = []\<rparr>)
      [(''https://x.test/a'', sample_record)]" by (simp add: demo_env_def)
  have x: "bt_get [(''https://x.test/a'', sample_record)] (e_canon demo_env (it_url demo_item)) = Some sample_record"
    by (simp add: bt_get_def)
  have r: "status sample_record \<noteq> Committed" "content_hash sample_record = None" "attempts sample_record \<noteq> - 1"
    "\<not> e_now demo_env <s updated_at sample_record"
    by (simp_all add: sample_record_def word_sless_alt)
  have "count_list (d_lines (snd (fst (resume_item demo_env \<lparr>ctx_run_id = ''r2'', ctx_resume = True\<rparr> demo_item
      (\<lparr>d_world = ?w, d_lines = []\<rparr>\<lparr>d_lines := [''c'']\<rparr>))))) (e_digest demo_env (it_content demo_item)) = 2"
    by (rule failed_then_flushed_is_exported_twice [OF demo_env_ok(1,2) v x r _ demo_meaningful,
          THEN conjunct2]) simp_all
  then show ?thesis by (simp del: One_nat_def)
qed

text \<open>
  A commit can be undone: a session that loaded a page while it was EXPORTED writes that copy back
  with its next save, for whatever other page, and overwrites the COMMITTED record another process made of
  it meanwhile, because the commit point does not advance \<^verbatim>\<open>updated_at\<close> and ties go to the writer.
\<close>

theorem stale_session_undoes_commit:
  assumes "serde_roundtrip (e_codec e)" and "healthy (e_io e)"
    and "durable_view (e_codec e) (e_store e) w rs" and "bt_get rs key = Some (set_status Committed r)"
    and "s_ctx s = Some ctx" and "bt_wf (s_records s)" and "bt_get (s_records s) key = Some r"
    and "committable r"
  shows "\<exists>rs'. durable_view (e_codec e) (e_store e) (save_session e s w) rs' \<and> bt_get rs' key = Some r
    \<and> status r = Exported"
proof -
  have "bt_wf rs" using view_wf [OF assms(1-3)] by simp
  then have "bt_get (validate_and_quarantine (merge_records (s_records s) rs)) key = Some r"
    using assms(4,6-8) by (simp add: validate_get merge_wf merge_get committable_valid)
  with save_session_view [OF assms(1-3,5)] assms(8) show ?thesis by (auto simp: committable_def)
qed

theorem stale_session_undoes_commit_witness:
  "\<exists>rs'. durable_view demo_codec demo_store
       (save_session demo_env
          \<lparr>s_ctx = Some \<lparr>ctx_run_id = ''r2'', ctx_resume = True\<rparr>,
           s_records = [(''https://x.test/a'', exported_sample)], s_hash_index = {}, s_driven = {}\<rparr>
          (demo_world (Some [demo_file (set_status Committed exported_sample)]))) rs'
     \<and> bt_get rs' ''https://x.test/a'' = Some exported_sample"
proof -
  have "durable_view (e_codec demo_env) (e_store demo_env)
      (demo_world (Some [demo_file (set_status Committed exported_sample)]))
      [(''https://x.test/a'', set_status Committed exported_sample)]"
    using demo_file_load [OF demo_sample_valid [OF exported_sample_committable]] by (simp add: demo_env_def)
  then have "\<exists>rs'. durable_view (e_codec demo_env) (e_store demo_env)
       (save_session demo_env
          \<lparr>s_ctx = Some \<lparr>ctx_run_id = ''r2'', ctx_resume = True\<rparr>,
           s_records = [(''https://x.test/a'', exported_sample)], s_hash_index = {}, s_driven = {}\<rparr>
          (demo_world (Some [demo_file (set_status Committed exported_sample)]))) rs'
     \<and> bt_get rs' ''https://x.test/a'' = Some exported_sample \<and> status exported_sample = Exported"
    by (rule stale_session_undoes_commit [OF demo_env_ok(1,2) _ _ _ _ _ exported_sample_committable])
      (simp_all add: bt_get_def bt_wf_def)
  then show ?thesis unfolding demo_env_sel by blast
qed

end
