(* ===== verification/Checkpoint.thy ===== *)
theory Checkpoint
  imports Record_Store Persistence_Mode Std_Path
begin

text \<open>
  The crawl checkpoint of \<^verbatim>\<open>application/crawler/checkpoint.rs\<close> and its use by the run owner of
  \<^verbatim>\<open>application/crawler/session.rs\<close>: a file holds a checksum of four bytes and a JSON payload, is written
  to a temporary name and renamed, and is read back by the next run. Files, system calls and the backup
  policy are those of the record store. What \<^verbatim>\<open>serde_json\<close>, \<^verbatim>\<open>crc32fast\<close> and \<^verbatim>\<open>sha2\<close> compute are the fields of
  \<open>ckpt_codec\<close>; the byte order of the host is a field too.
\<close>

section \<open>State\<close>

record banned_domain =
  bd_domain :: string
  bd_banned_until :: "i64 option"
  bd_reason :: string

record crawl_checkpoint =
  cp_visited :: "string set"
  cp_queued :: "string list"
  cp_pages_crawled :: u64
  cp_banned_domains :: "banned_domain list"
  cp_version :: u32

definition CURRENT_CHECKPOINT_VERSION :: u32 where
  "CURRENT_CHECKPOINT_VERSION = 2"

definition checkpoint_new :: crawl_checkpoint where
  "checkpoint_new = \<lparr>cp_visited = {}, cp_queued = [], cp_pages_crawled = 0, cp_banned_domains = [],
     cp_version = CURRENT_CHECKPOINT_VERSION\<rparr>"

record old_checkpoint_schema =
  old_visited :: "string list"
  old_queued :: "string list"
  old_pages_crawled :: u64
  old_version :: u32
  old_banned_domains :: "banned_domain list"

definition from_old :: "old_checkpoint_schema \<Rightarrow> crawl_checkpoint" where
  "from_old old = \<lparr>cp_visited = set (old_visited old), cp_queued = old_queued old,
     cp_pages_crawled = old_pages_crawled old, cp_banned_domains = old_banned_domains old,
     cp_version = old_version old\<rparr>"

record ckpt_codec =
  ck_to_string :: "crawl_checkpoint \<Rightarrow> u8 list option"
  ck_from_slice :: "u8 list \<Rightarrow> crawl_checkpoint option"
  ck_old_from_slice :: "u8 list \<Rightarrow> old_checkpoint_schema option"
  ck_crc32 :: "u8 list \<Rightarrow> u32"
  ck_sha256 :: "string \<Rightarrow> u8 list"
  ck_little_endian :: bool

section \<open>Names\<close>

definition hex02 :: "u8 \<Rightarrow> string" where
  "hex02 b = (if unat b < 16 then ''0'' else []) @ show_radix 16 (unat b)"

definition seed_hash :: "ckpt_codec \<Rightarrow> string \<Rightarrow> string" where
  "seed_hash c seed_url = concat (map hex02 (take 8 (ck_sha256 c seed_url)))"

definition file_for_seed :: "ckpt_codec \<Rightarrow> string \<Rightarrow> string \<Rightarrow> string" where
  "file_for_seed c base_dir seed_url =
     path_join base_dir (''crawl_checkpoint_'' @ seed_hash c seed_url @ ''.json'')"

definition tmp_path_for :: "string \<Rightarrow> string" where
  "tmp_path_for path = path @ ''.tmp''"

section \<open>Saving\<close>

definition to_ne_bytes :: "ckpt_codec \<Rightarrow> u32 \<Rightarrow> u8 list" where
  "to_ne_bytes c x =
     (let le = [ucast x, ucast (drop_bit 8 x), ucast (drop_bit 16 x), ucast (drop_bit 24 x)]
      in if ck_little_endian c then le else rev le)"

definition from_ne_bytes :: "ckpt_codec \<Rightarrow> u8 list \<Rightarrow> u32" where
  "from_ne_bytes c bs =
     (let le = (if ck_little_endian c then bs else rev bs)
      in ucast (le ! 0) OR push_bit 8 (ucast (le ! 1)) OR push_bit 16 (ucast (le ! 2)) OR push_bit 24 (ucast (le ! 3)))"

datatype ckpt_error = SerializationFailed | CreateTmp | WriteChecksum | WritePayload | SyncFile | AtomicRename

text \<open>
  A failed write has created the temporary file or not and got some way through header and payload; how
  far decides which of the four calls reported the error. The file is not removed then.
\<close>

definition write_error :: "u8 io \<Rightarrow> u8 list \<Rightarrow> ckpt_error" where
  "write_error io bytes =
     (case partial_write io of
        None \<Rightarrow> CreateTmp
      | Some n \<Rightarrow> if n < 4 then WriteChecksum else if n < length bytes then WritePayload else SyncFile)"

definition checkpoint_bytes :: "ckpt_codec \<Rightarrow> crawl_checkpoint \<Rightarrow> u8 list option" where
  "checkpoint_bytes c state =
     map_option (\<lambda>payload. to_ne_bytes c (ck_crc32 c payload) @ payload) (ck_to_string c state)"

definition checkpoint_save ::
  "ckpt_codec \<Rightarrow> u8 io \<Rightarrow> crawl_checkpoint \<Rightarrow> string \<Rightarrow> u8 world \<Rightarrow> (ckpt_error + unit) \<times> u8 world" where
  "checkpoint_save c io state path w =
     (case checkpoint_bytes c state of
        None \<Rightarrow> (Inl SerializationFailed, w)
      | Some bytes \<Rightarrow>
          (let tmp = tmp_path_for path in
           if \<not> io_ok io OpWrite then (Inl (write_error io bytes), failed_write io tmp bytes w)
           else (let w1 = put_file tmp bytes w in
                 if \<not> io_ok io OpRename
                 then (Inl AtomicRename, if remove_ok io tmp then remove_file tmp w1 else w1)
                 else (Inr (), rename_file tmp path w1))))"

text \<open>What a process that dies during \<open>checkpoint_save\<close> leaves behind.\<close>

inductive checkpoint_save_dies_at ::
  "ckpt_codec \<Rightarrow> crawl_checkpoint \<Rightarrow> string \<Rightarrow> u8 world \<Rightarrow> u8 world \<Rightarrow> bool"
  for c state path w where
  ck_before_write: "checkpoint_save_dies_at c state path w w"
| ck_mid_write: "checkpoint_bytes c state = Some bytes \<Longrightarrow>
    checkpoint_save_dies_at c state path w (put_file (tmp_path_for path) (take n bytes) w)"
| ck_after_rename: "checkpoint_bytes c state = Some bytes \<Longrightarrow>
    checkpoint_save_dies_at c state path w
      (rename_file (tmp_path_for path) path (put_file (tmp_path_for path) bytes w))"

section \<open>Loading\<close>

definition read_checkpoint_bytes :: "u8 io \<Rightarrow> string \<Rightarrow> u8 world \<Rightarrow> u8 list option" where
  "read_checkpoint_bytes io path w =
     (case (if io_ok io OpRead then files w path else None) of
        None \<Rightarrow> None
      | Some data \<Rightarrow> if length data < 4 then None else Some data)"

definition accept_version ::
  "u8 io \<Rightarrow> crawl_checkpoint \<Rightarrow> string \<Rightarrow> u8 world \<Rightarrow> crawl_checkpoint option \<times> u8 world" where
  "accept_version io state path w =
     (if cp_version state = CURRENT_CHECKPOINT_VERSION then (Some state, w)
      else (None, preserve_pre_migration_backup io path w))"

definition migrate_legacy_checkpoint ::
  "ckpt_codec \<Rightarrow> u8 io \<Rightarrow> u8 list \<Rightarrow> string \<Rightarrow> u8 world \<Rightarrow> crawl_checkpoint option \<times> u8 world" where
  "migrate_legacy_checkpoint c io data path w =
     (case ck_old_from_slice c data of
        None \<Rightarrow> (None, w)
      | Some old \<Rightarrow> accept_version io (from_old old) path w)"

definition deserialize_checkpoint ::
  "ckpt_codec \<Rightarrow> u8 io \<Rightarrow> u8 list \<Rightarrow> u8 list \<Rightarrow> string \<Rightarrow> u8 world \<Rightarrow> crawl_checkpoint option \<times> u8 world" where
  "deserialize_checkpoint c io payload file_bytes path w =
     (case ck_from_slice c payload of
        Some state \<Rightarrow> (Some state, w)
      | None \<Rightarrow> (None, preserve_abandoned_bytes io path file_bytes w))"

definition verify_and_parse_checkpoint ::
  "ckpt_codec \<Rightarrow> u8 io \<Rightarrow> u8 list \<Rightarrow> string \<Rightarrow> u8 world \<Rightarrow> crawl_checkpoint option \<times> u8 world" where
  "verify_and_parse_checkpoint c io data path w =
     (let stored_checksum = from_ne_bytes c (take 4 data);
          payload = drop 4 data
      in if stored_checksum \<noteq> ck_crc32 c payload
         then (case migrate_legacy_checkpoint c io data path w of
                 (Some state, w1) \<Rightarrow> (Some state, w1)
               | (None, w1) \<Rightarrow> (None, preserve_abandoned_bytes io path data w1))
         else (case deserialize_checkpoint c io payload data path w of
                 (None, w1) \<Rightarrow> (None, w1)
               | (Some state, w1) \<Rightarrow> accept_version io state path w1))"

definition checkpoint_load ::
  "ckpt_codec \<Rightarrow> u8 io \<Rightarrow> string \<Rightarrow> u8 world \<Rightarrow> crawl_checkpoint option \<times> u8 world" where
  "checkpoint_load c io path w =
     (case read_checkpoint_bytes io path w of
        None \<Rightarrow> (None, w)
      | Some data \<Rightarrow> verify_and_parse_checkpoint c io data path w)"

definition delete_checkpoint_file :: "u8 io \<Rightarrow> string \<Rightarrow> u8 world \<Rightarrow> u8 world" where
  "delete_checkpoint_file io path w =
     (if files w path = None \<or> \<not> remove_ok io path then w else remove_file path w)"

section \<open>The run owner\<close>

text \<open>The part of \<^verbatim>\<open>CrawlSession\<close> that its own operations read: seed, persistence policy and label.\<close>

record crawl_session =
  cs_seed_url :: string
  cs_mode :: persistence_mode
  cs_loaded :: "crawl_checkpoint option"
  cs_run_label :: string

record session_builder =
  sb_seed :: "(string \<times> string) option"
  sb_persistence :: "persistence_mode option"
  sb_backoff :: "(u64 \<times> u64) option"
  sb_ports :: bool
  sb_identity :: "string option"

datatype session_error =
    MissingConfiguration | SeedNotFetchable string | MissingPersistence | ZeroInterval
  | MissingTransport | InvertedBackoff u64 u64 | MissingPorts | MissingIdentity

definition checkpoint_interval_of :: "persistence_mode \<Rightarrow> u64 option" where
  "checkpoint_interval_of mode =
     (case mode of
        Disabled \<Rightarrow> None | Resume _ \<Rightarrow> None
      | Checkpoint cfg \<Rightarrow> Some (ck_interval cfg) | Full _ cfg \<Rightarrow> Some (ck_interval cfg))"

text \<open>
  \<^verbatim>\<open>CrawlSessionBuilder::build\<close>: the seed with its scheme, the persistence mode, the backoff base and
  maximum of the transport policy, whether the ports are there, and the run label.
\<close>

definition session_build :: "session_builder \<Rightarrow> session_error + crawl_session" where
  "session_build b =
     (case sb_seed b of
        None \<Rightarrow> Inl MissingConfiguration
      | Some (scheme, seed) \<Rightarrow>
          if scheme \<noteq> ''http'' \<and> scheme \<noteq> ''https'' then Inl (SeedNotFetchable scheme)
          else (case sb_persistence b of
                  None \<Rightarrow> Inl MissingPersistence
                | Some mode \<Rightarrow>
                    if checkpoint_interval_of mode = Some 0 then Inl ZeroInterval
                    else (case sb_backoff b of
                            None \<Rightarrow> Inl MissingTransport
                          | Some (base, maximum) \<Rightarrow>
                              if maximum < base then Inl (InvertedBackoff maximum base)
                              else if \<not> sb_ports b then Inl MissingPorts
                              else (case sb_identity b of
                                      None \<Rightarrow> Inl MissingIdentity
                                    | Some label \<Rightarrow>
                                        Inr \<lparr>cs_seed_url = seed, cs_mode = mode, cs_loaded = None,
                                             cs_run_label = label\<rparr>))))"

record begin_outcome =
  bo_resumed :: bool
  bo_degraded :: bool

definition session_begin ::
  "ckpt_codec \<Rightarrow> u8 io \<Rightarrow> crawl_session \<Rightarrow> u8 world \<Rightarrow> begin_outcome \<times> crawl_session \<times> u8 world" where
  "session_begin c io s w =
     (case checkpoint_cfg (cs_mode s) of
        None \<Rightarrow> (\<lparr>bo_resumed = False, bo_degraded = False\<rparr>, s, w)
      | Some cfg \<Rightarrow>
          if \<not> io_ok io OpMkdir
          then (\<lparr>bo_resumed = False, bo_degraded = True\<rparr>, s\<lparr>cs_mode := Disabled\<rparr>, w)
          else (case checkpoint_load c io (file_for_seed c (ck_dir cfg) (cs_seed_url s)) w of
                  (Some cp, w1) \<Rightarrow>
                    (\<lparr>bo_resumed = True, bo_degraded = False\<rparr>, s\<lparr>cs_loaded := Some cp\<rparr>, w1)
                | (None, w1) \<Rightarrow> (\<lparr>bo_resumed = False, bo_degraded = False\<rparr>, s, w1)))"

definition checkpoint_scoped_path :: "ckpt_codec \<Rightarrow> persistence_mode \<Rightarrow> string \<Rightarrow> string option" where
  "checkpoint_scoped_path c mode seed_url =
     (case mode of
        Checkpoint cfg \<Rightarrow> Some (file_for_seed c (ck_dir cfg) seed_url)
      | Full _ cfg \<Rightarrow> Some (file_for_seed c (ck_dir cfg) seed_url)
      | Disabled \<Rightarrow> None
      | Resume _ \<Rightarrow> None)"

datatype checkpoint_action = Delete | Write | Skip

record session_close =
  sc_run_label :: string
  sc_action :: checkpoint_action

definition session_finish ::
  "ckpt_codec \<Rightarrow> u8 io \<Rightarrow> crawl_session \<Rightarrow> bool \<Rightarrow> crawl_checkpoint \<Rightarrow> u8 world \<Rightarrow> session_close \<times> u8 world" where
  "session_finish c io s completed_fully checkpoint_snapshot w =
     (case checkpoint_scoped_path c (cs_mode s) (cs_seed_url s) of
        None \<Rightarrow> (\<lparr>sc_run_label = cs_run_label s, sc_action = Skip\<rparr>, w)
      | Some path \<Rightarrow>
          if completed_fully
          then (\<lparr>sc_run_label = cs_run_label s, sc_action = Delete\<rparr>, delete_checkpoint_file io path w)
          else (\<lparr>sc_run_label = cs_run_label s, sc_action = Write\<rparr>,
                snd (checkpoint_save c io checkpoint_snapshot path w)))"

section \<open>Assumptions on the codec\<close>

text \<open>The documented round trip of \<^verbatim>\<open>serde_json\<close> on the derived checkpoint type, for one state.\<close>

definition reads_back :: "ckpt_codec \<Rightarrow> crawl_checkpoint \<Rightarrow> bool" where
  "reads_back c s = (\<exists>bytes. ck_to_string c s = Some bytes \<and> ck_from_slice c bytes = Some s)"

text \<open>An instance for witnesses: one state, printed as one byte, with the sum of the bytes as checksum.\<close>

definition sample_checkpoint :: crawl_checkpoint where
  "sample_checkpoint = checkpoint_new\<lparr>cp_visited := {''u''}, cp_queued := [''v''], cp_pages_crawled := 1\<rparr>"

definition sample_codec :: ckpt_codec where
  "sample_codec =
     \<lparr>ck_to_string = (\<lambda>s. if s = sample_checkpoint then Some [7] else None),
      ck_from_slice = (\<lambda>b. if b = [7] then Some sample_checkpoint else None),
      ck_old_from_slice = (\<lambda>b. None), ck_crc32 = (\<lambda>b. ucast (sum_list b)),
      ck_sha256 = (\<lambda>u. replicate 32 (of_nat (length u))), ck_little_endian = True\<rparr>"

definition sample_host :: "u8 io" where
  "sample_host =
     \<lparr>io_ok = (\<lambda>_. True), remove_ok = (\<lambda>_. True), partial_write = None, lock_content = [], pid = 1,
      now_created = 7, now_updated = 8, now_stamp = 9, mtime = None\<rparr>"

definition empty_disk :: "u8 world" where
  "empty_disk = \<lparr>files = (\<lambda>_. None), tmp_nonce = 0\<rparr>"

definition sample_session :: crawl_session where
  "sample_session = \<lparr>cs_seed_url = ''s'', cs_mode = Checkpoint \<lparr>ck_dir = ''d'', ck_interval = 10\<rparr>,
     cs_loaded = None, cs_run_label = ''l''\<rparr>"

section \<open>Bytes\<close>

lemma ne_bytes_length [simp]: "length (to_ne_bytes c x) = 4"
  by (simp add: to_ne_bytes_def Let_def)

lemma split_word4:
  "(ucast (ucast x :: u8) OR push_bit 8 (ucast (ucast (drop_bit 8 x) :: u8))
     OR push_bit 16 (ucast (ucast (drop_bit 16 x) :: u8))
     OR push_bit 24 (ucast (ucast (drop_bit 24 x) :: u8))) = (x :: u32)"
proof (rule bit_word_eqI)
  fix n
  assume "n < LENGTH(32)"
  have "n < 24 \<or> 24 + (n - 24) = n" by arith
  then show "bit (ucast (ucast x :: u8) OR push_bit 8 (ucast (ucast (drop_bit 8 x) :: u8))
     OR push_bit 16 (ucast (ucast (drop_bit 16 x) :: u8))
     OR push_bit 24 (ucast (ucast (drop_bit 24 x) :: u8)) :: u32) n = bit x n"
    using \<open>n < LENGTH(32)\<close> by (auto simp: bit_simps)
qed

lemma ne_bytes_roundtrip [simp]: "from_ne_bytes c (to_ne_bytes c x) = x"
  by (simp add: from_ne_bytes_def to_ne_bytes_def Let_def split_word4)

lemma tmp_path_for_other [simp]:
  "tmp_path_for path \<noteq> path" "path \<noteq> tmp_path_for path" "path @ ''.bak'' \<noteq> tmp_path_for path"
  by (simp_all add: tmp_path_for_def)

section \<open>Save and load\<close>

lemma load_sees_file_only:
  assumes "files w path = files w' path"
  shows "fst (checkpoint_load c io path w) = fst (checkpoint_load c io path w')"
proof -
  have "fst (verify_and_parse_checkpoint c io data path w) = fst (verify_and_parse_checkpoint c io data path w')" for data
    by (simp add: verify_and_parse_checkpoint_def migrate_legacy_checkpoint_def accept_version_def
        deserialize_checkpoint_def Let_def split: option.split)
  with assms show ?thesis
    by (simp add: checkpoint_load_def read_checkpoint_bytes_def split: option.split)
qed

lemma load_saved_bytes:
  assumes "reads_back c state" and "cp_version state = CURRENT_CHECKPOINT_VERSION" and "io_ok io OpRead"
    and "checkpoint_bytes c state = Some bytes" and "files w path = Some bytes"
  shows "checkpoint_load c io path w = (Some state, w)"
proof -
  obtain payload where p: "ck_to_string c state = Some payload" "ck_from_slice c payload = Some state"
    using assms(1) unfolding reads_back_def by blast
  with assms(4) have "bytes = to_ne_bytes c (ck_crc32 c payload) @ payload" by (simp add: checkpoint_bytes_def)
  with assms(2,3,5) p(2) show ?thesis
    by (simp add: checkpoint_load_def read_checkpoint_bytes_def verify_and_parse_checkpoint_def
        deserialize_checkpoint_def accept_version_def)
qed

lemma save_outcome:
  assumes "checkpoint_save c io state path w = (r, w')"
  shows "(r = Inr () \<and> files w' path = checkpoint_bytes c state \<and> files w' path \<noteq> None)
    \<or> (\<exists>e. r = Inl e \<and> files w' path = files w path)"
  using assms
  by (auto simp: checkpoint_save_def Let_def files_failed_write split: option.splits if_splits)

lemma save_keeps_backup:
  "files (snd (checkpoint_save c io state path w)) (path @ ''.bak'') = files w (path @ ''.bak'')"
  by (auto simp: checkpoint_save_def Let_def files_failed_write split: option.splits)

lemma save_healthy:
  assumes "reads_back c state" and "healthy io"
  shows "files (snd (checkpoint_save c io state path w)) path = checkpoint_bytes c state"
    and "checkpoint_bytes c state \<noteq> None"
proof -
  have "ck_to_string c state \<noteq> None" using assms(1) unfolding reads_back_def by auto
  then obtain bytes where b: "checkpoint_bytes c state = Some bytes" by (auto simp: checkpoint_bytes_def)
  then show "checkpoint_bytes c state \<noteq> None" by simp
  from b assms(2) show "files (snd (checkpoint_save c io state path w)) path = checkpoint_bytes c state"
    by (simp add: checkpoint_save_def healthy_def Let_def)
qed


lemma refused_load:
  assumes "healthy io" and "files w path = Some data" and "4 \<le> length data" and "files w (path @ ''.bak'') = None"
    and "checkpoint_load c io path w = (r, w')"
  shows "case r of Some cp \<Rightarrow> cp_version cp = CURRENT_CHECKPOINT_VERSION \<and> w' = w
    | None \<Rightarrow> w' = put_file (path @ ''.bak'') data w"
proof -
  have keep: "preserve_abandoned_bytes io path data w = put_file (path @ ''.bak'') data w"
    "preserve_pre_migration_backup io path w = put_file (path @ ''.bak'') data w"
    "preserve_abandoned_bytes io path data (put_file (path @ ''.bak'') data w) = put_file (path @ ''.bak'') data w"
    using assms(1,2,4)
    by (simp_all add: preserve_abandoned_bytes_def preserve_pre_migration_backup_def healthy_def Let_def)
  have "checkpoint_load c io path w = verify_and_parse_checkpoint c io data path w"
    using assms(1-3) by (simp add: checkpoint_load_def read_checkpoint_bytes_def healthy_def)
  with assms(5) show ?thesis
    by (auto simp: verify_and_parse_checkpoint_def migrate_legacy_checkpoint_def accept_version_def
        deserialize_checkpoint_def Let_def keep split: option.splits if_splits prod.splits)
qed


section \<open>Runs\<close>

lemma scoped_path_cfg:
  "checkpoint_scoped_path c mode seed_url =
     map_option (\<lambda>cfg. file_for_seed c (ck_dir cfg) seed_url) (checkpoint_cfg mode)"
  by (cases mode) (simp_all add: checkpoint_scoped_path_def checkpoint_cfg_def)

lemma delete_then_gone: "remove_ok io path \<Longrightarrow> files (delete_checkpoint_file io path w) path = None"
  by (simp add: delete_checkpoint_file_def)

lemma load_absent: "files w path = None \<Longrightarrow> checkpoint_load c io path w = (None, w)"
  by (simp add: checkpoint_load_def read_checkpoint_bytes_def)

text \<open>
  C23. What a run leaves is what the next one starts from: on a host whose calls succeed, a run that was
  interrupted or truncated is resumed with exactly the state it wrote at its end, and a run that
  completed is followed by a fresh one, even when an earlier checkpoint was there.
\<close>

theorem next_run_starts_where_this_one_ended:
  assumes "reads_back c snap" and "healthy io" and "healthy io'" and "cp_version snap = CURRENT_CHECKPOINT_VERSION"
    and "checkpoint_cfg (cs_mode s) = Some cfg" and "cs_loaded s = None"
    and "remove_ok io (file_for_seed c (ck_dir cfg) (cs_seed_url s))"
    and "session_finish c io s completed_fully snap w = (close, w1)"
  shows "session_begin c io' s w1 =
     (\<lparr>bo_resumed = (\<not> completed_fully), bo_degraded = False\<rparr>,
      s\<lparr>cs_loaded := (if completed_fully then None else Some snap)\<rparr>, w1)"
proof (cases completed_fully)
  case True
  with assms(5,7,8) have "files w1 (file_for_seed c (ck_dir cfg) (cs_seed_url s)) = None"
    by (auto simp: session_finish_def scoped_path_cfg delete_then_gone)
  with assms(3,5,6) True show ?thesis
    by (cases s) (simp add: session_begin_def load_absent healthy_def)
next
  case False
  let ?p = "file_for_seed c (ck_dir cfg) (cs_seed_url s)"
  from False assms(5,8) have w1: "w1 = snd (checkpoint_save c io snap ?p w)"
    by (auto simp: session_finish_def scoped_path_cfg)
  obtain bytes where b: "checkpoint_bytes c snap = Some bytes" using save_healthy(2) [OF assms(1,2)] by blast
  have "files w1 ?p = Some bytes" using save_healthy(1) [OF assms(1,2), of ?p w] b w1 by simp
  from load_saved_bytes [OF assms(1,4) _ b this] assms(3)
  have "checkpoint_load c io' ?p w1 = (Some snap, w1)" by (simp add: healthy_def)
  with assms(3,5) False show ?thesis by (simp add: session_begin_def healthy_def)
qed

lemma finish_touches:
  assumes "checkpoint_cfg (cs_mode s) = Some cfg" and "session_finish c io s done snap w = (close, w1)"
    and "p \<noteq> file_for_seed c (ck_dir cfg) (cs_seed_url s)"
    and "p \<noteq> tmp_path_for (file_for_seed c (ck_dir cfg) (cs_seed_url s))"
  shows "files w1 p = files w p"
  using assms
  by (auto simp: session_finish_def scoped_path_cfg delete_checkpoint_file_def checkpoint_save_def Let_def
      files_failed_write split: option.splits if_splits)

lemma seed_files_differ:
  assumes "seed_hash c a \<noteq> seed_hash c b"
  shows "file_for_seed c dir a \<noteq> file_for_seed c dir b"
    and "file_for_seed c dir a \<noteq> tmp_path_for (file_for_seed c dir b)"
proof -
  show "file_for_seed c dir a \<noteq> file_for_seed c dir b"
    using assms by (simp add: file_for_seed_def path_join_def has_root_def starts_with_def)
  have ends: "\<exists>x. file_for_seed c dir u = x @ ''.json''" for u
    by (auto simp: file_for_seed_def path_join_def has_root_def starts_with_def)
  then obtain x y where "file_for_seed c dir a = x @ ''.json''" "file_for_seed c dir b = y @ ''.json''" by metis
  then have "last (file_for_seed c dir a) = CHR ''n''" "last (tmp_path_for (file_for_seed c dir b)) = CHR ''p''"
    by (simp_all add: tmp_path_for_def)
  then show "file_for_seed c dir a \<noteq> tmp_path_for (file_for_seed c dir b)" by auto
qed

text \<open>
  Runs for different seeds do not disturb each other: when the scope hashes of two seeds differ, closing
  the run of one, whatever happens to its system calls, leaves what the other loads from the same
  directory as it was.
\<close>

theorem runs_of_different_seeds_are_disjoint:
  assumes "checkpoint_cfg (cs_mode s) = Some cfg" and "session_finish c io s done snap w = (close, w1)"
    and "seed_hash c other \<noteq> seed_hash c (cs_seed_url s)"
  shows "fst (checkpoint_load c io' (file_for_seed c (ck_dir cfg) other) w1)
       = fst (checkpoint_load c io' (file_for_seed c (ck_dir cfg) other) w)"
  by (rule load_sees_file_only) (rule finish_touches [OF assms(1,2) seed_files_differ [OF assms(3)]])

section \<open>Witnesses\<close>

lemma sample_reads_back: "reads_back sample_codec sample_checkpoint"
  by (simp add: reads_back_def sample_codec_def)

lemma sample_healthy: "healthy sample_host"
  by (simp add: healthy_def sample_host_def)

lemma sample_version: "cp_version sample_checkpoint = CURRENT_CHECKPOINT_VERSION"
  by (simp add: sample_checkpoint_def checkpoint_new_def)

lemma sample_bytes: "checkpoint_bytes sample_codec sample_checkpoint = Some [7, 0, 0, 0, 7]"
  by (simp add: checkpoint_bytes_def sample_codec_def to_ne_bytes_def)



theorem next_run_starts_where_this_one_ended_witness:
  "cs_loaded (fst (snd (session_begin sample_codec sample_host sample_session
      (snd (session_finish sample_codec sample_host sample_session False sample_checkpoint empty_disk)))))
   = Some sample_checkpoint"
  using next_run_starts_where_this_one_ended [OF sample_reads_back sample_healthy sample_healthy sample_version, of sample_session
      "\<lparr>ck_dir = ''d'', ck_interval = 10\<rparr>" False empty_disk
      "fst (session_finish sample_codec sample_host sample_session False sample_checkpoint empty_disk)"
      "snd (session_finish sample_codec sample_host sample_session False sample_checkpoint empty_disk)"]
  by (simp add: sample_session_def checkpoint_cfg_def sample_host_def)

end
