(* ===== verification/Crawl_Scheduler.thy ===== *)
theory Crawl_Scheduler
  imports Url_Queue Url_Validation
begin

text \<open>
  The scheduling policy of \<^verbatim>\<open>application/crawler/crawl_scheduler.rs\<close> with the visited set of
  \<^verbatim>\<open>application/deduplicator.rs\<close> and the autoscale level of \<^verbatim>\<open>application/crawler/concurrency_level.rs\<close>.
  The URL library, the third-party normaliser and the two seeded \<^verbatim>\<open>ahash\<close> functions are arguments. Page tasks push links onto
  the shared queue between the scheduler's own steps: the crawl is a step relation over the scheduler
  and the pages handed out so far.
\<close>

section \<open>Deduplicator\<close>

record 'u url_env =
  url_lib :: "'u url_api"
  url_norm :: normalizer
  visit_hash :: "string \<Rightarrow> u64"
  queue_hash :: "string \<Rightarrow> u64"

definition canon :: "'u url_env \<Rightarrow> string \<Rightarrow> string" where
  "canon e u = normalize_url (url_lib e) (url_norm e) dedup_config u"

definition parse_url :: "'u url_env \<Rightarrow> string \<Rightarrow> string option" where
  "parse_url e raw = map_option (api_to_string (url_lib e)) (api_parse (url_lib e) raw)"

record url_deduplicator =
  dd_seen :: "u64 set"

definition dedup_new :: url_deduplicator where
  "dedup_new = \<lparr>dd_seen = {}\<rparr>"

definition try_insert :: "'u url_env \<Rightarrow> string \<Rightarrow> url_deduplicator \<Rightarrow> url_deduplicator \<times> bool" where
  "try_insert e u d =
     (let k = visit_hash e (canon e u) in (d\<lparr>dd_seen := insert k (dd_seen d)\<rparr>, k \<notin> dd_seen d))"

definition dedup_len :: "url_deduplicator \<Rightarrow> nat" where
  "dedup_len d = card (dd_seen d)"

definition dedup_is_empty :: "url_deduplicator \<Rightarrow> bool" where
  "dedup_is_empty d = (dd_seen d = {})"

section \<open>Concurrency level\<close>

datatype concurrency_level = Normal | Reduced | Critical

text \<open>The level lives in an atomic machine word; \<open>level_set\<close> stores and \<open>level_get\<close> reads it.\<close>

definition level_set :: "concurrency_level \<Rightarrow> nat" where
  "level_set l = (case l of Normal \<Rightarrow> 0 | Reduced \<Rightarrow> 1 | Critical \<Rightarrow> 2)"

definition level_get :: "nat \<Rightarrow> concurrency_level" where
  "level_get v = (if v = 0 then Normal else if v = 1 then Reduced else Critical)"

definition level_effective_concurrency :: "nat \<Rightarrow> nat \<Rightarrow> nat" where
  "level_effective_concurrency v base =
     (case level_get v of Normal \<Rightarrow> base | Reduced \<Rightarrow> base div 2 | Critical \<Rightarrow> 0)"

section \<open>Scheduler\<close>

record crawl_scheduler =
  visited :: url_deduplicator
  visited_urls :: "string list"
  queue :: url_queue
  pending :: "discovered_url list"
  base_concurrency :: nat
  autoscale_level :: "nat option"

definition scheduler_new :: "nat \<Rightarrow> crawl_scheduler" where
  "scheduler_new base =
     \<lparr>visited = dedup_new, visited_urls = [], queue = queue_new, pending = [], base_concurrency = base,
      autoscale_level = None\<rparr>"

definition set_autoscale :: "nat \<Rightarrow> crawl_scheduler \<Rightarrow> crawl_scheduler" where
  "set_autoscale level s = s\<lparr>autoscale_level := Some level\<rparr>"

definition record_visit :: "'u url_env \<Rightarrow> string \<Rightarrow> crawl_scheduler \<Rightarrow> crawl_scheduler \<times> bool" where
  "record_visit e u s =
     (let (v, fresh) = try_insert e u (visited s) in
      if fresh then (s\<lparr>visited := v, visited_urls := visited_urls s @ [u]\<rparr>, True)
      else (s\<lparr>visited := v\<rparr>, False))"

fun restore_visited :: "'u url_env \<Rightarrow> string list \<Rightarrow> crawl_scheduler \<Rightarrow> crawl_scheduler" where
  "restore_visited e [] s = s"
| "restore_visited e (u # us) s = restore_visited e us (fst (record_visit e u s))"

definition snapshot_visited :: "crawl_scheduler \<Rightarrow> string set" where
  "snapshot_visited s = set (visited_urls s)"

definition snapshot_pending_bounded :: "nat \<Rightarrow> crawl_scheduler \<Rightarrow> string list \<times> crawl_scheduler" where
  "snapshot_pending_bounded budget s =
     (let urls = map du_url (pending s);
          remaining = budget - length urls;
          (more, q) = snapshot_urls_bounded remaining (queue s)
      in (take budget (urls @ more), s\<lparr>queue := q\<rparr>))"

fun restore_pending :: "'u url_env \<Rightarrow> string list \<Rightarrow> crawl_scheduler \<Rightarrow> crawl_scheduler" where
  "restore_pending e [] s = s"
| "restore_pending e (raw # rest) s =
     (case parse_url e raw of
        None \<Rightarrow> restore_pending e rest s
      | Some u \<Rightarrow> restore_pending e rest (s\<lparr>pending := pending s @ [discovered_html u 0 u]\<rparr>))"

definition seed :: "'u url_env \<Rightarrow> string \<Rightarrow> crawl_scheduler \<Rightarrow> crawl_scheduler" where
  "seed e u s =
     (let d = discovered_html u 0 u;
          q = fst (push_prioritized (canon e) (queue_hash e) d Seed (queue s))
      in s\<lparr>queue := q, pending := pending s @ [d]\<rparr>)"

definition drain_discovered :: "crawl_scheduler \<Rightarrow> crawl_scheduler" where
  "drain_discovered s =
     (let (ds, q) = drain_all (queue s) in s\<lparr>queue := q, pending := pending s @ ds\<rparr>)"

definition has_pending_work :: "crawl_scheduler \<Rightarrow> bool" where
  "has_pending_work s = (pending s \<noteq> [])"

definition effective_concurrency :: "crawl_scheduler \<Rightarrow> nat" where
  "effective_concurrency s =
     (case autoscale_level s of
        Some level \<Rightarrow> level_effective_concurrency level (base_concurrency s)
      | None \<Rightarrow> base_concurrency s)"

definition can_spawn :: "nat \<Rightarrow> crawl_scheduler \<Rightarrow> bool" where
  "can_spawn in_flight s = (in_flight < effective_concurrency s)"

text \<open>The loop \<^verbatim>\<open>while let Some(discovered) = self.pending.pop_front()\<close>.\<close>

fun next_fresh ::
  "'u url_env \<Rightarrow> discovered_url list \<Rightarrow> crawl_scheduler \<Rightarrow> discovered_url option \<times> crawl_scheduler" where
  "next_fresh e [] s = (None, s\<lparr>pending := []\<rparr>)"
| "next_fresh e (d # ds) s =
     (case record_visit e (du_url d) (s\<lparr>pending := ds\<rparr>) of
        (s1, True) \<Rightarrow> (Some d, s1)
      | (s1, False) \<Rightarrow> next_fresh e ds s1)"

definition next_url :: "'u url_env \<Rightarrow> nat \<Rightarrow> crawl_scheduler \<Rightarrow> discovered_url option \<times> crawl_scheduler" where
  "next_url e in_flight s =
     (if \<not> can_spawn in_flight s then (None, s) else next_fresh e (pending s) s)"

section \<open>Runs\<close>

inductive crawl_step ::
  "'u url_env \<Rightarrow> crawl_scheduler \<times> discovered_url list \<Rightarrow> crawl_scheduler \<times> discovered_url list \<Rightarrow> bool"
  for e where
  do_seed: "crawl_step e (s, out) (seed e u s, out)"
| task_push: "crawl_step e (s, out)
    (s\<lparr>queue := fst (push_prioritized (canon e) (queue_hash e) d source (queue s))\<rparr>, out)"
| do_drain: "crawl_step e (s, out) (drain_discovered s, out)"
| do_restore_visited: "crawl_step e (s, out) (restore_visited e us s, out)"
| do_restore_pending: "crawl_step e (s, out) (restore_pending e us s, out)"
| poll_level: "crawl_step e (s, out) (set_autoscale level s, out)"
| do_snapshot: "crawl_step e (s, out) (snd (snapshot_pending_bounded budget s), out)"
| hand_out: "next_url e in_flight s = (Some d, s') \<Longrightarrow> crawl_step e (s, out) (s', out @ [d])"
| no_work: "next_url e in_flight s = (None, s') \<Longrightarrow> crawl_step e (s, out) (s', out)"

abbreviation digest :: "'u url_env \<Rightarrow> string \<Rightarrow> u64" where
  "digest e u \<equiv> visit_hash e (canon e u)"

text \<open>The invariant: the seen set is the digests of the visited mirror, without repetition, and holds every page handed out.\<close>

definition crawl_inv :: "'u url_env \<Rightarrow> crawl_scheduler \<times> discovered_url list \<Rightarrow> bool" where
  "crawl_inv e = (\<lambda>(s, out).
     queue_wf (canon e) (queue_hash e) (queue s)
     \<and> dd_seen (visited s) = set (map (digest e) (visited_urls s))
     \<and> distinct (map (digest e) (visited_urls s))
     \<and> distinct (map (\<lambda>d. digest e (du_url d)) out)
     \<and> set (map du_url out) \<subseteq> set (visited_urls s))"

text \<open>Pages with a digest not seen before, first occurrences only, in order.\<close>

fun first_fresh :: "'u url_env \<Rightarrow> u64 set \<Rightarrow> discovered_url list \<Rightarrow> discovered_url list" where
  "first_fresh e seen [] = []"
| "first_fresh e seen (d # ds) =
     (if digest e (du_url d) \<in> seen then first_fresh e seen ds
      else d # first_fresh e (insert (digest e (du_url d)) seen) ds)"

text \<open>Calling \<^verbatim>\<open>next_url\<close> as long as it hands out pages, at most \<open>n\<close> times.\<close>

fun next_n :: "'u url_env \<Rightarrow> nat \<Rightarrow> nat \<Rightarrow> crawl_scheduler \<Rightarrow> discovered_url list \<times> crawl_scheduler" where
  "next_n e in_flight 0 s = ([], s)"
| "next_n e in_flight (Suc n) s =
     (case next_url e in_flight s of
        (None, s1) \<Rightarrow> ([], s1)
      | (Some d, s1) \<Rightarrow> (let (ds, s2) = next_n e in_flight n s1 in (d # ds, s2)))"

text \<open>An environment for witnesses: the digest of a URL is its length.\<close>

definition small_env :: "small_url url_env" where
  "small_env = \<lparr>url_lib = small_api, url_norm = \<lambda>opts u. Some u,
     visit_hash = \<lambda>u. of_nat (length u), queue_hash = \<lambda>u. of_nat (length u)\<rparr>"

section \<open>Single steps\<close>

lemma record_visit_eq:
  "record_visit e u s =
     (if digest e u \<in> dd_seen (visited s) then (s, False)
      else (s\<lparr>visited := \<lparr>dd_seen = insert (digest e u) (dd_seen (visited s))\<rparr>,
              visited_urls := visited_urls s @ [u]\<rparr>, True))"
  by (cases "visited s") (auto simp: record_visit_def try_insert_def Let_def insert_absorb)

lemma record_visit_inv:
  "crawl_inv e (s, out) \<Longrightarrow> crawl_inv e (fst (record_visit e u s), out)"
  by (auto simp: crawl_inv_def record_visit_eq)

lemma restore_visited_inv: "crawl_inv e (s, out) \<Longrightarrow> crawl_inv e (restore_visited e us s, out)"
  by (induction e us s rule: restore_visited.induct) (auto dest: record_visit_inv)

lemma crawl_inv_pending: "crawl_inv e (s\<lparr>pending := p\<rparr>, out) = crawl_inv e (s, out)"
  by (simp add: crawl_inv_def)

lemma restore_pending_inv: "crawl_inv e (s, out) \<Longrightarrow> crawl_inv e (restore_pending e us s, out)"
  by (induction e us s rule: restore_pending.induct) (auto simp: crawl_inv_pending split: option.splits)

lemma crawl_inv_queue:
  "crawl_inv e (s, out) \<Longrightarrow> queue_wf (canon e) (queue_hash e) q \<Longrightarrow> crawl_inv e (s\<lparr>queue := q\<rparr>, out)"
  by (simp add: crawl_inv_def)

lemma next_fresh_inv:
  assumes "crawl_inv e (s, out)" and "next_fresh e ds s = (r, s')"
  shows "case r of Some d \<Rightarrow> crawl_inv e (s', out @ [d]) | None \<Rightarrow> crawl_inv e (s', out)"
  using assms
proof (induction ds arbitrary: s)
  case Nil
  then show ?case by (auto simp: crawl_inv_pending)
next
  case (Cons d ds)
  show ?case
  proof (cases "digest e (du_url d) \<in> dd_seen (visited s)")
    case True
    with Cons.prems have "next_fresh e ds (s\<lparr>pending := ds\<rparr>) = (r, s')" by (simp add: record_visit_eq)
    with Cons.IH [of "s\<lparr>pending := ds\<rparr>"] Cons.prems(1) show ?thesis by (simp add: crawl_inv_pending)
  next
    case False
    with Cons.prems have r: "r = Some d" "s' = s\<lparr>pending := ds,
        visited := \<lparr>dd_seen = insert (digest e (du_url d)) (dd_seen (visited s))\<rparr>,
        visited_urls := visited_urls s @ [du_url d]\<rparr>"
      by (simp_all add: record_visit_eq)
    have "digest e (du_url d) \<notin> (\<lambda>d. digest e (du_url d)) ` set out"
      using False Cons.prems(1) by (auto simp: crawl_inv_def)
    with r False Cons.prems(1) show ?thesis by (auto simp: crawl_inv_def)
  qed
qed

lemma next_url_inv:
  assumes "crawl_inv e (s, out)" and "next_url e n s = (r, s')"
  shows "case r of Some d \<Rightarrow> crawl_inv e (s', out @ [d]) | None \<Rightarrow> crawl_inv e (s', out)"
  using assms next_fresh_inv [OF assms(1)] by (auto simp: next_url_def split: if_splits)

lemma drained_wf: "queue_wf c h q \<Longrightarrow> queue_wf c h (q\<lparr>q_heap := []\<rparr>)"
  by (simp add: queue_wf_def heap_ok_def)

lemma crawl_inv_queue_wf: "crawl_inv e (s, out) \<Longrightarrow> queue_wf (canon e) (queue_hash e) (queue s)"
  by (simp add: crawl_inv_def)

lemma drain_discovered_eq:
  assumes "crawl_inv e (s, out)"
  shows "drain_discovered s =
     s\<lparr>queue := (queue s)\<lparr>q_heap := []\<rparr>, pending := pending s @ map pu_url (q_heap (queue s))\<rparr>"
  by (simp add: drain_discovered_def drain_all_eq [OF crawl_inv_queue_wf [OF assms]])

lemma snapshot_pending_bounded_keeps:
  assumes "crawl_inv e (s, out)"
  shows "snd (snapshot_pending_bounded budget s) = s"
  by (simp add: snapshot_pending_bounded_def Let_def snapshot_urls_bounded_eq [OF crawl_inv_queue_wf [OF assms]])

lemma crawl_step_inv: "crawl_step e x y \<Longrightarrow> crawl_inv e x \<Longrightarrow> crawl_inv e y"
proof (induction rule: crawl_step.induct)
  case (do_drain s out)
  then show ?case
    by (simp add: drain_discovered_eq) (simp add: crawl_inv_def drained_wf)
next
  case (hand_out in_flight s d s' out)
  then show ?case by (auto dest: next_url_inv)
next
  case (no_work in_flight s s' out)
  then show ?case by (auto dest: next_url_inv)
next
  case (do_seed s out u)
  then show ?case by (simp add: seed_def Let_def crawl_inv_def push_wf)
next
  case (task_push s out d source)
  then show ?case by (simp add: crawl_inv_def push_wf)
next
  case (poll_level s out level)
  then show ?case by (simp add: set_autoscale_def crawl_inv_def)
qed (simp_all add: snapshot_pending_bounded_keeps restore_visited_inv restore_pending_inv)

lemma crawl_inv_new: "crawl_inv e (scheduler_new base, [])"
  by (simp add: crawl_inv_def scheduler_new_def dedup_new_def queue_new_wf)

lemma crawl_reachable_inv:
  "(crawl_step e)\<^sup>*\<^sup>* x y \<Longrightarrow> crawl_inv e x \<Longrightarrow> crawl_inv e y"
  by (induction rule: rtranclp_induct) (auto intro: crawl_step_inv)

section \<open>Handing out\<close>

lemma can_spawn_cong:
  "autoscale_level s' = autoscale_level s \<Longrightarrow> base_concurrency s' = base_concurrency s \<Longrightarrow>
   can_spawn k s' = can_spawn k s"
  by (cases "autoscale_level s") (simp_all add: can_spawn_def effective_concurrency_def)

lemma next_fresh_first:
  assumes "next_fresh e ds s = (r, s')"
  shows "first_fresh e (dd_seen (visited s)) ds =
     (case r of None \<Rightarrow> [] | Some d \<Rightarrow> d # first_fresh e (dd_seen (visited s')) (pending s'))
     \<and> (case r of None \<Rightarrow> pending s' = [] | Some d \<Rightarrow> length (pending s') < length ds)
     \<and> autoscale_level s' = autoscale_level s \<and> base_concurrency s' = base_concurrency s"
  using assms
proof (induction ds arbitrary: s)
  case (Cons d ds)
  show ?case
  proof (cases "digest e (du_url d) \<in> dd_seen (visited s)")
    case True
    with Cons.prems have "next_fresh e ds (s\<lparr>pending := ds\<rparr>) = (r, s')" by (simp add: record_visit_eq)
    from Cons.IH [OF this] True show ?thesis
      by (auto split: option.splits)
  next
    case False
    with Cons.prems show ?thesis by (auto simp: record_visit_eq)
  qed
qed auto

lemma next_n_first:
  "can_spawn k s \<Longrightarrow> length (pending s) < n \<Longrightarrow>
   next_n e k n s = (ds, s') \<Longrightarrow> ds = first_fresh e (dd_seen (visited s)) (pending s) \<and> pending s' = []"
proof (induction n arbitrary: s ds s')
  case (Suc n)
  obtain r s1 where f: "next_fresh e (pending s) s = (r, s1)" by (metis surj_pair)
  note first = next_fresh_first [OF f]
  have "can_spawn k s1" using first can_spawn_cong Suc.prems(1) by blast
  show ?case
  proof (cases r)
    case None
    with Suc.prems f first show ?thesis by (auto simp: next_url_def)
  next
    case (Some d)
    obtain ds2 s2 where n: "next_n e k n s1 = (ds2, s2)" by (metis surj_pair)
    from Suc.IH [OF \<open>can_spawn k s1\<close> _ n] Suc.prems first Some
    have "ds2 = first_fresh e (dd_seen (visited s1)) (pending s1) \<and> pending s2 = []" by simp
    with Suc.prems f first Some n show ?thesis by (auto simp: next_url_def)
  qed
qed simp

lemma first_fresh_spec:
  "(\<lambda>d. digest e (du_url d)) ` set (first_fresh e seen ds) = (\<lambda>d. digest e (du_url d)) ` set ds - seen
   \<and> distinct (map (\<lambda>d. digest e (du_url d)) (first_fresh e seen ds)) \<and> set (first_fresh e seen ds) \<subseteq> set ds"
  by (induction e seen ds rule: first_fresh.induct) auto

text \<open>
  No page is crawled twice: in every run of the scheduler, with links pushed by page tasks, drains,
  checkpoint restores, snapshots and level changes interleaved in any order, the pages handed out have
  pairwise distinct digests and are all in the visited snapshot that a checkpoint persists; that snapshot
  has exactly one URL for each digest of the seen set.
\<close>

theorem no_page_is_handed_out_twice:
  assumes "(crawl_step e)\<^sup>*\<^sup>* (scheduler_new base, []) (s, out)"
  shows "distinct (map (\<lambda>d. digest e (du_url d)) out)
    \<and> set (map du_url out) \<subseteq> snapshot_visited s
    \<and> dd_seen (visited s) = digest e ` snapshot_visited s
    \<and> card (snapshot_visited s) = dedup_len (visited s)"
proof -
  from crawl_reachable_inv [OF assms crawl_inv_new] have inv: "crawl_inv e (s, out)" .
  then have "inj_on (digest e) (set (visited_urls s))" by (simp add: crawl_inv_def distinct_map)
  with inv show ?thesis
    by (simp add: crawl_inv_def snapshot_visited_def dedup_len_def card_image)
qed

theorem no_page_is_handed_out_twice_witness:
  "set (map du_url [discovered_html ''https://h/a'' 0 ''https://h/a''])
     \<subseteq> snapshot_visited (snd (next_url small_env 0
         (seed small_env ''https://h/a'' (scheduler_new 1))))"
proof -
  let ?e = small_env
  let ?s = "seed ?e ''https://h/a'' (scheduler_new 1)"
  have "fst (next_url ?e 0 ?s) = Some (discovered_html ''https://h/a'' 0 ''https://h/a'')"
    by (simp add: next_url_def can_spawn_def effective_concurrency_def seed_def scheduler_new_def dedup_new_def
        record_visit_eq discovered_html_def Let_def)
  then have "next_url ?e 0 ?s = (Some (discovered_html ''https://h/a'' 0 ''https://h/a''), snd (next_url ?e 0 ?s))"
    by (metis prod.collapse)
  then have "crawl_step ?e (?s, []) (snd (next_url ?e 0 ?s), [] @ [discovered_html ''https://h/a'' 0 ''https://h/a''])"
    by (rule hand_out)
  then have "(crawl_step ?e)\<^sup>*\<^sup>* (scheduler_new 1, []) (snd (next_url ?e 0 ?s), [discovered_html ''https://h/a'' 0 ''https://h/a''])"
    using do_seed [of ?e "scheduler_new 1" "[]" "''https://h/a''"] by (simp add: converse_rtranclp_into_rtranclp)
  then show ?thesis
    by (rule no_page_is_handed_out_twice [THEN conjunct2, THEN conjunct1])
qed

text \<open>
  C12. No pending page is lost: while the concurrency limit lets pages through, calling \<^verbatim>\<open>next_url\<close> at most
  one time more than there are pending pages empties the buffer and hands out, in buffer order, the
  first page of every digest not visited before; every pending page's digest is then visited or handed out.
\<close>

theorem every_fresh_page_is_handed_out:
  assumes "can_spawn k s" and "length (pending s) < n" and "next_n e k n s = (ds, s')"
  shows "ds = first_fresh e (dd_seen (visited s)) (pending s) \<and> pending s' = []
    \<and> (\<lambda>d. digest e (du_url d)) ` set ds = (\<lambda>d. digest e (du_url d)) ` set (pending s) - dd_seen (visited s)
    \<and> distinct (map (\<lambda>d. digest e (du_url d)) ds)"
  using next_n_first [OF assms] first_fresh_spec [of e "dd_seen (visited s)" "pending s"] by simp

theorem every_fresh_page_is_handed_out_witness:
  "pending (snd (next_n small_env 0 2
       (seed small_env ''https://h/a'' (scheduler_new 1)))) = []"
  by (rule every_fresh_page_is_handed_out [OF _ _ surjective_pairing, THEN conjunct2, THEN conjunct1])
    (simp_all add: can_spawn_def effective_concurrency_def seed_def scheduler_new_def Let_def)

text \<open>
  The spawn limit: a page is handed out only below the base concurrency, whatever the autoscale word
  holds. At the reduced level the limit is rounded down, so a crawl whose base concurrency is one hands
  out nothing there: it pauses as at the critical level.
\<close>

theorem spawn_limit_and_reduced_pause:
  "(fst (next_url e k s) \<noteq> None \<longrightarrow> k < base_concurrency s)
   \<and> (autoscale_level s = Some (level_set Reduced) \<and> base_concurrency s = 1 \<longrightarrow> next_url e k s = (None, s))"
  by (auto simp: next_url_def can_spawn_def effective_concurrency_def level_effective_concurrency_def
      level_get_def level_set_def split: if_splits option.splits concurrency_level.splits)

theorem spawn_limit_and_reduced_pause_witness:
  "next_url small_env 0
      (restore_pending small_env [''https://h/a'']
         (set_autoscale (level_set Reduced) (scheduler_new 1)))
   = (None, restore_pending small_env [''https://h/a'']
         (set_autoscale (level_set Reduced) (scheduler_new 1)))"
  by (rule spawn_limit_and_reduced_pause [THEN conjunct2, rule_format])
    (simp add: set_autoscale_def scheduler_new_def parse_url_def split: option.split)

end
