(* ===== verification/Crawl_Task.thy ===== *)
theory Crawl_Task
  imports Error_Taxonomy Checkpoint Session_Pool Cookie_Bridge Pattern_Matching Crawl_Scheduler
begin

text \<open>
  One page of a crawl: \<^verbatim>\<open>application/crawler/crawl_task.rs\<close>, with the error categories of
  \<^verbatim>\<open>domain/error/crawl_error_category.rs\<close> and the results channel of \<^verbatim>\<open>application/crawler/collector.rs\<close>.
  A task is a state machine whose phases are the points at which the source awaits; between two such
  points it changes the state it shares with the engine and with the other tasks. What the network, the
  robots checker, the link extractor and the content pipeline answer is arbitrary in each step.
\<close>

section \<open>Errors\<close>

datatype crawl_error_category = Waf | HttpStatus | Timeout | NetworkLevel | RateLimit | Extraction | InternalError | Panic

definition category_index :: "crawl_error_category \<Rightarrow> nat" where
  "category_index cat =
     (case cat of Waf \<Rightarrow> 0 | HttpStatus \<Rightarrow> 1 | Timeout \<Rightarrow> 2 | NetworkLevel \<Rightarrow> 3 | RateLimit \<Rightarrow> 4 | Extraction \<Rightarrow> 5
        | InternalError \<Rightarrow> 6 | Panic \<Rightarrow> 7)"

definition is_waf_status :: "u16 \<Rightarrow> bool" where
  "is_waf_status s = (s = 401 \<or> s = 403 \<or> s = 429)"

definition category_of :: "crawl_error \<Rightarrow> crawl_error_category" where
  "category_of err =
     (case err of
        crawl_error.WafChallenge _ _ _ \<Rightarrow> Waf
      | crawl_error.Http s _ \<Rightarrow> if is_waf_status s then Waf else HttpStatus
      | crawl_error.TransientHttp s _ \<Rightarrow> if is_waf_status s then Waf else HttpStatus
      | crawl_error.Timeout \<Rightarrow> crawl_error_category.Timeout
      | crawl_error.Network _ (Some s) \<Rightarrow> if s = 401 \<or> s = 403 then Waf else if s = 429 then RateLimit else NetworkLevel
      | crawl_error.Network _ None \<Rightarrow> NetworkLevel
      | crawl_error.Connection _ \<Rightarrow> NetworkLevel
      | crawl_error.Download _ \<Rightarrow> NetworkLevel
      | crawl_error.RateLimited _ \<Rightarrow> RateLimit
      | crawl_error.Parse _ \<Rightarrow> crawl_error_category.Extraction
      | crawl_error.InvalidContentType _ \<Rightarrow> crawl_error_category.Extraction
      | crawl_error.RequestFailed _ \<Rightarrow> HttpStatus
      | _ \<Rightarrow> InternalError)"

text \<open>The message of a WAF challenge, however the error carries it.\<close>

definition waf_challenge_message :: "crawl_error \<Rightarrow> string option" where
  "waf_challenge_message err =
     (case err of
        crawl_error.WafChallenge provider _ _ \<Rightarrow> Some provider
      | crawl_error.Download source \<Rightarrow>
          (case source of DynDownload (download_error.WafChallenge chain) \<Rightarrow> Some chain | _ \<Rightarrow> None)
      | other \<Rightarrow> if contains_str ''WAF'' (crawl_to_string other) then Some (crawl_to_string other) else None)"

section \<open>Shared state\<close>

record fetch_outcome =
  fo_body :: string
  fo_final_url :: string
  fo_cookies :: "cookie list"
  fo_status :: u16

record 'u crawl_ctx =
  cx_env :: "'u url_env"
  cx_glob :: globber
  cx_patterns :: crawler_patterns
  cx_seed_url :: string
  cx_max_depth :: u8
  cx_max_pages :: nat
  cx_ignore_robots :: bool
  cx_pool :: "(pool_config \<times> nat) option"
  cx_sink :: bool
  cx_pipeline :: bool
  cx_capacity :: nat

text \<open>
  What the tasks and the engine share. \<open>sh_offered\<close> is no variable of the program: it lists the URLs that
  were offered to the queue.
\<close>

record crawl_shared =
  sh_sched :: crawl_scheduler
  sh_pool :: domain_map
  sh_error_count :: nat
  sh_error_breakdown :: "nat list"
  sh_pages_crawled :: u64
  sh_banned :: "banned_domain list"
  sh_cookies :: cookie_bridge
  sh_captured :: "(string \<times> string) list"
  sh_written :: "string list"
  sh_counter :: nat
  sh_chan :: "discovered_url list"
  sh_results :: "discovered_url list"
  sh_cancelled :: bool
  sh_offered :: "string list"

definition count_error :: "crawl_error_category \<Rightarrow> crawl_shared \<Rightarrow> crawl_shared" where
  "count_error cat sh =
     sh\<lparr>sh_error_count := sh_error_count sh + 1,
        sh_error_breakdown := (sh_error_breakdown sh)
          [category_index cat := sh_error_breakdown sh ! category_index cat + 1]\<rparr>"

datatype task_result = TaskOk | TaskErr crawl_error | TaskAborted | TaskPanicked

definition handle_task_error :: "crawl_error \<Rightarrow> crawl_shared \<Rightarrow> crawl_shared" where
  "handle_task_error e sh = (if e = crawl_error.Cancelled then sh else count_error (category_of e) sh)"

definition handle_join_error :: "bool \<Rightarrow> crawl_shared \<Rightarrow> crawl_shared" where
  "handle_join_error is_cancelled sh = (if is_cancelled then sh else count_error Panic sh)"

definition handle_crawl_result :: "task_result \<Rightarrow> crawl_shared \<Rightarrow> crawl_shared" where
  "handle_crawl_result r sh =
     (case r of
        TaskOk \<Rightarrow> sh
      | TaskErr e \<Rightarrow> handle_task_error e sh
      | TaskAborted \<Rightarrow> handle_join_error True sh
      | TaskPanicked \<Rightarrow> handle_join_error False sh)"

section \<open>Steps of a page\<close>

definition host_of :: "'u crawl_ctx \<Rightarrow> string \<Rightarrow> string option" where
  "host_of cx u = extract_domain (url_lib (cx_env cx)) u"

text \<open>\<open>None\<close> skips the page; \<open>Some\<close> carries the session, if there is a pool.\<close>

definition acquire_session ::
  "'u crawl_ctx \<Rightarrow> nat \<Rightarrow> string \<Rightarrow> crawl_shared \<Rightarrow> nat option option \<times> crawl_shared" where
  "acquire_session cx now url_str sh =
     (case cx_pool cx of
        None \<Rightarrow> (Some None, sh)
      | Some (cfg, anchor) \<Rightarrow>
          (let domain = unwrap_or (host_of cx url_str) [] in
           case Session_Pool.acquire cfg anchor now domain (sh_pool sh) of
             (Some i, m) \<Rightarrow> (Some (Some i), sh\<lparr>sh_pool := m\<rparr>)
           | (None, m) \<Rightarrow> (None, sh\<lparr>sh_pool := m\<rparr>)))"

definition ban_waf_domain :: "'u crawl_ctx \<Rightarrow> string \<Rightarrow> string \<Rightarrow> crawl_shared \<Rightarrow> crawl_shared" where
  "ban_waf_domain cx parsed_url waf_msg sh =
     (case host_of cx parsed_url of
        None \<Rightarrow> sh
      | Some domain \<Rightarrow>
          if list_ex (\<lambda>d. bd_domain d = domain) (sh_banned sh) then sh
          else sh\<lparr>sh_banned := sh_banned sh @ [\<lparr>bd_domain = domain, bd_banned_until = None, bd_reason = waf_msg\<rparr>]\<rparr>)"

text \<open>The error arm of \<^verbatim>\<open>fetch_page\<close>.\<close>

definition fetch_page_failed :: "'u crawl_ctx \<Rightarrow> string \<Rightarrow> crawl_error \<Rightarrow> crawl_shared \<Rightarrow> crawl_shared" where
  "fetch_page_failed cx parsed_url e sh =
     (case waf_challenge_message e of
        Some msg \<Rightarrow> ban_waf_domain cx parsed_url msg sh
      | None \<Rightarrow> sh)"

definition ingest_cookies :: "cookie list \<Rightarrow> crawl_shared \<Rightarrow> crawl_shared" where
  "ingest_cookies cs sh = (if cs = [] then sh else sh\<lparr>sh_cookies := fold cookie_add cs (sh_cookies sh)\<rparr>)"

definition report_session_success :: "'u crawl_ctx \<Rightarrow> nat \<Rightarrow> string \<Rightarrow> nat option \<Rightarrow> crawl_shared \<Rightarrow> crawl_shared" where
  "report_session_success cx now url_str session_id sh =
     (if cx_pool cx = None then sh
      else (case session_id of
              None \<Rightarrow> sh
            | Some i \<Rightarrow>
                (case host_of cx url_str of
                   None \<Rightarrow> sh
                 | Some domain \<Rightarrow> sh\<lparr>sh_pool := report_success now domain i (sh_pool sh)\<rparr>)))"

definition capture_content :: "'u crawl_ctx \<Rightarrow> string \<Rightarrow> string \<Rightarrow> crawl_shared \<Rightarrow> crawl_shared" where
  "capture_content cx url_str response sh =
     (if cx_sink cx then sh\<lparr>sh_captured := sh_captured sh @ [(url_str, response)]\<rparr> else sh)"

text \<open>What a fetched page does before the pipeline: cookies, session, page counter, capture.\<close>

definition after_fetch :: "'u crawl_ctx \<Rightarrow> nat \<Rightarrow> string \<Rightarrow> nat option \<Rightarrow> fetch_outcome \<Rightarrow> crawl_shared \<Rightarrow> crawl_shared" where
  "after_fetch cx now url_str session_id fo sh =
     (let sh1 = report_session_success cx now url_str session_id (ingest_cookies (fo_cookies fo) sh);
          sh2 = sh1\<lparr>sh_pages_crawled := sh_pages_crawled sh1 + 1\<rparr>
      in capture_content cx (fo_final_url fo) (fo_body fo) sh2)"

datatype stage_outcome = Continue | Filtered | Rejected | StageFailed

text \<open>With no pipeline the page goes on and nothing is written.\<close>

definition run_pipeline :: "'u crawl_ctx \<Rightarrow> stage_outcome \<Rightarrow> string \<Rightarrow> crawl_shared \<Rightarrow> bool \<times> crawl_shared" where
  "run_pipeline cx outcome url_str sh =
     (if \<not> cx_pipeline cx then (True, sh)
      else (case outcome of
              Continue \<Rightarrow> (True, sh\<lparr>sh_written := sh_written sh @ [url_str]\<rparr>)
            | Filtered \<Rightarrow> (False, sh)
            | Rejected \<Rightarrow> (False, sh)
            | StageFailed \<Rightarrow> (False, sh)))"

definition enqueue :: "'u crawl_ctx \<Rightarrow> discovered_url \<Rightarrow> url_source \<Rightarrow> crawl_shared \<Rightarrow> crawl_shared" where
  "enqueue cx d source sh =
     (let s = sh_sched sh in
      sh\<lparr>sh_sched := s\<lparr>queue := fst (push_prioritized (canon (cx_env cx)) (queue_hash (cx_env cx)) d source (queue s))\<rparr>,
         sh_offered := sh_offered sh @ [du_url d]\<rparr>)"

text \<open>One round of the loop over the links of a page; \<open>robots\<close> is the checker's answer.\<close>

definition queue_link ::
  "'u crawl_ctx \<Rightarrow> bool \<Rightarrow> u8 \<Rightarrow> string \<Rightarrow> string \<Rightarrow> crawl_shared \<Rightarrow> crawl_shared" where
  "queue_link cx robots url_depth parent_url link sh =
     (case parse_url (cx_env cx) link of
        None \<Rightarrow> sh
      | Some parsed_link \<Rightarrow>
          (case host_of cx (cx_seed_url cx) of
             None \<Rightarrow> sh
           | Some seed_domain \<Rightarrow>
               if is_internal_link (url_lib (cx_env cx)) link seed_domain
                  \<and> is_allowed (url_lib (cx_env cx)) (cx_glob cx) link (cx_patterns cx)
                  \<and> (cx_ignore_robots cx \<or> robots)
               then enqueue cx (discovered_html parsed_link (url_depth + 1) parent_url) Link sh
               else sh))"

section \<open>The state machine\<close>

datatype task_phase =
    Pacing
  | Fetching "nat option"
  | Piping fetch_outcome
  | Sending fetch_outcome
  | Delivering fetch_outcome
  | Linking fetch_outcome "string list"
  | Done task_result

record page_task =
  tk_url :: discovered_url
  tk_phase :: task_phase

definition result_url :: "discovered_url \<Rightarrow> fetch_outcome \<Rightarrow> discovered_url" where
  "result_url d fo = d\<lparr>du_url := fo_final_url fo\<rparr>"

inductive task_step ::
  "'u crawl_ctx \<Rightarrow> discovered_url \<Rightarrow> crawl_shared \<times> task_phase \<Rightarrow> crawl_shared \<times> task_phase \<Rightarrow> bool"
  for cx d where
  t_cancelled: "sh_cancelled sh \<Longrightarrow> task_step cx d (sh, Pacing) (sh, Done (TaskErr crawl_error.Cancelled))"
| t_no_session: "acquire_session cx now (du_url d) sh = (None, sh1) \<Longrightarrow>
    task_step cx d (sh, Pacing) (sh1, Done TaskOk)"
| t_session: "acquire_session cx now (du_url d) sh = (Some session, sh1) \<Longrightarrow>
    parse_url (cx_env cx) (du_url d) \<noteq> None \<Longrightarrow> task_step cx d (sh, Pacing) (sh1, Fetching session)"
| t_invalid: "acquire_session cx now (du_url d) sh = (Some session, sh1) \<Longrightarrow>
    parse_url (cx_env cx) (du_url d) = None \<Longrightarrow>
    task_step cx d (sh, Pacing) (sh1, Done (TaskErr (crawl_error.Internal msg)))"
| t_fetch_failed: "task_step cx d (sh, Fetching session)
    (fetch_page_failed cx (du_url d) e sh, Done (TaskErr e))"
| t_fetched: "task_step cx d (sh, Fetching session) (after_fetch cx now (du_url d) session fo sh, Piping fo)"
| t_piped: "run_pipeline cx outcome (fo_final_url fo) sh = (True, sh1) \<Longrightarrow>
    task_step cx d (sh, Piping fo) (sh1, Sending fo)"
| t_skipped: "run_pipeline cx outcome (fo_final_url fo) sh = (False, sh1) \<Longrightarrow>
    task_step cx d (sh, Piping fo) (sh1, Done TaskOk)"
| t_count: "task_step cx d (sh, Sending fo) (sh\<lparr>sh_counter := sh_counter sh + 1\<rparr>, Delivering fo)"
| t_deliver: "length (sh_chan sh) < cx_capacity cx \<Longrightarrow>
    task_step cx d (sh, Delivering fo)
      (sh\<lparr>sh_chan := sh_chan sh @ [result_url d fo]\<rparr>, Linking fo (if du_depth d \<ge> cx_max_depth cx then [] else links))"
| t_extract_failed: "length (sh_chan sh) < cx_capacity cx \<Longrightarrow> du_depth d < cx_max_depth cx \<Longrightarrow>
    task_step cx d (sh, Delivering fo)
      (count_error Extraction (sh\<lparr>sh_chan := sh_chan sh @ [result_url d fo]\<rparr>), Done TaskOk)"
| t_link: "task_step cx d (sh, Linking fo (link # links))
    (queue_link cx robots (du_depth d) (fo_final_url fo) link sh, Linking fo links)"
| t_done: "task_step cx d (sh, Linking fo []) (sh, Done TaskOk)"

section \<open>What a page step changes\<close>

lemma acquire_session_frame:
  assumes "acquire_session cx now u sh = (r, sh1)"
  shows "sh_sched sh1 = sh_sched sh \<and> sh_counter sh1 = sh_counter sh \<and> sh_chan sh1 = sh_chan sh
    \<and> sh_results sh1 = sh_results sh \<and> sh_offered sh1 = sh_offered sh
    \<and> sh_error_count sh1 = sh_error_count sh \<and> sh_error_breakdown sh1 = sh_error_breakdown sh"
  using assms by (auto simp: acquire_session_def Let_def split: option.splits prod.splits)

lemma fetch_page_failed_frame [simp]:
  "sh_sched (fetch_page_failed cx u e sh) = sh_sched sh" "sh_counter (fetch_page_failed cx u e sh) = sh_counter sh"
  "sh_chan (fetch_page_failed cx u e sh) = sh_chan sh" "sh_results (fetch_page_failed cx u e sh) = sh_results sh"
  "sh_offered (fetch_page_failed cx u e sh) = sh_offered sh"
  "sh_error_count (fetch_page_failed cx u e sh) = sh_error_count sh"
  "sh_error_breakdown (fetch_page_failed cx u e sh) = sh_error_breakdown sh"
  by (simp_all add: fetch_page_failed_def ban_waf_domain_def split: option.split)

lemma after_fetch_frame [simp]:
  "sh_sched (after_fetch cx now u i fo sh) = sh_sched sh" "sh_counter (after_fetch cx now u i fo sh) = sh_counter sh"
  "sh_chan (after_fetch cx now u i fo sh) = sh_chan sh" "sh_results (after_fetch cx now u i fo sh) = sh_results sh"
  "sh_offered (after_fetch cx now u i fo sh) = sh_offered sh"
  "sh_error_count (after_fetch cx now u i fo sh) = sh_error_count sh"
  "sh_error_breakdown (after_fetch cx now u i fo sh) = sh_error_breakdown sh"
  by (simp_all add: after_fetch_def report_session_success_def ingest_cookies_def capture_content_def Let_def
      split: option.split)

lemma run_pipeline_frame:
  assumes "run_pipeline cx outcome u sh = (r, sh1)"
  shows "sh_sched sh1 = sh_sched sh \<and> sh_counter sh1 = sh_counter sh \<and> sh_chan sh1 = sh_chan sh
    \<and> sh_results sh1 = sh_results sh \<and> sh_offered sh1 = sh_offered sh
    \<and> sh_error_count sh1 = sh_error_count sh \<and> sh_error_breakdown sh1 = sh_error_breakdown sh"
  using assms by (auto simp: run_pipeline_def split: if_splits stage_outcome.splits)

lemma enqueue_frame [simp]:
  "sh_counter (enqueue cx d src sh) = sh_counter sh" "sh_chan (enqueue cx d src sh) = sh_chan sh"
  "sh_results (enqueue cx d src sh) = sh_results sh" "sh_error_count (enqueue cx d src sh) = sh_error_count sh"
  "sh_error_breakdown (enqueue cx d src sh) = sh_error_breakdown sh"
  by (simp_all add: enqueue_def Let_def)

lemma queue_link_cases:
  obtains (kept) "queue_link cx robots depth base link sh = sh"
  | (pushed) u where "queue_link cx robots depth base link sh = enqueue cx (discovered_html u (depth + 1) base) Link sh"
proof -
  have "queue_link cx robots depth base link sh = sh
    \<or> (\<exists>u. queue_link cx robots depth base link sh = enqueue cx (discovered_html u (depth + 1) base) Link sh)"
    by (auto simp: queue_link_def split: option.splits)
  then show thesis using kept pushed by blast
qed

lemma count_error_frame [simp]:
  "sh_sched (count_error c sh) = sh_sched sh" "sh_counter (count_error c sh) = sh_counter sh"
  "sh_chan (count_error c sh) = sh_chan sh" "sh_results (count_error c sh) = sh_results sh"
  "sh_offered (count_error c sh) = sh_offered sh"
  by (simp_all add: count_error_def)

lemma handle_result_frame [simp]:
  "sh_sched (handle_crawl_result r sh) = sh_sched sh" "sh_counter (handle_crawl_result r sh) = sh_counter sh"
  "sh_chan (handle_crawl_result r sh) = sh_chan sh" "sh_results (handle_crawl_result r sh) = sh_results sh"
  "sh_offered (handle_crawl_result r sh) = sh_offered sh"
  by (simp_all add: handle_crawl_result_def handle_task_error_def handle_join_error_def split: task_result.split)

text \<open>Phases before the result is counted, and the phase between counting and delivery.\<close>

fun unsent :: "task_phase \<Rightarrow> bool" where
  "unsent Pacing = True"
| "unsent (Fetching _) = True"
| "unsent (Piping _) = True"
| "unsent (Sending _) = True"
| "unsent _ = False"

fun delivering :: "task_phase \<Rightarrow> bool" where
  "delivering (Delivering _) = True"
| "delivering _ = False"

lemma task_step_budget:
  assumes "task_step cx d (sh, ph) (sh', ph')"
  shows "sh_counter sh' + of_bool (unsent ph') \<le> sh_counter sh + of_bool (unsent ph)"
    and "length (sh_chan sh') + of_bool (delivering ph') + sh_counter sh
           \<le> length (sh_chan sh) + of_bool (delivering ph) + sh_counter sh'"
    and "sh_results sh' = sh_results sh" and "sh_counter sh \<le> sh_counter sh'"
proof -
  have q: "sh_counter (queue_link cx r depth p l x) = sh_counter x" "sh_chan (queue_link cx r depth p l x) = sh_chan x"
    "sh_results (queue_link cx r depth p l x) = sh_results x" for r depth p l x
    by (cases rule: queue_link_cases [of cx r depth p l x]; simp)+
  from assms show "sh_counter sh' + of_bool (unsent ph') \<le> sh_counter sh + of_bool (unsent ph)"
    by cases (auto simp: q dest: acquire_session_frame run_pipeline_frame)
  from assms show "length (sh_chan sh') + of_bool (delivering ph') + sh_counter sh
           \<le> length (sh_chan sh) + of_bool (delivering ph) + sh_counter sh'"
    by cases (auto simp: q dest: acquire_session_frame run_pipeline_frame)
  from assms show "sh_results sh' = sh_results sh"
    by cases (auto simp: q dest: acquire_session_frame run_pipeline_frame)
  from assms show "sh_counter sh \<le> sh_counter sh'"
    by cases (auto simp: q dest: acquire_session_frame run_pipeline_frame)
qed

text \<open>The scheduler sees a page step as nothing or as one push.\<close>

lemma task_step_sched:
  assumes "task_step cx d (sh, ph) (sh', ph')"
  shows "(sh_sched sh' = sh_sched sh \<and> sh_offered sh' = sh_offered sh)
    \<or> (\<exists>u fo l ls. ph = Linking fo (l # ls) \<and> sh' = enqueue cx (discovered_html u (du_depth d + 1) (fo_final_url fo)) Link sh)"
  using assms
proof cases
  case (t_link fo link links robots)
  then show ?thesis
    by (cases rule: queue_link_cases [of cx robots "du_depth d" "fo_final_url fo" link sh]) auto
qed (auto dest: acquire_session_frame run_pipeline_frame)

end
