(* ===== verification/Crawl_Engine.thy ===== *)
theory Crawl_Engine
  imports Crawl_Task
begin

text \<open>
  The crawl engine of \<^verbatim>\<open>application/crawler/engine.rs\<close>: the run around the scheduler, the loop that joins,
  drains, checkpoints, spawns and waits, the bounded drain of the tasks and the close of the run. The
  engine is one thread; between any two of its steps page tasks move, the receiver takes results, a
  termination event or the cancellation handle may fire, and the memory probe may change the level. A
  checkpoint is written by the store of the checkpoint theory, with arbitrary outcomes of its system calls.
\<close>

section \<open>State\<close>

datatype loop_pc =
    Head | Joining | Recheck | PeriodicCheckpoint | ReadCollected | ReadInFlight nat | Spawning nat | Waiting
  | DrainTasks | AbortTasks | Closing | Closed checkpoint_action

record 'u engine_cfg =
  ec_ctx :: "'u crawl_ctx"
  ec_codec :: ckpt_codec
  ec_session :: crawl_session

text \<open>\<open>en_dispatched\<close> is no variable of the program: it lists the pages a task was spawned for.\<close>

record engine_state =
  en_shared :: crawl_shared
  en_tasks :: "page_task list"
  en_pc :: loop_pc
  en_shutdown :: bool
  en_disk :: "u8 world"
  en_dispatched :: "discovered_url list"

abbreviation en_sched :: "engine_state \<Rightarrow> crawl_scheduler" where
  "en_sched s \<equiv> sh_sched (en_shared s)"

definition is_full :: "nat \<Rightarrow> crawl_shared \<Rightarrow> bool" where
  "is_full max_pages sh = (max_pages \<le> sh_counter sh)"

definition cancel_run :: "engine_state \<Rightarrow> engine_state" where
  "cancel_run s = s\<lparr>en_shared := (en_shared s)\<lparr>sh_cancelled := True\<rparr>\<rparr>"

section \<open>Checkpoints\<close>

definition build_checkpoint_state :: "'u engine_cfg \<Rightarrow> engine_state \<Rightarrow> crawl_checkpoint" where
  "build_checkpoint_state ec s =
     \<lparr>cp_visited = snapshot_visited (en_sched s),
      cp_queued = fst (snapshot_pending_bounded (cx_max_pages (ec_ctx ec)) (en_sched s)),
      cp_pages_crawled = sh_pages_crawled (en_shared s),
      cp_banned_domains = sh_banned (en_shared s),
      cp_version = CURRENT_CHECKPOINT_VERSION\<rparr>"

text \<open>
  \<^verbatim>\<open>checkpoint_path\<close> and \<^verbatim>\<open>checkpoint_interval\<close> as \<^verbatim>\<open>from_session\<close> sets them. The snapshot pops the heads of the queue
  and pushes them back.
\<close>

definition engine_checkpoint_path :: "'u engine_cfg \<Rightarrow> string option" where
  "engine_checkpoint_path ec =
     checkpoint_scoped_path (ec_codec ec) (cs_mode (ec_session ec)) (cs_seed_url (ec_session ec))"

definition engine_checkpoint_interval :: "'u engine_cfg \<Rightarrow> u64" where
  "engine_checkpoint_interval ec = unwrap_or (checkpoint_interval_of (cs_mode (ec_session ec))) 0"

definition after_snapshot :: "'u engine_cfg \<Rightarrow> engine_state \<Rightarrow> engine_state" where
  "after_snapshot ec s =
     s\<lparr>en_shared := (en_shared s)
         \<lparr>sh_sched := snd (snapshot_pending_bounded (cx_max_pages (ec_ctx ec)) (en_sched s))\<rparr>\<rparr>"

definition engine_save_checkpoint :: "'u engine_cfg \<Rightarrow> u8 io \<Rightarrow> engine_state \<Rightarrow> engine_state" where
  "engine_save_checkpoint ec io s =
     (case engine_checkpoint_path ec of
        None \<Rightarrow> s
      | Some path \<Rightarrow>
          (after_snapshot ec s)
            \<lparr>en_disk := snd (checkpoint_save (ec_codec ec) io (build_checkpoint_state ec s) path (en_disk s))\<rparr>)"

definition maybe_save_periodic_checkpoint :: "'u engine_cfg \<Rightarrow> u8 io \<Rightarrow> engine_state \<Rightarrow> engine_state" where
  "maybe_save_periodic_checkpoint ec io s =
     (let interval = engine_checkpoint_interval ec; pages = sh_pages_crawled (en_shared s) in
      if interval = 0 then s
      else if pages = 0 \<or> pages mod interval \<noteq> 0 then s
      else engine_save_checkpoint ec io s)"

section \<open>Start\<close>

text \<open>\<open>vs\<close> lists the visited set of the checkpoint in the order in which the hash set yields it.\<close>

definition restore_checkpoint_state ::
  "'u crawl_ctx \<Rightarrow> string list \<Rightarrow> crawl_checkpoint option \<Rightarrow> crawl_shared \<Rightarrow> crawl_shared" where
  "restore_checkpoint_state cx vs loaded sh =
     (case loaded of
        None \<Rightarrow> sh
      | Some cp \<Rightarrow>
          sh\<lparr>sh_sched := restore_pending (cx_env cx) (cp_queued cp) (restore_visited (cx_env cx) vs (sh_sched sh)),
             sh_banned := (if cp_banned_domains cp = [] then sh_banned sh else cp_banned_domains cp),
             sh_pages_crawled := cp_pages_crawled cp\<rparr>)"

definition seed_run :: "'u crawl_ctx \<Rightarrow> crawl_shared \<Rightarrow> crawl_shared" where
  "seed_run cx sh =
     sh\<lparr>sh_sched := seed (cx_env cx) (cx_seed_url cx) (sh_sched sh), sh_offered := sh_offered sh @ [cx_seed_url cx]\<rparr>"

definition fresh_shared :: "nat \<Rightarrow> crawl_shared" where
  "fresh_shared base =
     \<lparr>sh_sched = scheduler_new base, sh_pool = [], sh_error_count = 0, sh_error_breakdown = replicate 8 0,
      sh_pages_crawled = 0, sh_banned = [], sh_cookies = [], sh_captured = [], sh_written = [], sh_counter = 0,
      sh_chan = [], sh_results = [], sh_cancelled = False, sh_offered = []\<rparr>"

text \<open>
  \<^verbatim>\<open>Engine::run\<close> up to its loop: \<open>None\<close> is the early return of a seed that the patterns exclude.
\<close>

definition engine_run_start ::
  "'u engine_cfg \<Rightarrow> nat \<Rightarrow> string list \<Rightarrow> discovered_url list \<Rightarrow> u8 world \<Rightarrow> engine_state option" where
  "engine_run_start ec base vs extra_seeds disk =
     (let cx = ec_ctx ec;
          sh1 = seed_run cx (restore_checkpoint_state cx vs (cs_loaded (ec_session ec)) (fresh_shared base));
          sh2 = fold (\<lambda>d. enqueue cx d Sitemap) extra_seeds sh1
      in if \<not> is_allowed (url_lib (cx_env cx)) (cx_glob cx) (cx_seed_url cx) (cx_patterns cx) then None
         else Some \<lparr>en_shared = sh2, en_tasks = [], en_pc = Head, en_shutdown = False, en_disk = disk,
                   en_dispatched = []\<rparr>)"

section \<open>Steps of the loop\<close>

definition remaining_budget :: "nat \<Rightarrow> nat \<Rightarrow> nat \<Rightarrow> nat" where
  "remaining_budget max_pages collected in_flight = max_pages - (collected + in_flight)"

definition loop_condition :: "engine_state \<Rightarrow> bool" where
  "loop_condition s = (has_pending_work (en_sched s) \<or> en_tasks s \<noteq> [])"

definition remove_nth :: "nat \<Rightarrow> 'a list \<Rightarrow> 'a list" where
  "remove_nth i xs = take i xs @ drop (Suc i) xs"

definition join_task :: "nat \<Rightarrow> task_result \<Rightarrow> engine_state \<Rightarrow> engine_state" where
  "join_task i r s =
     s\<lparr>en_tasks := remove_nth i (en_tasks s), en_shared := handle_crawl_result r (en_shared s)\<rparr>"

text \<open>A joinable task: position and result.\<close>

definition joinable :: "engine_state \<Rightarrow> nat \<Rightarrow> task_result \<Rightarrow> bool" where
  "joinable s i r = (i < length (en_tasks s) \<and> tk_phase (en_tasks s ! i) = Done r)"

definition with_sched :: "crawl_scheduler \<Rightarrow> engine_state \<Rightarrow> engine_state" where
  "with_sched sch s = s\<lparr>en_shared := (en_shared s)\<lparr>sh_sched := sch\<rparr>\<rparr>"

definition must_wait :: "engine_state \<Rightarrow> bool" where
  "must_wait s = (\<not> can_spawn (length (en_tasks s)) (en_sched s) \<and> has_pending_work (en_sched s))"

definition completed_fully :: "'u engine_cfg \<Rightarrow> engine_state \<Rightarrow> bool" where
  "completed_fully ec s =
     (\<not> en_shutdown s \<and> \<not> has_pending_work (en_sched s)
      \<and> \<not> is_full (cx_max_pages (ec_ctx ec)) (en_shared s))"

definition close_run :: "'u engine_cfg \<Rightarrow> u8 io \<Rightarrow> engine_state \<Rightarrow> engine_state" where
  "close_run ec io s =
     (let (close, disk) = session_finish (ec_codec ec) io (ec_session ec) (completed_fully ec s)
                            (build_checkpoint_state ec s) (en_disk s)
      in s\<lparr>en_pc := Closed (sc_action close), en_disk := disk\<rparr>)"

inductive engine_step :: "'u engine_cfg \<Rightarrow> engine_state \<Rightarrow> engine_state \<Rightarrow> bool" for ec where
  e_signal: "engine_step ec s ((cancel_run s)\<lparr>en_shutdown := True\<rparr>)"
| e_cancel: "engine_step ec s (cancel_run s)"
| e_level: "engine_step ec s (with_sched (set_autoscale level (en_sched s)) s)"
| e_task: "i < length (en_tasks s) \<Longrightarrow>
    task_step (ec_ctx ec) (tk_url (en_tasks s ! i)) (en_shared s, tk_phase (en_tasks s ! i)) (sh, ph) \<Longrightarrow>
    engine_step ec s
      (s\<lparr>en_shared := sh, en_tasks := (en_tasks s)[i := (en_tasks s ! i)\<lparr>tk_phase := ph\<rparr>]\<rparr>)"
| e_panic: "i < length (en_tasks s) \<Longrightarrow> (\<nexists>r. tk_phase (en_tasks s ! i) = Done r) \<Longrightarrow>
    engine_step ec s (s\<lparr>en_tasks := (en_tasks s)[i := (en_tasks s ! i)\<lparr>tk_phase := Done TaskPanicked\<rparr>]\<rparr>)"
| e_receive: "sh_chan (en_shared s) = d # ds \<Longrightarrow>
    engine_step ec s (s\<lparr>en_shared := (en_shared s)\<lparr>sh_chan := ds, sh_results := sh_results (en_shared s) @ [d]\<rparr>\<rparr>)"
| l_exit: "en_pc s = Head \<Longrightarrow> \<not> loop_condition s \<Longrightarrow> engine_step ec s (s\<lparr>en_pc := DrainTasks\<rparr>)"
| l_shutdown: "en_pc s = Head \<Longrightarrow> loop_condition s \<Longrightarrow> en_shutdown s \<Longrightarrow>
    engine_step ec s ((engine_save_checkpoint ec io (cancel_run s))\<lparr>en_pc := DrainTasks\<rparr>)"
| l_full: "en_pc s = Head \<Longrightarrow> loop_condition s \<Longrightarrow> \<not> en_shutdown s \<Longrightarrow>
    is_full (cx_max_pages (ec_ctx ec)) (en_shared s) \<Longrightarrow> engine_step ec s ((cancel_run s)\<lparr>en_pc := DrainTasks\<rparr>)"
| l_enter: "en_pc s = Head \<Longrightarrow> loop_condition s \<Longrightarrow> \<not> en_shutdown s \<Longrightarrow>
    \<not> is_full (cx_max_pages (ec_ctx ec)) (en_shared s) \<Longrightarrow> engine_step ec s (s\<lparr>en_pc := Joining\<rparr>)"
| l_join: "en_pc s = Joining \<Longrightarrow> joinable s i r \<Longrightarrow> engine_step ec s (join_task i r s)"
| l_joined: "en_pc s = Joining \<Longrightarrow> engine_step ec s (s\<lparr>en_pc := Recheck\<rparr>)"
| l_full_again: "en_pc s = Recheck \<Longrightarrow> is_full (cx_max_pages (ec_ctx ec)) (en_shared s) \<Longrightarrow>
    engine_step ec s ((cancel_run s)\<lparr>en_pc := DrainTasks\<rparr>)"
| l_drain: "en_pc s = Recheck \<Longrightarrow> \<not> is_full (cx_max_pages (ec_ctx ec)) (en_shared s) \<Longrightarrow>
    engine_step ec s ((with_sched (drain_discovered (en_sched s)) s)\<lparr>en_pc := PeriodicCheckpoint\<rparr>)"
| l_periodic: "en_pc s = PeriodicCheckpoint \<Longrightarrow>
    engine_step ec s ((maybe_save_periodic_checkpoint ec io s)\<lparr>en_pc := ReadCollected\<rparr>)"
| l_collected: "en_pc s = ReadCollected \<Longrightarrow>
    engine_step ec s (s\<lparr>en_pc := ReadInFlight (sh_counter (en_shared s))\<rparr>)"
| l_budget: "en_pc s = ReadInFlight collected \<Longrightarrow>
    engine_step ec s
      (s\<lparr>en_pc := Spawning (remaining_budget (cx_max_pages (ec_ctx ec)) collected (length (en_tasks s)))\<rparr>)"
| l_spawn: "en_pc s = Spawning (Suc remaining) \<Longrightarrow>
    next_url (cx_env (ec_ctx ec)) (length (en_tasks s)) (en_sched s) = (Some d, sch) \<Longrightarrow>
    engine_step ec s
      ((with_sched sch s)\<lparr>en_tasks := en_tasks s @ [\<lparr>tk_url = d, tk_phase = Pacing\<rparr>], en_pc := Spawning remaining,
         en_dispatched := en_dispatched s @ [d]\<rparr>)"
| l_no_url: "en_pc s = Spawning (Suc remaining) \<Longrightarrow>
    next_url (cx_env (ec_ctx ec)) (length (en_tasks s)) (en_sched s) = (None, sch) \<Longrightarrow>
    engine_step ec s ((with_sched sch s)\<lparr>en_pc := Waiting\<rparr>)"
| l_spent: "en_pc s = Spawning 0 \<Longrightarrow> engine_step ec s (s\<lparr>en_pc := Waiting\<rparr>)"
| l_no_wait: "en_pc s = Waiting \<Longrightarrow> \<not> must_wait s \<Longrightarrow> engine_step ec s (s\<lparr>en_pc := Head\<rparr>)"
| l_waited: "en_pc s = Waiting \<Longrightarrow> must_wait s \<Longrightarrow> joinable s i r \<Longrightarrow>
    engine_step ec s ((join_task i r s)\<lparr>en_pc := Head\<rparr>)"
| l_wait_over: "en_pc s = Waiting \<Longrightarrow> must_wait s \<Longrightarrow> engine_step ec s (s\<lparr>en_pc := Head\<rparr>)"
| d_join: "en_pc s = DrainTasks \<or> en_pc s = AbortTasks \<Longrightarrow> joinable s i r \<Longrightarrow> engine_step ec s (join_task i r s)"
| d_drained: "en_pc s = DrainTasks \<or> en_pc s = AbortTasks \<Longrightarrow> en_tasks s = [] \<Longrightarrow>
    engine_step ec s (s\<lparr>en_pc := Closing\<rparr>)"
| d_timeout: "en_pc s = DrainTasks \<Longrightarrow> en_tasks s \<noteq> [] \<Longrightarrow> engine_step ec s (s\<lparr>en_pc := AbortTasks\<rparr>)"
| d_abort: "en_pc s = AbortTasks \<Longrightarrow> i < length (en_tasks s) \<Longrightarrow> (\<nexists>r. tk_phase (en_tasks s ! i) = Done r) \<Longrightarrow>
    engine_step ec s (s\<lparr>en_tasks := (en_tasks s)[i := (en_tasks s ! i)\<lparr>tk_phase := Done TaskAborted\<rparr>]\<rparr>)"
| d_close: "en_pc s = Closing \<Longrightarrow> engine_step ec s (close_run ec io s)"

section \<open>The page budget\<close>

abbreviation tasks_in :: "(task_phase \<Rightarrow> bool) \<Rightarrow> engine_state \<Rightarrow> nat" where
  "tasks_in P s \<equiv> length (filter (\<lambda>t. P (tk_phase t)) (en_tasks s))"

fun credit :: "loop_pc \<Rightarrow> nat" where
  "credit (Spawning r) = r"
| "credit _ = 0"

text \<open>
  What is collected, what running tasks may still collect and what may still be spawned fit the budget; a
  number of collected pages that was read earlier accounts for every task that has counted since.
\<close>

definition budget_inv :: "'u engine_cfg \<Rightarrow> engine_state \<Rightarrow> bool" where
  "budget_inv ec s =
     (sh_counter (en_shared s) + tasks_in unsent s + credit (en_pc s) \<le> cx_max_pages (ec_ctx ec)
      \<and> (\<forall>c. en_pc s = ReadInFlight c \<longrightarrow> sh_counter (en_shared s) + tasks_in unsent s \<le> c + length (en_tasks s))
      \<and> length (sh_results (en_shared s)) + length (sh_chan (en_shared s)) + tasks_in delivering s
          \<le> sh_counter (en_shared s))"

lemma filter_update:
  assumes "i < length xs"
  shows "length (filter P (xs[i := y])) + of_bool (P (xs ! i)) = length (filter P xs) + of_bool (P y)"
proof -
  have "xs = take i xs @ xs ! i # drop (Suc i) xs" by (rule id_take_nth_drop [OF assms])
  then have "length (filter P xs) = length (filter P (take i xs @ xs ! i # drop (Suc i) xs))" by simp
  with assms show ?thesis by (simp add: upd_conv_take_nth_drop)
qed

lemma filter_remove_nth:
  assumes "i < length xs"
  shows "length (filter P (remove_nth i xs)) + of_bool (P (xs ! i)) = length (filter P xs)"
proof -
  have "xs = take i xs @ xs ! i # drop (Suc i) xs" by (rule id_take_nth_drop [OF assms])
  then have "length (filter P xs) = length (filter P (take i xs @ xs ! i # drop (Suc i) xs))" by simp
  then show ?thesis by (simp add: remove_nth_def)
qed

lemma set_remove_nth: "set (remove_nth i xs) \<subseteq> set xs"
  by (auto simp: remove_nth_def dest: in_set_takeD in_set_dropD)

lemma tasks_in_length: "tasks_in P s \<le> length (en_tasks s)"
  by simp

lemma shared_after_save [simp]:
  "sh_counter (en_shared (engine_save_checkpoint ec io s)) = sh_counter (en_shared s)"
  "sh_results (en_shared (engine_save_checkpoint ec io s)) = sh_results (en_shared s)"
  "sh_chan (en_shared (engine_save_checkpoint ec io s)) = sh_chan (en_shared s)"
  "sh_offered (en_shared (engine_save_checkpoint ec io s)) = sh_offered (en_shared s)"
  "en_tasks (engine_save_checkpoint ec io s) = en_tasks s"
  "en_shutdown (engine_save_checkpoint ec io s) = en_shutdown s"
  "en_dispatched (engine_save_checkpoint ec io s) = en_dispatched s"
  by (simp_all add: engine_save_checkpoint_def after_snapshot_def split: option.split)

lemma shared_after_periodic [simp]:
  "sh_counter (en_shared (maybe_save_periodic_checkpoint ec io s)) = sh_counter (en_shared s)"
  "sh_results (en_shared (maybe_save_periodic_checkpoint ec io s)) = sh_results (en_shared s)"
  "sh_chan (en_shared (maybe_save_periodic_checkpoint ec io s)) = sh_chan (en_shared s)"
  "sh_offered (en_shared (maybe_save_periodic_checkpoint ec io s)) = sh_offered (en_shared s)"
  "en_tasks (maybe_save_periodic_checkpoint ec io s) = en_tasks s"
  "en_shutdown (maybe_save_periodic_checkpoint ec io s) = en_shutdown s"
  "en_dispatched (maybe_save_periodic_checkpoint ec io s) = en_dispatched s"
  by (simp_all add: maybe_save_periodic_checkpoint_def Let_def)

lemma close_run_frame [simp]:
  "en_shared (close_run ec io s) = en_shared s" "en_tasks (close_run ec io s) = en_tasks s"
  "en_dispatched (close_run ec io s) = en_dispatched s" "en_shutdown (close_run ec io s) = en_shutdown s"
  by (simp_all add: close_run_def Let_def split: prod.split)

lemma close_run_pc: "\<exists>a. en_pc (close_run ec io s) = Closed a"
  by (simp add: close_run_def Let_def split: prod.split)

lemma joinable_counts:
  assumes "joinable s i r"
  shows "length (filter (\<lambda>t. unsent (tk_phase t)) (remove_nth i (en_tasks s))) = tasks_in unsent s"
    and "length (filter (\<lambda>t. delivering (tk_phase t)) (remove_nth i (en_tasks s))) = tasks_in delivering s"
  using filter_remove_nth [of i "en_tasks s" "\<lambda>t. unsent (tk_phase t)"]
    filter_remove_nth [of i "en_tasks s" "\<lambda>t. delivering (tk_phase t)"] assms
  by (auto simp: joinable_def)

lemma finished_counts:
  assumes "i < length (en_tasks s)"
  shows "length (filter (\<lambda>t. unsent (tk_phase t)) ((en_tasks s)[i := (en_tasks s ! i)\<lparr>tk_phase := Done r\<rparr>])) \<le> tasks_in unsent s"
    and "length (filter (\<lambda>t. delivering (tk_phase t)) ((en_tasks s)[i := (en_tasks s ! i)\<lparr>tk_phase := Done r\<rparr>])) \<le> tasks_in delivering s"
  using filter_update [OF assms, of "\<lambda>t. unsent (tk_phase t)" "(en_tasks s ! i)\<lparr>tk_phase := Done r\<rparr>"]
    filter_update [OF assms, of "\<lambda>t. delivering (tk_phase t)" "(en_tasks s ! i)\<lparr>tk_phase := Done r\<rparr>"]
  by auto

lemma budget_step: "engine_step ec s t \<Longrightarrow> budget_inv ec s \<Longrightarrow> budget_inv ec t"
proof (induction rule: engine_step.induct)
  case (e_task i s sh ph)
  let ?t' = "(en_tasks s ! i)\<lparr>tk_phase := ph\<rparr>"
  note u = filter_update [OF e_task(1), of "\<lambda>t. unsent (tk_phase t)" ?t']
    and v = filter_update [OF e_task(1), of "\<lambda>t. delivering (tk_phase t)" ?t']
  from task_step_budget [OF e_task(2)] u v e_task.prems show ?case
    by (auto simp: budget_inv_def)
next
  case (e_panic i s)
  from finished_counts [OF e_panic(1), of TaskPanicked] e_panic.prems show ?case
    by (auto simp: budget_inv_def)
next
  case (d_abort s i)
  from finished_counts [OF d_abort(2), of TaskAborted] d_abort.prems d_abort.hyps show ?case
    by (auto simp: budget_inv_def)
next
  case (l_collected s)
  then show ?case using tasks_in_length [of unsent s] by (auto simp: budget_inv_def)
next
  case (l_budget s collected)
  then show ?case by (auto simp: budget_inv_def remaining_budget_def)
next
  case (d_close s io)
  obtain a where "en_pc (close_run ec io s) = Closed a" using close_run_pc by blast
  with d_close show ?case by (simp add: budget_inv_def)
qed (auto simp: budget_inv_def cancel_run_def with_sched_def join_task_def joinable_counts)

section \<open>The engine drives the scheduler\<close>

text \<open>Every step of the engine and of its tasks is a step of the scheduler's relation, or leaves it alone.\<close>

lemma enqueue_crawl_step:
  "crawl_step (cx_env cx) (sh_sched sh, out) (sh_sched (enqueue cx d src sh), out)"
  using task_push [of "cx_env cx" "sh_sched sh" out d src] by (simp add: enqueue_def Let_def)

lemma save_crawl_steps:
  "(crawl_step (cx_env (ec_ctx ec)))\<^sup>*\<^sup>* (en_sched s, out) (en_sched (engine_save_checkpoint ec io s), out)"
  using do_snapshot [of "cx_env (ec_ctx ec)" "en_sched s" out "cx_max_pages (ec_ctx ec)"]
  by (auto simp: engine_save_checkpoint_def after_snapshot_def split: option.split)

lemma save_cancelled [simp]: "en_sched (cancel_run s) = en_sched s"
  by (simp add: cancel_run_def)

lemma engine_step_crawl:
  "engine_step ec s t \<Longrightarrow>
   (crawl_step (cx_env (ec_ctx ec)))\<^sup>*\<^sup>* (en_sched s, en_dispatched s) (en_sched t, en_dispatched t)"
proof (induction rule: engine_step.induct)
  case (e_task i s sh ph)
  from task_step_sched [OF e_task(2)] show ?case
    by (auto intro: enqueue_crawl_step)
next
  case (l_shutdown s io)
  from save_crawl_steps [of ec "cancel_run s" "en_dispatched s" io] show ?case
    by (simp add: cancel_run_def)
next
  case (l_periodic s io)
  from save_crawl_steps [of ec s "en_dispatched s" io] show ?case
    by (simp add: maybe_save_periodic_checkpoint_def Let_def)
next
  case (l_spawn s remaining d sch)
  from hand_out [OF l_spawn(2)] show ?case by (simp add: with_sched_def r_into_rtranclp)
next
  case (l_no_url s remaining sch)
  from no_work [OF l_no_url(2)] show ?case by (simp add: with_sched_def r_into_rtranclp)
qed (auto simp: cancel_run_def with_sched_def join_task_def intro: do_drain poll_level r_into_rtranclp)

lemma fold_enqueue_crawl:
  "(crawl_step (cx_env cx))\<^sup>*\<^sup>* (sh_sched sh, out) (sh_sched (fold (\<lambda>d. enqueue cx d src) ds sh), out)"
  by (induction ds arbitrary: sh) (auto intro: converse_rtranclp_into_rtranclp enqueue_crawl_step)

lemma restore_crawl:
  "(crawl_step (cx_env cx))\<^sup>*\<^sup>* (sh_sched sh, out) (sh_sched (restore_checkpoint_state cx vs loaded sh), out)"
proof (cases loaded)
  case (Some cp)
  have "crawl_step (cx_env cx) (sh_sched sh, out) (restore_visited (cx_env cx) vs (sh_sched sh), out)"
    by (rule do_restore_visited)
  moreover have "crawl_step (cx_env cx) (restore_visited (cx_env cx) vs (sh_sched sh), out)
      (sh_sched (restore_checkpoint_state cx vs loaded sh), out)"
    using Some by (simp add: restore_checkpoint_state_def do_restore_pending)
  ultimately show ?thesis by simp
qed (simp add: restore_checkpoint_state_def)

lemma engine_start_crawl:
  assumes "engine_run_start ec base vs extra disk = Some s"
  shows "(crawl_step (cx_env (ec_ctx ec)))\<^sup>*\<^sup>* (scheduler_new base, []) (en_sched s, en_dispatched s)"
proof -
  let ?cx = "ec_ctx ec" and ?r = "restore_checkpoint_state (ec_ctx ec) vs (cs_loaded (ec_session ec)) (fresh_shared base)"
  have "(crawl_step (cx_env ?cx))\<^sup>*\<^sup>* (scheduler_new base, []) (sh_sched ?r, [])"
    using restore_crawl [of ?cx "fresh_shared base"] by (simp add: fresh_shared_def)
  also have "crawl_step (cx_env ?cx) (sh_sched ?r, []) (sh_sched (seed_run ?cx ?r), [])"
    using do_seed [of "cx_env ?cx" "sh_sched ?r" "[]" "cx_seed_url ?cx"] by (simp add: seed_run_def)
  also have "(crawl_step (cx_env ?cx))\<^sup>*\<^sup>* (sh_sched (seed_run ?cx ?r), [])
      (sh_sched (fold (\<lambda>d. enqueue ?cx d Sitemap) extra (seed_run ?cx ?r)), [])"
    by (rule fold_enqueue_crawl)
  finally show ?thesis using assms by (auto simp: engine_run_start_def Let_def split: if_splits)
qed

text \<open>A run of the engine and the states it reaches.\<close>

definition engine_reaches :: "'u engine_cfg \<Rightarrow> nat \<Rightarrow> string list \<Rightarrow> discovered_url list \<Rightarrow> engine_state \<Rightarrow> bool" where
  "engine_reaches ec base vs extra s =
     (\<exists>disk s0. engine_run_start ec base vs extra disk = Some s0 \<and> (engine_step ec)\<^sup>*\<^sup>* s0 s)"

lemma engine_induct [consumes 1, case_names start step]:
  assumes "engine_reaches ec base vs extra s"
    and "\<And>disk s. engine_run_start ec base vs extra disk = Some s \<Longrightarrow> P s"
    and "\<And>s t. engine_reaches ec base vs extra s \<Longrightarrow> engine_step ec s t \<Longrightarrow> P s \<Longrightarrow> P t"
  shows "P s"
proof -
  obtain disk s0 where s: "engine_run_start ec base vs extra disk = Some s0" "(engine_step ec)\<^sup>*\<^sup>* s0 s"
    using assms(1) by (auto simp: engine_reaches_def)
  from s(2) show ?thesis
  proof (induction rule: rtranclp_induct)
    case base
    from assms(2) [OF s(1)] show ?case .
  next
    case (step y z)
    then have "engine_reaches ec base vs extra y" using s(1) by (auto simp: engine_reaches_def)
    from assms(3) [OF this step(2) step.IH] show ?case .
  qed
qed

lemma engine_reaches_crawl:
  assumes "engine_reaches ec base vs extra s"
  shows "(crawl_step (cx_env (ec_ctx ec)))\<^sup>*\<^sup>* (scheduler_new base, []) (en_sched s, en_dispatched s)"
  using assms by (induction rule: engine_induct) (auto dest: engine_start_crawl engine_step_crawl)

lemma engine_reaches_inv:
  "engine_reaches ec base vs extra s \<Longrightarrow> crawl_inv (cx_env (ec_ctx ec)) (en_sched s, en_dispatched s)"
  using crawl_reachable_inv [OF engine_reaches_crawl crawl_inv_new] .

lemma fold_enqueue_frame [simp]:
  "sh_counter (fold (\<lambda>d. enqueue cx d src) ds sh) = sh_counter sh"
  "sh_results (fold (\<lambda>d. enqueue cx d src) ds sh) = sh_results sh"
  "sh_chan (fold (\<lambda>d. enqueue cx d src) ds sh) = sh_chan sh"
  "sh_error_count (fold (\<lambda>d. enqueue cx d src) ds sh) = sh_error_count sh"
  "sh_error_breakdown (fold (\<lambda>d. enqueue cx d src) ds sh) = sh_error_breakdown sh"
  by (induction ds arbitrary: sh) simp_all

lemma seeded_frame [simp]:
  "sh_counter (seed_run cx (restore_checkpoint_state cx vs l sh)) = sh_counter sh"
  "sh_results (seed_run cx (restore_checkpoint_state cx vs l sh)) = sh_results sh"
  "sh_chan (seed_run cx (restore_checkpoint_state cx vs l sh)) = sh_chan sh"
  "sh_error_count (seed_run cx (restore_checkpoint_state cx vs l sh)) = sh_error_count sh"
  "sh_error_breakdown (seed_run cx (restore_checkpoint_state cx vs l sh)) = sh_error_breakdown sh"
  by (simp_all add: seed_run_def restore_checkpoint_state_def split: option.split)

lemma start_shape:
  assumes "engine_run_start ec base vs extra disk = Some s"
  shows "en_tasks s = []" and "en_pc s = Head" and "\<not> en_shutdown s" and "en_dispatched s = []"
    and "sh_counter (en_shared s) = 0" and "sh_results (en_shared s) = []" and "sh_chan (en_shared s) = []"
    and "sh_error_count (en_shared s) = 0" and "sh_error_breakdown (en_shared s) = replicate 8 0"
  using assms by (auto simp: engine_run_start_def Let_def fresh_shared_def split: if_splits)

lemma engine_reaches_budget: "engine_reaches ec base vs extra s \<Longrightarrow> budget_inv ec s"
  by (induction rule: engine_induct) (auto dest: budget_step simp: budget_inv_def start_shape)

text \<open>
  C18. The page limit is a hard ceiling in every interleaving of engine, tasks and receiver, also when tasks
  panic or are aborted: the collected pages, and with them the results, never exceed \<^verbatim>\<open>max_pages\<close>, and at
  any moment the collected pages and the tasks that may still collect one fit it together.
\<close>

theorem page_limit_is_a_ceiling:
  assumes "engine_reaches ec base vs extra s"
  shows "sh_counter (en_shared s) + tasks_in unsent s \<le> cx_max_pages (ec_ctx ec)
    \<and> length (sh_results (en_shared s)) \<le> sh_counter (en_shared s)"
  using engine_reaches_budget [OF assms] by (simp add: budget_inv_def)

section \<open>Nothing offered is forgotten\<close>

abbreviation queue_digest :: "'u url_env \<Rightarrow> string \<Rightarrow> u64" where
  "queue_digest e u \<equiv> queue_hash e (canon e u)"

text \<open>A page that waits in the queue or in the buffer, or whose digest was handed out.\<close>

definition accounted :: "'u url_env \<Rightarrow> crawl_scheduler \<Rightarrow> discovered_url \<Rightarrow> bool" where
  "accounted e sch d =
     (d \<in> pu_url ` set (q_heap (queue sch)) \<or> d \<in> set (pending sch) \<or> digest e (du_url d) \<in> dd_seen (visited sch))"

definition covered :: "'u url_env \<Rightarrow> crawl_scheduler \<Rightarrow> bool" where
  "covered e sch = (\<forall>h \<in> q_seen (queue sch). \<exists>d. queue_digest e (du_url d) = h \<and> accounted e sch d)"

lemma covered_mono:
  assumes "covered e sch" and "q_seen (queue sch') = q_seen (queue sch)"
    and "\<And>d. accounted e sch d \<Longrightarrow> accounted e sch' d"
  shows "covered e sch'"
  using assms unfolding covered_def by metis

lemma covered_pending: "covered e sch \<Longrightarrow> covered e (sch\<lparr>pending := pending sch @ ys\<rparr>)"
  by (rule covered_mono) (auto simp: accounted_def)

lemma next_fresh_accounts:
  "next_fresh e ds sch = (r, sch') \<Longrightarrow>
   queue sch' = queue sch \<and> dd_seen (visited sch) \<subseteq> dd_seen (visited sch')
   \<and> (\<forall>d \<in> set ds. d \<in> set (pending sch') \<or> digest e (du_url d) \<in> dd_seen (visited sch'))"
proof (induction ds arbitrary: sch)
  case (Cons d ds)
  show ?case
  proof (cases "digest e (du_url d) \<in> dd_seen (visited sch)")
    case True
    with Cons.prems have "next_fresh e ds (sch\<lparr>pending := ds\<rparr>) = (r, sch')" by (simp add: record_visit_eq)
    from Cons.IH [OF this] True show ?thesis by auto
  next
    case False
    with Cons.prems show ?thesis by (auto simp: record_visit_eq)
  qed
qed auto

lemma next_url_accounts:
  assumes "next_url e n sch = (r, sch')"
  shows "q_seen (queue sch') = q_seen (queue sch)" and "accounted e sch d \<Longrightarrow> accounted e sch' d"
  using assms next_fresh_accounts [of e "pending sch" sch r sch']
  by (auto simp: next_url_def accounted_def split: if_splits)

lemma push_accounts:
  assumes "covered e sch" and "q = fst (push_prioritized (canon e) (queue_hash e) d src (queue sch))"
    and "sch' = sch\<lparr>queue := q\<rparr>"
  shows "covered e sch'" and "queue_digest e (du_url d) \<in> q_seen q" and "q_seen (queue sch) \<subseteq> q_seen q"
proof -
  consider (seen) "queue_digest e (du_url d) \<in> q_seen (queue sch)" "q = queue sch"
    | (new) "q_seen q = insert (queue_digest e (du_url d)) (q_seen (queue sch))"
        "set (q_heap q) = insert (from_source d src) (set (q_heap (queue sch)))"
    using assms(2) by (auto simp: push_prioritized_def Let_def split: if_splits)
  note cases = this
  then show "queue_digest e (du_url d) \<in> q_seen q" and "q_seen (queue sch) \<subseteq> q_seen q" by auto
  from cases show "covered e sch'"
  proof cases
    case seen
    with assms(1,3) show ?thesis by simp
  next
    case new
    have acc: "accounted e sch x \<Longrightarrow> accounted e sch' x" for x
      using new(2) assms(3) by (auto simp: accounted_def)
    have "pu_url (from_source d src) = d" by (simp add: from_source_def Let_def)
    with new(2) assms(3) have "accounted e sch' d" by (force simp: accounted_def)
    moreover have "\<exists>d. queue_digest e (du_url d) = h \<and> accounted e sch' d" if "h \<in> q_seen (queue sch)" for h
      using acc assms(1) that unfolding covered_def by metis
    ultimately show ?thesis using assms(3) new(1) by (auto simp: covered_def)
  qed
qed

lemma record_visit_accounts:
  "q_seen (queue (fst (record_visit e u sch))) = q_seen (queue sch)"
  "accounted e sch d \<Longrightarrow> accounted e (fst (record_visit e u sch)) d"
  by (auto simp: record_visit_eq accounted_def)

lemma restore_visited_accounts:
  "q_seen (queue (restore_visited e us sch)) = q_seen (queue sch)"
  "accounted e sch d \<Longrightarrow> accounted e (restore_visited e us sch) d"
  by (induction e us sch rule: restore_visited.induct) (auto simp: record_visit_accounts)

lemma restore_pending_accounts:
  "q_seen (queue (restore_pending e us sch)) = q_seen (queue sch)"
  "accounted e sch d \<Longrightarrow> accounted e (restore_pending e us sch) d"
proof (induction e us sch rule: restore_pending.induct)
  case (2 e raw rest s)
  have "accounted e s d \<Longrightarrow> accounted e (s\<lparr>pending := pending s @ x\<rparr>) d" for x by (auto simp: accounted_def)
  with 2 show "q_seen (queue (restore_pending e (raw # rest) s)) = q_seen (queue s)"
    "accounted e s d \<Longrightarrow> accounted e (restore_pending e (raw # rest) s) d"
    by (auto split: option.split)
qed auto

lemma crawl_step_covered:
  assumes "crawl_step e x y" and "crawl_inv e x" and "covered e (fst x)"
  shows "covered e (fst y) \<and> q_seen (queue (fst x)) \<subseteq> q_seen (queue (fst y))"
  using assms
proof (induction rule: crawl_step.induct)
  case (do_seed s out u)
  let ?d = "discovered_html u 0 u"
  from push_accounts [OF _ refl refl, of e s ?d Seed] do_seed covered_pending
  show ?case by (fastforce simp: seed_def Let_def)
next
  case (task_push s out d source)
  with push_accounts [OF _ refl refl, of e s d source] show ?case by auto
next
  case (do_drain s out)
  have "accounted e s d \<Longrightarrow> accounted e (drain_discovered s) d" for d
    using do_drain by (auto simp: drain_discovered_eq [of e s out] accounted_def)
  with do_drain show ?case
    by (auto intro: covered_mono simp: drain_discovered_eq [of e s out])
next
  case (do_restore_visited s out us)
  then show ?case by (auto intro: covered_mono simp: restore_visited_accounts)
next
  case (do_restore_pending s out us)
  then show ?case by (auto intro: covered_mono simp: restore_pending_accounts)
next
  case (poll_level s out level)
  then show ?case by (auto intro: covered_mono simp: set_autoscale_def accounted_def)
next
  case (do_snapshot s out budget)
  then show ?case by (simp add: snapshot_pending_bounded_keeps [of e s out])
next
  case (hand_out n s d s' out)
  then show ?case by (auto intro: covered_mono simp: next_url_accounts [OF hand_out(1)])
next
  case (no_work n s s' out)
  then show ?case by (auto intro: covered_mono simp: next_url_accounts [OF no_work(1)])
qed

lemma crawl_steps_covered:
  assumes "(crawl_step e)\<^sup>*\<^sup>* x y" and "crawl_inv e x" and "covered e (fst x)"
  shows "covered e (fst y) \<and> q_seen (queue (fst x)) \<subseteq> q_seen (queue (fst y))"
  using assms
proof (induction rule: rtranclp_induct)
  case (step y z)
  with crawl_reachable_inv [OF step(1)] have "crawl_inv e y" by blast
  from crawl_step_covered [OF step(2) this] step show ?case by auto
qed simp

lemma covered_new: "covered e (scheduler_new base)"
  by (simp add: covered_def scheduler_new_def queue_new_def)

lemma engine_covered:
  assumes "engine_reaches ec base vs extra s"
  shows "covered (cx_env (ec_ctx ec)) (en_sched s)"
  using crawl_steps_covered [OF engine_reaches_crawl [OF assms] crawl_inv_new] covered_new by auto

abbreviation offered_seen :: "'u crawl_ctx \<Rightarrow> crawl_shared \<Rightarrow> bool" where
  "offered_seen cx sh \<equiv> \<forall>u \<in> set (sh_offered sh). queue_digest (cx_env cx) u \<in> q_seen (queue (sh_sched sh))"

lemma enqueue_offered: "offered_seen cx sh \<Longrightarrow> offered_seen cx (enqueue cx d src sh)"
  by (auto simp: enqueue_def push_prioritized_def Let_def)

lemma fold_enqueue_offered: "offered_seen cx sh \<Longrightarrow> offered_seen cx (fold (\<lambda>d. enqueue cx d src) ds sh)"
proof (induction ds arbitrary: sh)
  case (Cons d ds)
  from Cons.IH [OF enqueue_offered [OF Cons.prems]] show ?case by simp
qed simp

lemma seeded_offered: "offered_seen cx (seed_run cx (restore_checkpoint_state cx vs l (fresh_shared base)))"
  by (auto simp: seed_run_def seed_def restore_checkpoint_state_def fresh_shared_def push_prioritized_def
      discovered_html_def Let_def split: option.split)

lemma engine_step_offered:
  assumes "engine_step ec s t"
  shows "sh_offered (en_shared t) = sh_offered (en_shared s)
    \<or> (\<exists>d src. en_shared t = enqueue (ec_ctx ec) d src (en_shared s))"
  using assms
proof (induction rule: engine_step.induct)
  case (e_task i s sh ph)
  from task_step_sched [OF e_task(2)] show ?case by auto
qed (simp_all add: cancel_run_def with_sched_def join_task_def)

lemma engine_offered:
  assumes "engine_reaches ec base vs extra s"
  shows "offered_seen (ec_ctx ec) (en_shared s)"
  using assms
proof (induction rule: engine_induct)
  case (start disk s)
  then have "en_shared s = fold (\<lambda>d. enqueue (ec_ctx ec) d Sitemap) extra
      (seed_run (ec_ctx ec) (restore_checkpoint_state (ec_ctx ec) vs (cs_loaded (ec_session ec)) (fresh_shared base)))"
    by (auto simp: engine_run_start_def Let_def split: if_splits)
  with fold_enqueue_offered [OF seeded_offered] show ?case by simp
next
  case (step s t)
  have "q_seen (queue (en_sched s)) \<subseteq> q_seen (queue (en_sched t))"
    using crawl_steps_covered [OF engine_step_crawl [OF step(2)] engine_reaches_inv [OF step(1)]]
      engine_covered [OF step(1)] by simp
  note seen = this
  from engine_step_offered [OF step(2)] show ?case
  proof
    assume "sh_offered (en_shared t) = sh_offered (en_shared s)"
    with seen step.IH show ?thesis by auto
  next
    assume "\<exists>d src. en_shared t = enqueue (ec_ctx ec) d src (en_shared s)"
    then obtain d src where "en_shared t = enqueue (ec_ctx ec) d src (en_shared s)" by blast
    with enqueue_offered [OF step.IH, of d src] show ?thesis by simp
  qed
qed

section \<open>When a run completes\<close>

text \<open>Where the loop stands, and what is then known of the queue when no task is left to fill it.\<close>

fun idle_inv :: "'u engine_cfg \<Rightarrow> engine_state \<Rightarrow> loop_pc \<Rightarrow> bool" where
  "idle_inv ec s Head = (en_tasks s = [] \<and> pending (en_sched s) = [] \<longrightarrow> q_heap (queue (en_sched s)) = [])"
| "idle_inv ec s Joining = True"
| "idle_inv ec s Recheck = True"
| "idle_inv ec s (Closed a) =
     (a = Delete \<longrightarrow> pending (en_sched s) = [] \<and> q_heap (queue (en_sched s)) = [] \<and> en_tasks s = [])"
| "idle_inv ec s pc =
     (if pc \<in> {DrainTasks, AbortTasks, Closing}
      then en_shutdown s \<or> is_full (cx_max_pages (ec_ctx ec)) (en_shared s)
        \<or> (en_tasks s = [] \<and> pending (en_sched s) = [] \<and> q_heap (queue (en_sched s)) = [])
      else en_tasks s = [] \<longrightarrow> q_heap (queue (en_sched s)) = [])"

lemma save_keeps_sched:
  assumes "crawl_inv (cx_env (ec_ctx ec)) (en_sched s, out)"
  shows "en_sched (engine_save_checkpoint ec io s) = en_sched s"
  using snapshot_pending_bounded_keeps [OF assms]
  by (simp add: engine_save_checkpoint_def after_snapshot_def split: option.split)

lemma periodic_keeps_sched:
  assumes "crawl_inv (cx_env (ec_ctx ec)) (en_sched s, out)"
  shows "en_sched (maybe_save_periodic_checkpoint ec io s) = en_sched s"
  using save_keeps_sched [OF assms] by (simp add: maybe_save_periodic_checkpoint_def Let_def)

lemma next_url_queue: "next_url e n sch = (r, sch') \<Longrightarrow> queue sch' = queue sch"
  using next_fresh_accounts [of e "pending sch" sch r sch'] by (auto simp: next_url_def split: if_splits)

lemma close_delete: "en_pc (close_run ec io s) = Closed Delete \<Longrightarrow> completed_fully ec s"
  by (auto simp: close_run_def session_finish_def Let_def split: option.splits if_splits)

lemma idle_cong:
  assumes "idle_inv ec s pc" and "en_tasks t = [] \<longleftrightarrow> en_tasks s = []" and "en_shutdown s \<longrightarrow> en_shutdown t"
    and "sh_counter (en_shared s) \<le> sh_counter (en_shared t)"
    and "en_tasks s = [] \<longrightarrow> queue (en_sched t) = queue (en_sched s) \<and> pending (en_sched t) = pending (en_sched s)"
  shows "idle_inv ec t pc"
  using assms by (cases pc) (auto simp: is_full_def)

lemma idle_step:
  assumes "engine_step ec s t" and "crawl_inv (cx_env (ec_ctx ec)) (en_sched s, en_dispatched s)"
    and "idle_inv ec s (en_pc s)"
  shows "idle_inv ec t (en_pc t)"
  using assms
proof (induction rule: engine_step.induct)
  case (e_task i s sh ph)
  from e_task task_step_budget(4) [OF e_task(2)] show ?case by (auto intro: idle_cong)
next
  case (l_shutdown s io)
  then show ?case by (simp add: cancel_run_def)
next
  case (l_drain s)
  then show ?case by (simp add: with_sched_def drain_discovered_eq)
next
  case (l_periodic s io)
  with periodic_keeps_sched [of ec s "en_dispatched s" io] show ?case by simp
next
  case (d_close s io)
  obtain a where a: "en_pc (close_run ec io s) = Closed a" using close_run_pc by blast
  with d_close close_delete [of ec io s] show ?case
    by (cases "a = Delete") (auto simp: completed_fully_def)
qed (auto simp: cancel_run_def with_sched_def join_task_def joinable_def must_wait_def has_pending_work_def is_full_def
    loop_condition_def next_url_queue set_autoscale_def remove_nth_def intro: idle_cong)

lemma engine_idle: "engine_reaches ec base vs extra s \<Longrightarrow> idle_inv ec s (en_pc s)"
proof (induction rule: engine_induct)
  case (start disk s)
  have "pending (en_sched s) \<noteq> []"
  proof -
    have keep: "pending (sh_sched (fold (\<lambda>d. enqueue cx d src) ds sh)) = pending (sh_sched sh)" for cx src ds and sh :: crawl_shared
      by (induction ds arbitrary: sh) (auto simp: enqueue_def Let_def)
    show ?thesis using start by (auto simp: engine_run_start_def seed_run_def seed_def Let_def keep split: if_splits)
  qed
  with start_shape(2) [OF start] show ?case by simp
next
  case (step s t)
  then show ?case using idle_step engine_reaches_inv by blast
qed


section \<open>Interrupted pages\<close>

lemma next_fresh_new: "next_fresh e ds sch = (Some d, sch') \<Longrightarrow> digest e (du_url d) \<notin> dd_seen (visited sch)"
proof (induction ds arbitrary: sch)
  case (Cons a ds)
  from Cons.IH [of "sch\<lparr>pending := ds\<rparr>"] Cons.prems show ?case
    by (cases "digest e (du_url a) \<in> dd_seen (visited sch)") (auto simp: record_visit_eq)
qed auto

lemma crawl_step_seen:
  assumes "crawl_step e x y" and "crawl_inv e x"
  shows "dd_seen (visited (fst x)) \<subseteq> dd_seen (visited (fst y))
    \<and> (snd y = snd x \<or> (\<exists>d. snd y = snd x @ [d] \<and> digest e (du_url d) \<notin> dd_seen (visited (fst x))))"
  using assms
proof (induction rule: crawl_step.induct)
  case (do_drain s out)
  then show ?case by (simp add: drain_discovered_eq)
next
  case (do_restore_visited s out us)
  have "dd_seen (visited s) \<subseteq> dd_seen (visited (restore_visited e us s))" for s
    by (induction e us s rule: restore_visited.induct) (auto simp: record_visit_eq split: if_splits)
  then show ?case by auto
next
  case (do_restore_pending s out us)
  have "visited (restore_pending e us s) = visited s"
    by (induction e us s rule: restore_pending.induct) (auto split: option.splits)
  then show ?case by simp
next
  case (do_snapshot s out budget)
  then show ?case by (simp add: snapshot_pending_bounded_keeps [of e s out])
next
  case (hand_out n s d s' out)
  then show ?case
    using next_fresh_accounts [of e "pending s" s "Some d" s'] next_fresh_new [of e "pending s" s d s']
    by (auto simp: next_url_def split: if_splits)
next
  case (no_work n s s' out)
  then show ?case
    using next_fresh_accounts [of e "pending s" s None s'] by (auto simp: next_url_def split: if_splits)
qed (simp_all add: seed_def set_autoscale_def Let_def)

lemma crawl_steps_avoid:
  assumes "(crawl_step e)\<^sup>*\<^sup>* (sch, []) y" and "crawl_inv e (sch, [])" and "k \<in> dd_seen (visited sch)"
  shows "k \<in> dd_seen (visited (fst y)) \<and> k \<notin> (\<lambda>d. digest e (du_url d)) ` set (snd y)"
  using assms(1)
proof (induction rule: rtranclp_induct)
  case base
  then show ?case using assms(3) by simp
next
  case (step y z)
  have "crawl_inv e y" using crawl_reachable_inv [OF step(1) assms(2)] .
  from crawl_step_seen [OF step(2) this] step.IH show ?case by auto
qed

lemma restore_visited_seen: "digest e ` set us \<subseteq> dd_seen (visited (restore_visited e us sch))"
proof (induction us arbitrary: sch)
  case (Cons u us)
  have "dd_seen (visited s) \<subseteq> dd_seen (visited (restore_visited e us s))" for s
    by (induction e us s rule: restore_visited.induct) (auto simp: record_visit_eq split: if_splits)
  moreover have "digest e u \<in> dd_seen (visited (fst (record_visit e u sch)))" by (auto simp: record_visit_eq)
  ultimately show ?case using Cons by auto
qed simp

lemma tasks_are_dispatched:
  "engine_reaches ec base vs extra s \<Longrightarrow> set (map tk_url (en_tasks s)) \<subseteq> set (en_dispatched s)"
proof (induction rule: engine_induct)
  case (start disk s)
  then show ?case by (simp add: start_shape)
next
  case (step s t)
  have upd: "set (map tk_url ((en_tasks s)[i := (en_tasks s ! i)\<lparr>tk_phase := ph\<rparr>])) \<subseteq> set (map tk_url (en_tasks s))"
    if "i < length (en_tasks s)" for i ph
    using that set_update_subset_insert [of "en_tasks s" i] by (fastforce dest: nth_mem)
  show ?case
    using step(2) step.IH
    by cases (use upd set_remove_nth in \<open>fastforce simp: cancel_run_def with_sched_def join_task_def\<close>)+
qed

text \<open>
  A page that is in a task when a checkpoint is taken is lost to the runs that resume from it: it stands
  in the checkpoint's visited set, which is documented to hold the pages that are fully processed, and a
  scheduler that restored this set hands out no page of its digest in any run.
\<close>

theorem page_in_flight_is_lost_on_resume:
  assumes "engine_reaches ec base vs extra s" and "t \<in> set (en_tasks s)"
    and "set us = cp_visited (build_checkpoint_state ec s)"
    and "(crawl_step (cx_env (ec_ctx ec)))\<^sup>*\<^sup>*
           (restore_visited (cx_env (ec_ctx ec)) us (scheduler_new base'), []) (sch, out)"
  shows "du_url (tk_url t) \<in> cp_visited (build_checkpoint_state ec s)
    \<and> digest (cx_env (ec_ctx ec)) (du_url (tk_url t)) \<notin> (\<lambda>d. digest (cx_env (ec_ctx ec)) (du_url d)) ` set out"
proof -
  let ?e = "cx_env (ec_ctx ec)"
  have "tk_url t \<in> set (en_dispatched s)" using tasks_are_dispatched [OF assms(1)] assms(2) by auto
  then have v: "du_url (tk_url t) \<in> cp_visited (build_checkpoint_state ec s)"
    using engine_reaches_inv [OF assms(1)] by (auto simp: crawl_inv_def build_checkpoint_state_def snapshot_visited_def)
  with assms(3) have "digest ?e (du_url (tk_url t)) \<in> dd_seen (visited (restore_visited ?e us (scheduler_new base')))"
    using restore_visited_seen [of ?e us "scheduler_new base'"] by blast
  from crawl_steps_avoid [OF assms(4) restore_visited_inv [OF crawl_inv_new] this] v show ?thesis by simp
qed

section \<open>Depth\<close>

text \<open>Pages waiting, buffered or in a task, and the depth bound on links a task still has to queue.\<close>

definition depth_inv :: "'u engine_cfg \<Rightarrow> engine_state \<Rightarrow> bool" where
  "depth_inv ec s =
     ((\<forall>x \<in> set (q_heap (queue (en_sched s))). du_depth (pu_url x) \<le> cx_max_depth (ec_ctx ec))
      \<and> (\<forall>d \<in> set (pending (en_sched s)) \<union> set (en_dispatched s). du_depth d \<le> cx_max_depth (ec_ctx ec))
      \<and> (\<forall>t \<in> set (en_tasks s). \<forall>fo l ls. tk_phase t = Linking fo (l # ls) \<longrightarrow> du_depth (tk_url t) < cx_max_depth (ec_ctx ec)))"

lemma enqueue_heap:
  "x \<in> set (q_heap (queue (sh_sched (enqueue cx d src sh)))) \<Longrightarrow>
   x \<in> set (q_heap (queue (sh_sched sh))) \<or> pu_url x = d"
  by (auto simp: enqueue_def push_prioritized_def from_source_def Let_def split: if_splits)

lemma enqueue_pending [simp]: "pending (sh_sched (enqueue cx d src sh)) = pending (sh_sched sh)"
  by (simp add: enqueue_def Let_def)

lemma next_fresh_pending:
  "next_fresh e ds sch = (r, sch') \<Longrightarrow> set (pending sch') \<subseteq> set ds \<and> (\<forall>d. r = Some d \<longrightarrow> d \<in> set ds)"
proof (induction ds arbitrary: sch)
  case (Cons a ds)
  from Cons.IH [of "sch\<lparr>pending := ds\<rparr>"] Cons.prems show ?case
    by (cases "digest e (du_url a) \<in> dd_seen (visited sch)") (auto simp: record_visit_eq)
qed auto

lemma next_url_pending:
  "next_url e n sch = (r, sch') \<Longrightarrow> set (pending sch') \<subseteq> set (pending sch) \<and> (\<forall>d. r = Some d \<longrightarrow> d \<in> set (pending sch))"
  using next_fresh_pending [of e "pending sch" sch r sch'] by (auto simp: next_url_def split: if_splits)

lemma task_step_links:
  assumes "task_step cx d (sh, ph) (sh', ph')" and "ph' = Linking fo (l # ls)"
  shows "du_depth d < cx_max_depth cx \<or> (\<exists>l'. ph = Linking fo (l' # l # ls))"
  using assms by cases (auto split: if_splits simp: not_le)

lemma step_depth_no_wrap: "(d :: u8) < m \<Longrightarrow> d + 1 \<le> m"
  by (simp add: inc_le)

lemma depth_task:
  assumes "depth_inv ec s" and "i < length (en_tasks s)"
    and "task_step (ec_ctx ec) (tk_url (en_tasks s ! i)) (en_shared s, tk_phase (en_tasks s ! i)) (sh, ph)"
  shows "depth_inv ec (s\<lparr>en_shared := sh, en_tasks := (en_tasks s)[i := (en_tasks s ! i)\<lparr>tk_phase := ph\<rparr>]\<rparr>)"
proof -
  let ?t = "en_tasks s ! i"
  have t: "?t \<in> set (en_tasks s)" using assms(2) by simp
  have links: "du_depth (tk_url ?t) < cx_max_depth (ec_ctx ec)" if "ph = Linking fo (l # ls)" for fo l ls
    using task_step_links [OF assms(3) that] assms(1) t by (auto simp: depth_inv_def)
  have tasks: "\<forall>x \<in> set ((en_tasks s)[i := ?t\<lparr>tk_phase := ph\<rparr>]). \<forall>fo l ls.
      tk_phase x = Linking fo (l # ls) \<longrightarrow> du_depth (tk_url x) < cx_max_depth (ec_ctx ec)"
    using assms(1) links set_update_subset_insert [of "en_tasks s" i] by (fastforce simp: depth_inv_def)
  have "\<forall>x \<in> set (q_heap (queue (sh_sched sh))). du_depth (pu_url x) \<le> cx_max_depth (ec_ctx ec)"
    and "pending (sh_sched sh) = pending (en_sched s)"
    using task_step_sched [OF assms(3)] assms(1) t
    by (auto simp: depth_inv_def discovered_html_def dest!: enqueue_heap intro!: step_depth_no_wrap)
  with tasks assms(1) show ?thesis by (simp add: depth_inv_def)
qed

lemma depth_step:
  assumes "engine_step ec s t" and "crawl_inv (cx_env (ec_ctx ec)) (en_sched s, en_dispatched s)" and "depth_inv ec s"
  shows "depth_inv ec t"
  using assms
proof (induction rule: engine_step.induct)
  case (e_task i s sh ph)
  then show ?case by (intro depth_task)
next
  case (e_panic i s)
  then show ?case using set_update_subset_insert [of "en_tasks s" i] by (fastforce simp: depth_inv_def)
next
  case (d_abort s i)
  then show ?case using set_update_subset_insert [of "en_tasks s" i] by (fastforce simp: depth_inv_def)
next
  case (l_drain s)
  then show ?case by (auto simp: with_sched_def drain_discovered_eq depth_inv_def)
next
  case (l_periodic s io)
  with periodic_keeps_sched [of ec s "en_dispatched s" io] show ?case by (simp add: depth_inv_def)
next
  case (l_shutdown s io)
  with save_keeps_sched [of ec "cancel_run s" "en_dispatched s" io] show ?case by (simp add: depth_inv_def cancel_run_def)
next
  case (l_spawn s remaining d sch)
  then show ?case
    using next_url_pending [OF l_spawn(2)] next_url_queue [OF l_spawn(2)] by (auto simp: depth_inv_def with_sched_def)
next
  case (l_no_url s remaining sch)
  then show ?case
    using next_url_pending [OF l_no_url(2)] next_url_queue [OF l_no_url(2)] by (auto simp: depth_inv_def with_sched_def)
qed (use set_remove_nth in \<open>fastforce simp: depth_inv_def cancel_run_def with_sched_def join_task_def set_autoscale_def\<close>)+

lemma depth_start:
  assumes "engine_run_start ec base vs extra disk = Some s"
    and "\<forall>d \<in> set extra. du_depth d \<le> cx_max_depth (ec_ctx ec)"
  shows "depth_inv ec s"
proof -
  let ?cx = "ec_ctx ec"
  let ?r = "restore_checkpoint_state ?cx vs (cs_loaded (ec_session ec)) (fresh_shared base)"
  have rv: "queue (restore_visited e us sch) = queue sch" "pending (restore_visited e us sch) = pending sch" for e :: "'a url_env" and us sch
    by (induction e us sch rule: restore_visited.induct) (auto simp: record_visit_eq)
  have rp: "queue (restore_pending e us sch) = queue sch"
    "\<forall>d \<in> set (pending (restore_pending e us sch)). d \<in> set (pending sch) \<or> du_depth d = 0" for e :: "'a url_env" and us sch
    by (induction e us sch rule: restore_pending.induct) (fastforce simp: discovered_html_def split: option.splits)+
  have r: "q_heap (queue (sh_sched ?r)) = [] \<and> (\<forall>d \<in> set (pending (sh_sched ?r)). du_depth d = 0)"
    using rp(2) [of "cx_env ?cx" _ "restore_visited (cx_env ?cx) vs (scheduler_new base)"]
    by (auto simp: restore_checkpoint_state_def fresh_shared_def rv rp(1) scheduler_new_def queue_new_def split: option.split)
  then have sd: "\<forall>x \<in> set (q_heap (queue (sh_sched (seed_run ?cx ?r)))). du_depth (pu_url x) = 0"
    "\<forall>d \<in> set (pending (sh_sched (seed_run ?cx ?r))). du_depth d = 0"
    by (auto simp: seed_run_def seed_def push_prioritized_def from_source_def discovered_html_def Let_def split: if_splits)
  have f: "pending (sh_sched (fold (\<lambda>d. enqueue ?cx d Sitemap) ds sh)) = pending (sh_sched sh)
      \<and> (\<forall>x \<in> set (q_heap (queue (sh_sched (fold (\<lambda>d. enqueue ?cx d Sitemap) ds sh)))).
           x \<in> set (q_heap (queue (sh_sched sh))) \<or> pu_url x \<in> set ds)" for ds sh
  proof (induction ds arbitrary: sh)
    case (Cons d ds)
    from Cons.IH [of "enqueue ?cx d Sitemap sh"] show ?case by (auto dest: enqueue_heap)
  qed simp
  have "en_shared s = fold (\<lambda>d. enqueue ?cx d Sitemap) extra (seed_run ?cx ?r)"
    using assms(1) by (auto simp: engine_run_start_def Let_def split: if_splits)
  with f [of extra "seed_run ?cx ?r"] sd assms(2) start_shape [OF assms(1)] show ?thesis
    by (fastforce simp: depth_inv_def)
qed

text \<open>
  C20. No page is crawled below the configured depth, and the depth of a link never wraps around: with
  sitemap entries within the bound, every page that is dispatched, buffered or queued, in every
  interleaving, has a depth of at most \<^verbatim>\<open>max_depth\<close>, also for the largest bound of eight bits; and no page is
  dispatched twice.
\<close>

theorem dispatched_pages_are_bounded_and_distinct:
  assumes "engine_reaches ec base vs extra s" and "\<forall>d \<in> set extra. du_depth d \<le> cx_max_depth (ec_ctx ec)"
  shows "(\<forall>d \<in> set (en_dispatched s) \<union> set (pending (en_sched s)) \<union> pu_url ` set (q_heap (queue (en_sched s))).
            du_depth d \<le> cx_max_depth (ec_ctx ec))
    \<and> distinct (map (\<lambda>d. digest (cx_env (ec_ctx ec)) (du_url d)) (en_dispatched s))"
proof -
  from assms(1) have "depth_inv ec s"
  proof (induction rule: engine_induct)
    case (start disk s)
    then show ?case using depth_start assms(2) by blast
  next
    case (step s t)
    then show ?case using depth_step engine_reaches_inv by blast
  qed
  moreover have "distinct (map (\<lambda>d. digest (cx_env (ec_ctx ec)) (du_url d)) (en_dispatched s))"
    using engine_reaches_inv [OF assms(1)] by (simp add: crawl_inv_def)
  ultimately show ?thesis by (auto simp: depth_inv_def)
qed

section \<open>Error counters\<close>

lemma count_error_sum:
  assumes "length (sh_error_breakdown sh) = 8 \<and> sh_error_count sh = sum_list (sh_error_breakdown sh)"
  shows "length (sh_error_breakdown (count_error c sh)) = 8
    \<and> sh_error_count (count_error c sh) = sum_list (sh_error_breakdown (count_error c sh))"
proof -
  have "category_index c < 8" by (simp add: category_index_def split: crawl_error_category.split)
  with assms show ?thesis by (simp add: count_error_def sum_list_update member_le_sum_list)
qed

lemma handle_result_sum:
  "length (sh_error_breakdown sh) = 8 \<and> sh_error_count sh = sum_list (sh_error_breakdown sh) \<Longrightarrow>
   length (sh_error_breakdown (handle_crawl_result r sh)) = 8
   \<and> sh_error_count (handle_crawl_result r sh) = sum_list (sh_error_breakdown (handle_crawl_result r sh))"
  using count_error_sum
  by (cases r) (auto simp: handle_crawl_result_def handle_task_error_def handle_join_error_def)

lemma task_step_errors:
  assumes "task_step cx d (sh, ph) (sh', ph')"
  shows "(sh_error_count sh' = sh_error_count sh \<and> sh_error_breakdown sh' = sh_error_breakdown sh)
    \<or> (\<exists>x. sh' = count_error Extraction x \<and> sh_error_count x = sh_error_count sh \<and> sh_error_breakdown x = sh_error_breakdown sh)"
proof -
  have q: "sh_error_count (queue_link cx r depth p l x) = sh_error_count x"
    "sh_error_breakdown (queue_link cx r depth p l x) = sh_error_breakdown x" for r depth p l x
    by (cases rule: queue_link_cases [of cx r depth p l x]; simp)+
  from assms show ?thesis
  proof cases
    case (t_extract_failed fo)
    then show ?thesis by (intro disjI2 exI [of _ "sh\<lparr>sh_chan := sh_chan sh @ [result_url d fo]\<rparr>"]) simp
  qed (auto simp: q dest: acquire_session_frame run_pipeline_frame)
qed

text \<open>
  The error report of a run is consistent: at any moment the number of errors is the sum of the counts of
  the eight categories.
\<close>

theorem error_breakdown_adds_up:
  assumes "engine_reaches ec base vs extra s"
  shows "length (sh_error_breakdown (en_shared s)) = 8
    \<and> sh_error_count (en_shared s) = sum_list (sh_error_breakdown (en_shared s))"
  using assms
proof (induction rule: engine_induct)
  case (start disk s)
  then show ?case by (simp add: start_shape)
next
  case (step s t)
  have save: "sh_error_count (en_shared (engine_save_checkpoint ec io x)) = sh_error_count (en_shared x)"
    "sh_error_breakdown (en_shared (engine_save_checkpoint ec io x)) = sh_error_breakdown (en_shared x)" for io x
    by (simp_all add: engine_save_checkpoint_def after_snapshot_def split: option.split)
  from step(2) step.IH show ?case
  proof cases
    case (e_task i sh ph)
    with task_step_errors [OF e_task(3)] count_error_sum step.IH show ?thesis by auto
  qed (auto simp: save maybe_save_periodic_checkpoint_def Let_def cancel_run_def with_sched_def join_task_def
      handle_result_sum)
qed

section \<open>A cancelled run\<close>

text \<open>
  A concrete host for runs: every string is its own URL, the digest of a URL is its length. The run
  resumes a checkpoint with one page left.
\<close>

definition plain_env :: "string url_env" where
  "plain_env =
     \<lparr>url_lib = \<lparr>api_parse = Some, api_scheme = \<lambda>_. ''http'', api_host_str = \<lambda>_. Some ''h'', api_path = \<lambda>u. u,
                 api_set_path = \<lambda>p u. p, api_to_string = \<lambda>u. u\<rparr>,
      url_norm = \<lambda>opts u. Some u, visit_hash = \<lambda>u. of_nat (length u), queue_hash = \<lambda>u. of_nat (length u)\<rparr>"

definition plain_ctx :: "string crawl_ctx" where
  "plain_ctx =
     \<lparr>cx_env = plain_env, cx_glob = \<lambda>p. None, cx_patterns = \<lparr>include_patterns = [], exclude_patterns = []\<rparr>,
      cx_seed_url = ''s'', cx_max_depth = 3, cx_max_pages = 5, cx_ignore_robots = True, cx_pool = None,
      cx_sink = False, cx_pipeline = False, cx_capacity = 4\<rparr>"

definition resumed_cfg :: "string engine_cfg" where
  "resumed_cfg =
     \<lparr>ec_ctx = plain_ctx, ec_codec = sample_codec,
      ec_session = sample_session\<lparr>cs_mode := persistence_mode.Checkpoint \<lparr>ck_dir = ''d'', ck_interval = 100\<rparr>,
        cs_loaded := Some (checkpoint_new\<lparr>cp_visited := {''s''}, cp_queued := [''bb''], cp_pages_crawled := 1\<rparr>)\<rparr>\<rparr>"

definition page :: "string \<Rightarrow> discovered_url" where
  "page u = discovered_html u 0 u"

definition run_sched :: "u64 set \<Rightarrow> string list \<Rightarrow> prioritized_url list \<Rightarrow> discovered_url list \<Rightarrow> crawl_scheduler" where
  "run_sched seen urls heap pend =
     \<lparr>visited = \<lparr>dd_seen = seen\<rparr>, visited_urls = urls, queue = \<lparr>q_heap = heap, q_seen = {1}\<rparr>, pending = pend,
      base_concurrency = 2, autoscale_level = None\<rparr>"

definition run_state ::
  "crawl_scheduler \<Rightarrow> bool \<Rightarrow> page_task list \<Rightarrow> loop_pc \<Rightarrow> discovered_url list \<Rightarrow> u8 world \<Rightarrow> engine_state" where
  "run_state sch cancelled tasks pc disp disk =
     \<lparr>en_shared = (fresh_shared 2)\<lparr>sh_sched := sch, sh_pages_crawled := 1, sh_cancelled := cancelled, sh_offered := [''s'']\<rparr>,
      en_tasks = tasks, en_pc = pc, en_shutdown = False, en_disk = disk, en_dispatched = disp\<rparr>"

lemmas run_eval = run_state_def run_sched_def resumed_cfg_def plain_ctx_def page_def fresh_shared_def

lemma plain_digest [simp]:
  "digest plain_env ''s'' = 1" "digest plain_env ''bb'' = 2"
  "queue_digest plain_env ''s'' = 1"
  by (simp_all add: plain_env_def canon_def normalize_url_def starts_with_def)

lemma plain_parse [simp]: "parse_url plain_env u = Some u"
  by (simp add: plain_env_def parse_url_def)

lemma du_url_page [simp]: "du_url (page u) = u"
  by (simp add: page_def discovered_html_def)

lemma run_starts:
  "engine_run_start resumed_cfg 2 [''s''] [] disk =
     Some (run_state (run_sched {1} [''s''] [from_source (page ''s'') Seed] [page ''bb'', page ''s'']) False [] Head [] disk)"
  by (simp add: engine_run_start_def run_eval seed_run_def seed_def restore_checkpoint_state_def scheduler_new_def dedup_new_def
      queue_new_def record_visit_eq push_prioritized_def is_allowed_def is_excluded_def matches_include_def
      sample_session_def checkpoint_new_def discovered_html_def Let_def)

lemma run_next_page:
  "next_url plain_env 0 (run_sched {1} [''s''] [] [page ''bb'', page ''s'', page ''s'']) =
     (Some (page ''bb''), run_sched {2, 1} [''s'', ''bb''] [] [page ''s'', page ''s''])"
  by (simp add: run_sched_def next_url_def can_spawn_def effective_concurrency_def record_visit_eq)

lemma run_no_page:
  "n < 2 \<Longrightarrow> set pend \<subseteq> {page ''s''} \<Longrightarrow>
   next_url plain_env n (run_sched {2, 1} us [] pend) = (None, run_sched {2, 1} us [] [])"
proof -
  assume n: "n < 2" and p: "set pend \<subseteq> {page ''s''}"
  have "next_fresh plain_env pend (run_sched {2, 1} us [] q) = (None, run_sched {2, 1} us [] [])" for q
    using p
  proof (induction pend arbitrary: q)
    case (Cons d pend)
    then show ?case by (auto simp: record_visit_eq run_sched_def)
  qed (simp add: run_sched_def)
  with n show ?thesis by (simp add: next_url_def can_spawn_def effective_concurrency_def) (simp add: run_sched_def)
qed

lemma run_step: "engine_step ec s t \<Longrightarrow> (engine_step ec)\<^sup>*\<^sup>* s t"
  by (rule r_into_rtranclp)

lemma run_then: "engine_step ec s t \<Longrightarrow> (engine_step ec)\<^sup>*\<^sup>* t u \<Longrightarrow> (engine_step ec)\<^sup>*\<^sup>* s u"
  by (rule converse_rtranclp_into_rtranclp)

lemma run_trans: "(engine_step ec)\<^sup>*\<^sup>* s t \<Longrightarrow> (engine_step ec)\<^sup>*\<^sup>* t u \<Longrightarrow> (engine_step ec)\<^sup>*\<^sup>* s u"
  by (rule rtranclp_trans)

text \<open>The steps of a round of the loop, on the states of this run.\<close>

lemma run_enter:
  "pending sch \<noteq> [] \<or> tasks \<noteq> [] \<Longrightarrow>
   engine_step resumed_cfg (run_state sch c tasks Head disp disk) (run_state sch c tasks Joining disp disk)"
  using l_enter [of "run_state sch c tasks Head disp disk" resumed_cfg]
  by (simp add: run_eval loop_condition_def has_pending_work_def is_full_def)

lemma run_joined:
  "engine_step resumed_cfg (run_state sch c tasks Joining disp disk) (run_state sch c tasks Recheck disp disk)"
  using l_joined [of "run_state sch c tasks Joining disp disk" resumed_cfg] by (simp add: run_eval)

lemma run_drain:
  "engine_step resumed_cfg (run_state sch c tasks Recheck disp disk) (run_state (drain_discovered sch) c tasks PeriodicCheckpoint disp disk)"
  using l_drain [of "run_state sch c tasks Recheck disp disk" resumed_cfg]
  by (simp add: run_eval is_full_def with_sched_def)

lemma run_no_checkpoint:
  "engine_step resumed_cfg (run_state sch c tasks PeriodicCheckpoint disp disk) (run_state sch c tasks ReadCollected disp disk)"
proof -
  have "(1 :: u64) mod 100 \<noteq> 0" by (simp add: word_mod_no)
  then show ?thesis
    using l_periodic [of "run_state sch c tasks PeriodicCheckpoint disp disk" resumed_cfg sample_host]
    by (simp add: run_eval maybe_save_periodic_checkpoint_def engine_checkpoint_interval_def checkpoint_interval_of_def
        unwrap_or_def sample_session_def)
qed

lemma run_budget:
  "(engine_step resumed_cfg)\<^sup>*\<^sup>* (run_state sch c [] ReadCollected disp disk) (run_state sch c [] (Spawning 5) disp disk)"
proof -
  have "engine_step resumed_cfg (run_state sch c [] ReadCollected disp disk) (run_state sch c [] (ReadInFlight 0) disp disk)"
    using l_collected [of "run_state sch c [] ReadCollected disp disk" resumed_cfg] by (simp add: run_eval)
  moreover have "engine_step resumed_cfg (run_state sch c [] (ReadInFlight 0) disp disk) (run_state sch c [] (Spawning 5) disp disk)"
    using l_budget [of "run_state sch c [] (ReadInFlight 0) disp disk" 0 resumed_cfg]
    by (simp add: run_eval remaining_budget_def)
  ultimately show ?thesis by simp
qed

lemma run_round:
  assumes "pending sch \<noteq> [] \<or> tasks \<noteq> []"
  shows "(engine_step resumed_cfg)\<^sup>*\<^sup>* (run_state sch c tasks Head disp disk) (run_state sch c tasks Joining disp disk)"
  using run_enter [OF assms] by (rule run_step)

lemma run_prepare:
  "(engine_step resumed_cfg)\<^sup>*\<^sup>* (run_state sch c [] Joining disp disk)
     (run_state (drain_discovered sch) c [] (Spawning 5) disp disk)"
  by (meson run_joined run_drain run_no_checkpoint run_budget run_then)

lemma run_waited:
  "(engine_step resumed_cfg)\<^sup>*\<^sup>* (run_state (run_sched v us h []) c tasks Waiting disp disk) (run_state (run_sched v us h []) c tasks Head disp disk)"
  using l_no_wait [of "run_state (run_sched v us h []) c tasks Waiting disp disk" resumed_cfg]
  by (simp add: run_eval must_wait_def has_pending_work_def run_step)

lemma drained_seed: "drain_discovered (run_sched v us [x] p) = run_sched v us [] (p @ [pu_url x])"
  by (simp add: drain_discovered_def drain_all_def run_sched_def heap_pop_def)

lemma drained_empty: "drain_discovered (run_sched v us [] p) = run_sched v us [] p"
  by (simp add: drain_discovered_def drain_all_def run_sched_def)

lemma run_dispatches:
  "(engine_step resumed_cfg)\<^sup>*\<^sup>*
     (run_state (run_sched {1} [''s''] [from_source (page ''s'') Seed] [page ''bb'', page ''s'']) False [] Head [] disk)
     (run_state (run_sched {2, 1} [''s'', ''bb''] [] [page ''s'', page ''s'']) False
        [\<lparr>tk_url = page ''bb'', tk_phase = Pacing\<rparr>] (Spawning 4) [page ''bb''] disk)"
proof -
  let ?s0 = "run_sched {1} [''s''] [from_source (page ''s'') Seed] [page ''bb'', page ''s'']"
  let ?s1 = "run_sched {1} [''s''] [] [page ''bb'', page ''s'', page ''s'']"
  have "pu_url (from_source (page ''s'') Seed) = page ''s''" by (simp add: from_source_def Let_def)
  then have d: "drain_discovered ?s0 = ?s1" by (simp add: drained_seed)
  have a: "(engine_step resumed_cfg)\<^sup>*\<^sup>* (run_state ?s0 False [] Head [] disk) (run_state ?s0 False [] Joining [] disk)"
    by (rule run_round) (simp add: run_sched_def)
  have b: "(engine_step resumed_cfg)\<^sup>*\<^sup>* (run_state ?s0 False [] Joining [] disk) (run_state ?s1 False [] (Spawning 5) [] disk)"
    using run_prepare [of ?s0 False "[]" disk] by (simp add: d)
  have c: "engine_step resumed_cfg (run_state ?s1 False [] (Spawning 5) [] disk)
     (run_state (run_sched {2, 1} [''s'', ''bb''] [] [page ''s'', page ''s'']) False
        [\<lparr>tk_url = page ''bb'', tk_phase = Pacing\<rparr>] (Spawning 4) [page ''bb''] disk)"
    using l_spawn [of "run_state ?s1 False [] (Spawning 5) [] disk" 4 resumed_cfg "page ''bb''"
        "run_sched {2, 1} [''s'', ''bb''] [] [page ''s'', page ''s'']"] run_next_page
    by (simp add: run_state_def resumed_cfg_def plain_ctx_def with_sched_def fresh_shared_def)
  show ?thesis by (rule run_trans [OF a run_trans [OF b run_step [OF c]]])
qed

lemma run_cancels:
  "(engine_step resumed_cfg)\<^sup>*\<^sup>*
     (run_state (run_sched {2, 1} us [] p) False [\<lparr>tk_url = d, tk_phase = Pacing\<rparr>] pc disp disk)
     (run_state (run_sched {2, 1} us [] p) True [\<lparr>tk_url = d, tk_phase = Done (TaskErr crawl_error.Cancelled)\<rparr>] pc disp disk)"
proof -
  let ?a = "run_state (run_sched {2, 1} us [] p) False [\<lparr>tk_url = d, tk_phase = Pacing\<rparr>] pc disp disk"
  let ?b = "run_state (run_sched {2, 1} us [] p) True [\<lparr>tk_url = d, tk_phase = Pacing\<rparr>] pc disp disk"
  have a: "engine_step resumed_cfg ?a ?b"
    using e_cancel [of resumed_cfg ?a] by (simp add: run_state_def cancel_run_def fresh_shared_def)
  have "task_step plain_ctx d (en_shared ?b, Pacing) (en_shared ?b, Done (TaskErr crawl_error.Cancelled))"
    by (rule t_cancelled) (simp add: run_state_def)
  then have b: "engine_step resumed_cfg ?b
      (run_state (run_sched {2, 1} us [] p) True [\<lparr>tk_url = d, tk_phase = Done (TaskErr crawl_error.Cancelled)\<rparr>] pc disp disk)"
    using e_task [of 0 ?b resumed_cfg] by (simp add: run_state_def resumed_cfg_def)
  show ?thesis by (rule run_then [OF a run_step [OF b]])
qed

lemma run_spawns_nothing:
  assumes "length tasks < 2" and "set p \<subseteq> {page ''s''}"
  shows "engine_step resumed_cfg (run_state (run_sched {2, 1} us [] p) c tasks (Spawning (Suc n)) disp disk)
     (run_state (run_sched {2, 1} us [] []) c tasks Waiting disp disk)"
  using l_no_url [of "run_state (run_sched {2, 1} us [] p) c tasks (Spawning (Suc n)) disp disk" n resumed_cfg
      "run_sched {2, 1} us [] []"] run_no_page [OF assms, of us]
  by (simp add: run_state_def resumed_cfg_def plain_ctx_def with_sched_def fresh_shared_def)

lemma run_joins:
  "engine_step resumed_cfg (run_state sch c [\<lparr>tk_url = d, tk_phase = Done (TaskErr crawl_error.Cancelled)\<rparr>] Joining disp disk)
     (run_state sch c [] Joining disp disk)"
proof -
  let ?s = "run_state sch c [\<lparr>tk_url = d, tk_phase = Done (TaskErr crawl_error.Cancelled)\<rparr>] Joining disp disk"
  have "joinable ?s 0 (TaskErr crawl_error.Cancelled)" by (simp add: joinable_def run_state_def)
  from l_join [OF _ this, of resumed_cfg] show ?thesis
    by (simp add: run_state_def join_task_def remove_nth_def handle_crawl_result_def handle_task_error_def)
qed

lemma run_finishes:
  "(engine_step resumed_cfg)\<^sup>*\<^sup>* (run_state (run_sched v us [] []) c [] Head disp disk)
     (run_state (run_sched v us [] []) c [] (Closed Delete) disp
        (delete_checkpoint_file sample_host (file_for_seed sample_codec ''d'' ''s'') disk))"
proof -
  let ?s = "\<lambda>pc. run_state (run_sched v us [] []) c [] pc disp disk"
  have a: "engine_step resumed_cfg (?s Head) (?s DrainTasks)"
    using l_exit [of "?s Head" resumed_cfg] by (simp add: run_eval loop_condition_def has_pending_work_def)
  have b: "engine_step resumed_cfg (?s DrainTasks) (?s Closing)"
    using d_drained [of "?s DrainTasks" resumed_cfg] by (simp add: run_state_def)
  have full: "completed_fully resumed_cfg (?s Closing)"
    by (simp add: completed_fully_def has_pending_work_def is_full_def run_eval)
  have c: "engine_step resumed_cfg (?s Closing) (run_state (run_sched v us [] []) c [] (Closed Delete) disp
        (delete_checkpoint_file sample_host (file_for_seed sample_codec ''d'' ''s'') disk))"
    using d_close [of "?s Closing" resumed_cfg sample_host] full
    by (simp add: close_run_def session_finish_def checkpoint_scoped_path_def resumed_cfg_def sample_session_def run_state_def)
  show ?thesis by (rule run_then [OF a run_then [OF b run_step [OF c]]])
qed

lemma cancelled_run:
  "(engine_step resumed_cfg)\<^sup>*\<^sup>*
     (run_state (run_sched {1} [''s''] [from_source (page ''s'') Seed] [page ''bb'', page ''s'']) False [] Head [] disk)
     (run_state (run_sched {2, 1} [''s'', ''bb''] [] []) True [] (Closed Delete) [page ''bb'']
        (delete_checkpoint_file sample_host (file_for_seed sample_codec ''d'' ''s'') disk))"
proof -
  let ?u = "[''s'', ''bb'']" and ?t = "[\<lparr>tk_url = page ''bb'', tk_phase = Done (TaskErr crawl_error.Cancelled)\<rparr>]" and ?o = "[page ''bb'']"
  let ?e = "run_sched {2, 1} ?u [] []"
  have wait: "(engine_step resumed_cfg)\<^sup>*\<^sup>* (run_state (run_sched {2, 1} ?u [] [page ''s'', page ''s'']) True ?t (Spawning 4) ?o disk)
      (run_state ?e True ?t Head ?o disk)"
    using run_spawns_nothing [of ?t "[page ''s'', page ''s'']" ?u True 3 ?o disk] run_waited [of "{2, 1}" ?u "[]" True ?t ?o disk]
    by (simp add: run_then)
  have join: "(engine_step resumed_cfg)\<^sup>*\<^sup>* (run_state ?e True ?t Head ?o disk) (run_state ?e True [] Joining ?o disk)"
    by (rule run_trans [OF run_round run_step [OF run_joins]]) simp
  have again: "(engine_step resumed_cfg)\<^sup>*\<^sup>* (run_state ?e True [] Joining ?o disk) (run_state ?e True [] Head ?o disk)"
    using run_prepare [of ?e True ?o disk] run_spawns_nothing [of "[]" "[]" ?u True 4 ?o disk]
      run_waited [of "{2, 1}" ?u "[]" True "[]" ?o disk]
    by (simp add: drained_empty)
  show ?thesis
    by (rule run_trans [OF run_dispatches run_trans [OF run_cancels run_trans [OF wait
          run_trans [OF join run_trans [OF again run_finishes]]]]])
qed

text \<open>
  The cancellation handle is documented to have the effect of a termination signal: no new fetches, and
  the checkpoint is kept for the next run. It does not set the shutdown flag that the loop and the close of
  the run test. In the run below, which resumes a checkpoint with one page left, the handle fires once; the
  loop goes on, dispatches the page, whose task gives up at once, takes the run for completed and deletes
  the checkpoint: the page was neither fetched nor counted as an error and no later run will find it.
\<close>

theorem cancel_handle_discards_the_frontier:
  "\<exists>s0 s. engine_run_start resumed_cfg 2 [''s''] []
            (put_file (file_for_seed sample_codec ''d'' ''s'') [7, 0, 0, 0, 7] empty_disk) = Some s0
     \<and> (engine_step resumed_cfg)\<^sup>*\<^sup>* s0 s \<and> en_pc s = Closed Delete \<and> sh_cancelled (en_shared s)
     \<and> sh_pages_crawled (en_shared s) = sh_pages_crawled (en_shared s0)
     \<and> sh_results (en_shared s) = [] \<and> sh_error_count (en_shared s) = 0 \<and> map du_url (en_dispatched s) = [''bb'']
     \<and> files (en_disk s) (file_for_seed sample_codec ''d'' ''s'') = None"
  by (intro exI conjI, rule run_starts, rule cancelled_run)
    (simp_all add: run_state_def fresh_shared_def delete_checkpoint_file_def sample_host_def)

section \<open>Witnesses\<close>

definition dispatched_state :: engine_state where
  "dispatched_state =
     run_state (run_sched {2, 1} [''s'', ''bb''] [] [page ''s'', page ''s'']) False
       [\<lparr>tk_url = page ''bb'', tk_phase = Pacing\<rparr>] (Spawning 4) [page ''bb''] empty_disk"

lemma dispatched_state_reached: "engine_reaches resumed_cfg 2 [''s''] [] dispatched_state"
  unfolding engine_reaches_def dispatched_state_def using run_starts [of empty_disk] run_dispatches [of empty_disk] by blast

theorem page_limit_is_a_ceiling_witness:
  "sh_counter (en_shared dispatched_state) + tasks_in unsent dispatched_state \<le> cx_max_pages (ec_ctx resumed_cfg)"
  using page_limit_is_a_ceiling [OF dispatched_state_reached] by blast

theorem dispatched_pages_are_bounded_and_distinct_witness:
  "distinct (map (\<lambda>d. digest (cx_env (ec_ctx resumed_cfg)) (du_url d)) (en_dispatched dispatched_state))"
  using dispatched_pages_are_bounded_and_distinct [OF dispatched_state_reached] by simp

theorem page_in_flight_is_lost_on_resume_witness:
  "''bb'' \<in> cp_visited (build_checkpoint_state resumed_cfg dispatched_state)"
proof -
  have t: "\<lparr>tk_url = page ''bb'', tk_phase = Pacing\<rparr> \<in> set (en_tasks dispatched_state)"
    by (simp add: dispatched_state_def run_state_def)
  have "set [''s'', ''bb''] = cp_visited (build_checkpoint_state resumed_cfg dispatched_state)"
    by (simp add: build_checkpoint_state_def snapshot_visited_def dispatched_state_def run_state_def run_sched_def)
  from page_in_flight_is_lost_on_resume [OF dispatched_state_reached t this rtranclp.rtrancl_refl]
  show ?thesis by simp
qed

definition completed_state :: engine_state where
  "completed_state =
     run_state (run_sched {2, 1} [''s'', ''bb''] [] []) True [] (Closed Delete) [page ''bb'']
       (delete_checkpoint_file sample_host (file_for_seed sample_codec ''d'' ''s'') empty_disk)"

lemma completed_state_reached: "engine_reaches resumed_cfg 2 [''s''] [] completed_state"
  unfolding engine_reaches_def completed_state_def using run_starts [of empty_disk] cancelled_run [of empty_disk] by blast


end
