(* ===== verification/Bounded_Sink.thy ===== *)
theory Bounded_Sink
  imports Prelude "HOL-Library.Multiset"
begin

text \<open>
  The bounded page spool of \<^verbatim>\<open>application/crawler/bounded_sink.rs\<close> as a step relation. Crawl workers run
  \<^verbatim>\<open>capture\<close>, the owner runs \<^verbatim>\<open>finish\<close> and \<^verbatim>\<open>cancel\<close>, and the writer task drains the channel and the
  backlog. A step is what happens between two points where another task may interleave: obtaining the
  sender, the \<^verbatim>\<open>try_send\<close>, the locked \<^verbatim>\<open>admit\<close>, the notification, and each test of the writer's exit
  condition are separate steps. A worker holds a sender from its first step to its last. The writer's
  select takes any branch that is ready, which includes every choice its order allows. Encoding and disk
  errors end the writer at any write.
\<close>

section \<open>Pages and backlog\<close>

record captured_page =
  cp_url :: string
  cp_html :: string

definition usize_max :: nat where
  "usize_max = 2 ^ 64 - 1"

definition saturating_add :: "nat \<Rightarrow> nat \<Rightarrow> nat" where
  "saturating_add a b = min (a + b) usize_max"

definition page_bytes :: "captured_page \<Rightarrow> nat" where
  "page_bytes p = saturating_add (byte_len (cp_url p)) (byte_len (cp_html p))"

record backlog_state =
  b_pages :: "captured_page list"
  b_bytes :: nat
  b_saturated :: bool

definition backlog_new :: backlog_state where
  "backlog_new = \<lparr>b_pages = [], b_bytes = 0, b_saturated = False\<rparr>"

datatype admit_result = Queued | Saturated bool

definition admit :: "nat \<Rightarrow> captured_page \<Rightarrow> backlog_state \<Rightarrow> admit_result \<times> backlog_state" where
  "admit max_bytes p st =
     (let incoming = page_bytes p in
      if max_bytes < saturating_add (b_bytes st) incoming
      then (Saturated (\<not> b_saturated st), st\<lparr>b_saturated := True\<rparr>)
      else (Queued, st\<lparr>b_bytes := saturating_add (b_bytes st) incoming, b_pages := b_pages st @ [p]\<rparr>))"

definition drain :: "backlog_state \<Rightarrow> captured_page list \<times> backlog_state" where
  "drain st = (b_pages st, st\<lparr>b_bytes := 0, b_pages := []\<rparr>)"

definition occupancy :: "backlog_state \<Rightarrow> nat \<times> nat" where
  "occupancy st = (length (b_pages st), b_bytes st)"

section \<open>The sink\<close>

text \<open>A worker inside \<^verbatim>\<open>capture\<close>: about to send, about to defer, or about to notify the writer.\<close>

datatype producer = Sending captured_page | Deferring captured_page | Notifying

datatype writer_phase =
  Receiving | Writing "captured_page list" | CheckClosed | CheckChannel | CheckBacklog | Parked
  | Flushing | Finished nat | Failed

record sink =
  tx :: bool
  producers :: "producer list"
  chan :: "captured_page list"
  buffer :: nat
  backlog :: backlog_state
  max_bytes :: nat
  permit :: bool
  cancelled :: bool
  captured :: nat
  dropped :: nat
  writer :: writer_phase
  written :: nat
  spool :: "captured_page list"

definition with_backlog_bytes :: "nat \<Rightarrow> nat \<Rightarrow> sink" where
  "with_backlog_bytes buffer_size max_backlog_bytes =
     \<lparr>tx = True, producers = [], chan = [], buffer = max buffer_size 1, backlog = backlog_new,
      max_bytes = max_backlog_bytes, permit = False, cancelled = False, captured = 0, dropped = 0,
      writer = Receiving, written = 0, spool = []\<rparr>"

text \<open>\<^verbatim>\<open>Receiver::is_closed\<close>: no sender is left. A worker keeps its clone until \<^verbatim>\<open>capture\<close> returns.\<close>

definition senders :: "sink \<Rightarrow> nat" where
  "senders s = (if tx s then 1 else 0) + length (producers s)"

definition receiver_alive :: "sink \<Rightarrow> bool" where
  "receiver_alive s = (case writer s of Finished _ \<Rightarrow> False | Failed \<Rightarrow> False | _ \<Rightarrow> True)"

definition write_page :: "captured_page \<Rightarrow> sink \<Rightarrow> sink" where
  "write_page p s = s\<lparr>spool := spool s @ [p], written := written s + 1\<rparr>"

definition finish_close :: "sink \<Rightarrow> sink" where
  "finish_close s = s\<lparr>tx := False\<rparr>"

definition cancel_sink :: "sink \<Rightarrow> sink" where
  "cancel_sink s = s\<lparr>cancelled := True\<rparr>"

text \<open>One step of the writer task.\<close>

inductive writer_step :: "sink \<Rightarrow> sink \<Rightarrow> bool" where
  w_recv: "writer s = Receiving \<Longrightarrow> chan s = p # ps \<Longrightarrow> writer_step s (write_page p (s\<lparr>chan := ps\<rparr>))"
| w_drain: "writer s = Receiving \<Longrightarrow> chan s = [] \<Longrightarrow> drain (backlog s) = (ps, b) \<Longrightarrow>
    writer_step s (s\<lparr>backlog := b, writer := Writing ps\<rparr>)"
| w_write: "writer s = Writing (p # ps) \<Longrightarrow> writer_step s (write_page p (s\<lparr>writer := Writing ps\<rparr>))"
| w_drained: "writer s = Writing [] \<Longrightarrow> writer_step s (s\<lparr>writer := CheckClosed\<rparr>)"
| w_closed: "writer s = CheckClosed \<Longrightarrow>
    writer_step s (s\<lparr>writer := if senders s = 0 then CheckChannel else Parked\<rparr>)"
| w_channel: "writer s = CheckChannel \<Longrightarrow>
    writer_step s (s\<lparr>writer := if chan s = [] then CheckBacklog else Parked\<rparr>)"
| w_backlog: "writer s = CheckBacklog \<Longrightarrow>
    writer_step s (s\<lparr>writer := if b_pages (backlog s) = [] then Flushing else Parked\<rparr>)"
| wake_recv: "writer s = Parked \<Longrightarrow> chan s = p # ps \<Longrightarrow>
    writer_step s (write_page p (s\<lparr>chan := ps, writer := Receiving\<rparr>))"
| wake_closed: "writer s = Parked \<Longrightarrow> chan s = [] \<Longrightarrow> senders s = 0 \<Longrightarrow>
    writer_step s (s\<lparr>writer := Receiving\<rparr>)"
| wake_notified: "writer s = Parked \<Longrightarrow> permit s \<Longrightarrow>
    writer_step s (s\<lparr>permit := False, writer := Receiving\<rparr>)"
| wake_cancelled: "writer s = Parked \<Longrightarrow> cancelled s \<Longrightarrow> writer_step s (s\<lparr>writer := Flushing\<rparr>)"
| w_flush: "writer s = Flushing \<Longrightarrow> writer_step s (s\<lparr>writer := Finished (written s)\<rparr>)"

text \<open>What happened to the pages given to \<^verbatim>\<open>capture\<close>: for the statements only, no step depends on it.\<close>

record history =
  offered :: "captured_page list"
  refused :: "captured_page list"
  discarded :: "captured_page list"

inductive sink_step :: "sink \<times> history \<Rightarrow> sink \<times> history \<Rightarrow> bool" where
  capture_open: "tx s \<Longrightarrow>
    sink_step (s, h) (s\<lparr>producers := producers s @ [Sending p]\<rparr>, h\<lparr>offered := offered h @ [p]\<rparr>)"
| send_ok: "producers s = xs @ Sending p # ys \<Longrightarrow> receiver_alive s \<Longrightarrow> length (chan s) < buffer s \<Longrightarrow>
    sink_step (s, h) (s\<lparr>producers := xs @ ys, chan := chan s @ [p], captured := captured s + 1\<rparr>, h)"
| send_full: "producers s = xs @ Sending p # ys \<Longrightarrow> receiver_alive s \<Longrightarrow> \<not> length (chan s) < buffer s \<Longrightarrow>
    sink_step (s, h) (s\<lparr>producers := xs @ Deferring p # ys\<rparr>, h)"
| send_closed: "producers s = xs @ Sending p # ys \<Longrightarrow> \<not> receiver_alive s \<Longrightarrow>
    sink_step (s, h) (s\<lparr>producers := xs @ ys\<rparr>, h\<lparr>discarded := discarded h @ [p]\<rparr>)"
| defer_queued: "producers s = xs @ Deferring p # ys \<Longrightarrow> admit (max_bytes s) p (backlog s) = (Queued, b) \<Longrightarrow>
    sink_step (s, h) (s\<lparr>producers := xs @ Notifying # ys, backlog := b\<rparr>, h)"
| defer_refused: "producers s = xs @ Deferring p # ys \<Longrightarrow>
    admit (max_bytes s) p (backlog s) = (Saturated first, b) \<Longrightarrow>
    sink_step (s, h) (s\<lparr>producers := xs @ ys, backlog := b, dropped := dropped s + 1\<rparr>,
      h\<lparr>refused := refused h @ [p]\<rparr>)"
| notify_one: "producers s = xs @ Notifying # ys \<Longrightarrow>
    sink_step (s, h) (s\<lparr>producers := xs @ ys, permit := True, captured := captured s + 1\<rparr>, h)"
| finish_called: "sink_step (s, h) (finish_close s, h)"
| cancel_called: "sink_step (s, h) (cancel_sink s, h)"
| writer_runs: "writer_step s s' \<Longrightarrow> sink_step (s, h) (s', h)"
| writer_fails: "receiver_alive s \<Longrightarrow> sink_step (s, h) (s\<lparr>writer := Failed\<rparr>, h)"

definition history_new :: history where
  "history_new = \<lparr>offered = [], refused = [], discarded = []\<rparr>"

text \<open>Pages the writer has taken from the backlog and not written yet, and pages inside \<^verbatim>\<open>capture\<close>.\<close>

definition writing :: "sink \<Rightarrow> captured_page list" where
  "writing s = (case writer s of Writing ps \<Rightarrow> ps | _ \<Rightarrow> [])"

fun producer_pages :: "producer list \<Rightarrow> captured_page list" where
  "producer_pages [] = []"
| "producer_pages (Sending p # xs) = p # producer_pages xs"
| "producer_pages (Deferring p # xs) = p # producer_pages xs"
| "producer_pages (Notifying # xs) = producer_pages xs"

text \<open>A sample run: one page is captured, the sink is closed and the writer finishes.\<close>

definition sample_page :: captured_page where
  "sample_page = \<lparr>cp_url = ''u'', cp_html = ''h''\<rparr>"

definition sample_sink :: sink where
  "sample_sink = (with_backlog_bytes 1 0)\<lparr>tx := False, chan := [sample_page], captured := 1\<rparr>"

definition sample_history :: history where
  "sample_history = history_new\<lparr>offered := [sample_page]\<rparr>"

definition sample_done :: sink where
  "sample_done = sample_sink\<lparr>chan := [], spool := [sample_page], written := 1, writer := Finished 1\<rparr>"

section \<open>Invariants\<close>

definition bounds_inv :: "sink \<Rightarrow> bool" where
  "bounds_inv s =
     (length (chan s) \<le> buffer s \<and> b_bytes (backlog s) \<le> max_bytes s
      \<and> (max_bytes s < usize_max \<longrightarrow> b_bytes (backlog s) = sum_list (map page_bytes (b_pages (backlog s)))))"

text \<open>Every page offered is in exactly one place, and the counters say how many are where.\<close>

definition account_inv :: "sink \<times> history \<Rightarrow> bool" where
  "account_inv = (\<lambda>(s, h).
     dropped s = length (refused h) \<and> (writer s \<noteq> Failed \<longrightarrow>
       mset (offered h) = mset (spool s) + mset (chan s) + mset (writing s) + mset (b_pages (backlog s))
         + mset (producer_pages (producers s)) + mset (refused h) + mset (discarded h)
       \<and> captured s + count_list (producers s) Notifying
           = length (spool s) + length (chan s) + length (writing s) + length (b_pages (backlog s))
       \<and> written s = length (spool s)))"

text \<open>What the writer knows in each phase of its exit test, and that no wake-up is lost.\<close>

definition phase_inv :: "sink \<times> history \<Rightarrow> bool" where
  "phase_inv = (\<lambda>(s, h).
     (receiver_alive s \<longrightarrow> discarded h = [])
     \<and> (case writer s of
          CheckChannel \<Rightarrow> senders s = 0
        | CheckBacklog \<Rightarrow> senders s = 0 \<and> chan s = []
        | Flushing \<Rightarrow> cancelled s \<or> senders s = 0 \<and> chan s = [] \<and> b_pages (backlog s) = []
        | Finished n \<Rightarrow> n = written s
            \<and> (cancelled s \<or> senders s = 0 \<and> chan s = [] \<and> b_pages (backlog s) = [] \<and> discarded h = [])
        | _ \<Rightarrow> True))"

definition wake_inv :: "sink \<Rightarrow> bool" where
  "wake_inv s =
     (case writer s of
        Receiving \<Rightarrow> True | Flushing \<Rightarrow> True | Finished _ \<Rightarrow> True | Failed \<Rightarrow> True
      | _ \<Rightarrow> b_pages (backlog s) \<noteq> [] \<longrightarrow> permit s \<or> Notifying \<in> set (producers s))"

definition sink_inv :: "sink \<times> history \<Rightarrow> bool" where
  "sink_inv x = (bounds_inv (fst x) \<and> account_inv x \<and> phase_inv x \<and> wake_inv (fst x))"

lemma producer_pages_append [simp]:
  "producer_pages (xs @ ys) = producer_pages xs @ producer_pages ys"
  by (induction xs rule: producer_pages.induct) auto

lemma senders_0 [simp]: "senders s = 0 \<longleftrightarrow> \<not> tx s \<and> producers s = []"
  by (simp add: senders_def)

lemmas sink_ops = write_page_def finish_close_def cancel_sink_def drain_def admit_def Let_def

lemma writer_bounds: "writer_step s s' \<Longrightarrow> bounds_inv s \<Longrightarrow> bounds_inv s'"
  by (induction rule: writer_step.induct) (auto simp: bounds_inv_def sink_ops)

lemma writer_account: "writer_step s s' \<Longrightarrow> account_inv (s, h) \<Longrightarrow> account_inv (s', h)"
  by (induction rule: writer_step.induct) (auto simp: account_inv_def writing_def sink_ops)

lemma writer_phase: "writer_step s s' \<Longrightarrow> phase_inv (s, h) \<Longrightarrow> phase_inv (s', h)"
  by (induction rule: writer_step.induct) (auto simp: phase_inv_def receiver_alive_def sink_ops)

lemma writer_wake: "writer_step s s' \<Longrightarrow> wake_inv s \<Longrightarrow> wake_inv s'"
  by (induction rule: writer_step.induct) (auto simp: wake_inv_def sink_ops)

lemma sink_bounds: "sink_step (s, h) (s', h') \<Longrightarrow> bounds_inv s \<Longrightarrow> bounds_inv s'"
  by (induction "(s, h)" "(s', h')" arbitrary: s h s' h' rule: sink_step.induct)
    (auto simp: bounds_inv_def sink_ops saturating_add_def dest: writer_bounds split: if_splits)

lemma sink_account: "sink_step x y \<Longrightarrow> account_inv x \<Longrightarrow> account_inv y"
proof (induction rule: sink_step.induct)
  case (writer_runs s s' h)
  then show ?case by (rule writer_account)
qed (auto simp: account_inv_def writing_def sink_ops count_list_append split: if_splits)

lemma sink_phase: "sink_step x y \<Longrightarrow> phase_inv x \<Longrightarrow> phase_inv y"
proof (induction rule: sink_step.induct)
  case (writer_runs s s' h)
  then show ?case by (rule writer_phase)
qed (auto simp: phase_inv_def receiver_alive_def sink_ops split: writer_phase.splits)

lemma sink_wake: "sink_step (s, h) (s', h') \<Longrightarrow> wake_inv s \<Longrightarrow> wake_inv s'"
proof (induction "(s, h)" "(s', h')" arbitrary: s h s' h' rule: sink_step.induct)
  case (writer_runs s s')
  then show ?case by (rule writer_wake)
qed (auto simp: wake_inv_def sink_ops split: writer_phase.splits if_splits)

lemma sink_step_inv: "sink_step x y \<Longrightarrow> sink_inv x \<Longrightarrow> sink_inv y"
  using sink_bounds sink_wake sink_account sink_phase unfolding sink_inv_def
  by (metis prod.collapse)

lemma sink_new_inv: "sink_inv (with_backlog_bytes n m, history_new)"
  by (simp add: sink_inv_def bounds_inv_def account_inv_def phase_inv_def wake_inv_def writing_def
      with_backlog_bytes_def history_new_def backlog_new_def)

lemma sink_reachable_inv:
  "sink_step\<^sup>*\<^sup>* (with_backlog_bytes n m, history_new) x \<Longrightarrow> sink_inv x"
  by (induction rule: rtranclp_induct) (auto intro: sink_step_inv sink_new_inv)

lemma sink_step_config: "sink_step x y \<Longrightarrow> buffer (fst y) = buffer (fst x) \<and> max_bytes (fst y) = max_bytes (fst x)"
  by (induction rule: sink_step.induct) (auto simp: sink_ops elim: writer_step.cases)

lemma sink_reachable_config:
  "sink_step\<^sup>*\<^sup>* (with_backlog_bytes n m, history_new) x \<Longrightarrow> buffer (fst x) = max n 1 \<and> max_bytes (fst x) = m"
  by (induction rule: rtranclp_induct) (auto simp: with_backlog_bytes_def dest: sink_step_config)

section \<open>Flushing\<close>

text \<open>With no sender left each step of the writer decreases the pages queued, the pages taken, or the phase.\<close>

definition queued :: "sink \<Rightarrow> nat" where
  "queued s = length (chan s) + length (b_pages (backlog s))"

definition phase_rank :: "sink \<Rightarrow> nat" where
  "phase_rank s =
     (let late = (if queued s = 0 then 0 else 6) in
      case writer s of
        Parked \<Rightarrow> 7 | Receiving \<Rightarrow> 6 | Writing _ \<Rightarrow> 5 + late | CheckClosed \<Rightarrow> 4 + late
      | CheckChannel \<Rightarrow> 3 + late | CheckBacklog \<Rightarrow> 2 + late | Flushing \<Rightarrow> 1 | _ \<Rightarrow> 0)"

lemma writer_decreases:
  "writer_step s s' \<Longrightarrow> senders s = 0 \<Longrightarrow>
   (s', s) \<in> measures [queued, \<lambda>s. length (writing s), phase_rank]"
  by (induction rule: writer_step.induct)
    (auto simp: queued_def writing_def phase_rank_def sink_ops)

lemma writer_progress: "receiver_alive s \<Longrightarrow> senders s = 0 \<Longrightarrow> \<exists>t. writer_step s t"
proof (cases "writer s")
  case Receiving
  then show ?thesis by (cases "chan s") (auto intro: w_recv w_drain [OF _ _ surjective_pairing])
next
  case (Writing ps)
  then show ?thesis by (cases ps) (auto intro: w_write w_drained)
next
  case Parked
  moreover assume "senders s = 0"
  ultimately show ?thesis by (cases "chan s") (blast intro: wake_recv wake_closed)+
qed (auto simp: receiver_alive_def intro: w_closed w_channel w_backlog w_flush)

lemma alive_not_failed: "receiver_alive s \<Longrightarrow> writer s \<noteq> Failed"
  by (auto simp: receiver_alive_def)

lemma writer_step_frame:
  "writer_step s s' \<Longrightarrow> captured s' = captured s \<and> cancelled s' = cancelled s \<and> senders s' = senders s
     \<and> writer s' \<noteq> Failed"
  by (induction rule: writer_step.induct) (auto simp: sink_ops senders_def)

lemma writer_steps_frame:
  "writer_step\<^sup>*\<^sup>* s s' \<Longrightarrow> writer s \<noteq> Failed \<Longrightarrow>
   captured s' = captured s \<and> cancelled s' = cancelled s \<and> senders s' = senders s \<and> writer s' \<noteq> Failed"
  by (induction rule: rtranclp_induct) (auto dest: writer_step_frame)

lemma writer_terminates:
  assumes "senders s = 0" and "writer s \<noteq> Failed"
  shows "\<not> (\<exists>f. f 0 = s \<and> (\<forall>i. writer_step (f i) (f (Suc i))))"
proof
  assume "\<exists>f. f 0 = s \<and> (\<forall>i. writer_step (f i) (f (Suc i)))"
  then obtain f where f: "f 0 = s" "\<And>i. writer_step (f i) (f (Suc i))" by blast
  have "senders (f i) = 0" for i
  proof (induction i)
    case (Suc i)
    then show ?case using writer_step_frame [OF f(2) [of i]] by simp
  qed (use assms f in simp)
  then have "(f (Suc i), f i) \<in> measures [queued, \<lambda>s. length (writing s), phase_rank]" for i
    using f(2) writer_decreases by blast
  then show False using wf_measures wf_no_infinite_down_chainE by blast
qed

lemma writer_steps_sink: "writer_step\<^sup>*\<^sup>* s s' \<Longrightarrow> sink_step\<^sup>*\<^sup>* (s, h) (s', h)"
  by (induction rule: rtranclp_induct) (auto intro: rtranclp.rtrancl_into_rtrancl writer_runs)

lemma finished_inv:
  assumes "sink_inv (s, h)" and "writer s = Finished n" and "\<not> cancelled s"
  shows "n = captured s \<and> n = length (spool s) \<and> mset (spool s) + mset (refused h) = mset (offered h)
    \<and> dropped s = length (refused h)"
  using assms by (auto simp: sink_inv_def phase_inv_def account_inv_def writing_def)

lemmas sample_eval =
  sample_sink_def sample_history_def sample_done_def history_new_def with_backlog_bytes_def backlog_new_def

lemma sample_reachable:
  "sink_step\<^sup>*\<^sup>* (with_backlog_bytes 1 0, history_new) (sample_sink, sample_history)"
proof -
  let ?n = "with_backlog_bytes 1 0"
  let ?a = "?n\<lparr>producers := [Sending sample_page]\<rparr>"
  let ?b = "?n\<lparr>chan := [sample_page], captured := 1\<rparr>"
  have "sink_step (?n, history_new) (?a, sample_history)"
    using capture_open [of ?n history_new sample_page] by (simp add: sample_eval)
  moreover have "sink_step (?a, sample_history) (?b, sample_history)"
    using send_ok [of ?a "[]" sample_page "[]" sample_history] by (simp add: sample_eval receiver_alive_def)
  moreover have "sink_step (?b, sample_history) (sample_sink, sample_history)"
    using finish_called [of ?b sample_history] by (simp add: sample_eval finish_close_def)
  ultimately show ?thesis by (meson converse_rtranclp_into_rtranclp r_into_rtranclp)
qed

lemma sample_flushes: "writer_step\<^sup>*\<^sup>* sample_sink sample_done"
proof -
  let ?w = "\<lambda>x. sample_sink\<lparr>chan := [], spool := [sample_page], written := 1, writer := x\<rparr>"
  have "writer_step sample_sink (?w Receiving)"
    using w_recv [of sample_sink sample_page "[]"] by (simp add: sample_eval write_page_def)
  moreover have "writer_step (?w Receiving) (?w (Writing []))"
    using w_drain [of "?w Receiving" "[]" backlog_new] by (simp add: sample_eval drain_def)
  moreover have "writer_step (?w (Writing [])) (?w CheckClosed)"
    using w_drained [of "?w (Writing [])"] by simp
  moreover have "writer_step (?w CheckClosed) (?w CheckChannel)"
    using w_closed [of "?w CheckClosed"] by (simp add: sample_eval)
  moreover have "writer_step (?w CheckChannel) (?w CheckBacklog)"
    using w_channel [of "?w CheckChannel"] by simp
  moreover have "writer_step (?w CheckBacklog) (?w Flushing)"
    using w_backlog [of "?w CheckBacklog"] by (simp add: sample_eval)
  moreover have "writer_step (?w Flushing) sample_done"
    using w_flush [of "?w Flushing"] by (simp add: sample_done_def)
  ultimately show ?thesis by (meson converse_rtranclp_into_rtranclp r_into_rtranclp)
qed


text \<open>
  The sink's memory is bounded in every interleaving: the channel never holds more pages than its
  buffer and the deferred pages never hold more bytes than the ceiling.
\<close>

theorem sink_memory_is_bounded:
  assumes "sink_step\<^sup>*\<^sup>* (with_backlog_bytes buffer_size max_backlog, history_new) (s, h)"
    and "max_backlog < usize_max"
  shows "length (chan s) \<le> max buffer_size 1
    \<and> sum_list (map page_bytes (b_pages (backlog s))) \<le> max_backlog"
  using sink_reachable_inv [OF assms(1)] sink_reachable_config [OF assms(1)] assms(2)
  by (auto simp: sink_inv_def bounds_inv_def)

text \<open>
  The writer is never stuck: a parked writer with deferred pages has a stored wake-up or a worker
  about to give one; and once the sink is closed and no worker is inside \<^verbatim>\<open>capture\<close>, every run of the
  writer comes to an end, and ends with every captured page in the spool.
\<close>

theorem closed_sink_flushes:
  assumes "sink_step\<^sup>*\<^sup>* (with_backlog_bytes buffer_size max_backlog, history_new) (s, h)"
  shows "(writer s = Parked \<and> b_pages (backlog s) \<noteq> [] \<longrightarrow> permit s \<or> Notifying \<in> set (producers s))
    \<and> (receiver_alive s \<and> senders s = 0 \<and> \<not> cancelled s \<longrightarrow>
         \<not> (\<exists>f. f 0 = s \<and> (\<forall>i. writer_step (f i) (f (Suc i))))
         \<and> (\<forall>s'. writer_step\<^sup>*\<^sup>* s s' \<and> \<not> (\<exists>t. writer_step s' t) \<longrightarrow>
              writer s' = Finished (captured s) \<and> mset (spool s') + mset (refused h) = mset (offered h)))"
proof (intro conjI impI allI)
  assume "writer s = Parked \<and> b_pages (backlog s) \<noteq> []"
  then show "permit s \<or> Notifying \<in> set (producers s)"
    using sink_reachable_inv [OF assms] by (simp add: sink_inv_def wake_inv_def)
next
  assume "receiver_alive s \<and> senders s = 0 \<and> \<not> cancelled s"
  then show "\<not> (\<exists>f. f 0 = s \<and> (\<forall>i. writer_step (f i) (f (Suc i))))"
    using writer_terminates alive_not_failed by blast
next
  fix s'
  assume a: "receiver_alive s \<and> senders s = 0 \<and> \<not> cancelled s"
    and r: "writer_step\<^sup>*\<^sup>* s s' \<and> \<not> (\<exists>t. writer_step s' t)"
  have frame: "captured s' = captured s" "\<not> cancelled s'" "senders s' = 0" "writer s' \<noteq> Failed"
    using writer_steps_frame [of s s'] alive_not_failed [of s] a r by auto
  with r writer_progress [of s'] obtain n where n: "writer s' = Finished n"
    by (cases "writer s'") (auto simp: receiver_alive_def)
  have "sink_inv (s', h)"
    using sink_reachable_inv [OF rtranclp_trans [OF assms writer_steps_sink]] r by blast
  from finished_inv [OF this n frame(2)] frame n
  show "writer s' = Finished (captured s)" "mset (spool s') + mset (refused h) = mset (offered h)" by simp_all
qed


theorem sink_memory_is_bounded_witness:
  "length (chan sample_sink) \<le> max 1 1 \<and> sum_list (map page_bytes (b_pages (backlog sample_sink))) \<le> 0"
  by (rule sink_memory_is_bounded [OF sample_reachable]) (simp add: usize_max_def)

theorem closed_sink_flushes_witness:
  "\<not> (\<exists>f. f 0 = sample_sink \<and> (\<forall>i. writer_step (f i) (f (Suc i))))"
  using closed_sink_flushes [OF sample_reachable] by (simp add: sample_eval receiver_alive_def)

end
