(* ===== verification/Output_Path.thy ===== *)
theory Output_Path
  imports Filename
begin

text \<open>
  Output paths of saved pages: \<^verbatim>\<open>adapters/url_path.rs\<close>. The URL library has the query and the fragment of a
  URL beside what \<open>Url_Validation\<close> uses of it; percent decoding of the \<^verbatim>\<open>percent_encoding\<close> crate is the
  argument \<open>decode\<close> and the default hasher the argument \<open>hash\<close>.
\<close>

record 'u query_url_api = "'u url_api" +
  api_query :: "'u \<Rightarrow> string option"
  api_fragment :: "'u \<Rightarrow> string option"

definition MAX_FILENAME_BODY_BYTES :: nat where
  "MAX_FILENAME_BODY_BYTES = 180"

definition truncate_with_hash :: "(string \<Rightarrow> u64) \<Rightarrow> string \<Rightarrow> nat \<Rightarrow> string" where
  "truncate_with_hash hash s max_bytes =
     (if byte_len s \<le> max_bytes then s
      else take_bytes (max_bytes - 9) s @ ''_'' @ hex08 (hash s AND 0xFFFFFFFF))"

section \<open>Domain\<close>

datatype output_path_error = InvalidUrl | DomainInvalid | PathInvalid

definition domain_from_url :: "('u, 'z) url_api_scheme \<Rightarrow> string \<Rightarrow> output_path_error + string" where
  "domain_from_url api url =
     (case api_parse api url of
        None \<Rightarrow> Inl DomainInvalid
      | Some parsed \<Rightarrow>
          (case api_host_str api parsed of
             None \<Rightarrow> Inl DomainInvalid
           | Some host \<Rightarrow>
               if host = [] then Inl DomainInvalid
               else Inr (unwrap_or (strip_prefix ''www.'' host) host)))"

section \<open>URL path\<close>

record url_path =
  raw :: string
  is_root :: bool
  ends_with_slash :: bool

definition is_slash :: "char \<Rightarrow> bool" where
  "is_slash c = (c = CHR ''/'')"

definition from_url_path :: "string \<Rightarrow> url_path" where
  "from_url_path p =
     (let clean0 = hd (split_on (CHR ''?'') p);
          clean = hd (split_on (CHR ''#'') clean0);
          normalized = (if clean = [] \<or> \<not> starts_with ''/'' clean then ''/'' @ clean else clean);
          root = (normalized = ''/'');
          slash = (ends_with ''/'' normalized \<and> \<not> root);
          without_trailing = (if slash then trim_end_matches is_slash normalized else normalized)
      in \<lparr>raw = without_trailing, is_root = root, ends_with_slash = slash\<rparr>)"

definition path_from_url :: "('u, 'z) url_api_scheme \<Rightarrow> string \<Rightarrow> output_path_error + url_path" where
  "path_from_url api url =
     (case api_parse api url of
        None \<Rightarrow> Inl PathInvalid
      | Some parsed \<Rightarrow> Inr (from_url_path (api_path api parsed)))"

definition sanitize_query_part :: "string \<Rightarrow> string" where
  "sanitize_query_part s =
     map (\<lambda>c. if c \<in> {CHR ''?'', CHR ''&'', CHR '':'', CHR ''='', CHR ''#'', CHR ''/''} then CHR ''_'' else c) s"

definition path_from_url_with_query ::
  "('u, 'z) query_url_api_scheme \<Rightarrow> (string \<Rightarrow> u64) \<Rightarrow> string \<Rightarrow> output_path_error + url_path" where
  "path_from_url_with_query api hash url =
     (case api_parse api url of
        None \<Rightarrow> Inl PathInvalid
      | Some parsed \<Rightarrow>
          (let base = from_url_path (api_path api parsed);
               query_part = unwrap_or (api_query api parsed) [];
               fragment = unwrap_or (api_fragment api parsed) []
           in if query_part = [] \<and> fragment = [] then Inr base
              else
                (let suffix = (if query_part = [] then [] else ''_'' @ sanitize_query_part query_part)
                              @ (if fragment = [] then [] else ''_'' @ sanitize_query_part fragment);
                     safe_suffix = truncate_with_hash hash suffix MAX_FILENAME_BODY_BYTES
                 in Inr (base\<lparr>raw := raw base @ safe_suffix, is_root := False, ends_with_slash := False\<rparr>))))"

text \<open>\<^verbatim>\<open>char::is_alphanumeric\<close> on U+0000 to U+00FF.\<close>

definition is_alphanumeric :: "char \<Rightarrow> bool" where
  "is_alphanumeric c =
     (let n = of_char c :: nat in
      48 \<le> n \<and> n \<le> 57 \<or> 65 \<le> n \<and> n \<le> 90 \<or> 97 \<le> n \<and> n \<le> 122
      \<or> n \<in> {170, 178, 179, 181, 185, 186, 188, 189, 190} \<or> 192 \<le> n \<and> n \<noteq> 215 \<and> n \<noteq> 247)"

definition sanitize_path_segment :: "string \<Rightarrow> string" where
  "sanitize_path_segment s =
     map (\<lambda>c. if is_alphanumeric c \<or> c = CHR ''-'' \<or> c = CHR ''_'' \<or> c = CHR ''.'' then c else CHR ''_'') s"

datatype output_format = Markdown | Text | Json

definition extension_for :: "output_format option \<Rightarrow> string" where
  "extension_for format =
     (case format of Some Json \<Rightarrow> ''json'' | Some Text \<Rightarrow> ''txt'' | _ \<Rightarrow> ''md'')"

definition to_safe_filename_with_format :: "(string \<Rightarrow> string) \<Rightarrow> output_format option \<Rightarrow> url_path \<Rightarrow> string" where
  "to_safe_filename_with_format decode format p =
     (let extension = extension_for format in
      if is_root p then ''index.'' @ extension
      else
        (let path_trimmed = dropWhile is_slash (decode (raw p));
             slug = map (\<lambda>c. if c = CHR '' '' then CHR ''_'' else c)
                      (map (\<lambda>c. if c = CHR ''/'' then CHR ''-'' else c) (trim_end_matches is_slash path_trimmed));
             sanitized = sanitize_path_segment slug;
             name1 = (if is_windows_reserved sanitized then sanitized @ ''_safe'' else sanitized);
             name2 = (if ends_with_slash p \<and> name1 \<noteq> [] then name1 @ ''_'' else name1)
         in name2 @ ''.'' @ extension))"

text \<open>\<^verbatim>\<open>rfind('/')\<close> and the slice before it.\<close>

definition before_last_slash :: "string \<Rightarrow> string option" where
  "before_last_slash s =
     (if CHR ''/'' \<in> set s then Some (butlast (rev (dropWhile (\<lambda>c. \<not> is_slash c) (rev s)))) else None)"

definition directory_component :: "string \<Rightarrow> string" where
  "directory_component component =
     (if component = ''.'' \<or> component = ''..'' then ''_'' else sanitize_path_segment component)"

definition to_directory :: "url_path \<Rightarrow> string" where
  "to_directory p =
     (if is_root p then []
      else (case before_last_slash (dropWhile is_slash (raw p)) of
              None \<Rightarrow> []
            | Some dir \<Rightarrow>
                join_with (CHR ''/'') (map directory_component (filter (\<lambda>c. c \<noteq> []) (split_on (CHR ''/'') dir)))
                @ ''/''))"

section \<open>Output path\<close>

record output_path =
  op_domain :: string
  op_path :: url_path

definition output_path_from_url :: "('u, 'z) url_api_scheme \<Rightarrow> string \<Rightarrow> output_path_error + output_path" where
  "output_path_from_url api url =
     (case domain_from_url api url of
        Inl e \<Rightarrow> Inl e
      | Inr domain \<Rightarrow>
          (case api_parse api url of
             None \<Rightarrow> Inl InvalidUrl
           | Some parsed \<Rightarrow> Inr \<lparr>op_domain = domain, op_path = from_url_path (api_path api parsed)\<rparr>))"

definition output_path_from_url_with_query ::
  "('u, 'z) query_url_api_scheme \<Rightarrow> (string \<Rightarrow> u64) \<Rightarrow> string \<Rightarrow> output_path_error + output_path" where
  "output_path_from_url_with_query api hash url =
     (case domain_from_url api url of
        Inl e \<Rightarrow> Inl e
      | Inr domain \<Rightarrow>
          (case path_from_url_with_query api hash url of
             Inl e \<Rightarrow> Inl e
           | Inr p \<Rightarrow> Inr \<lparr>op_domain = domain, op_path = p\<rparr>))"

definition to_folder_path :: "output_path \<Rightarrow> string" where
  "to_folder_path op =
     (let dir = to_directory (op_path op) in
      if dir = [] then ''./output/'' @ op_domain op @ ''/'' else ''./output/'' @ op_domain op @ ''/'' @ dir)"

definition to_full_path_with_format :: "(string \<Rightarrow> string) \<Rightarrow> output_format option \<Rightarrow> output_path \<Rightarrow> string" where
  "to_full_path_with_format decode format op =
     to_folder_path op @ to_safe_filename_with_format decode format (op_path op)"

definition images_relative_path :: "output_path \<Rightarrow> string" where
  "images_relative_path op =
     (let dir = to_directory (op_path op) in if dir = [] then ''images/'' else dir @ ''images/'')"

section \<open>Confinement\<close>

text \<open>A component that names a file or directory inside its parent.\<close>

definition plain_component :: "string \<Rightarrow> bool" where
  "plain_component c = (c \<noteq> [] \<and> c \<noteq> ''.'' \<and> c \<noteq> ''..'' \<and> CHR ''/'' \<notin> set c \<and> CHR 0x5C \<notin> set c)"

lemma separators_not_alphanumeric: "\<not> is_alphanumeric (CHR ''/'')" "\<not> is_alphanumeric (CHR 0x5C)"
  by (simp_all add: is_alphanumeric_def of_char_def)

lemma sanitized_chars:
  "CHR ''/'' \<notin> set (sanitize_path_segment s)" "CHR 0x5C \<notin> set (sanitize_path_segment s)"
  using separators_not_alphanumeric by (auto simp: sanitize_path_segment_def)

lemma sanitized_dots:
  "sanitize_path_segment s = ''.'' \<longleftrightarrow> s = ''.''" "sanitize_path_segment s = ''..'' \<longleftrightarrow> s = ''..''"
  "sanitize_path_segment s = [] \<longleftrightarrow> s = []"
proof -
  have dot: "(if is_alphanumeric c \<or> c = CHR ''-'' \<or> c = CHR ''_'' \<or> c = CHR ''.'' then c else CHR ''_'') = CHR ''.''
      \<longleftrightarrow> c = CHR ''.''" for c
    by auto
  show "sanitize_path_segment s = ''.'' \<longleftrightarrow> s = ''.''" "sanitize_path_segment s = ''..'' \<longleftrightarrow> s = ''..''"
    "sanitize_path_segment s = [] \<longleftrightarrow> s = []"
    by (auto simp: sanitize_path_segment_def map_eq_Cons_conv dot)
qed

lemma directory_component_plain: "c \<noteq> [] \<Longrightarrow> plain_component (directory_component c)"
  using sanitized_chars [of c] sanitized_dots [of c] by (auto simp: plain_component_def directory_component_def)

lemma filename_plain: "plain_component (to_safe_filename_with_format decode format p)"
proof -
  have ext: "CHR ''/'' \<notin> set (extension_for format)" "CHR 0x5C \<notin> set (extension_for format)"
    "\<exists>x c. extension_for format = x @ [c] \<and> c \<noteq> CHR ''.''"
    by (auto simp: extension_for_def split: option.splits output_format.splits)
  have last: "last (to_safe_filename_with_format decode format p) \<noteq> CHR ''.''"
    using ext(3) by (auto simp: to_safe_filename_with_format_def Let_def)
  then have "to_safe_filename_with_format decode format p \<noteq> ''.''" "to_safe_filename_with_format decode format p \<noteq> ''..''"
    by auto
  then show ?thesis
    using ext(1,2) sanitized_chars
    by (auto simp: plain_component_def to_safe_filename_with_format_def Let_def split: if_splits)
qed

lemma before_last_slash_Some: "before_last_slash s = Some d \<Longrightarrow> \<exists>r. s = d @ CHR ''/'' # r"
proof -
  assume d: "before_last_slash s = Some d"
  then have "\<exists>c \<in> set (rev s). is_slash c" by (auto simp: before_last_slash_def is_slash_def split: if_splits)
  then obtain c x where x: "dropWhile (\<lambda>c. \<not> is_slash c) (rev s) = c # x" "is_slash c"
    by (metis dropWhile_eq_Nil_conv hd_dropWhile list.collapse)
  have "rev s = takeWhile (\<lambda>c. \<not> is_slash c) (rev s) @ c # x" using x(1) takeWhile_dropWhile_id by metis
  then have "s = rev x @ c # rev (takeWhile (\<lambda>c. \<not> is_slash c) (rev s))"
    by (metis append.assoc append_Cons append_Nil rev_append rev_rev_ident rev.simps(2))
  moreover have "d = rev x" using d x(1) by (simp add: before_last_slash_def split: if_splits)
  ultimately show ?thesis using x(2) by (auto simp: is_slash_def)
qed

lemma hd_split_on: "s \<noteq> [] \<Longrightarrow> hd s \<noteq> c \<Longrightarrow> hd (split_on c s) \<noteq> []"
  by (cases s) (auto split: list.splits)

lemma to_directory_components:
  "to_directory p = [] \<or> (\<exists>cs. cs \<noteq> [] \<and> (\<forall>c \<in> set cs. plain_component c) \<and> to_directory p = join_with (CHR ''/'') cs @ ''/'')"
proof (cases "is_root p \<or> before_last_slash (dropWhile is_slash (raw p)) = None")
  case True
  then show ?thesis by (auto simp: to_directory_def)
next
  case False
  then obtain dir where dir: "before_last_slash (dropWhile is_slash (raw p)) = Some dir" by auto
  then obtain r where r: "dropWhile is_slash (raw p) = dir @ CHR ''/'' # r" using before_last_slash_Some by blast
  have first: "\<not> is_slash (hd (dir @ CHR ''/'' # r))"
    using hd_dropWhile [of is_slash "raw p"] r by (metis append_is_Nil_conv list.discI)
  then have "dir \<noteq> []" by (cases dir) (auto simp: is_slash_def)
  moreover then have "hd dir \<noteq> CHR ''/''" using first by (auto simp: is_slash_def)
  ultimately have "hd (split_on (CHR ''/'') dir) \<noteq> []" by (rule hd_split_on)
  then have "filter (\<lambda>c. c \<noteq> []) (split_on (CHR ''/'') dir) \<noteq> []"
    using split_on_nonempty by (metis (mono_tags, lifting) filter_empty_conv list.set_sel(1))
  then show ?thesis
    using False dir directory_component_plain
    by (intro disjI2 exI [of _ "map directory_component (filter (\<lambda>c. c \<noteq> []) (split_on (CHR ''/'') dir))"])
      (auto simp: to_directory_def)
qed

lemma split_on_joined:
  "cs \<noteq> [] \<Longrightarrow> \<forall>p \<in> set cs. c \<notin> set p \<Longrightarrow> split_on c (join_with c cs @ c # r) = cs @ split_on c r"
  by (simp add: split_on_append split_on_join)

text \<open>
  C17. A saved page stays under the output folder of its domain: split at the slashes, the path is the
  literal prefix, the domain, and components that are not empty, not dots and hold no separator, whatever
  the URL's path holds and whatever percent decoding makes of it. A host has no slash.
\<close>

theorem output_path_is_confined:
  assumes "CHR ''/'' \<notin> set (op_domain op)"
  shows "\<exists>ds f. split_on (CHR ''/'') (to_full_path_with_format decode format op) = [''.'', ''output'', op_domain op] @ ds @ [f]
    \<and> (\<forall>c \<in> set (ds @ [f]). plain_component c)"
proof -
  define f where "f = to_safe_filename_with_format decode format (op_path op)"
  have f: "plain_component f" by (simp add: f_def filename_plain)
  then have sf: "split_on (CHR ''/'') f = [f]" by (simp add: plain_component_def split_on_no_sep)
  have pre: "split_on (CHR ''/'') (''./output/'' @ op_domain op @ ''/'' @ r)
      = [''.'', ''output'', op_domain op] @ split_on (CHR ''/'') r" for r
    using split_on_append_sep [OF assms, of r] by simp
  from to_directory_components [of "op_path op"]
  consider "to_directory (op_path op) = []"
    | cs where "cs \<noteq> []" "\<forall>c \<in> set cs. plain_component c" "to_directory (op_path op) = join_with (CHR ''/'') cs @ ''/''"
    by blast
  then show ?thesis
  proof cases
    case 1
    then show ?thesis
      using pre [of f] sf f by (intro exI [of _ "[]"] exI [of _ f]) (simp add: to_full_path_with_format_def to_folder_path_def f_def)
  next
    case (2 cs)
    have "split_on (CHR ''/'') (join_with (CHR ''/'') cs @ CHR ''/'' # f) = cs @ [f]"
      using split_on_joined [OF 2(1), of "CHR ''/''" f] 2(2) sf by (simp add: plain_component_def)
    then show ?thesis
      using pre [of "join_with (CHR ''/'') cs @ ''/'' @ f"] 2 f
      by (intro exI [of _ cs] exI [of _ f]) (auto simp: to_full_path_with_format_def to_folder_path_def f_def)
  qed
qed

theorem output_path_is_confined_witness:
  "\<exists>ds f. split_on (CHR ''/'') (to_full_path_with_format id None
      \<lparr>op_domain = ''h'', op_path = from_url_path ''/../../etc/passwd''\<rparr>) = [''.'', ''output'', ''h''] @ ds @ [f]
    \<and> (\<forall>c \<in> set (ds @ [f]). plain_component c)"
  using output_path_is_confined [of "\<lparr>op_domain = ''h'', op_path = from_url_path ''/../../etc/passwd''\<rparr>" id None]
  by simp

lemma ends_with_single: "ends_with [c] s \<longleftrightarrow> s \<noteq> [] \<and> last s = c"
  by (cases s rule: rev_cases) (auto simp: ends_with_def strip_suffix_def)

lemma collision_paths:
  "from_url_path ''/a/'' = \<lparr>raw = ''/a'', is_root = False, ends_with_slash = True\<rparr>"
  "from_url_path ''/a_'' = \<lparr>raw = ''/a_'', is_root = False, ends_with_slash = False\<rparr>"
  "from_url_path ''/'' = \<lparr>raw = ''/'', is_root = True, ends_with_slash = False\<rparr>"
  "from_url_path ''/index'' = \<lparr>raw = ''/index'', is_root = False, ends_with_slash = False\<rparr>"
  by (simp_all add: from_url_path_def starts_with_def ends_with_single trim_end_matches_def is_slash_def Let_def)

lemma collision_chars:
  "is_alphanumeric CHR ''a''" "is_alphanumeric CHR ''i''" "is_alphanumeric CHR ''n''"
  "is_alphanumeric CHR ''d''" "is_alphanumeric CHR ''e''" "is_alphanumeric CHR ''x''"
  by (simp_all add: is_alphanumeric_def of_char_def)

lemma collision_segments:
  "sanitize_path_segment ''a'' = ''a''" "sanitize_path_segment ''a_'' = ''a_''"
  "sanitize_path_segment ''index'' = ''index''"
  by (simp_all add: sanitize_path_segment_def collision_chars)

lemma reserved_stem_length: "is_windows_reserved s \<Longrightarrow> length (hd (split_on (CHR ''.'') s)) \<in> {3, 4}"
proof -
  have "\<forall>r \<in> set WINDOWS_RESERVED. length r \<in> {3, 4}" by (simp add: WINDOWS_RESERVED_def)
  then show "is_windows_reserved s \<Longrightarrow> length (hd (split_on (CHR ''.'') s)) \<in> {3, 4}"
    unfolding is_windows_reserved_def Let_def by (metis length_map)
qed

lemma collision_names: "\<not> is_windows_reserved ''a''" "\<not> is_windows_reserved ''a_''" "\<not> is_windows_reserved ''index''"
  using reserved_stem_length [of "''a''"] reserved_stem_length [of "''a_''"] reserved_stem_length [of "''index''"]
  by auto

lemma collision_directories:
  "to_directory (from_url_path ''/a/'') = []" "to_directory (from_url_path ''/a_'') = []"
  "to_directory (from_url_path ''/'') = []" "to_directory (from_url_path ''/index'') = []"
  by (simp_all add: collision_paths to_directory_def before_last_slash_def is_slash_def)

text \<open>
  Distinct pages can share a file: the mark of a trailing slash is an underscore, so \<^verbatim>\<open>/a/\<close> and \<^verbatim>\<open>/a_\<close> are
  saved to one path, and so are \<^verbatim>\<open>/\<close> and \<^verbatim>\<open>/index\<close>.
\<close>

theorem output_paths_can_collide:
  assumes "decode ''/a'' = ''/a''" and "decode ''/a_'' = ''/a_''" and "decode ''/index'' = ''/index''"
  shows "to_full_path_with_format decode format \<lparr>op_domain = d, op_path = from_url_path ''/a/''\<rparr>
       = to_full_path_with_format decode format \<lparr>op_domain = d, op_path = from_url_path ''/a_''\<rparr>
    \<and> to_full_path_with_format decode format \<lparr>op_domain = d, op_path = from_url_path ''/''\<rparr>
       = to_full_path_with_format decode format \<lparr>op_domain = d, op_path = from_url_path ''/index''\<rparr>"
proof -
  have name: "to_safe_filename_with_format decode format (from_url_path ''/a/'') = ''a_.'' @ extension_for format"
    "to_safe_filename_with_format decode format (from_url_path ''/a_'') = ''a_.'' @ extension_for format"
    "to_safe_filename_with_format decode format (from_url_path ''/'') = ''index.'' @ extension_for format"
    "to_safe_filename_with_format decode format (from_url_path ''/index'') = ''index.'' @ extension_for format"
    by (simp_all add: collision_paths assms to_safe_filename_with_format_def is_slash_def trim_end_matches_def
        collision_segments collision_names Let_def)
  show ?thesis
    by (simp add: to_full_path_with_format_def to_folder_path_def collision_directories name)
qed

theorem output_paths_can_collide_witness:
  "to_full_path_with_format id None \<lparr>op_domain = ''h'', op_path = from_url_path ''/a/''\<rparr>
     = to_full_path_with_format id None \<lparr>op_domain = ''h'', op_path = from_url_path ''/a_''\<rparr>"
  by (rule output_paths_can_collide [THEN conjunct1]) simp_all

end
