(* ===== verification/Mcp_Validation.thy ===== *)
theory Mcp_Validation
  imports Std_Path Filename Url_Validation
begin

text \<open>
  Boundary validation of the parameters of the MCP tools: \<^verbatim>\<open>mcp_server/validation.rs\<close>. An error carries the
  field, the stable reason slug of the documented taxonomy, and the rule that fired: the message texts,
  which are not part of the contract, are the constructors of \<open>rule\<close>.
\<close>

datatype rule = MustNotBeEmpty | ExceedsMaximumLength nat | InvalidUrlText | SchemeNotAllowed string
  | LeadingSeparator | DriveLetter | MustBeRelative | ParentTraversal | ControlCharacters | ColonInName
  | WindowsInvalidCharacters | ReservedName | TrailingDotOrSpace | ComponentTooLong | ContainsWhitespace
  | NotABareDomain | ContainsDotDot | NoDot | NotADomainOrUrl | AtMost u64 | AtLeast u64 | EmbeddedSeparator
  | NoComponent | SeveralComponents | NotANormalComponent | NotTheValueItself | NotOneOf "string list"
  | RootedNotAllowed | NoExportRoots | OutsideExportRoots

record mcp_error =
  err_field :: string
  err_rule :: rule
  err_reason :: string

definition MAX_URL_LEN :: nat where "MAX_URL_LEN = 8192"
definition MAX_PATH_LEN :: nat where "MAX_PATH_LEN = 1024"
definition MAX_COMPONENT_BYTES :: nat where "MAX_COMPONENT_BYTES = 255"
definition MAX_DOMAIN_LEN :: nat where "MAX_DOMAIN_LEN = 253"

definition REASON_EMPTY :: string where "REASON_EMPTY = ''empty''"
definition REASON_TOO_LONG :: string where "REASON_TOO_LONG = ''too_long''"
definition REASON_MALFORMED :: string where "REASON_MALFORMED = ''malformed''"
definition REASON_UNSUPPORTED_SCHEME :: string where "REASON_UNSUPPORTED_SCHEME = ''unsupported_scheme''"
definition REASON_PATH_NOT_ALLOWED :: string where "REASON_PATH_NOT_ALLOWED = ''path_not_allowed''"
definition REASON_OUT_OF_RANGE :: string where "REASON_OUT_OF_RANGE = ''out_of_range''"
definition REASON_NOT_IN_ALLOWED_SET :: string where "REASON_NOT_IN_ALLOWED_SET = ''not_in_allowed_set''"

definition invalid_params_with_reason :: "string \<Rightarrow> rule \<Rightarrow> string \<Rightarrow> mcp_error" where
  "invalid_params_with_reason field msg reason = \<lparr>err_field = field, err_rule = msg, err_reason = reason\<rparr>"

section \<open>URLs, lengths and numbers\<close>

definition require_http_url :: "('u, 'z) url_api_scheme \<Rightarrow> string \<Rightarrow> string \<Rightarrow> mcp_error + 'u" where
  "require_http_url api field v =
     (if v = [] then Inl (invalid_params_with_reason field MustNotBeEmpty REASON_EMPTY)
      else if byte_len v > MAX_URL_LEN
      then Inl (invalid_params_with_reason field (ExceedsMaximumLength MAX_URL_LEN) REASON_TOO_LONG)
      else (case api_parse api v of
              None \<Rightarrow> Inl (invalid_params_with_reason field InvalidUrlText REASON_MALFORMED)
            | Some parsed \<Rightarrow>
                if api_scheme api parsed = ''http'' \<or> api_scheme api parsed = ''https'' then Inr parsed
                else Inl (invalid_params_with_reason field (SchemeNotAllowed (api_scheme api parsed))
                            REASON_UNSUPPORTED_SCHEME)))"

definition require_max_len :: "string \<Rightarrow> string \<Rightarrow> nat \<Rightarrow> mcp_error + unit" where
  "require_max_len field v max_len =
     (if byte_len v > max_len
      then Inl (invalid_params_with_reason field (ExceedsMaximumLength max_len) REASON_TOO_LONG) else Inr ())"

definition require_safe_name :: "string \<Rightarrow> string \<Rightarrow> mcp_error + unit" where
  "require_safe_name field v =
     (if v = [] then Inl (invalid_params_with_reason field MustNotBeEmpty REASON_EMPTY)
      else if byte_len v > MAX_PATH_LEN
      then Inl (invalid_params_with_reason field (ExceedsMaximumLength MAX_PATH_LEN) REASON_TOO_LONG)
      else Inr ())"

definition require_non_empty :: "string \<Rightarrow> string \<Rightarrow> mcp_error + unit" where
  "require_non_empty field v =
     (if v = [] then Inl (invalid_params_with_reason field MustNotBeEmpty REASON_EMPTY) else Inr ())"

definition require_max_value_u64 :: "string \<Rightarrow> u64 \<Rightarrow> u64 \<Rightarrow> mcp_error + unit" where
  "require_max_value_u64 field v hi =
     (if v > hi then Inl (invalid_params_with_reason field (AtMost hi) REASON_OUT_OF_RANGE) else Inr ())"

definition require_range_u64 :: "string \<Rightarrow> u64 \<Rightarrow> u64 \<Rightarrow> u64 \<Rightarrow> mcp_error + unit" where
  "require_range_u64 field v lo hi =
     (if v < lo then Inl (invalid_params_with_reason field (AtLeast lo) REASON_OUT_OF_RANGE)
      else if v > hi then Inl (invalid_params_with_reason field (AtMost hi) REASON_OUT_OF_RANGE)
      else Inr ())"

definition require_max_value_u16 :: "string \<Rightarrow> u16 \<Rightarrow> u16 \<Rightarrow> mcp_error + unit" where
  "require_max_value_u16 field v hi =
     (if v > hi then Inl (invalid_params_with_reason field (AtMost (ucast hi)) REASON_OUT_OF_RANGE) else Inr ())"

definition eq_ignore_ascii_case :: "string \<Rightarrow> string \<Rightarrow> bool" where
  "eq_ignore_ascii_case a b = (to_ascii_lowercase a = to_ascii_lowercase b)"

definition require_one_of :: "string \<Rightarrow> string \<Rightarrow> string list \<Rightarrow> mcp_error + unit" where
  "require_one_of field v options =
     (let lower = to_ascii_lowercase v in
      if list_ex (\<lambda>opt. eq_ignore_ascii_case opt lower) options then Inr ()
      else Inl (invalid_params_with_reason field (NotOneOf options) REASON_NOT_IN_ALLOWED_SET))"

section \<open>Domains and seeds\<close>

definition require_safe_domain :: "string \<Rightarrow> string \<Rightarrow> mcp_error + unit" where
  "require_safe_domain field v =
     (if v = [] then Inl (invalid_params_with_reason field MustNotBeEmpty REASON_EMPTY)
      else if byte_len v > MAX_DOMAIN_LEN
      then Inl (invalid_params_with_reason field (ExceedsMaximumLength MAX_DOMAIN_LEN) REASON_TOO_LONG)
      else if list_ex is_whitespace v
      then Inl (invalid_params_with_reason field ContainsWhitespace REASON_MALFORMED)
      else if list_ex (\<lambda>c. c = CHR ''/'' \<or> c = CHR 0x5C \<or> c = CHR '':'') v
      then Inl (invalid_params_with_reason field NotABareDomain REASON_MALFORMED)
      else if contains_str ''..'' v
      then Inl (invalid_params_with_reason field ContainsDotDot REASON_PATH_NOT_ALLOWED)
      else if \<not> list_ex (\<lambda>c. c = CHR ''.'') v
      then Inl (invalid_params_with_reason field NoDot REASON_MALFORMED)
      else Inr ())"

text \<open>\<^verbatim>\<open>split_once("://")\<close>, first part.\<close>

fun before_scheme_mark :: "string \<Rightarrow> string option" where
  "before_scheme_mark [] = None"
| "before_scheme_mark (c # cs) =
     (if starts_with ''://'' (c # cs) then Some []
      else map_option (\<lambda>p. c # p) (before_scheme_mark cs))"

definition require_safe_seed :: "string \<Rightarrow> string \<Rightarrow> mcp_error + unit" where
  "require_safe_seed field v =
     (if v = [] then Inl (invalid_params_with_reason field MustNotBeEmpty REASON_EMPTY)
      else if list_ex is_whitespace v
      then Inl (invalid_params_with_reason field ContainsWhitespace REASON_MALFORMED)
      else if contains_str ''..'' v
      then Inl (invalid_params_with_reason field ContainsDotDot REASON_PATH_NOT_ALLOWED)
      else (case before_scheme_mark v of
              Some sch \<Rightarrow>
                if sch \<noteq> ''http'' \<and> sch \<noteq> ''https''
                then Inl (invalid_params_with_reason field (SchemeNotAllowed sch) REASON_UNSUPPORTED_SCHEME)
                else Inr ()
            | None \<Rightarrow>
                if list_ex (\<lambda>c. c = CHR ''/'' \<or> c = CHR '':'') v
                then Inl (invalid_params_with_reason field NotADomainOrUrl REASON_MALFORMED)
                else if \<not> list_ex (\<lambda>c. c = CHR ''.'') v
                then Inl (invalid_params_with_reason field NoDot REASON_MALFORMED)
                else Inr ()))"

section \<open>Paths and filenames\<close>

definition is_ascii_alphabetic :: "char \<Rightarrow> bool" where
  "is_ascii_alphabetic c = (let n = of_char c :: nat in 65 \<le> n \<and> n \<le> 90 \<or> 97 \<le> n \<and> n \<le> 122)"

fun has_windows_drive_prefix :: "string \<Rightarrow> bool" where
  "has_windows_drive_prefix (a # b # _) = (is_ascii_alphabetic a \<and> b = CHR '':'')"
| "has_windows_drive_prefix _ = False"

definition normal_components :: "string \<Rightarrow> string list" where
  "normal_components p = List.map_filter (\<lambda>c. case c of Normal n \<Rightarrow> Some n | _ \<Rightarrow> None) (components p)"

definition filename_component_error :: "string \<Rightarrow> bool \<Rightarrow> rule option" where
  "filename_component_error part allow_drive_prefix =
     (if list_ex is_control part then Some ControlCharacters
      else
        (let probe = (if allow_drive_prefix \<and> has_windows_drive_prefix part then drop 2 part else part) in
         if CHR '':'' \<in> set probe then Some ColonInName
         else if list_ex (\<lambda>c. c \<in> {CHR ''<'', CHR ''>'', CHR 0x22, CHR ''|'', CHR ''?'', CHR ''*''}) part
         then Some WindowsInvalidCharacters
         else if is_windows_reserved part then Some ReservedName
         else if ends_with ''.'' part \<or> ends_with '' '' part then Some TrailingDotOrSpace
         else if byte_len part > MAX_COMPONENT_BYTES then Some ComponentTooLong
         else None))"

definition require_safe_path :: "string \<Rightarrow> string \<Rightarrow> mcp_error + string" where
  "require_safe_path field v =
     (if v = [] then Inl (invalid_params_with_reason field MustNotBeEmpty REASON_EMPTY)
      else if byte_len v > MAX_PATH_LEN
      then Inl (invalid_params_with_reason field (ExceedsMaximumLength MAX_PATH_LEN) REASON_TOO_LONG)
      else if starts_with ''/'' v \<or> starts_with [CHR 0x5C] v
      then Inl (invalid_params_with_reason field LeadingSeparator REASON_PATH_NOT_ALLOWED)
      else if has_windows_drive_prefix v
      then Inl (invalid_params_with_reason field DriveLetter REASON_PATH_NOT_ALLOWED)
      else if has_root v
      then Inl (invalid_params_with_reason field MustBeRelative REASON_PATH_NOT_ALLOWED)
      else if list_ex (\<lambda>c. c = ParentDir) (components v)
      then Inl (invalid_params_with_reason field ParentTraversal REASON_PATH_NOT_ALLOWED)
      else (case find_map (\<lambda>c. filename_component_error c False) (normal_components v) of
              Some r \<Rightarrow> Inl (invalid_params_with_reason field r REASON_PATH_NOT_ALLOWED)
            | None \<Rightarrow> Inr v))"

definition require_safe_path_allow_absolute :: "string \<Rightarrow> string \<Rightarrow> mcp_error + string" where
  "require_safe_path_allow_absolute field v =
     (if v = [] then Inl (invalid_params_with_reason field MustNotBeEmpty REASON_EMPTY)
      else if byte_len v > MAX_PATH_LEN
      then Inl (invalid_params_with_reason field (ExceedsMaximumLength MAX_PATH_LEN) REASON_TOO_LONG)
      else if list_ex (\<lambda>c. c = ParentDir) (components v)
      then Inl (invalid_params_with_reason field ParentTraversal REASON_PATH_NOT_ALLOWED)
      else (case find_map (\<lambda>c. filename_component_error c True) (normal_components v) of
              Some r \<Rightarrow> Inl (invalid_params_with_reason field r REASON_PATH_NOT_ALLOWED)
            | None \<Rightarrow> Inr v))"

definition require_safe_filename :: "string \<Rightarrow> string \<Rightarrow> mcp_error + unit" where
  "require_safe_filename field v =
     (if v = [] then Inl (invalid_params_with_reason field MustNotBeEmpty REASON_EMPTY)
      else if byte_len v > MAX_PATH_LEN
      then Inl (invalid_params_with_reason field (ExceedsMaximumLength MAX_PATH_LEN) REASON_TOO_LONG)
      else if list_ex (\<lambda>c. c = CHR ''/'' \<or> c = CHR 0x5C) v
      then Inl (invalid_params_with_reason field EmbeddedSeparator REASON_PATH_NOT_ALLOWED)
      else (case components v of
              [] \<Rightarrow> Inl (invalid_params_with_reason field NoComponent REASON_PATH_NOT_ALLOWED)
            | part # rest \<Rightarrow>
                if rest \<noteq> [] then Inl (invalid_params_with_reason field SeveralComponents REASON_PATH_NOT_ALLOWED)
                else if \<not> is_normal part
                then Inl (invalid_params_with_reason field NotANormalComponent REASON_PATH_NOT_ALLOWED)
                else if os_str part \<noteq> v
                then Inl (invalid_params_with_reason field NotTheValueItself REASON_PATH_NOT_ALLOWED)
                else (case filename_component_error v False of
                        Some r \<Rightarrow> Inl (invalid_params_with_reason field r REASON_PATH_NOT_ALLOWED)
                      | None \<Rightarrow> Inr ())))"

datatype sanitized_filename = SanitizedFilename string

definition sanitized_filename_from_str :: "string \<Rightarrow> mcp_error + sanitized_filename" where
  "sanitized_filename_from_str s =
     (case require_safe_filename ''filename'' s of
        Inl e \<Rightarrow> Inl e
      | Inr _ \<Rightarrow> Inr (SanitizedFilename s))"

section \<open>What validation guarantees\<close>

text \<open>A component free of every hazard the shared rule names.\<close>

definition hardened_component :: "string \<Rightarrow> bool" where
  "hardened_component n =
     (n \<noteq> [] \<and> list_all (\<lambda>c. \<not> is_control c \<and> c \<notin> set ''/:<>|?*'' \<and> c \<noteq> CHR 0x22) n
      \<and> n \<noteq> ''.'' \<and> n \<noteq> ''..'' \<and> last n \<noteq> CHR ''.'' \<and> last n \<noteq> CHR '' ''
      \<and> \<not> is_windows_reserved n \<and> byte_len n \<le> 255)"

lemma ends_with_last: "s \<noteq> [] \<Longrightarrow> ends_with [c] s \<longleftrightarrow> last s = c"
  by (cases s rule: rev_cases) (auto simp: ends_with_iff)

lemma component_accepted:
  assumes "filename_component_error n False = None" "n \<noteq> []" "n \<noteq> ''.''" "n \<noteq> ''..''" "CHR ''/'' \<notin> set n"
  shows "hardened_component n"
  using assms ends_with_last [OF assms(2)]
  by (auto simp: filename_component_error_def hardened_component_def MAX_COMPONENT_BYTES_def list_all_iff list_ex_iff Let_def
      split: if_splits)

lemma find_map_None: "find_map f xs = None \<longleftrightarrow> (\<forall>x \<in> set xs. f x = None)"
  by (induction xs) (auto split: option.splits)

lemma normal_components_iff: "n \<in> set (normal_components p) \<longleftrightarrow> Normal n \<in> set (components p)"
proof -
  have "(case c of Normal m \<Rightarrow> Some m | _ \<Rightarrow> None) = Some n \<longleftrightarrow> c = Normal n" for c by (cases c) auto
  then show ?thesis by (auto simp: normal_components_def set_map_filter)
qed

lemma slash_free_components:
  assumes "CHR ''/'' \<notin> set v" shows "List.map_filter component_of (split_on (CHR ''/'') v) =
    (case component_of v of None \<Rightarrow> [] | Some c \<Rightarrow> [c])"
  using assms by (simp add: split_on_no_sep List.map_filter_def del: component_of.simps split: option.splits)

lemma slash_free_no_root: "CHR ''/'' \<notin> set v \<Longrightarrow> \<not> has_root v"
  by (cases v) (auto simp: has_root_def starts_with_def)

lemma accepted_filename:
  assumes "require_safe_filename field v = Inr ()"
  shows "CHR ''/'' \<notin> set v \<and> CHR 0x5C \<notin> set v \<and> components v = [Normal v] \<and> hardened_component v"
proof -
  have ok: "v \<noteq> []" "CHR ''/'' \<notin> set v" "CHR 0x5C \<notin> set v" "filename_component_error v False = None"
    and c: "components v = [Normal v]"
    using assms
    by (auto simp: require_safe_filename_def list_ex_iff is_normal_def split: if_splits list.splits option.splits component.splits)
  have "v \<noteq> ''.'' \<and> v \<noteq> ''..''"
    using normal_in_components [of v v] c by simp
  then show ?thesis using ok c component_accepted by blast
qed

lemma joined_filename:
  assumes "CHR ''/'' \<notin> set v" "components v = [Normal v]" "b \<noteq> []"
  shows "components (path_join b v) = components b @ [Normal v]"
proof -
  have n: "v \<noteq> []" "v \<noteq> ''.''" "v \<noteq> ''..''" using normal_in_components [of v v] assms(2) by auto
  then have "List.map_filter component_of (split_on (CHR ''/'') v) = [Normal v]"
    using assms(1) by (simp add: slash_free_components)
  then show ?thesis using components_join [OF assms(3) slash_free_no_root [OF assms(1)]] by simp
qed

text \<open>
  A filename accepted at the boundary names one entry of the directory it is joined to: on every base
  path, the joined path has the components of the base and then the filename itself, and the name holds no
  separator, colon, control or reserved character, is no device name, ends neither in a dot nor in a space
  and fits a directory entry.
\<close>

theorem safe_filename_stays_in_directory:
  assumes "require_safe_filename field v = Inr ()" and "base \<noteq> []"
  shows "components (path_join base v) = components base @ [Normal v] \<and> hardened_component v \<and> CHR 0x5C \<notin> set v"
  using accepted_filename [OF assms(1)] joined_filename assms(2) by blast

lemma validation_chars:
  "\<not> is_control CHR ''a''" "\<not> is_control CHR ''.''" "\<not> is_control CHR ''b''"
  by (simp_all add: is_control_def of_char_def)

lemma dotted_name_not_reserved: "\<not> is_windows_reserved ''a.b''"
  by (simp add: is_windows_reserved_def to_ascii_upper_def of_char_def char_of_def bit_0 WINDOWS_RESERVED_def)

theorem safe_filename_stays_in_directory_witness:
  "components (path_join ''/srv'' ''a.b'') = components ''/srv'' @ [Normal ''a.b'']
    \<and> hardened_component ''a.b'' \<and> CHR 0x5C \<notin> set ''a.b''"
  by (rule safe_filename_stays_in_directory [of "[]"])
    (simp_all add: require_safe_filename_def MAX_PATH_LEN_def byte_len_ascii len_utf8_def of_char_def components_def
      has_root_def starts_with_def List.map_filter_def is_normal_def filename_component_error_def validation_chars
      dotted_name_not_reserved ends_with_last MAX_COMPONENT_BYTES_def Let_def)

lemma relative_tail:
  assumes "\<not> has_root v"
  shows "List.map_filter component_of (split_on (CHR ''/'') v) = filter (\<lambda>c. c \<noteq> CurDir) (components v)"
proof -
  have "CurDir \<notin> set (List.map_filter component_of (split_on (CHR ''/'') v))"
    by (auto simp: set_map_filter component_of_Some simp del: component_of.simps)
  then have "filter (\<lambda>c. c \<noteq> CurDir) (List.map_filter component_of (split_on (CHR ''/'') v))
      = List.map_filter component_of (split_on (CHR ''/'') v)"
    by (auto simp: filter_id_conv simp del: component_of.simps)
  then show ?thesis using assms by (simp add: components_def Let_def del: component_of.simps)
qed

lemma accepted_path:
  assumes "require_safe_path field v = Inr w"
  shows "w = v \<and> \<not> has_root v \<and> ParentDir \<notin> set (components v)
    \<and> (\<forall>n. Normal n \<in> set (components v) \<longrightarrow> filename_component_error n False = None)"
  using assms
  by (auto simp: require_safe_path_def find_map_None normal_components_iff list_ex_iff split: if_splits option.splits)

text \<open>
  A relative path accepted at the boundary stays below the directory it is joined to: the joined path
  has the components of the base and then only normal components, each of them free of separators, colons,
  control and reserved characters, device names and trailing dots.
\<close>

theorem safe_path_stays_below_base:
  assumes "require_safe_path field v = Inr w" and "base \<noteq> []"
  shows "\<exists>ns. components (path_join base w) = components base @ map Normal ns \<and> (\<forall>n \<in> set ns. hardened_component n)"
proof -
  note ok = accepted_path [OF assms(1)]
  let ?cs = "filter (\<lambda>c. c \<noteq> CurDir) (components v)"
  have "\<exists>n. c = Normal n \<and> hardened_component n" if "c \<in> set ?cs" for c
  proof (cases c)
    case RootDir
    then show ?thesis using that ok root_only_first by (metis filter_is_subset in_set_conv_decomp subsetD)
  next
    case (Normal n)
    then have "Normal n \<in> set (components v)" using that by simp
    then show ?thesis using ok normal_in_components component_accepted Normal by blast
  qed (use that ok in auto)
  then obtain f where f: "\<forall>c \<in> set ?cs. c = Normal (f c) \<and> hardened_component (f c)" by metis
  have "map Normal (map f ?cs) = ?cs" unfolding map_map by (rule map_idI) (use f in auto)
  then have "components (path_join base w) = components base @ map Normal (map f ?cs)"
    using ok components_join [OF assms(2), of v] relative_tail [of v] by metis
  then show ?thesis using f by (intro exI [of _ "map f ?cs"]) auto
qed

theorem safe_path_stays_below_base_witness:
  "\<exists>ns. components (path_join ''/srv'' ''a.b'') = components ''/srv'' @ map Normal ns \<and> (\<forall>n \<in> set ns. hardened_component n)"
  by (rule safe_path_stays_below_base [of "[]" "''a.b''"])
    (simp_all add: require_safe_path_def MAX_PATH_LEN_def byte_len_ascii len_utf8_def of_char_def components_def
      has_root_def starts_with_def List.map_filter_def normal_components_def filename_component_error_def validation_chars
      dotted_name_not_reserved ends_with_last MAX_COMPONENT_BYTES_def Let_def)

end
