(* ===== verification/Path_Gate.thy ===== *)
theory Path_Gate
  imports Mcp_Validation
begin

text \<open>
  The confinement gate of every write destination of the MCP server: \<^verbatim>\<open>mcp_server/path_gate.rs\<close> on a POSIX
  host, and its two entry points of \<^verbatim>\<open>mcp_server/state.rs\<close>. The operating system's \<^verbatim>\<open>canonicalize\<close> is the argument
  \<open>canon\<close>, and the compile-time case rule of the file system the argument \<open>ci\<close>.
\<close>

section \<open>Resolution\<close>

definition normalize_step :: "path \<Rightarrow> component \<Rightarrow> path" where
  "normalize_step out c = (case c of CurDir \<Rightarrow> out | ParentDir \<Rightarrow> path_pop out | _ \<Rightarrow> path_push out c)"

definition normalize_lexical :: "string \<Rightarrow> path" where
  "normalize_lexical p = foldl normalize_step [] (components p)"

function walk_up :: "(path \<Rightarrow> path option) \<Rightarrow> path \<Rightarrow> string list \<Rightarrow> path option" where
  "walk_up canon cursor tail =
     (case file_name cursor of
        None \<Rightarrow> None
      | Some name \<Rightarrow>
          (case parent cursor of
             None \<Rightarrow> None
           | Some p \<Rightarrow>
               (case canon p of
                  Some resolved \<Rightarrow> Some (foldl (\<lambda>out part. path_push out (Normal part)) resolved (rev (tail @ [name])))
                | None \<Rightarrow> walk_up canon p (tail @ [name]))))"
  by pat_completeness auto

termination
  by (relation "measure (\<lambda>(_, cursor, _). length cursor)") (auto simp: parent_def split: if_splits)

declare walk_up.simps [simp del]

definition resolve_fully :: "(path \<Rightarrow> path option) \<Rightarrow> string \<Rightarrow> path" where
  "resolve_fully canon p =
     (let lexical = normalize_lexical p in
      case canon lexical of
        Some resolved \<Rightarrow> resolved
      | None \<Rightarrow> unwrap_or (walk_up canon lexical []) lexical)"

fun components_start_with :: "bool \<Rightarrow> path \<Rightarrow> path \<Rightarrow> bool" where
  "components_start_with ci p [] = True"
| "components_start_with ci [] (r # rs) = False"
| "components_start_with ci (c # cs) (r # rs) =
     ((if ci then eq_ignore_ascii_case (os_str c) (os_str r) else os_str c = os_str r)
      \<and> components_start_with ci cs rs)"

definition resolved_within_roots :: "(path \<Rightarrow> path option) \<Rightarrow> bool \<Rightarrow> string \<Rightarrow> string list \<Rightarrow> bool" where
  "resolved_within_roots canon ci p roots =
     (if roots = [] then False
      else (let resolved = resolve_fully canon p in
            list_ex (\<lambda>root. components_start_with ci resolved (resolve_fully canon root)) roots))"

section \<open>The gate\<close>

datatype path_shape = Relative | Absolute | RootedNotAbsolute

fun has_drive_prefix :: "string \<Rightarrow> bool" where
  "has_drive_prefix (a # b # _) = (is_ascii_alphabetic a \<and> b = CHR '':'')"
| "has_drive_prefix _ = False"

definition classify_with :: "string \<Rightarrow> bool \<Rightarrow> bool \<Rightarrow> path_shape" where
  "classify_with raw is_absolute root =
     (if is_absolute then Absolute
      else if root \<or> starts_with [CHR 0x5C] raw \<or> has_drive_prefix raw then RootedNotAbsolute
      else Relative)"

text \<open>On a POSIX host a path is absolute exactly when it has a root.\<close>

definition classify :: "string \<Rightarrow> path_shape" where
  "classify raw = classify_with raw (has_root raw) (has_root raw)"

definition confine :: "(path \<Rightarrow> path option) \<Rightarrow> bool \<Rightarrow> string \<Rightarrow> string \<Rightarrow> string list \<Rightarrow> mcp_error + unit" where
  "confine canon ci field raw roots =
     (if raw = [] then Inl (invalid_params_with_reason field MustNotBeEmpty REASON_EMPTY)
      else if byte_len raw > MAX_PATH_LEN
      then Inl (invalid_params_with_reason field (ExceedsMaximumLength MAX_PATH_LEN) REASON_TOO_LONG)
      else
        (let shape = classify raw in
         if shape = RootedNotAbsolute
         then Inl (invalid_params_with_reason field RootedNotAllowed REASON_PATH_NOT_ALLOWED)
         else if list_ex (\<lambda>c. c = ParentDir) (components raw)
         then Inl (invalid_params_with_reason field ParentTraversal REASON_PATH_NOT_ALLOWED)
         else if shape = Relative then Inr ()
         else if roots = []
         then Inl (invalid_params_with_reason field NoExportRoots REASON_PATH_NOT_ALLOWED)
         else if resolved_within_roots canon ci raw roots then Inr ()
         else Inl (invalid_params_with_reason field OutsideExportRoots REASON_PATH_NOT_ALLOWED)))"

definition validate_export_dir :: "(path \<Rightarrow> path option) \<Rightarrow> bool \<Rightarrow> string list \<Rightarrow> string \<Rightarrow> mcp_error + unit" where
  "validate_export_dir canon ci allowed_export_roots dir = confine canon ci ''output_dir'' dir allowed_export_roots"

definition validate_checkpoint_dir :: "(path \<Rightarrow> path option) \<Rightarrow> bool \<Rightarrow> string list \<Rightarrow> string \<Rightarrow> mcp_error + unit" where
  "validate_checkpoint_dir canon ci allowed_export_roots dir =
     confine canon ci ''checkpoint_dir'' dir allowed_export_roots"

text \<open>The startup check warns, it does not refuse: whether it warns.\<close>

definition warn_if_configured_output_dir_outside_roots ::
  "(path \<Rightarrow> path option) \<Rightarrow> bool \<Rightarrow> string \<Rightarrow> string list \<Rightarrow> bool" where
  "warn_if_configured_output_dir_outside_roots canon ci output_dir roots =
     (classify output_dir \<noteq> Relative \<and> \<not> resolved_within_roots canon ci output_dir roots)"

section \<open>Where a write lands\<close>

text \<open>
  The directory a write goes to when the path is created: the longest prefix of the path that exists,
  with its links resolved, and below it the names that do not exist yet.
\<close>

definition lands_at :: "(path \<Rightarrow> path option) \<Rightarrow> path \<Rightarrow> path \<Rightarrow> bool" where
  "lands_at canon p q =
     (\<exists>k \<le> length p. \<exists>r. canon (take k p) = Some r \<and> q = r @ drop k p
        \<and> (\<forall>j. k < j \<and> j \<le> length p \<longrightarrow> canon (take j p) = None))"

lemma lands_at_unique: "lands_at canon p q \<Longrightarrow> lands_at canon p q' \<Longrightarrow> q = q'"
  unfolding lands_at_def by (metis not_less_iff_gr_or_eq option.distinct(1) option.inject)

lemma push_names: "foldl (\<lambda>out part. path_push out (Normal part)) r ns = r @ map Normal ns"
  by (induction ns arbitrary: r) (auto simp: path_push_def)

lemma lands_at_full: "canon p = Some r \<Longrightarrow> lands_at canon p r"
  unfolding lands_at_def by (rule exI [of _ "length p"]) simp

lemma lands_at_snoc:
  assumes "canon (p @ [c]) = None" "lands_at canon p q"
  shows "lands_at canon (p @ [c]) (q @ [c])"
proof -
  obtain k r where k: "k \<le> length p" "canon (take k p) = Some r" "q = r @ drop k p"
    "\<forall>j. k < j \<and> j \<le> length p \<longrightarrow> canon (take j p) = None"
    using assms(2) unfolding lands_at_def by blast
  have "canon (take j (p @ [c])) = None" if "k < j" "j \<le> length (p @ [c])" for j
    using that k(4) assms(1) by (cases "j \<le> length p") (auto simp: not_le)
  then show ?thesis
    unfolding lands_at_def using k by (intro exI [of _ k]) auto
qed

text \<open>The climbing loop finds it on an absolute path, since the root directory itself resolves.\<close>

lemma walk_up_lands:
  assumes "canon [RootDir] = Some r0" "canon (RootDir # map Normal ns) = None"
  shows "\<exists>q. walk_up canon (RootDir # map Normal ns) tail = Some (q @ map Normal (rev tail))
     \<and> lands_at canon (RootDir # map Normal ns) q"
  using assms(2)
proof (induction ns arbitrary: tail rule: rev_induct)
  case Nil
  then show ?case using assms(1) by simp
next
  case (snoc n ns)
  let ?p = "RootDir # map Normal ns"
  have step: "walk_up canon (?p @ [Normal n]) tail =
      (case canon ?p of Some r \<Rightarrow> Some (r @ map Normal (n # rev tail)) | None \<Rightarrow> walk_up canon ?p (tail @ [n]))"
    by (subst walk_up.simps) (simp add: file_name_def parent_def push_names split: option.splits)
  have none: "canon (?p @ [Normal n]) = None" using snoc.prems by simp
  show ?case
  proof (cases "canon ?p")
    case None
    then obtain q where "walk_up canon ?p (tail @ [n]) = Some (q @ map Normal (rev (tail @ [n])))" "lands_at canon ?p q"
      using snoc.IH by blast
    then show ?thesis using step None lands_at_snoc [where p = ?p and canon = canon, OF none] by (intro exI [of _ "q @ [Normal n]"]) simp
  next
    case (Some r)
    then show ?thesis
      using step lands_at_snoc [where p = ?p and canon = canon, OF none lands_at_full [of canon ?p r]] by (intro exI [of _ "r @ [Normal n]"]) simp
  qed
qed

lemma normalize_from:
  assumes "RootDir \<notin> set cs"
  shows "\<exists>ns'. foldl normalize_step (RootDir # map Normal ns) cs = RootDir # map Normal ns'"
  using assms
proof (induction cs arbitrary: ns)
  case (Cons c cs)
  have "\<exists>ns'. normalize_step (RootDir # map Normal ns) c = RootDir # map Normal ns'"
  proof (cases c)
    case CurDir
    then show ?thesis by (auto simp: normalize_step_def)
  next
    case ParentDir
    then show ?thesis
      by (cases ns rule: rev_cases) (auto simp: normalize_step_def path_pop_def parent_def intro: exI [of _ "[]"])
  next
    case (Normal n)
    then show ?thesis by (intro exI [of _ "ns @ [n]"]) (simp add: normalize_step_def path_push_def)
  qed (use Cons.prems in simp)
  then show ?case using Cons by auto
qed auto

lemma tail_components:
  "c \<in> set (List.map_filter component_of (split_on (CHR ''/'') raw)) \<Longrightarrow> c = ParentDir \<or> (\<exists>n. c = Normal n)"
  by (auto simp: set_map_filter component_of_Some simp del: component_of.simps)

lemma normalize_rooted:
  assumes "has_root raw" shows "\<exists>ns. normalize_lexical raw = RootDir # map Normal ns"
proof -
  have "RootDir \<notin> set (List.map_filter component_of (split_on (CHR ''/'') raw))" using tail_components by blast
  from normalize_from [OF this, of "[]"] show ?thesis
    using assms by (simp add: normalize_lexical_def components_rooted normalize_step_def path_push_def)
qed

lemma normalize_without_parent:
  assumes "has_root raw" "ParentDir \<notin> set (components raw)"
  shows "normalize_lexical raw = components raw"
proof -
  let ?t = "List.map_filter component_of (split_on (CHR ''/'') raw)"
  have "foldl normalize_step p cs = p @ cs" if "\<forall>c \<in> set cs. \<exists>n. c = Normal n" for p cs
    using that by (induction cs arbitrary: p) (auto simp: normalize_step_def path_push_def)
  moreover have "\<forall>c \<in> set ?t. \<exists>n. c = Normal n" using tail_components assms components_rooted by fastforce
  ultimately have "foldl normalize_step [RootDir] ?t = [RootDir] @ ?t" by blast
  then show ?thesis
    using assms(1) by (simp add: normalize_lexical_def components_rooted normalize_step_def path_push_def)
qed

lemma resolve_lands:
  assumes "canon [RootDir] = Some r0" "has_root raw"
  shows "lands_at canon (normalize_lexical raw) (resolve_fully canon raw)"
proof -
  obtain ns where ns: "normalize_lexical raw = RootDir # map Normal ns" using normalize_rooted [OF assms(2)] by blast
  show ?thesis
  proof (cases "canon (RootDir # map Normal ns)")
    case None
    then show ?thesis
      using walk_up_lands [OF assms(1) None, of "[]"] ns by (auto simp: resolve_fully_def)
  next
    case (Some r)
    then show ?thesis using ns lands_at_full by (simp add: resolve_fully_def)
  qed
qed

text \<open>A directory lies inside another when the other's components begin it, under the file system's case rule.\<close>

definition same_component :: "bool \<Rightarrow> component \<Rightarrow> component \<Rightarrow> bool" where
  "same_component ci a b = (if ci then eq_ignore_ascii_case (os_str a) (os_str b) else os_str a = os_str b)"

definition inside :: "bool \<Rightarrow> path \<Rightarrow> path \<Rightarrow> bool" where
  "inside ci d q = (\<exists>e m. q = e @ m \<and> list_all2 (same_component ci) e d)"

lemma components_start_with_iff: "components_start_with ci q d \<longleftrightarrow> inside ci d q"
proof (induction ci q d rule: components_start_with.induct)
  case (3 ci c cs r rs)
  have "inside ci (r # rs) (c # cs) \<longleftrightarrow> same_component ci c r \<and> inside ci rs cs"
    unfolding inside_def by (auto simp: list_all2_Cons2 Cons_eq_append_conv)
  then show ?case using 3 by (simp add: same_component_def)
qed (auto simp: inside_def)

text \<open>
  C14. The gate admits an absolute write destination exactly when it is short enough, holds no parent
  component and would land inside a configured root: the longest existing prefix of the path, with its
  symbolic links resolved, followed by the names still to be created, is inside the place where one of the
  absolute roots lands in the same sense. A link inside a root that leads out of it is therefore refused,
  and with no roots nothing is admitted.
\<close>

theorem confine_admits_what_lands_inside_a_root:
  assumes "has_root raw" and "\<forall>root \<in> set roots. has_root root" and "canon [RootDir] = Some [RootDir]"
  shows "confine canon ci field raw roots = Inr () \<longleftrightarrow>
     byte_len raw \<le> 1024 \<and> ParentDir \<notin> set (components raw)
     \<and> (\<exists>root q d. root \<in> set roots \<and> lands_at canon (components raw) q
          \<and> lands_at canon (normalize_lexical root) d \<and> inside ci d q)"
proof (cases "ParentDir \<in> set (components raw)")
  case True
  then show ?thesis by (simp add: confine_def Let_def list_ex_iff)
next
  case False
  have raw: "raw \<noteq> []" using assms(1) by (auto simp: has_root_def starts_with_def)
  have q: "lands_at canon (components raw) (resolve_fully canon raw)"
    using resolve_lands [where canon = canon, OF assms(3,1)] normalize_without_parent [OF assms(1) False] by simp
  have "(\<exists>root q d. root \<in> set roots \<and> lands_at canon (components raw) q
          \<and> lands_at canon (normalize_lexical root) d \<and> inside ci d q)
      \<longleftrightarrow> (\<exists>root \<in> set roots. inside ci (resolve_fully canon root) (resolve_fully canon raw))"
    using q lands_at_unique resolve_lands [where canon = canon, OF assms(3)] assms(2) by metis
  also have "\<dots> \<longleftrightarrow> resolved_within_roots canon ci raw roots"
    by (auto simp: resolved_within_roots_def list_ex_iff components_start_with_iff Let_def)
  finally show ?thesis
    using raw False assms(1)
    by (auto simp: confine_def classify_def classify_with_def MAX_PATH_LEN_def list_ex_iff resolved_within_roots_def Let_def)
qed

text \<open>A file system with the directories \<^verbatim>\<open>/\<close>, \<^verbatim>\<open>/srv\<close> and \<^verbatim>\<open>/etc\<close>, and a link from \<^verbatim>\<open>/srv/out\<close> to \<^verbatim>\<open>/etc\<close>.\<close>

definition linked_fs :: "path \<Rightarrow> path option" where
  "linked_fs p =
     (if p = [RootDir] \<or> p = [RootDir, Normal ''srv''] \<or> p = [RootDir, Normal ''etc''] then Some p
      else if p = [RootDir, Normal ''srv'', Normal ''out''] then Some [RootDir, Normal ''etc'']
      else None)"

lemmas gate_eval =
  confine_def classify_def classify_with_def components_def has_root_def starts_with_def resolved_within_roots_def
  resolve_fully_def normalize_lexical_def normalize_step_def path_push_def linked_fs_def walk_up.simps file_name_def
  parent_def List.map_filter_def byte_len_ascii len_utf8_def of_char_def MAX_PATH_LEN_def invalid_params_with_reason_def
  Let_def

theorem confine_admits_what_lands_inside_a_root_witness:
  "confine linked_fs False [] ''/srv/new'' [''/srv''] = Inr ()
    \<and> confine linked_fs False [] ''/srv/out/new'' [''/srv''] \<noteq> Inr ()
    \<and> (\<exists>q d. lands_at linked_fs (components ''/srv/new'') q \<and> lands_at linked_fs (normalize_lexical ''/srv'') d
         \<and> inside False d q)"
proof -
  have new: "confine linked_fs False [] ''/srv/new'' [''/srv''] = Inr ()" by (simp add: gate_eval)
  have out: "confine linked_fs False [] ''/srv/out/new'' [''/srv''] \<noteq> Inr ()" by (simp add: gate_eval)
  have "\<exists>q d. lands_at linked_fs (components ''/srv/new'') q \<and> lands_at linked_fs (normalize_lexical ''/srv'') d
      \<and> inside False d q"
    using confine_admits_what_lands_inside_a_root [of "''/srv/new''" "[''/srv'']" linked_fs False "[]"] new
    by (simp add: has_root_def starts_with_def linked_fs_def)
  then show ?thesis using new out by blast
qed

text \<open>
  A root that is the current directory, spelled \<^verbatim>\<open>.\<close>, opens the whole file system: the gate normalises
  it to the empty path, which no file system resolves and which begins every path, so every absolute
  destination without parent components is admitted.
\<close>

theorem dot_root_admits_every_absolute_path:
  assumes "canon [] = None" and "has_root raw" and "byte_len raw \<le> 1024" and "ParentDir \<notin> set (components raw)"
  shows "confine canon ci field raw [''.''] = Inr ()"
proof -
  have "resolve_fully canon ''.'' = []"
    using assms(1)
    by (simp add: resolve_fully_def normalize_lexical_def normalize_step_def components_def has_root_def starts_with_def
        List.map_filter_def walk_up.simps file_name_def)
  then have "resolved_within_roots canon ci raw [''.'']" by (simp add: resolved_within_roots_def)
  moreover have "raw \<noteq> []" using assms(2) by (auto simp: has_root_def starts_with_def)
  ultimately show ?thesis
    using assms by (simp add: confine_def classify_def classify_with_def MAX_PATH_LEN_def list_ex_iff Let_def)
qed

theorem dot_root_admits_every_absolute_path_witness:
  "confine linked_fs False [] ''/etc/x'' [''.''] = Inr ()"
  by (rule dot_root_admits_every_absolute_path)
    (simp_all add: linked_fs_def has_root_def starts_with_def byte_len_ascii len_utf8_def of_char_def components_def
      List.map_filter_def)

end
