(* ===== verification/Spec2Isabelle.thy ===== *)
theory Spec2Isabelle
  imports
    Asset_Downloader Scrape_Flow Site_Discovery Ip_Spelling Resolver Persistence_Mode Commit_Session
    Crawl_Engine Bounded_Sink
    Page_Downloader Exit_Codes Retry_Policy Output_Path Path_Gate
begin

text \<open>
  Verification of the core of webfang, a web scraper and crawler written in Rust. Paths below are relative
  to \<^verbatim>\<open>src/crates/webfang_core/src\<close>.

  \<^bold>\<open>The program.\<close> A crawl starts from a seed URL. The engine asks the scheduler for the next page; the
  page is fetched through an HTTP client whose name resolution and redirects pass the SSRF guard; the page
  task extracts links, keeps the internal ones that the patterns allow and pushes them onto the shared
  queue; the page's content runs through a lifecycle of eight states and is exported, and a per-domain
  record store makes the export durable so that a later run can resume. The development models the
  parts that decide what the program may reach, what it visits, what it keeps and where it writes.

  \<^bold>\<open>Network guard.\<close> \<open>Std_Net\<close> has the address predicates of the Rust standard library that the guard
  uses, on 32- and 128-bit words. \<open>Network_Policy\<close> (\<^verbatim>\<open>domain/network_policy.rs\<close>) is the operator's allowlist
  and its validation. \<open>Ssrf_Guard\<close> (\<^verbatim>\<open>domain/ssrf_guard.rs\<close>) is the deny list, the verdicts at entry, at
  redirects and at dial time, and the parser of IPv4 spellings. \<open>Ip_Spelling\<close> proves that every spelling of
  an address is judged by that address. \<open>Resolver\<close> (\<^verbatim>\<open>infrastructure/ssrf.rs\<close>) is the resolver that scans
  the answers. Shown: the octet tests are the documented table; with a restricted policy the ladders are
  the flat list; what validation accepts opens no never-allowable range; an undeclared name reaches no
  forbidden address; the resolver fails closed. The locale \<open>dial_ladder\<close> holds what the two dial-time
  verdicts share and is interpreted on both.

  \<^bold>\<open>Page lifecycle and persistence.\<close> \<open>Page_State\<close> (\<^verbatim>\<open>domain/page_state\<close>, \<^verbatim>\<open>domain/persistence.rs\<close>) has the
  states, the typed transitions as a step relation and the persisted record. \<open>Btree_Map\<close> is the ordered map
  with the locale \<open>key_value_map\<close>. \<open>Record_Transition\<close> (\<^verbatim>\<open>domain/record_transition.rs\<close>) has the invariant
  table, quarantine and the commit point. \<open>Record_Store\<close> (\<^verbatim>\<open>infrastructure/export/record_store.rs\<close>) has save,
  load, update, migration and backups over a directory of named files; system calls may fail, a process
  may die at any point of a save, and the advisory lock makes an operation one step. \<open>Commit_Session\<close>
  (\<^verbatim>\<open>application/export_factory.rs\<close>, \<^verbatim>\<open>application/resume.rs\<close>) is the export protocol and the resume gate.
  \<open>Persistence_Mode\<close> is the resolver of the persistence flags. Shown: saves are atomic under process death;
  concurrent updates are serialised; a key is committed once; an item whose export is cut short anywhere
  is exported exactly once after the resumed run; a refused load loses no bytes; a v1 file is migrated
  with its history.

  \<^bold>\<open>Crawl frontier.\<close> \<open>Url_Queue\<close> (\<^verbatim>\<open>infrastructure/crawler/url_queue.rs\<close>) is the deduplicating priority
  queue; the locale \<open>max_queue\<close> states what it uses of the standard library's heap. \<open>Crawl_Scheduler\<close>
  (\<^verbatim>\<open>application/crawler/crawl_scheduler.rs\<close>, \<^verbatim>\<open>application/deduplicator.rs\<close>,
  \<^verbatim>\<open>application/crawler/concurrency_level.rs\<close>) decides what is crawled next; page tasks push between its
  steps. Shown: no page is handed out twice in any interleaving; every fresh pending page is handed out;
  the drain order depends only on what was pushed; the checkpoint snapshot is the head of that order.

  \<^bold>\<open>Crawl runs.\<close> \<open>Crawl_Task\<close> (\<^verbatim>\<open>application/crawler/crawl_task.rs\<close>) is the worker of one page as a state machine
  over the state it shares with the engine; \<open>Crawl_Engine\<close> (\<^verbatim>\<open>application/crawler/engine.rs\<close>) is the loop that
  spawns, joins and drains such workers, as a step relation in which engine, workers and receiver interleave
  freely and fetcher, robots checker, link extractor and pipeline answer anything. Two ghost fields record the
  offered links and the dispatched pages. \<open>Checkpoint\<close> (\<^verbatim>\<open>checkpoint.rs\<close>, \<^verbatim>\<open>session.rs\<close>) has the encoding,
  the atomic save, the refusals and the begin and end of a run; \<open>Cookie_Bridge\<close> the cookies that tasks share.
  Shown: the page limit is a ceiling; no page is dispatched twice or below the depth limit; a run that ends
  as completed has dispatched everything it was offered; a save survives process death; a refused checkpoint
  keeps its bytes; an interrupted run is resumed with the state it wrote.

  \<^bold>\<open>Sitemaps and discovery.\<close> \<open>Std_Sort\<close> has the stable sort of the standard library, which may panic when the
  order is none. \<open>Sitemap_Xml\<close> (\<^verbatim>\<open>infrastructure/crawler/sitemap_parser.rs\<close>) is the event loop over one document and
  the order of its entries, with priorities as binary32 values; \<open>Sitemap_Parser\<close> the parser around it:
  compression layers, memory budget, disk swap and the recursion over sitemap indexes, in which the servers
  answer anything. \<open>Site_Discovery\<close> (\<^verbatim>\<open>application/crawler/sitemap_discovery.rs\<close>,
  \<^verbatim>\<open>application/crawler/discovery.rs\<close>, \<^verbatim>\<open>cli/discovery_phase.rs\<close>) looks for a sitemap, evaluates it, and reads the links of
  a single page. Shown: every request passed the guard on literal addresses; their number is bounded by depth
  and memory limit; no chain of indexes repeats a URL; a written document is read back; what is reported
  when it fails.

  \<^bold>\<open>Scraping.\<close> \<open>Robots\<close> (\<^verbatim>\<open>infrastructure/crawler/robots_utils.rs\<close>) has the rules of a site and the fetcher that
  decides once per host, as a step relation over concurrent checks that may be dropped. \<open>Content_Extraction\<close>
  (\<^verbatim>\<open>application/extraction.rs\<close>, \<^verbatim>\<open>application/spa_detection.rs\<close>, \<^verbatim>\<open>application/asset_download.rs\<close>) turns the HTML of a
  page into its content or a typed failure, on the command line and on the MCP server. \<open>Scrape_Flow\<close>
  (\<^verbatim>\<open>cli/scrape_flow.rs\<close>, \<^verbatim>\<open>application/scraper_service.rs\<close>) is the guard chain of one page and the run over a
  list, given by the order in which its pages finish. The locale \<open>robots_port\<close> states what the run needs of
  the fetcher. Shown: one decision per host; only guarded pages are dialled; every page is accounted for
  in input order; no internal asset is fetched; the prediction of script-only pages is the verdict.

  \<^bold>\<open>Assets.\<close> \<open>Asset_Cache\<close> and \<open>Asset_Downloader\<close> (\<^verbatim>\<open>adapters/downloader/mod.rs\<close>, \<^verbatim>\<open>adapters/detector/mime.rs\<close>)
  download images and documents. The cache is the registry that the pages of a crawl share, as a step relation
  over callers that look, register, wait, connect, fail and are dropped; the downloader is one attempt from the
  request to the rename, its retry loop, the naming strategies and the filters. Shown: a URL is fetched once
  and all callers get the same file; eviction never takes a download in flight; a finished file is whole,
  within the limit and under a plain name in its folder; a failure changes no finished file.

  \<^bold>\<open>URLs.\<close> \<open>Url_Validation\<close> (\<^verbatim>\<open>domain/url_validation.rs\<close>) has the internal-link test and the canonical form
  that the scheduler and the queue deduplicate by; \<open>Pattern_Matching\<close> (\<^verbatim>\<open>domain/pattern_matching/mod.rs\<close>,
  \<^verbatim>\<open>application/url_filter.rs\<close>) the include and exclude patterns. Shown: hosts are compared label by label;
  what collapsing an index page does; which hosts a pattern matches.

  \<^bold>\<open>Fetching.\<close> \<open>Http_Client\<close> (\<^verbatim>\<open>application/http_client\<close>, with the configuration and error values of
  \<^verbatim>\<open>infrastructure/http\<close>) is \<^verbatim>\<open>HttpClient::get\<close>: the choice of a user agent and a session, the first request, the
  retry loop with its delays, the size cap and the inspection of the body. The network is an environment
  that answers the n-th request. \<open>Waf_Engine\<close> (\<^verbatim>\<open>domain/waf.rs\<close>, \<^verbatim>\<open>infrastructure/http/waf_engine.rs\<close>) is the
  inspection: the pattern registry, the boundary test, evidence collection and the verdict. \<open>Session_Pool\<close>
  is the pool of per-domain sessions with bans and cool-downs, \<open>Retry_Policy\<close> the generic retry loop of
  single operations. Shown: how many requests a fetch makes and which outcome it ends with; what an
  inspected body can be blocked for; that a retried answer is not inspected; that a session is reported on
  every path that took one; that a banned session is not handed out before its cool-down.

  \<^bold>\<open>Page downloaders and budget.\<close> \<open>Page_Downloader\<close> (\<^verbatim>\<open>infrastructure/downloader\<close>) is the static downloader of the
  crawler with its retry loop, bounded body reader and cookie parser, the detector of pages that need a
  browser, and the router over three layers. \<open>Budget\<close> (\<^verbatim>\<open>domain/budget\<close>, \<^verbatim>\<open>domain/config.rs\<close>) derives every
  concurrency limit from the hardware and the operator's settings; its non-zero numbers are types of their
  own, and the floating-point product of the memory formula is computed exactly. Shown: what a fetch can
  cost; that a page is whole and within the cap; when a browser is asked; that the budget always exists and
  what it holds; that the memory formula is exact integer arithmetic below a pebibyte.

  \<^bold>\<open>Errors and exit codes.\<close> \<open>Error_Taxonomy\<close> (\<^verbatim>\<open>error.rs\<close>, \<^verbatim>\<open>domain/error\<close>, \<^verbatim>\<open>domain/downloader_port.rs\<close>) has the error
  types of the layers, their classification and the conversions between them; a boxed error is a term with
  its source chain. \<open>Exit_Codes\<close> (\<^verbatim>\<open>cli/error.rs\<close>, \<^verbatim>\<open>cli/exit_codes.rs\<close>) folds the failures of a run into the status
  of the process. Shown: which class every error has after each conversion; that the status ignores the order
  of failures and is the same in both flows; that both conversions of HTTP client errors agree.

  \<^bold>\<open>Bounded spool.\<close> \<open>Bounded_Sink\<close> (\<^verbatim>\<open>application/crawler/bounded_sink.rs\<close>) is the backlog between page
  tasks and the writer of the spool file, as a step relation over capture, write, close and cancel. Shown:
  a flushed spool holds every offered page that was not counted as dropped, memory stays within the cap,
  and a closed sink flushes in finitely many steps.

  \<^bold>\<open>Paths and names.\<close> \<open>Std_Path\<close> has the parts of \<^verbatim>\<open>std::path\<close> used on a POSIX host. \<open>Filename\<close>
  (\<^verbatim>\<open>domain/crawler_port/filename.rs\<close>) derives a download's file name, \<open>Output_Path\<close> (\<^verbatim>\<open>adapters/url_path.rs\<close> and
  the directory layout) the file of a page. \<open>Mcp_Validation\<close> and \<open>Path_Gate\<close> (\<^verbatim>\<open>src/crates/webfang_mcp\<close>:
  \<^verbatim>\<open>validation.rs\<close>, \<^verbatim>\<open>path_gate.rs\<close>) judge the paths an MCP client sends. Shown: derived names are single safe
  components; output paths stay below the output directory; what the gate admits lands below a configured
  root, symbolic links resolved.

  \<^bold>\<open>What is a parameter.\<close> The system resolver, \<^verbatim>\<open>serde_json\<close> and the checksum (codec records), the outcomes of the file
  system and its \<^verbatim>\<open>canonicalize\<close>, the clock, the network, the random jitter, the URL library, the URL
  normaliser, the percent decoder, \<^verbatim>\<open>globset\<close>, the multi-pattern automaton of \<^verbatim>\<open>aho_corasick\<close>, the entropy
  test, the text nodes of a parsed page, the answers of the browser layers, the XML tokenizer, the decoders of
  compressed bodies, the \<^verbatim>\<open>robotstxt\<close> matcher, CSS selection, Readability, the HTML cleaner, the names of temporary
  files and the hash functions
  are arguments of the definitions. What a theorem needs of them is among its hypotheses, and its witness
  gives them a concrete value.

  \<^bold>\<open>Bounds.\<close> Addresses, versions, timestamps, depths, priorities, delays and digests are words of the
  source's width; sizes in memory are natural numbers. Nothing runs on fuel: the recursions are structural or have a measure (the retry loops by
  the attempts that are left, the recursion over sitemap indexes by the depth that is left); \<open>next_n\<close> counts calls and its theorem gives the number that is enough.

  \<^bold>\<open>Defects.\<close> Some theorems state behaviour that departs from the documentation of the code: a unique-local
  ISATAP address passes the default resolver, a stale session overwrites a commit, a recorded failure can
  lead to a second export, a retried answer skips the size cap and the inspection, a vendor fingerprint
  hides longer challenge markers, an export root \<^verbatim>\<open>.\<close> admits every absolute path, two URLs can share an output
  file, a run that is cancelled through its handle deletes its checkpoint, a page in flight when a checkpoint
  is taken is lost to the resumed run, a refused connection is an internal fault on one route and retriable
  on the other, a body that breaks off is not retried, a location with an XML reference loses its beginning, a Brotli sitemap is decoded twice, the
  pages of sub-path sitemaps escape the patterns, the rules of one origin judge every port of its host, a bounded asset
  registry can open two connections for a URL, a broken download leaves its temporary file, and
  others; the text of each says so.

  \<^bold>\<open>Not modelled.\<close> The sitemap sessions of the MCP server; the rate limiter, which wraps a third-party token
  bucket; the interleaving of the files of one asset batch; the browser layers, the converters and the model services,
  which are input and output around third-party code; the preflight and argument parsing of the command
  line, the MCP handlers and the benchmarks. Strings are sequences of the characters U+0000 to U+00FF.
\<close>

end
